(* ===== verification/Prelude.thy ===== *)
theory Prelude
  imports Main "HOL-Library.Word" "HOL-Library.AList" "HOL-Library.Multiset"
begin

text \<open>
  What every component shares: the JavaScript values the sources compute with and the library
  operations on them.

  \<^item> A JavaScript string is its sequence of UTF-16 code units, \<open>jstr\<close>; \<open>js\<close> turns an ASCII
    literal into one. Bytes (\<open>Uint8Array\<close>) are lists of \<open>8 word\<close>.
  \<^item> A JavaScript \<open>Map\<close> iterates in insertion order and \<open>set\<close> on a present key keeps its
    position: an association list with \<open>AList.update\<close> is exactly that.
  \<^item> \<open>Array.prototype.findIndex\<close>, \<open>startsWith\<close>, the stable \<open>sort\<close> by a descending number and the
    \<open>[...slice(0,i), x, ...slice(i+1)]\<close> idiom are named here with their lemmas.
\<close>

unbundle bit_operations_syntax

named_theorems js_defs \<open>definitions of the JavaScript library operations\<close>
named_theorems wire_simps \<open>evaluation of the message markers and string literals\<close>

type_synonym unit16 = "16 word"
type_synonym byte = "8 word"
type_synonym jstr = "unit16 list"

definition js :: "string \<Rightarrow> jstr" where
  "js s = map of_char s"

lemma js_Nil [simp, wire_simps]: "js [] = []"
  by (simp add: js_def)

lemma js_Cons [wire_simps]: "js (c # s) = of_char c # js s"
  by (simp add: js_def)

lemma length_js [simp]: "length (js s) = length s"
  by (simp add: js_def)

subsection \<open>Maps in insertion order\<close>

type_synonym ('k, 'v) jsmap = "('k \<times> 'v) list"

definition map_set :: "'k \<Rightarrow> 'v \<Rightarrow> ('k, 'v) jsmap \<Rightarrow> ('k, 'v) jsmap" where
  "map_set k v m = AList.update k v m"

definition map_del :: "'k \<Rightarrow> ('k, 'v) jsmap \<Rightarrow> ('k, 'v) jsmap" where
  "map_del k m = AList.delete k m"

definition map_has :: "('k, 'v) jsmap \<Rightarrow> 'k \<Rightarrow> bool" where
  "map_has m k = (map_of m k \<noteq> None)"

definition map_ok :: "('k, 'v) jsmap \<Rightarrow> bool" where
  "map_ok m = distinct (map fst m)"

lemma map_of_set [simp]: "map_of (map_set k v m) = (map_of m)(k \<mapsto> v)"
  by (simp add: map_set_def update_conv')

lemma map_of_del [simp]: "map_of (map_del k m) = (map_of m)(k := None)"
  by (simp add: map_del_def delete_conv')

lemma map_ok_Nil [simp, intro]: "map_ok []"
  by (simp add: map_ok_def)

lemma map_ok_set [simp, intro]: "map_ok m \<Longrightarrow> map_ok (map_set k v m)"
  by (simp add: map_ok_def map_set_def distinct_update)

lemma map_ok_del [simp, intro]: "map_ok m \<Longrightarrow> map_ok (map_del k m)"
  by (simp add: map_ok_def map_del_def distinct_delete)

lemma set_map_set: "set (map_set k v m) \<subseteq> insert (k, v) (set m)"
  unfolding map_set_def by (induction m) auto

lemma set_map_del: "set (map_del k m) \<subseteq> set m"
  by (auto simp: map_del_def AList.delete_eq)

lemma map_set_eval [simp]:
  "map_set k v [] = [(k, v)]"
  "map_set k v (p # m) = (if fst p = k then (k, v) # m else p # map_set k v m)"
  by (simp_all add: map_set_def)

lemma map_set_not_Nil [simp]: "map_set k v m \<noteq> []"
  by (cases m) auto

lemma map_del_eval [simp]:
  "map_del k [] = []"
  "map_del k (p # m) = (if fst p = k then map_del k m else p # map_del k m)"
  by (auto simp: map_del_def AList.delete_eq split: prod.splits)

lemma map_ok_Cons [simp]: "map_ok (p # m) \<longleftrightarrow> fst p \<notin> fst ` set m \<and> map_ok m"
  by (simp add: map_ok_def)

lemma map_ok_mem: "map_ok m \<Longrightarrow> (k, v) \<in> set m \<longleftrightarrow> map_of m k = Some v"
  by (simp add: map_ok_def)

lemma keys_map_set: "fst ` set (map_set k v m) = insert k (fst ` set m)"
  unfolding map_set_def by (induction m) auto

lemma map_fst_set:
  "map fst (map_set k v m) = (if k \<in> fst ` set m then map fst m else map fst m @ [k])"
  by (induction m) auto

lemma map_set_in_set:
  "map_ok m \<Longrightarrow> (j, w) \<in> set (map_set k v m) \<longleftrightarrow> (if j = k then w = v else (j, w) \<in> set m)"
  by (metis map_ok_mem map_ok_set map_of_set fun_upd_apply option.inject)

subsection \<open>Arrays and strings\<close>

fun find_index :: "('a \<Rightarrow> bool) \<Rightarrow> 'a list \<Rightarrow> nat option" where
  "find_index P [] = None"
| "find_index P (x # xs) = (if P x then Some 0 else map_option Suc (find_index P xs))"

lemma find_index_None [simp]: "find_index P xs = None \<longleftrightarrow> (\<forall>x\<in>set xs. \<not> P x)"
  by (induction xs) auto

lemma find_index_SomeD:
  "find_index P xs = Some i \<Longrightarrow> i < length xs \<and> P (xs ! i) \<and> (\<forall>j<i. \<not> P (xs ! j))"
proof (induction xs arbitrary: i)
  case Nil
  then show ?case by simp
next
  case (Cons x xs)
  show ?case
  proof (cases "P x")
    case True
    with Cons.prems show ?thesis by simp
  next
    case False
    with Cons.prems obtain k where k: "find_index P xs = Some k" and i: "i = Suc k"
      by auto
    from Cons.IH [OF k] False show ?thesis
      by (auto simp: i nth_Cons split: nat.splits)
  qed
qed

definition splice_at :: "nat \<Rightarrow> 'a \<Rightarrow> 'a list \<Rightarrow> 'a list" where
  "splice_at i x xs = take i xs @ x # drop (Suc i) xs"

lemma splice_at_update: "i < length xs \<Longrightarrow> splice_at i x xs = xs[i := x]"
  by (simp add: splice_at_def upd_conv_take_nth_drop)

definition starts_with :: "'a list \<Rightarrow> 'a list \<Rightarrow> bool" where
  "starts_with s p = (take (length p) s = p)"

lemma starts_with_append [simp]: "starts_with (p @ s) p"
  by (simp add: starts_with_def)

lemma starts_with_iff: "starts_with s p \<longleftrightarrow> (\<exists>t. s = p @ t)"
  by (metis append_take_drop_id starts_with_append starts_with_def)

lemma starts_with_eval [simp]:
  "starts_with s []"
  "starts_with [] (y # p) \<longleftrightarrow> False"
  "starts_with (x # s) (y # p) \<longleftrightarrow> x = y \<and> starts_with s p"
  by (simp_all add: starts_with_def)

text \<open>\<open>xs.sort((a, b) => b.k - a.k)\<close>: stable, largest key first.\<close>

definition sort_desc :: "('a \<Rightarrow> int) \<Rightarrow> 'a list \<Rightarrow> 'a list" where
  "sort_desc k xs = sort_key (\<lambda>x. - k x) xs"

lemma set_sort_desc [simp]: "set (sort_desc k xs) = set xs"
  by (simp add: sort_desc_def)

lemma length_sort_desc [simp]: "length (sort_desc k xs) = length xs"
  by (simp add: sort_desc_def)

lemma mset_sort_desc [simp]: "mset (sort_desc k xs) = mset xs"
  by (simp add: sort_desc_def)

lemma sorted_sort_desc: "sorted_wrt (\<lambda>a b. k b \<le> k a) (sort_desc k xs)"
proof -
  have "sorted (map (\<lambda>x. - k x) (sort_desc k xs))"
    by (simp add: sort_desc_def)
  then show ?thesis by (simp add: sorted_map)
qed

lemma sort_desc_stable: "filter (\<lambda>x. k x = c) (sort_desc k xs) = filter (\<lambda>x. k x = c) xs"
proof -
  have "filter (\<lambda>x. - k x = - c) (sort_key (\<lambda>x. - k x) xs) = filter (\<lambda>x. - k x = - c) xs"
    by (rule sort_key_stable)
  then show ?thesis by (simp add: sort_desc_def)
qed

text \<open>\<open>[...new Set(xs)]\<close>: the first occurrence of every element, in order.\<close>

fun uniq :: "'a list \<Rightarrow> 'a list" where
  "uniq [] = []"
| "uniq (x # xs) = x # filter (\<lambda>y. y \<noteq> x) (uniq xs)"

lemma set_uniq [simp]: "set (uniq xs) = set xs"
  by (induction xs) auto

lemma distinct_uniq [simp]: "distinct (uniq xs)"
  by (induction xs) auto

subsection \<open>The contract of a keyed store\<close>

text \<open>
  What a component relies on when it keeps values under keys: a lookup after a store sees the value
  just stored and nothing else changes, and storing keeps the store well formed. The thread map, the
  typing maps, the session and identity stores and the device cache are instances.
\<close>

locale keyed_store =
  fixes look :: "'s \<Rightarrow> 'k \<Rightarrow> 'v option"
    and store :: "'k \<Rightarrow> 'v \<Rightarrow> 's \<Rightarrow> 's"
    and valid :: "'s \<Rightarrow> bool"
  assumes look_store: "look (store k v s) j = (if j = k then Some v else look s j)"
    and valid_store: "valid s \<Longrightarrow> valid (store k v s)"
begin

lemma look_same: "look (store k v s) k = Some v"
  by (simp add: look_store)

lemma look_other: "j \<noteq> k \<Longrightarrow> look (store k v s) j = look s j"
  by (simp add: look_store)

lemma store_twice: "look (store k w (store k v s)) = look (store k w s)"
  by (rule ext) (simp add: look_store)

lemma store_commute: "j \<noteq> k \<Longrightarrow> look (store j w (store k v s)) = look (store k v (store j w s))"
  by (rule ext) (simp add: look_store)

lemma every_store:
  assumes "\<And>j w. look s j = Some w \<Longrightarrow> P j w" and "P k v" and "look (store k v s) j = Some w"
  shows "P j w"
  using assms by (cases "j = k") (simp_all add: look_store)

lemma fold_store: "look (fold (\<lambda>p. store (fst p) (snd p)) kvs s) j =
    (case map_of (rev kvs) j of Some v \<Rightarrow> Some v | None \<Rightarrow> look s j)"
  by (induction kvs arbitrary: s) (auto simp: look_store map_add_def split: option.splits)

lemma fold_valid: "valid s \<Longrightarrow> valid (fold (\<lambda>p. store (fst p) (snd p)) kvs s)"
  by (induction kvs arbitrary: s) (auto intro: valid_store)

end

locale keyed_store_del = keyed_store look store valid
  for look :: "'s \<Rightarrow> 'k \<Rightarrow> 'v option" and store :: "'k \<Rightarrow> 'v \<Rightarrow> 's \<Rightarrow> 's" and valid :: "'s \<Rightarrow> bool" +
  fixes del :: "'k \<Rightarrow> 's \<Rightarrow> 's"
  assumes look_del: "look (del k s) j = (if j = k then None else look s j)"
    and valid_del: "valid s \<Longrightarrow> valid (del k s)"
begin

lemma del_store: "look (del k (store k v s)) = look (del k s)"
  by (rule ext) (simp add: look_del look_store)

lemma del_idem: "look (del k (del k s)) = look (del k s)"
  by (rule ext) (simp add: look_del)

lemma every_del:
  assumes "\<And>j w. look s j = Some w \<Longrightarrow> P j w" and "look (del k s) j = Some w"
  shows "P j w"
  using assms by (auto simp: look_del split: if_splits)

end

text \<open>A JavaScript \<open>Map\<close> is one.\<close>

interpretation jsmap: keyed_store_del "map_of" map_set map_ok map_del
  by unfold_locales auto

end
