(* ===== verification/Codec.thy ===== *)
theory Codec
  imports Prelude
begin

text \<open>
  The text and byte codecs at the end of \<open>packages/client/src/client.ts\<close> (copied in
  \<open>scam/reports.ts\<close>, \<open>media/media.ts\<close>, \<open>safety-number.ts\<close>): UTF-8 without a global
  \<open>TextEncoder\<close>, base64 through \<open>btoa\<close>/\<open>atob\<close>, and the URL-safe variant of the device-link code.

  Shifts and masks are JavaScript's 32-bit ones. A typed-array read past the end is \<open>undefined\<close>,
  which the masks turn into 0, and so is \<open>charCodeAt\<close> past the end: \<open>opt0\<close>. \<open>atob\<close> is the
  forgiving decoder of the standard library; its exception is \<open>None\<close>.
\<close>

subsection \<open>UTF-8\<close>

fun opt0 :: "'a::zero list \<Rightarrow> 'a" where
  "opt0 [] = 0"
| "opt0 (x # xs) = x"

definition u8 :: "32 word \<Rightarrow> byte" where
  "u8 x = ucast x"

definition u16 :: "32 word \<Rightarrow> unit16" where
  "u16 x = ucast x"

definition astral :: "32 word \<Rightarrow> 32 word \<Rightarrow> 32 word" where
  "astral hi lo = 0x10000 + push_bit 10 (hi AND 0x3ff) + (lo AND 0x3ff)"

fun utf8_encode :: "jstr \<Rightarrow> byte list" where
  "utf8_encode [] = []"
| "utf8_encode (c # cs) =
    (let code = (ucast c :: 32 word) in
     if code < 0x80 then u8 code # utf8_encode cs
     else if code < 0x800 then
       u8 (0xc0 OR drop_bit 6 code) # u8 (0x80 OR (code AND 0x3f)) # utf8_encode cs
     else if 0xd800 \<le> code \<and> code \<le> 0xdbff then
       (let cp = astral code (ucast (opt0 cs)) in
        u8 (0xf0 OR drop_bit 18 cp) # u8 (0x80 OR (drop_bit 12 cp AND 0x3f)) #
        u8 (0x80 OR (drop_bit 6 cp AND 0x3f)) # u8 (0x80 OR (cp AND 0x3f)) #
        utf8_encode (tl cs))
     else
       u8 (0xe0 OR drop_bit 12 code) # u8 (0x80 OR (drop_bit 6 code AND 0x3f)) #
       u8 (0x80 OR (code AND 0x3f)) # utf8_encode cs)"

definition low6 :: "byte list \<Rightarrow> 32 word" where
  "low6 bs = ucast (opt0 bs) AND 0x3f"

fun utf8_decode :: "byte list \<Rightarrow> jstr" where
  "utf8_decode [] = []"
| "utf8_decode (b # bs) =
    (let b0 = (ucast b :: 32 word) in
     if b0 < 0x80 then u16 b0 # utf8_decode bs
     else if b0 < 0xe0 then
       u16 (push_bit 6 (b0 AND 0x1f) OR low6 bs) # utf8_decode (drop 1 bs)
     else if b0 < 0xf0 then
       u16 (push_bit 12 (b0 AND 0x0f) OR push_bit 6 (low6 bs) OR low6 (drop 1 bs)) #
       utf8_decode (drop 2 bs)
     else
       (let cp = (push_bit 18 (b0 AND 0x07) OR push_bit 12 (low6 bs) OR
                  push_bit 6 (low6 (drop 1 bs)) OR low6 (drop 2 bs)) - 0x10000 in
        u16 (0xd800 + signed_drop_bit 10 cp) # u16 (0xdc00 + (cp AND 0x3ff)) #
        utf8_decode (drop 3 bs)))"

text \<open>A string with no lone surrogate: what the round trip is about.\<close>

fun wf16 :: "jstr \<Rightarrow> bool" where
  "wf16 [] = True"
| "wf16 (c # cs) =
    (if 0xd800 \<le> c \<and> c \<le> 0xdbff
     then (case cs of [] \<Rightarrow> False | l # ls \<Rightarrow> 0xdc00 \<le> l \<and> l \<le> 0xdfff \<and> wf16 ls)
     else \<not> (0xdc00 \<le> c \<and> c \<le> 0xdfff) \<and> wf16 cs)"

subsection \<open>Base64\<close>

definition b64_char :: "nat \<Rightarrow> unit16" where
  "b64_char n = of_nat (if n < 26 then 65 + n else if n < 52 then 71 + n
     else if n < 62 then n - 4 else if n = 62 then 43 else 47)"

definition b64_val :: "unit16 \<Rightarrow> nat option" where
  "b64_val c = (let n = unat c in
     if 65 \<le> n \<and> n \<le> 90 then Some (n - 65) else if 97 \<le> n \<and> n \<le> 122 then Some (n - 71)
     else if 48 \<le> n \<and> n \<le> 57 then Some (n + 4) else if n = 43 then Some 62
     else if n = 47 then Some 63 else None)"

fun b64_enc :: "nat list \<Rightarrow> jstr" where
  "b64_enc [] = []"
| "b64_enc [a] = [b64_char (a div 4), b64_char (a mod 4 * 16), 61, 61]"
| "b64_enc [a, b] =
    [b64_char (a div 4), b64_char (a mod 4 * 16 + b div 16), b64_char (b mod 16 * 4), 61]"
| "b64_enc (a # b # c # r) =
    b64_char (a div 4) # b64_char (a mod 4 * 16 + b div 16) #
    b64_char (b mod 16 * 4 + c div 64) # b64_char (c mod 64) # b64_enc r"

definition bytes_to_base64 :: "byte list \<Rightarrow> jstr" where
  "bytes_to_base64 bs = b64_enc (map unat bs)"

text \<open>\<open>atob\<close>: drop ASCII white space, up to two \<open>=\<close> at a multiple of four, then the groups.\<close>

definition ascii_space :: "unit16 \<Rightarrow> bool" where
  "ascii_space c = (c = 9 \<or> c = 10 \<or> c = 12 \<or> c = 13 \<or> c = 32)"

definition drop_padding :: "jstr \<Rightarrow> jstr" where
  "drop_padding s =
    (if s \<noteq> [] \<and> length s mod 4 = 0 \<and> last s = 61
     then (let t = butlast s in if t \<noteq> [] \<and> last t = 61 then butlast t else t) else s)"

fun b64_groups :: "nat list \<Rightarrow> nat list option" where
  "b64_groups [] = Some []"
| "b64_groups [_] = None"
| "b64_groups [s, t] = Some [s * 4 + t div 16]"
| "b64_groups [s, t, u] = Some [s * 4 + t div 16, t mod 16 * 16 + u div 4]"
| "b64_groups (s # t # u # v # r) =
    map_option (\<lambda>bs. (s * 4 + t div 16) # (t mod 16 * 16 + u div 4) # (u mod 4 * 64 + v) # bs)
      (b64_groups r)"

definition base64_to_bytes :: "jstr \<Rightarrow> byte list option" where
  "base64_to_bytes s =
    (let t = drop_padding (filter (\<lambda>c. \<not> ascii_space c) s) in
     if \<forall>c\<in>set t. b64_val c \<noteq> None
     then map_option (map of_nat) (b64_groups (map (\<lambda>c. the (b64_val c)) t)) else None)"

subsection \<open>The URL-safe variant\<close>

definition strip_eq :: "jstr \<Rightarrow> jstr" where
  "strip_eq s = rev (dropWhile (\<lambda>c. c = 61) (rev s))"

text \<open>\<open>s.replace(/x/g, y)\<close> for single characters.\<close>

definition sub_unit :: "unit16 \<Rightarrow> unit16 \<Rightarrow> unit16 \<Rightarrow> unit16" where
  "sub_unit x y c = (if c = x then y else c)"

definition base64_url_encode :: "jstr \<Rightarrow> jstr" where
  "base64_url_encode s =
    strip_eq (map (sub_unit 47 95) (map (sub_unit 43 45) (bytes_to_base64 (utf8_encode s))))"

function pad4 :: "jstr \<Rightarrow> jstr" where
  "pad4 s = (if length s mod 4 \<noteq> 0 then pad4 (s @ [61]) else s)"
  by pat_completeness auto
termination
  by (relation "measure (\<lambda>s. if length s mod 4 = 0 then 0 else 4 - length s mod 4)")
    (auto simp: mod_Suc)

declare pad4.simps [simp del]

definition url_to_bytes :: "jstr \<Rightarrow> byte list option" where
  "url_to_bytes code =
    base64_to_bytes (pad4 (map (sub_unit 95 47) (map (sub_unit 45 43) code)))"

definition base64_url_decode :: "jstr \<Rightarrow> jstr option" where
  "base64_url_decode code = map_option utf8_decode (url_to_bytes code)"

subsection \<open>The UTF-8 round trip\<close>



lemma bit_below:
  fixes x :: "'a::len word"
  assumes "unat x < 2 ^ k" "bit x n"
  shows "n < k"
proof (rule ccontr)
  assume "\<not> n < k"
  then have "unat x < 2 ^ n"
    using assms(1) by (meson le_less_trans less_le_trans one_le_numeral power_increasing less_imp_le not_less)
  moreover have "bit (unat x) n" using assms(2) by (simp add: bit_unsigned_iff bit_imp_possible_bit)
  ultimately show False by (simp add: bit_iff_odd)
qed

lemma join_bits:
  fixes x y :: "32 word"
  assumes "unat x < 2 ^ j" "unat y < 2 ^ k" "j + k \<le> 31"
  shows "unat (push_bit k x OR y) = unat x * 2 ^ k + unat y"
proof -
  have "bit (push_bit k x) n \<Longrightarrow> \<not> bit y n" for n
    using bit_below [OF assms(2), of n] by (auto simp: bit_simps)
  then have "push_bit k x OR y = push_bit k x + y"
    by (intro disjunctive_add_eq_or [symmetric]) (auto simp: bit_eq_iff bit_simps)
  moreover have b: "unat x * 2 ^ k + unat y < 2 ^ 32"
  proof -
    have "unat x * 2 ^ k + unat y < (unat x + 1) * 2 ^ k" using assms(2) by (simp add: algebra_simps)
    also have "\<dots> \<le> 2 ^ j * 2 ^ k" using assms(1) by (intro mult_right_mono) auto
    also have "\<dots> \<le> 2 ^ 31" unfolding power_add [symmetric] using assms(3) by (intro power_increasing) auto
    finally show ?thesis by simp
  qed
  moreover have "unat (push_bit k x) = unat x * 2 ^ k"
    using b by (simp only: unsigned_push_bit_eq) (simp add: push_bit_nat_def take_bit_nat_eq_self)
  ultimately show ?thesis by (simp add: unat_word_ariths)
qed

lemma masks32:
  "(0x3f::32 word) = mask 6" "(0x1f::32 word) = mask 5" "(0x0f::32 word) = mask 4"
  "(0x07::32 word) = mask 3" "(0x3ff::32 word) = mask 10" 
  "(0x80::32 word) = push_bit 7 (mask (Suc 0))" "(0xc0::32 word) = push_bit 6 (mask 2)" "(0xe0::32 word) = push_bit 5 (mask 3)"
  "(0xf0::32 word) = push_bit 4 (mask 4)"
  by (simp_all add: mask_eq_exp_minus_1)

lemma bit_128:
  "bit (128::32 word) n \<longleftrightarrow> n = 7" "bit (128::8 word) n \<longleftrightarrow> n = 7"
  "bit (128::int) n \<longleftrightarrow> n = 7" "bit (128::nat) n \<longleftrightarrow> n = 7"
  using bit_exp_iff [of 7 n, where 'a = "32 word"] bit_exp_iff [of 7 n, where 'a = "8 word"]
    bit_exp_iff [of 7 n, where 'a = int] bit_exp_iff [of 7 n, where 'a = nat]
  by auto

lemma cont_low6:
 "(ucast (u8 (0x80 OR (x AND 0x3f))) :: 32 word) AND 0x3f = take_bit 6 x"
  unfolding u8_def masks32(1) by (rule bit_word_eqI) (auto simp: bit_simps bit_128)

lemma dec2: assumes "unat (x::32 word) < 2^11" 
  shows "push_bit 6 ((ucast (u8 (0xc0 OR drop_bit 6 x)) :: 32 word) AND 0x1f) OR take_bit 6 x = x"
  unfolding masks32 u8_def by (intro bit_word_eqI) (auto simp: bit_simps dest: bit_below[OF assms])

lemma dec3: assumes "unat (x::32 word) < 2^16" 
  shows "push_bit 12 ((ucast (u8 (0xe0 OR drop_bit 12 x)) :: 32 word) AND 0x0f) OR
     push_bit 6 (take_bit 6 (drop_bit 6 x)) OR take_bit 6 x = x"
  unfolding masks32 u8_def by (intro bit_word_eqI) (auto simp: bit_simps dest: bit_below[OF assms])

lemma dec4: assumes "unat (x::32 word) < 2^21" 
  shows "push_bit 18 ((ucast (u8 (0xf0 OR drop_bit 18 x)) :: 32 word) AND 0x07) OR
     push_bit 12 (take_bit 6 (drop_bit 12 x)) OR
     push_bit 6 (take_bit 6 (drop_bit 6 x)) OR take_bit 6 x = x" (is "?l = x")
proof (rule bit_word_eqI)
  fix n :: nat assume n: "n < LENGTH(32)"
  consider "n < 6" | "6 \<le> n" "n < 12" | "12 \<le> n" "n < 18" | "18 \<le> n" by linarith
  then show "bit ?l n = bit x n"
   unfolding masks32 u8_def by cases (use n in \<open>auto simp: bit_simps dest: bit_below[OF assms]\<close>)
qed

lemma lead_plus:
  assumes "unat (d::32 word) < 2 ^ k" "k \<le> 6"
  shows "(ucast (u8 (push_bit k (mask (8-k)) OR d)) :: 32 word) = push_bit k (mask (8-k)) + d"
proof -
  have "push_bit k (mask (8-k)) + d = push_bit k (mask (8-k)) OR d"
    by (rule disjunctive_add_eq_or) (auto simp: bit_eq_iff bit_simps dest: bit_below[OF assms(1)])
  moreover have "(ucast (u8 (push_bit k (mask (8-k)) OR d)) :: 32 word) = push_bit k (mask (8-k)) OR d"
    unfolding u8_def using assms(2) by (intro bit_word_eqI) (auto simp: bit_simps dest: bit_below[OF assms(1)])
  ultimately show ?thesis by simp
qed

lemma u8_ascii: "(x::32 word) < 0x80 \<Longrightarrow> (ucast (u8 x) :: 32 word) = x"
proof -
  assume "x < 0x80"
  then have b: "unat x < 2 ^ 7" by (simp add: word_less_nat_alt)
  show ?thesis
    unfolding u8_def by (intro bit_word_eqI) (auto simp: bit_simps dest: bit_below [OF b])
qed

lemma unat_drop_bit_less:
  fixes x :: "'a::len word"
  assumes "unat x < 2 ^ (j + k)"
  shows "unat (drop_bit j x) < 2 ^ k"
proof -
  have "unat x < 2 ^ k * 2 ^ j" using assms by (simp add: power_add mult.commute)
  then have "unat x div 2 ^ j < 2 ^ k" by (simp add: less_mult_imp_div_less)
  then show ?thesis by (simp only: unat_drop_bit_eq) (simp only: drop_bit_eq_div)
qed

lemma lead_byte:
  assumes "unat (d::32 word) < 2 ^ k" "k \<le> 6"
  shows "unat (ucast (u8 (push_bit k (mask (8 - k)) OR d)) :: 32 word) = (2 ^ (8 - k) - 1) * 2 ^ k + unat d"
proof -
  have "(2 ^ (8 - k) - 1) * 2 ^ k + unat d < (2::nat) ^ 32"
  proof -
    have "k \<in> {0,1,2,3,4,5,6}" using assms(2) by auto
    then show ?thesis using assms(1) by auto
  qed
  moreover have "unat (push_bit k (mask (8 - k)) :: 32 word) = (2 ^ (8 - k) - 1) * 2 ^ k"
  proof -
    have "k \<in> {0,1,2,3,4,5,6}" using assms(2) by auto
    then show ?thesis by (auto simp: mask_eq_exp_minus_1)
  qed
  ultimately show ?thesis
    by (simp only: lead_plus[OF assms] unat_word_ariths) simp
qed

lemma lead2:
  assumes "unat (x::32 word) < 2 ^ 11"
  shows "\<not> (ucast (u8 (0xc0 OR drop_bit 6 x)) :: 32 word) < 0x80 \<and> (ucast (u8 (0xc0 OR drop_bit 6 x)) :: 32 word) < 0xe0"
proof -
  have d: "unat (drop_bit 6 x) < 2 ^ 5" using unat_drop_bit_less[of x 6 5] assms by simp
  then have "unat (drop_bit 6 x) < 2 ^ 6" by simp
  from lead_byte[OF this] d show ?thesis
   by (simp add: word_less_nat_alt word_le_nat_alt mask_eq_exp_minus_1)
qed

lemma lead3:
  assumes "unat (x::32 word) < 2 ^ 16"
  shows "\<not> (ucast (u8 (0xe0 OR drop_bit 12 x)) :: 32 word) < 0xe0 \<and> (ucast (u8 (0xe0 OR drop_bit 12 x)) :: 32 word) < 0xf0"
proof -
  have d: "unat (drop_bit 12 x) < 2 ^ 4" using unat_drop_bit_less[of x 12 4] assms by simp
  then have "unat (drop_bit 12 x) < 2 ^ 5" by simp
  from lead_byte[OF this] d show ?thesis
   by (simp add: word_less_nat_alt word_le_nat_alt mask_eq_exp_minus_1)
qed

lemma lead4:
  assumes "unat (x::32 word) < 2 ^ 21"
  shows "\<not> (ucast (u8 (0xf0 OR drop_bit 18 x)) :: 32 word) < 0xf0"
proof -
  have d: "unat (drop_bit 18 x) < 2 ^ 3" using unat_drop_bit_less[of x 18 3] assms by simp
  then have "unat (drop_bit 18 x) < 2 ^ 4" by simp
  from lead_byte[OF this] d show ?thesis
   by (simp add: word_less_nat_alt word_le_nat_alt mask_eq_exp_minus_1)
qed


lemma unat_u32: "unat (ucast (c :: unit16) :: 32 word) = unat c" "unat (ucast (b :: byte) :: 32 word) = unat b"
proof -
  have "unat c < 2 ^ LENGTH(16)" "unat b < 2 ^ LENGTH(8)" by (rule unsigned_less)+
  then show "unat (ucast c :: 32 word) = unat c" "unat (ucast b :: 32 word) = unat b"
    by (simp_all add: unsigned_ucast_eq take_bit_nat_eq_self)
qed

lemma u16_ucast: "u16 (ucast c) = c"
  unfolding u16_def by (rule bit_word_eqI) (auto simp: bit_simps)

lemma u32_less: "((ucast (c :: unit16) :: 32 word) < numeral k) \<longleftrightarrow> unat c < unat (numeral k :: 32 word)"
  "(numeral k \<le> (ucast (c :: unit16) :: 32 word)) \<longleftrightarrow> unat (numeral k :: 32 word) \<le> unat c"
  "((ucast (c :: unit16) :: 32 word) \<le> numeral k) \<longleftrightarrow> unat c \<le> unat (numeral k :: 32 word)"
  by (simp_all add: word_less_nat_alt word_le_nat_alt unat_u32)

lemma low6_cont [simp]: "low6 (u8 (0x80 OR (x AND 0x3f)) # bs) = take_bit 6 x"
  by (simp add: low6_def cont_low6)

lemma unat_u16: "unat (u16 x) = unat x mod 65536"
  unfolding u16_def by (simp add: unsigned_ucast_eq take_bit_eq_mod)

lemma signed_drop_small:
  assumes "unat (y :: 32 word) < 2 ^ 20"
  shows "signed_drop_bit 10 y = drop_bit 10 y"
  by (rule bit_word_eqI) (auto simp: bit_simps dest: bit_below [OF assms])

lemma unat_and_3ff: "unat ((y :: 32 word) AND 0x3ff) = unat y mod 1024"
  unfolding masks32 by (simp flip: take_bit_eq_mask add: take_bit_eq_mod unat_mod)

lemma astral_bounds:
  fixes h l :: unit16
  assumes "0xd800 \<le> h" "h \<le> 0xdbff" "0xdc00 \<le> l" "l \<le> 0xdfff"
  defines "cp \<equiv> astral (ucast h) (ucast l)"
  shows "unat cp < 2 ^ 21" "u16 (0xd800 + signed_drop_bit 10 (cp - 0x10000)) = h"
    "u16 (0xdc00 + ((cp - 0x10000) AND 0x3ff)) = l"
proof -
  define a b where "a = unat h - 0xd800" and "b = unat l - 0xdc00"
  have ab: "unat h = 0xd800 + a" "a < 1024" "unat l = 0xdc00 + b" "b < 1024"
    using assms(1-4) by (auto simp: word_le_nat_alt a_def b_def)
  have "(0xd800 + a) mod 1024 = a" "(0xdc00 + b) mod 1024 = b"
    using ab mod_mult_self3 [of 54 1024 a] mod_mult_self3 [of 55 1024 b] by simp_all
  then have m: "unat ((ucast h :: 32 word) AND 0x3ff) = a" "unat ((ucast l :: 32 word) AND 0x3ff) = b"
    by (simp_all only: unat_and_3ff unat_u32 ab)
  define y where "y = push_bit 10 ((ucast h :: 32 word) AND 0x3ff) + (ucast l AND 0x3ff)"
  have cp: "cp = 0x10000 + y" by (simp add: cp_def astral_def y_def)
  have "unat (push_bit 10 ((ucast h :: 32 word) AND 0x3ff)) = a * 1024"
    using ab(2) by (simp only: push_bit_eq_mult unat_word_ariths m) simp
  then have y: "unat y = a * 1024 + b"
    using ab(2,4) by (simp only: y_def unat_word_ariths m) simp
  then have small: "unat y < 2 ^ 20" using ab by simp
  show "unat cp < 2 ^ 21" using small by (simp add: cp unat_word_ariths)
  have "unat (signed_drop_bit 10 y) = a"
    using ab(4) y by (simp only: signed_drop_small [OF small] unat_drop_bit_eq) (simp add: drop_bit_eq_div)
  then have "unat (u16 (0xd800 + signed_drop_bit 10 y)) = unat h"
    using ab by (simp only: unat_u16) (simp add: unat_word_ariths)
  then have "u16 (0xd800 + signed_drop_bit 10 y) = h" by (rule unsigned_word_eqI)
  then show "u16 (0xd800 + signed_drop_bit 10 (cp - 0x10000)) = h" by (simp add: cp)
  have "unat (y AND 0x3ff) = b" using ab(4) by (simp only: unat_and_3ff y) simp
  then have "unat (u16 (0xdc00 + (y AND 0x3ff))) = unat l"
    using ab by (simp only: unat_u16) (simp add: unat_word_ariths)
  then have "u16 (0xdc00 + (y AND 0x3ff)) = l" by (rule unsigned_word_eqI)
  then show "u16 (0xdc00 + ((cp - 0x10000) AND 0x3ff)) = l" by (simp only: cp add_diff_cancel_left')
qed

lemma dec_step1: "x < 0x80 \<Longrightarrow> utf8_decode (u8 x # r) = u16 x # utf8_decode r"
  by (simp add: u8_ascii)

lemma dec_step2:
  "unat x < 2 ^ 11 \<Longrightarrow> utf8_decode (u8 (0xc0 OR drop_bit 6 x) # u8 (0x80 OR (x AND 0x3f)) # r) =
    u16 x # utf8_decode r"
  by (simp only: utf8_decode.simps Let_def lead2 low6_cont dec2 if_True if_False drop_Cons' drop_0
      zero_neq_one one_neq_zero diff_self_eq_0 simp_thms)

lemma dec_step3:
  "unat x < 2 ^ 16 \<Longrightarrow> utf8_decode (u8 (0xe0 OR drop_bit 12 x) #
     u8 (0x80 OR (drop_bit 6 x AND 0x3f)) # u8 (0x80 OR (x AND 0x3f)) # r) = u16 x # utf8_decode r"
proof -
  assume x: "unat x < 2 ^ 16"
  define b where "b = u8 (0xe0 OR drop_bit 12 x)"
  have n: "\<not> (ucast b :: 32 word) < 0x80" "\<not> (ucast b :: 32 word) < 0xe0" "(ucast b :: 32 word) < 0xf0"
    using lead3 [OF x] by (auto simp: b_def word_less_nat_alt)
  from dec3 [OF x] n show ?thesis unfolding b_def [symmetric] by (simp add: Let_def)
qed

lemma dec_step4:
  "unat x < 2 ^ 21 \<Longrightarrow> utf8_decode (u8 (0xf0 OR drop_bit 18 x) # u8 (0x80 OR (drop_bit 12 x AND 0x3f)) #
     u8 (0x80 OR (drop_bit 6 x AND 0x3f)) # u8 (0x80 OR (x AND 0x3f)) # r) =
   u16 (0xd800 + signed_drop_bit 10 (x - 0x10000)) # u16 (0xdc00 + ((x - 0x10000) AND 0x3ff)) #
     utf8_decode r"
proof -
  assume x: "unat x < 2 ^ 21"
  define b where "b = u8 (0xf0 OR drop_bit 18 x)"
  have n: "\<not> (ucast b :: 32 word) < 0x80" "\<not> (ucast b :: 32 word) < 0xe0" "\<not> (ucast b :: 32 word) < 0xf0"
    using lead4 [OF x] by (auto simp: b_def word_less_nat_alt)
  from dec4 [OF x] n show ?thesis unfolding b_def [symmetric] by (simp add: Let_def)
qed

lemma utf8_roundtrip: "wf16 s \<Longrightarrow> utf8_decode (utf8_encode s) = s"
proof (induction s rule: wf16.induct)
  case 1 then show ?case by simp
next
  case (2 c cs)
  let ?x = "ucast c :: 32 word"
  have x: "unat ?x < 2 ^ 16" 
  proof -
    have "unat c < 2 ^ LENGTH(16)" by (rule unsigned_less)
    then show ?thesis by (simp add: unat_u32)
  qed
  show ?case
  proof (cases "0xd800 \<le> c \<and> c \<le> 0xdbff")
    case True
    with 2 obtain l ls where cs: "cs = l # ls" and l: "0xdc00 \<le> l" "l \<le> 0xdfff" "wf16 ls"
      by (auto split: list.splits)
    have IH: "utf8_decode (utf8_encode ls) = ls" using 2 True cs l by simp
    have "\<not> ?x < 0x80" "\<not> ?x < 0x800" "0xd800 \<le> ?x" "?x \<le> 0xdbff" using True
      by (simp_all add: word_less_nat_alt word_le_nat_alt unat_u32)
    with IH True l cs show ?thesis 
      by (simp only: utf8_encode.simps Let_def if_True if_False simp_thms opt0.simps list.sel
          dec_step4 astral_bounds)
  next
    case False
    then have t: "\<not> (0xd800 \<le> ?x \<and> ?x \<le> 0xdbff)" "wf16 cs" using 2
      by (auto simp: word_le_nat_alt unat_u32)
    have IH: "utf8_decode (utf8_encode cs) = cs" using 2 False by simp
    consider "?x < 0x80" | "\<not> ?x < 0x80" "?x < 0x800" "unat ?x < 2 ^ 11" | "\<not> ?x < 0x80" "\<not> ?x < 0x800"
      by (auto simp: word_less_nat_alt)
    then show ?thesis
      by cases (simp_all only: utf8_encode.simps Let_def if_True if_False t simp_thms dec_step1 dec_step2
          dec_step3 [OF x] IH u16_ucast)
  qed
qed

subsection \<open>The base64 round trips\<close>


definition to_url :: "unit16 \<Rightarrow> unit16" where
  "to_url c = sub_unit 47 95 (sub_unit 43 45 c)"

definition of_url :: "unit16 \<Rightarrow> unit16" where
  "of_url c = sub_unit 95 47 (sub_unit 45 43 c)"

definition b64_ok :: "nat \<Rightarrow> bool" where
  "b64_ok n \<longleftrightarrow> (let c = b64_char n in b64_val c = Some n \<and> c \<noteq> 61 \<and> \<not> ascii_space c \<and>
     to_url c \<noteq> 61 \<and> of_url (to_url c) = c)"

lemma b64_table: "list_all b64_ok [0..<64]"
  by code_simp

lemma b64_ok: "n < 64 \<Longrightarrow> b64_ok n"
  using b64_table by (simp add: list_all_iff)

fun sextets :: "nat list \<Rightarrow> nat list" where
  "sextets [] = []"
| "sextets [a] = [a div 4, a mod 4 * 16]"
| "sextets [a, b] = [a div 4, a mod 4 * 16 + b div 16, b mod 16 * 4]"
| "sextets (a # b # c # r) =
    a div 4 # (a mod 4 * 16 + b div 16) # (b mod 16 * 4 + c div 64) # c mod 64 # sextets r"

definition padding :: "nat \<Rightarrow> jstr" where
  "padding n = replicate ((4 - n mod 4) mod 4) 61"

lemma padding_4 [simp]: "padding (Suc (Suc (Suc (Suc n)))) = padding n"
  by (simp add: padding_def)

lemma padding_small [simp]:
  "padding 0 = []" "padding (Suc (Suc 0)) = [61, 61]" "padding (Suc (Suc (Suc 0))) = [61]"
  by (simp_all add: padding_def numeral_2_eq_2)

lemma b64_enc_sextets: "b64_enc ns = map b64_char (sextets ns) @ padding (length (sextets ns))"
by (induction ns rule: b64_enc.induct) simp_all

lemma sextets_less: "\<forall>n\<in>set ns. n < 256 \<Longrightarrow> n \<in> set (sextets ns) \<Longrightarrow> n < 64"
proof (induction ns rule: sextets.induct)
  case (4 a b c r)
  have "a mod 4 < 4" "b mod 16 < 16" "a div 4 < 64" "b div 16 < 16" "c div 64 < 4" using 4 by auto
  then show ?case using 4 by auto
next
  case (3 a b)
  have "a mod 4 < 4" "b mod 16 < 16" "a div 4 < 64" "b div 16 < 16"  using 3 by auto
  then show ?case using 3 by auto
next 
  case (2 a)
  have "a mod 4 < 4" "a div 4 < 64" using 2 by auto
  then show ?case using 2 by auto
qed auto

lemma sextets_mod: "length (sextets ns) mod 4 \<noteq> 1"
  by (induction ns rule: sextets.induct) (auto simp: mod_Suc)

lemma groups_sextets: "\<forall>n\<in>set ns. n < 256 \<Longrightarrow> b64_groups (sextets ns) = Some ns"
proof (induction ns rule: sextets.induct)
  case (4 a b c r)
  have "a mod 4 < 4" "b mod 16 < 16" "a div 4 < 64" "b div 16 < 16" "c div 64 < 4" using 4 by auto
  then show ?case using 4 by auto
next
  case (3 a b)
  have "a mod 4 < 4" "b mod 16 < 16" "a div 4 < 64" "b div 16 < 16"  using 3 by auto
  then show ?case using 3 by auto
qed auto

lemma pad4_padding: "pad4 s = s @ padding (length s)"
proof (induction s rule: pad4.induct)
  case (1 s)
  show ?case
  proof (cases "length s mod 4 = 0")
    case True then show ?thesis by (subst pad4.simps) (simp add: padding_def)
  next
    case False
    then have "(4 - length s mod 4) mod 4 = Suc ((4 - Suc (length s) mod 4) mod 4)" by (auto simp: mod_Suc)
    with 1 False show ?thesis by (subst pad4.simps) (simp add: padding_def)
  qed
qed

lemma drop_padding_padding:
  assumes "length s mod 4 \<noteq> 1" "\<forall>c\<in>set s. c \<noteq> 61"
  shows "drop_padding (s @ padding (length s)) = s"
proof -
  have l: "s \<noteq> [] \<Longrightarrow> last s \<noteq> 61" using assms(2) by auto
  have "length s mod 4 = 0 \<or> length s mod 4 = 2 \<or> length s mod 4 = 3" using assms(1) by linarith
  then show ?thesis
  proof (elim disjE)
    assume "length s mod 4 = 0" then show ?thesis using l by (auto simp: padding_def drop_padding_def)
  next
    assume m: "length s mod 4 = 2" 
    then have "(4 - length s mod 4) mod 4 = 2" by simp
    then have "s @ padding (length s) = s @ [61,61]" by (simp add: padding_def numeral_2_eq_2)
    moreover have "length (s @ [61,61]) mod 4 = 0" using m by (simp add: mod_Suc)
    ultimately show ?thesis by (simp add: drop_padding_def butlast_append)
  next
    assume m: "length s mod 4 = 3"
    then have "s @ padding (length s) = s @ [61]" by (simp add: padding_def)
    moreover have "length (s @ [61]) mod 4 = 0" using m by (simp add: mod_Suc)
    ultimately show ?thesis using l by (auto simp: drop_padding_def butlast_append)
  qed
qed

lemma decode_sextets:
  assumes "\<forall>n\<in>set ns. n < 256"
  shows "base64_to_bytes (map b64_char (sextets ns) @ padding (length (sextets ns))) = Some (map of_nat ns)"
proof -
  let ?s = "map b64_char (sextets ns)"
  have ok: "\<And>n. n \<in> set (sextets ns) \<Longrightarrow> b64_ok n" using sextets_less[OF assms] b64_ok by blast
  have v: "b64_val (b64_char n) = Some n \<and> b64_char n \<noteq> 61 \<and> \<not> ascii_space (b64_char n)" if "n \<in> set (sextets ns)" for n
    using ok[OF that] by (simp add: b64_ok_def Let_def)
  have "filter (\<lambda>c. \<not> ascii_space c) (?s @ padding (length (sextets ns))) = ?s @ padding (length ?s)"
    using v by (auto simp: padding_def ascii_space_def)
  moreover have "drop_padding (?s @ padding (length ?s)) = ?s"
    by (rule drop_padding_padding) (use v sextets_mod[of ns] in auto)
  moreover have "map (\<lambda>c. the (b64_val c)) ?s = sextets ns" using v by (simp add: map_idI)
  ultimately show ?thesis using v
    by (simp add: base64_to_bytes_def groups_sextets[OF assms] del: map_map)
qed

lemma base64_roundtrip: "base64_to_bytes (bytes_to_base64 bs) = Some bs"
proof -
  have "unat b < 2 ^ LENGTH(8)" for b :: byte by (rule unsigned_less)
  then have "\<forall>n\<in>set (map unat bs). n < 256" by simp
  from decode_sextets[OF this] show ?thesis
    by (simp add: bytes_to_base64_def b64_enc_sextets comp_def)
qed


lemma dropWhile_padding: "strip_eq (s @ padding n) = strip_eq s"
proof -
  have "dropWhile (\<lambda>c. c = 61) (replicate k 61 @ t) = dropWhile (\<lambda>c. c = (61::unit16)) t" for k t
    by (induction k) auto
  then show ?thesis by (simp add: strip_eq_def padding_def)
qed

lemma strip_eq_id: "\<forall>c\<in>set s. c \<noteq> 61 \<Longrightarrow> strip_eq s = s"
  by (cases s rule: rev_cases) (auto simp: strip_eq_def)

lemma map_url_eqs:
  "map (sub_unit 47 95) (map (sub_unit 43 45) s) = map to_url s"
  "map (sub_unit 95 47) (map (sub_unit 45 43) s) = map of_url s"
  by (simp_all add: to_url_def of_url_def)

lemma url_encode_sextets:
  "base64_url_encode s = map to_url (map b64_char (sextets (map unat (utf8_encode s))))"
proof -
  let ?x = "sextets (map unat (utf8_encode s))"
  have "unat b < 2 ^ LENGTH(8)" for b :: byte by (rule unsigned_less)
  then have "\<forall>n\<in>set (map unat (utf8_encode s)). n < 256" by simp
  then have "n \<in> set ?x \<Longrightarrow> b64_ok n" for n using sextets_less b64_ok by blast
  then have "\<forall>c\<in>set (map to_url (map b64_char ?x)). c \<noteq> 61" by (auto simp: b64_ok_def Let_def)
  moreover have "map to_url (padding n) = padding n" for n by (simp add: to_url_def sub_unit_def padding_def)
  moreover have "base64_url_encode s = strip_eq (map to_url (map b64_char ?x @ padding (length ?x)))"
    by (simp only: base64_url_encode_def bytes_to_base64_def b64_enc_sextets map_url_eqs)
  ultimately show ?thesis by (simp add: dropWhile_padding strip_eq_id)
qed

lemma url_bytes_roundtrip: "url_to_bytes (base64_url_encode s) = Some (utf8_encode s)"
proof -
  let ?ns = "map unat (utf8_encode s)"
  have "unat b < 2 ^ LENGTH(8)" for b :: byte by (rule unsigned_less)
  then have r: "\<forall>n\<in>set ?ns. n < 256" by simp
  have ok: "n \<in> set (sextets ?ns) \<Longrightarrow> b64_ok n" for n using sextets_less [OF r] b64_ok by blast
  have "map of_url (base64_url_encode s) = map b64_char (sextets ?ns)"
    using ok by (auto simp: url_encode_sextets b64_ok_def Let_def)
  then show ?thesis
    using decode_sextets [OF r] unfolding url_to_bytes_def map_url_eqs
    by (simp add: pad4_padding comp_def)
qed

lemma base64_url_roundtrip: "wf16 s \<Longrightarrow> base64_url_decode (base64_url_encode s) = Some s"
  by (simp add: base64_url_decode_def url_bytes_roundtrip utf8_roundtrip)

end
