(* ===== verification/Sha256.thy ===== *)
theory Sha256
  imports Codec
begin

text \<open>
  \<open>packages/client/src/sha256.ts\<close>: the bundled SHA-256. Every \<open>>>> 0\<close> of the source reduces to an
  unsigned 32-bit value, so the working variables are \<open>32 word\<close>. The message buffer is built
  with the source's array writes (\<open>buf.set\<close>, \<open>buf[ml]\<close>, \<open>setUint32\<close>) and related to the FIPS 180-4
  padding; the schedule \<open>w\<close> is filled in index order, so appending is the same as writing \<open>w[t]\<close>.
  Lengths are below $2^{31}$, where the shifts of the source are exact.
\<close>

type_synonym u32 = "32 word"

definition sha_K :: "u32 list" where
  "sha_K = concat [
    [0x428a2f98, 0x71374491, 0xb5c0fbcf, 0xe9b5dba5, 0x3956c25b, 0x59f111f1],
    [0x923f82a4, 0xab1c5ed5, 0xd807aa98, 0x12835b01, 0x243185be, 0x550c7dc3],
    [0x72be5d74, 0x80deb1fe, 0x9bdc06a7, 0xc19bf174, 0xe49b69c1, 0xefbe4786],
    [0x0fc19dc6, 0x240ca1cc, 0x2de92c6f, 0x4a7484aa, 0x5cb0a9dc, 0x76f988da],
    [0x983e5152, 0xa831c66d, 0xb00327c8, 0xbf597fc7, 0xc6e00bf3, 0xd5a79147],
    [0x06ca6351, 0x14292967, 0x27b70a85, 0x2e1b2138, 0x4d2c6dfc, 0x53380d13],
    [0x650a7354, 0x766a0abb, 0x81c2c92e, 0x92722c85, 0xa2bfe8a1, 0xa81a664b],
    [0xc24b8b70, 0xc76c51a3, 0xd192e819, 0xd6990624, 0xf40e3585, 0x106aa070],
    [0x19a4c116, 0x1e376c08, 0x2748774c, 0x34b0bcb5, 0x391c0cb3, 0x4ed8aa4a],
    [0x5b9cca4f, 0x682e6ff3, 0x748f82ee, 0x78a5636f, 0x84c87814, 0x8cc70208],
    [0x90befffa, 0xa4506ceb, 0xbef9a3f7, 0xc67178f2]]"

definition rotr :: "u32 \<Rightarrow> nat \<Rightarrow> u32" where
  "rotr x n = drop_bit n x OR push_bit (32 - n) x"

subsection \<open>The padded buffer\<close>

definition be32 :: "u32 \<Rightarrow> byte list" where
  "be32 x = [ucast (drop_bit 24 x), ucast (drop_bit 16 x), ucast (drop_bit 8 x), ucast x]"

text \<open>\<open>buf.set(src, off)\<close> and \<open>view.setUint32(off, v, false)\<close>.\<close>

definition write_at :: "nat \<Rightarrow> 'a list \<Rightarrow> 'a list \<Rightarrow> 'a list" where
  "write_at off src buf = take off buf @ src @ drop (off + length src) buf"

definition set_u32 :: "nat \<Rightarrow> u32 \<Rightarrow> byte list \<Rightarrow> byte list" where
  "set_u32 off v buf = write_at off (be32 v) buf"

definition get_u32 :: "byte list \<Rightarrow> nat \<Rightarrow> u32" where
  "get_u32 buf off = push_bit 24 (ucast (buf ! off)) OR push_bit 16 (ucast (buf ! (off + 1))) OR
     push_bit 8 (ucast (buf ! (off + 2))) OR ucast (buf ! (off + 3))"

definition padded_len :: "nat \<Rightarrow> nat" where
  "padded_len ml = ((ml + 8) div 64 + 1) * 64"

definition sha_buf :: "byte list \<Rightarrow> byte list" where
  "sha_buf data =
    (let ml = length data; bitLen = ml * 8; padded = padded_len ml;
         buf = replicate padded 0;
         buf = write_at 0 data buf;
         buf = buf[ml := 0x80];
         buf = set_u32 (padded - 8) (of_nat (bitLen div 0x100000000)) buf
     in set_u32 (padded - 4) (of_nat bitLen) buf)"

subsection \<open>Schedule, rounds, digest\<close>

definition sched_step :: "u32 list \<Rightarrow> nat \<Rightarrow> u32 list" where
  "sched_step w t =
    (let x15 = w ! (t - 15); x2 = w ! (t - 2);
         s0 = rotr x15 7 XOR rotr x15 18 XOR drop_bit 3 x15;
         s1 = rotr x2 17 XOR rotr x2 19 XOR drop_bit 10 x2
     in w @ [w ! (t - 16) + s0 + w ! (t - 7) + s1])"

definition schedule :: "byte list \<Rightarrow> nat \<Rightarrow> u32 list" where
  "schedule buf off =
    foldl sched_step (map (\<lambda>t. get_u32 buf (off + t * 4)) [0..<16]) [16..<64]"

type_synonym sha_state = "u32 \<times> u32 \<times> u32 \<times> u32 \<times> u32 \<times> u32 \<times> u32 \<times> u32"

definition sha_round :: "u32 list \<Rightarrow> sha_state \<Rightarrow> nat \<Rightarrow> sha_state" where
  "sha_round w = (\<lambda>(a, b, c, d, e, f, g, h) t.
    (let S1 = rotr e 6 XOR rotr e 11 XOR rotr e 25;
         ch = (e AND f) XOR (NOT e AND g);
         temp1 = h + S1 + ch + sha_K ! t + w ! t;
         S0 = rotr a 2 XOR rotr a 13 XOR rotr a 22;
         maj = (a AND b) XOR (a AND c) XOR (b AND c);
         temp2 = S0 + maj
     in (temp1 + temp2, a, b, c, d + temp1, e, f, g)))"

fun add8 :: "sha_state \<Rightarrow> sha_state \<Rightarrow> sha_state" where
  "add8 (h0, h1, h2, h3, h4, h5, h6, h7) (a, b, c, d, e, f, g, h) =
    (h0 + a, h1 + b, h2 + c, h3 + d, h4 + e, h5 + f, h6 + g, h7 + h)"

definition sha_block :: "byte list \<Rightarrow> sha_state \<Rightarrow> nat \<Rightarrow> sha_state" where
  "sha_block buf hs off = add8 hs (foldl (sha_round (schedule buf off)) hs [0..<64])"

definition sha_init :: sha_state where
  "sha_init = (0x6a09e667, 0xbb67ae85, 0x3c6ef372, 0xa54ff53a,
               0x510e527f, 0x9b05688c, 0x1f83d9ab, 0x5be0cd19)"

definition sha_offsets :: "nat \<Rightarrow> nat list" where
  "sha_offsets padded = map (\<lambda>i. i * 64) [0..<padded div 64]"

fun sha_out :: "sha_state \<Rightarrow> byte list" where
  "sha_out (h0, h1, h2, h3, h4, h5, h6, h7) = concat (map be32 [h0, h1, h2, h3, h4, h5, h6, h7])"

definition sha256 :: "byte list \<Rightarrow> byte list" where
  "sha256 data = (let buf = sha_buf data in
     sha_out (foldl (sha_block buf) sha_init (sha_offsets (padded_len (length data)))))"

subsection \<open>The FIPS 180-4 reference\<close>

text \<open>
  Padding as the standard words it (a 1 bit, the least number of zeros, the 64-bit length) and
  the hash as a fold over the 64-byte blocks of the padded message, each block on its own.
\<close>

definition be64 :: "nat \<Rightarrow> byte list" where
  "be64 n = be32 (of_nat (n div 0x100000000)) @ be32 (of_nat n)"

definition fips_pad :: "byte list \<Rightarrow> byte list" where
  "fips_pad data = data @ 0x80 # replicate (nat ((55 - int (length data)) mod 64)) 0 @ be64 (length data * 8)"

fun fips_W :: "(nat \<Rightarrow> u32) \<Rightarrow> nat \<Rightarrow> u32" where
  "fips_W M t =
    (if t < 16 then M t
     else (let x2 = fips_W M (t - 2); x15 = fips_W M (t - 15) in
       (word_rotr 17 x2 XOR word_rotr 19 x2 XOR drop_bit 10 x2) + fips_W M (t - 7) +
       (word_rotr 7 x15 XOR word_rotr 18 x15 XOR drop_bit 3 x15) + fips_W M (t - 16)))"

declare fips_W.simps [simp del]

fun fips_round :: "(nat \<Rightarrow> u32) \<Rightarrow> nat \<Rightarrow> sha_state \<Rightarrow> sha_state" where
  "fips_round M t (a, b, c, d, e, f, g, h) =
    (let T1 = h + (word_rotr 6 e XOR word_rotr 11 e XOR word_rotr 25 e) +
                ((e AND f) XOR (NOT e AND g)) + sha_K ! t + fips_W M t;
         T2 = (word_rotr 2 a XOR word_rotr 13 a XOR word_rotr 22 a) +
                ((a AND b) XOR (a AND c) XOR (b AND c))
     in (T1 + T2, a, b, c, d + T1, e, f, g))"

definition fips_compress :: "byte list \<Rightarrow> sha_state \<Rightarrow> sha_state" where
  "fips_compress blk hs = add8 hs (fold (fips_round (\<lambda>t. get_u32 blk (t * 4))) [0..<64] hs)"

fun blocks64 :: "nat \<Rightarrow> 'a list \<Rightarrow> 'a list list" where
  "blocks64 0 xs = []"
| "blocks64 (Suc n) xs = take 64 xs # blocks64 n (drop 64 xs)"

definition fips_sha256 :: "byte list \<Rightarrow> byte list" where
  "fips_sha256 data = (let M = fips_pad data in
     sha_out (fold fips_compress (blocks64 (length M div 64) M) sha_init))"

subsection \<open>The code computes the standard\<close>

lemma length_be32 [simp]: "length (be32 x) = 4"
  by (simp add: be32_def)

lemma rotr_word_rotr: "0 < n \<Longrightarrow> n < 32 \<Longrightarrow> rotr x n = word_rotr n x"
proof (rule bit_word_eqI)
  fix k :: nat
  assume n: "0 < n" "n < 32" and k: "k < LENGTH(32)"
  have l: "bit (rotr x n) k \<longleftrightarrow> bit x (n + k) \<or> 32 - n \<le> k \<and> bit x (k - (32 - n))"
    using k by (auto simp: rotr_def bit_simps)
  have r: "bit (word_rotr n x) k \<longleftrightarrow> bit x ((k + n) mod 32)"
    using k by (simp add: bit_word_rotr_iff)
  show "bit (rotr x n) k = bit (word_rotr n x) k"
  proof (cases "k + n < 32")
    case True
    with n show ?thesis unfolding l r by (auto simp: add.commute)
  next
    case False
    then have "(k + n) mod 32 = k - (32 - n)" "\<not> bit x (n + k)"
      using n k bit_imp_le_length [of x "n + k"] by (auto simp: mod_if)
    with False show ?thesis unfolding l r by auto
  qed
qed

lemma padded_len_eq: "m + 9 + nat ((55 - int m) mod 64) = padded_len m"
proof -
  define q r where "q = (m + 8) div 64" and "r = (m + 8) mod 64"
  have m: "m + 8 = q * 64 + r" and r: "r < 64" by (simp_all add: q_def r_def)
  have "int (m + 8) = int (q * 64 + r)" by (simp only: m)
  then have e: "55 - int m = (63 - int r) + 64 * (- int q)" by simp
  have "(55 - int m) mod 64 = 63 - int r"
    unfolding e mod_mult_self2 using r by simp
  then show ?thesis using m r by (simp add: padded_len_def flip: q_def)
qed

lemma length_fips_pad: "length (fips_pad data) = padded_len (length data)"
  unfolding padded_len_eq [symmetric] by (simp add: fips_pad_def be64_def)

lemma set_u32_append:
  "length xs = off \<Longrightarrow> length ys = 4 \<Longrightarrow> set_u32 off v (xs @ ys @ zs) = xs @ be32 v @ zs"
  by (simp add: write_at_def set_u32_def)

lemma sha_buf_fips: "sha_buf data = fips_pad data"
proof -
  define m where "m = length data"
  define z where "z = nat ((55 - int m) mod 64)"
  have p: "padded_len m = m + Suc (z + 4 + 4)"
    using padded_len_eq [of m] by (simp add: z_def)
  have "write_at 0 data (replicate (padded_len m) 0) = data @ replicate (Suc (z + 4 + 4)) 0"
    unfolding p by (simp add: write_at_def m_def del: replicate.simps)
  also have "\<dots> = data @ 0 # replicate z 0 @ replicate 4 0 @ replicate 4 0"
    by (simp only: replicate_add replicate_Suc append_assoc append_Cons)
  finally have b: "(write_at 0 data (replicate (padded_len m) 0))[m := 0x80] =
      (data @ 0x80 # replicate z 0) @ replicate 4 0 @ replicate 4 0"
    by (simp add: m_def list_update_append)
  have "set_u32 (padded_len m - 8) v ((data @ 0x80 # replicate z 0) @ replicate 4 0 @ replicate 4 0)
     = (data @ 0x80 # replicate z 0) @ be32 v @ replicate 4 0" for v
    by (rule set_u32_append) (simp_all add: p flip: m_def)
  moreover have "set_u32 (padded_len m - 4) v (((data @ 0x80 # replicate z 0) @ be32 u) @ replicate 4 0 @ [])
     = ((data @ 0x80 # replicate z 0) @ be32 u) @ be32 v @ []" for u v
    by (rule set_u32_append) (simp_all add: p flip: m_def)
  ultimately show ?thesis
    unfolding sha_buf_def Let_def m_def [symmetric] b fips_pad_def
    by (simp add: be64_def z_def m_def)
qed

lemma get_u32_drop: "i + 3 < length xs - k \<Longrightarrow> get_u32 (drop k xs) i = get_u32 xs (k + i)"
  by (simp add: get_u32_def ac_simps)

lemma get_u32_take: "i + 3 < n \<Longrightarrow> get_u32 (take n xs) i = get_u32 xs i"
  by (simp add: get_u32_def)

lemma schedule_fold:
  assumes "n \<le> 64" "16 \<le> n"
  shows "foldl sched_step (map (\<lambda>t. get_u32 buf (off + t * 4)) [0..<16]) [16..<n] =
    map (fips_W (\<lambda>t. get_u32 buf (off + t * 4))) [0..<n]"
  using assms(2,1)
proof (induction n rule: dec_induct)
  case base
  then show ?case by (simp add: fips_W.simps)
next
  case (step n)
  let ?M = "\<lambda>t. get_u32 buf (off + t * 4)"
  have "fips_W ?M n = map (fips_W ?M) [0..<n] ! (n - 16) +
      (rotr (fips_W ?M (n - 15)) 7 XOR rotr (fips_W ?M (n - 15)) 18 XOR drop_bit 3 (fips_W ?M (n - 15))) +
      fips_W ?M (n - 7) +
      (rotr (fips_W ?M (n - 2)) 17 XOR rotr (fips_W ?M (n - 2)) 19 XOR drop_bit 10 (fips_W ?M (n - 2)))"
    using step.hyps by (subst fips_W.simps) (simp add: rotr_word_rotr Let_def ac_simps)
  then have "sched_step (map (fips_W ?M) [0..<n]) n = map (fips_W ?M) [0..<n] @ [fips_W ?M n]"
    using step.hyps by (simp add: sched_step_def Let_def)
  with step show ?case by simp
qed


lemma sha_state_cases:
  obtains a b c d e f g h where "(st :: sha_state) = (a, b, c, d, e, f, g, h)"
  by (metis surj_pair)

lemma nth_fips_W: "t < 64 \<Longrightarrow> map (fips_W M) [0..<64] ! t = fips_W M t"
  using nth_map_upt [of t 64 0 "fips_W M"] by (simp only: add_0_left diff_zero)

lemma round_fips:
  assumes "t < 64"
  shows "sha_round (map (fips_W M) [0..<64]) st t = fips_round M t st"
proof -
  obtain a b c d e f g h where st: "st = (a, b, c, d, e, f, g, h)" by (rule sha_state_cases)
  show ?thesis 
    unfolding st sha_round_def by (simp add: nth_fips_W [OF assms] Let_def rotr_word_rotr ac_simps)
qed

lemma foldl_rounds:
  "set ts \<subseteq> {..<64} \<Longrightarrow>
    foldl (sha_round (map (fips_W M) [0..<64])) st ts = fold (fips_round M) ts st"
  by (induction ts arbitrary: st) (simp_all add: round_fips)

lemma fips_W_cong: "(\<And>t. t < 16 \<Longrightarrow> M t = N t) \<Longrightarrow> fips_W M t = fips_W N t"
proof (induction t rule: less_induct)
  case (less t)
  then have "\<And>k. k < t \<Longrightarrow> fips_W M k = fips_W N k" by blast
  with less.prems show ?case by (simp add: fips_W.simps [of _ t] Let_def)
qed

lemma sha_block_fips:
  assumes "off + 64 \<le> length buf"
  shows "sha_block buf hs off = fips_compress (take 64 (drop off buf)) hs"
proof -
  let ?N = "\<lambda>t. get_u32 (take 64 (drop off buf)) (t * 4)"
  have "get_u32 buf (off + t * 4) = ?N t" if "t < 16" for t
    using that assms by (subst get_u32_take) (simp_all add: get_u32_drop)
  then have w: "fips_W (\<lambda>t. get_u32 buf (off + t * 4)) = fips_W ?N"
    by (intro ext fips_W_cong)
  have "schedule buf off = map (fips_W ?N) [0..<64]"
    unfolding schedule_def w [symmetric] by (rule schedule_fold) simp_all
  moreover have "foldl (sha_round (map (fips_W ?N) [0..<64])) hs [0..<64] = fold (fips_round ?N) [0..<64] hs"
    by (rule foldl_rounds) (unfold set_upt, auto)
  ultimately show ?thesis
    by (simp only: sha_block_def fips_compress_def)
qed

lemma foldl_blocks:
  "off + n * 64 \<le> length buf \<Longrightarrow>
    foldl (sha_block buf) hs (map (\<lambda>i. off + i * 64) [0..<n]) =
    fold fips_compress (blocks64 n (drop off buf)) hs"
proof (induction n arbitrary: off hs)
  case 0
  then show ?case by simp
next
  case (Suc n)
  have "map (\<lambda>i. off + i * 64) [0..<Suc n] = off # map (\<lambda>i. (off + 64) + i * 64) [0..<n]"
    by (simp add: upt_conv_Cons map_Suc_upt [symmetric] comp_def del: upt_Suc)
  with Suc show ?case by (simp add: sha_block_fips add.commute del: upt_Suc)
qed

lemma sha256_fips: "sha256 data = fips_sha256 data"
proof -
  have l: "padded_len (length data) = length (fips_pad data)" by (simp add: length_fips_pad)
  have "length (fips_pad data) div 64 * 64 \<le> length (fips_pad data)" by simp
  with foldl_blocks [of 0 "length (fips_pad data) div 64" "fips_pad data" sha_init]
  show ?thesis
    by (simp add: sha256_def fips_sha256_def Let_def sha_buf_fips sha_offsets_def l)
qed

lemma length_sha256 [simp]: "length (sha256 data) = 32"
proof -
  obtain a b c d e f g h where "foldl (sha_block (sha_buf data)) sha_init
      (sha_offsets (padded_len (length data))) = (a, b, c, d, e, f, g, h)"
    by (rule sha_state_cases)
  then show ?thesis by (simp add: sha256_def Let_def)
qed

end
