(* ===== verification/SafetyNumber.thy ===== *)
theory SafetyNumber
  imports Sha256
begin

text \<open>
  \<open>packages/client/src/safety-number.ts\<close>: the 60-digit number two users compare, from the two
  base64 identity keys. \<open>None\<close> is the exception of \<open>atob\<close> on a string that is not base64.
\<close>

definition ITERATIONS :: nat where "ITERATIONS = 5200"
definition GROUPS :: nat where "GROUPS = 12"
definition GROUP_MOD :: nat where "GROUP_MOD = 100000"

text \<open>The byte comparison loop; a common prefix falls through to \<open>a.length - b.length\<close>.\<close>

fun compare_bytes :: "byte list \<Rightarrow> byte list \<Rightarrow> int" where
  "compare_bytes (x # xs) (y # ys) =
    (if x \<noteq> y then (if x < y then -1 else 1) else compare_bytes xs ys)"
| "compare_bytes xs ys = int (length xs) - int (length ys)"

definition stretch :: "byte list \<Rightarrow> byte list \<Rightarrow> byte list" where
  "stretch lo hi = ((\<lambda>h. sha256 (h @ lo @ hi)) ^^ ITERATIONS) (sha256 (lo @ hi))"

text \<open>\<open>String(n)\<close> for a natural number and \<open>padStart\<close>.\<close>

fun dec_digits :: "nat \<Rightarrow> jstr" where
  "dec_digits n = (if n < 10 then [of_nat (48 + n)] else dec_digits (n div 10) @ [of_nat (48 + n mod 10)])"

declare dec_digits.simps [simp del]

definition pad_start :: "nat \<Rightarrow> unit16 \<Rightarrow> jstr \<Rightarrow> jstr" where
  "pad_start n c s = replicate (n - length s) c @ s"

definition group_value :: "byte list \<Rightarrow> nat" where
  "group_value block = foldl (\<lambda>n j. (n * 256 + unat (block ! j)) mod GROUP_MOD) 0 [0..<5]"

definition digit_group :: "byte list \<Rightarrow> nat \<Rightarrow> jstr" where
  "digit_group h k = pad_start 5 48 (dec_digits (group_value (sha256 (h @ [of_nat k]))))"

fun join_with :: "jstr \<Rightarrow> jstr list \<Rightarrow> jstr" where
  "join_with sep [] = []"
| "join_with sep [x] = x"
| "join_with sep (x # y # r) = x @ sep @ join_with sep (y # r)"

definition number_of :: "byte list \<Rightarrow> byte list \<Rightarrow> jstr" where
  "number_of a b =
    (let (lo, hi) = (if compare_bytes a b \<le> 0 then (a, b) else (b, a));
         h = stretch lo hi
     in join_with (js '' '') (map (digit_group h) [0..<GROUPS]))"

definition safetyNumber :: "jstr \<Rightarrow> jstr \<Rightarrow> jstr option" where
  "safetyNumber ka kb =
    (case base64_to_bytes ka of None \<Rightarrow> None
     | Some a \<Rightarrow> (case base64_to_bytes kb of None \<Rightarrow> None | Some b \<Rightarrow> Some (number_of a b)))"

subsection \<open>Symmetry\<close>

lemma compare_bytes_swap: "compare_bytes b a = - compare_bytes a b"
  by (induction a b rule: compare_bytes.induct) auto

lemma compare_bytes_0: "compare_bytes a b = 0 \<Longrightarrow> a = b"
  by (induction a b rule: compare_bytes.induct) (auto split: if_splits)

lemma number_of_commute: "number_of a b = number_of b a"
proof (cases "compare_bytes a b = 0")
  case True
  then have "a = b" by (rule compare_bytes_0)
  then show ?thesis by simp
next
  case False
  then show ?thesis by (auto simp: number_of_def compare_bytes_swap [of b a] Let_def)
qed

subsection \<open>Shape: 12 groups of 5 decimal digits\<close>

definition is_digit :: "unit16 \<Rightarrow> bool" where
  "is_digit c = (48 \<le> c \<and> c \<le> 57)"

lemma digit_char: "n < 10 \<Longrightarrow> is_digit (of_nat (48 + n))"
  by (simp add: is_digit_def word_le_nat_alt unat_word_ariths unat_of_nat)

lemma dec_digits_digits: "\<forall>c\<in>set (dec_digits n). is_digit c"
proof (induction n rule: dec_digits.induct)
  case (1 n)
  have "is_digit (of_nat (48 + n mod 10))" by (rule digit_char) simp
  with 1 show ?case by (subst dec_digits.simps) (auto simp: digit_char simp del: of_nat_add)
qed

lemma dec_digits_length: "n < 10 ^ k \<Longrightarrow> 0 < k \<Longrightarrow> length (dec_digits n) \<le> k"
proof (induction n arbitrary: k rule: dec_digits.induct)
  case (1 n)
  show ?case
  proof (cases "n < 10")
    case True
    with 1 show ?thesis by (subst dec_digits.simps) simp
  next
    case False
    with "1.prems" obtain j where k: "k = Suc j" "0 < j"
      by (cases k; cases "k - 1") auto
    with "1.prems" have "n div 10 < 10 ^ j" by (simp add: less_mult_imp_div_less mult.commute)
    with False k "1.IH" [of j] show ?thesis by (subst dec_digits.simps) simp
  qed
qed

lemma group_value_less: "group_value block < 10 ^ 5"
  by (simp add: group_value_def GROUP_MOD_def upt_rec)

lemma digit_group_shape: "length (digit_group h k) = 5 \<and> (\<forall>c\<in>set (digit_group h k). is_digit c)"
proof -
  let ?d = "dec_digits (group_value (sha256 (h @ [of_nat k])))"
  have "length ?d \<le> 5" by (rule dec_digits_length [OF group_value_less]) simp
  moreover have "is_digit 48" by (simp add: is_digit_def)
  ultimately show ?thesis
    using dec_digits_digits by (auto simp: digit_group_def pad_start_def)
qed

lemma join_shape:
  assumes "\<forall>g\<in>set gs. length g = 5"
  shows "length (join_with [c] gs) = 6 * length gs - 1"
  using assms by (induction "[c]" gs rule: join_with.induct) auto

lemma join_nth:
  assumes "\<forall>g\<in>set gs. length g = 5 \<and> (\<forall>c\<in>set g. P c)" "i < 6 * length gs - 1"
  shows "if i mod 6 = 5 then join_with [s] gs ! i = s else P (join_with [s] gs ! i)"
  using assms
proof (induction "[s]" gs arbitrary: i rule: join_with.induct)
  case 1
  then show ?case by simp
next
  case (2 x)
  then show ?case by (auto simp: nth_mem)
next
  case (3 x y r)
  have x: "length x = 5" "\<forall>c\<in>set x. P c" using "3.prems" by auto
  have "i < 5 \<or> i = 5 \<or> (\<exists>k. i = 6 + k)" by presburger
  then show ?case
  proof (elim disjE exE)
    assume "i < 5"
    with x show ?thesis by (auto simp: nth_append nth_mem)
  next
    assume "i = 5"
    with x show ?thesis by (simp add: nth_append)
  next
    fix k assume i: "i = 6 + k"
    have "(x @ [s] @ join_with [s] (y # r)) ! i = join_with [s] (y # r) ! k"
      using x by (simp add: i nth_append)
    moreover have "i mod 6 = k mod 6" by (simp add: i)
    moreover have "k < 6 * length (y # r) - 1" using i "3.prems"(2) by simp
    ultimately show ?thesis using "3.hyps" [of k] "3.prems"(1) by simp
  qed
qed

end
