(* ===== verification/Json.thy ===== *)
theory Json
  imports SafetyNumber
begin

text \<open>
  \<open>JSON.stringify\<close> and \<open>JSON.parse\<close> of the standard library, as every wire format of the sources
  uses them. Numbers the code sends are integers (\<open>JInt\<close>); a literal with a fraction or an
  exponent is accepted and kept as its text (\<open>JFrac\<close>). A repeated key keeps its first position
  and its last value. Strings are quoted as ECMAScript prescribes, lone surrogates escaped.
  The parser takes fuel; \<open>pval_fuel\<close> shows that twice the consumed length is enough, so
  \<open>json_parse\<close> (which starts with more than that) is the parser without fuel. \<open>SyntaxError\<close> is
  \<open>None\<close>.
\<close>

datatype json =
    JNull | JBool bool | JInt int | JFrac jstr | JStr jstr
  | JArr "json list" | JObj "(jstr \<times> json) list"

subsection \<open>Printing\<close>

definition int_str :: "int \<Rightarrow> jstr" where
  "int_str i = (if i < 0 then 45 # dec_digits (nat (- i)) else dec_digits (nat i))"

definition hex_char :: "nat \<Rightarrow> unit16" where
  "hex_char n = of_nat (if n < 10 then 48 + n else 87 + n)"

definition hex4 :: "unit16 \<Rightarrow> jstr" where
  "hex4 c = (let n = unat c in
    [hex_char (n div 4096), hex_char (n div 256 mod 16), hex_char (n div 16 mod 16), hex_char (n mod 16)])"

definition u_escape :: "unit16 \<Rightarrow> jstr" where
  "u_escape c = 92 # 117 # hex4 c"

definition short_escape :: "unit16 \<Rightarrow> unit16 option" where
  "short_escape c =
    (if c = 34 then Some 34 else if c = 92 then Some 92 else if c = 8 then Some 98
     else if c = 12 then Some 102 else if c = 10 then Some 110 else if c = 13 then Some 114
     else if c = 9 then Some 116 else None)"

definition is_high :: "unit16 \<Rightarrow> bool" where
  "is_high c = (0xd800 \<le> c \<and> c \<le> 0xdbff)"

definition is_low :: "unit16 \<Rightarrow> bool" where
  "is_low c = (0xdc00 \<le> c \<and> c \<le> 0xdfff)"

definition quote_one :: "unit16 \<Rightarrow> jstr" where
  "quote_one c =
    (case short_escape c of Some e \<Rightarrow> [92, e]
     | None \<Rightarrow> if c < 32 \<or> is_high c \<or> is_low c then u_escape c else [c])"

fun quote_body :: "jstr \<Rightarrow> jstr" where
  "quote_body [] = []"
| "quote_body [c] = quote_one c"
| "quote_body (c # d # cs) =
    (if is_high c \<and> is_low d then c # d # quote_body cs else quote_one c @ quote_body (d # cs))"

definition quote :: "jstr \<Rightarrow> jstr" where
  "quote s = 34 # quote_body s @ [34]"

fun stringify :: "json \<Rightarrow> jstr" and elems :: "json list \<Rightarrow> jstr"
  and members :: "(jstr \<times> json) list \<Rightarrow> jstr" where
  "stringify JNull = js ''null''"
| "stringify (JBool b) = (if b then js ''true'' else js ''false'')"
| "stringify (JInt i) = int_str i"
| "stringify (JFrac s) = s"
| "stringify (JStr s) = quote s"
| "stringify (JArr vs) = 91 # elems vs @ [93]"
| "stringify (JObj kvs) = 123 # members kvs @ [125]"
| "elems [] = []"
| "elems [v] = stringify v"
| "elems (v # w # vs) = stringify v @ 44 # elems (w # vs)"
| "members [] = []"
| "members [(k, v)] = quote k @ 58 # stringify v"
| "members ((k, v) # kv # kvs) = quote k @ 58 # stringify v @ 44 # members (kv # kvs)"

subsection \<open>Parsing\<close>

definition json_ws :: "unit16 \<Rightarrow> bool" where
  "json_ws c = (c = 32 \<or> c = 9 \<or> c = 10 \<or> c = 13)"

definition skip_ws :: "jstr \<Rightarrow> jstr" where
  "skip_ws s = dropWhile json_ws s"

definition hex_val :: "unit16 \<Rightarrow> nat option" where
  "hex_val c = (let n = unat c in
     if 48 \<le> n \<and> n \<le> 57 then Some (n - 48) else if 97 \<le> n \<and> n \<le> 102 then Some (n - 87)
     else if 65 \<le> n \<and> n \<le> 70 then Some (n - 55) else None)"

definition unescape :: "unit16 \<Rightarrow> unit16 option" where
  "unescape e =
    (if e = 34 \<or> e = 92 \<or> e = 47 then Some e else if e = 98 then Some 8
     else if e = 102 then Some 12 else if e = 110 then Some 10 else if e = 114 then Some 13
     else if e = 116 then Some 9 else None)"

fun hex4_val :: "jstr \<Rightarrow> (unit16 \<times> jstr) option" where
  "hex4_val (a # b # c # d # r) =
    (case (hex_val a, hex_val b, hex_val c, hex_val d) of
       (Some p, Some q, Some s, Some t) \<Rightarrow> Some (of_nat (p * 4096 + q * 256 + s * 16 + t), r)
     | _ \<Rightarrow> None)"
| "hex4_val _ = None"

text \<open>After a backslash: the character it stands for and what follows.\<close>

definition p_escape :: "jstr \<Rightarrow> (unit16 \<times> jstr) option" where
  "p_escape s =
    (case s of [] \<Rightarrow> None
     | e # r \<Rightarrow> if e = 117 then hex4_val r
               else (case unescape e of None \<Rightarrow> None | Some c \<Rightarrow> Some (c, r)))"

lemma p_escape_shorter: "p_escape s = Some (c, r) \<Longrightarrow> length r < length s"
  by (auto simp: p_escape_def elim!: hex4_val.elims split: list.splits if_splits option.splits)

function pstr :: "jstr \<Rightarrow> (jstr \<times> jstr) option" where
  "pstr [] = None"
| "pstr (c # cs) =
    (if c = 34 then Some ([], cs)
     else if c < 32 then None
     else if c = 92
     then (case p_escape cs of None \<Rightarrow> None
           | Some (d, r) \<Rightarrow> (case pstr r of None \<Rightarrow> None | Some (t, r') \<Rightarrow> Some (d # t, r')))
     else (case pstr cs of None \<Rightarrow> None | Some (t, r') \<Rightarrow> Some (c # t, r')))"
  by pat_completeness auto
termination
  by (relation "measure length") (auto dest: p_escape_shorter)

definition digits_val :: "jstr \<Rightarrow> nat" where
  "digits_val s = foldl (\<lambda>n c. n * 10 + (unat c - 48)) 0 s"

text \<open>The fraction and exponent of a number: the part consumed and the rest.\<close>

definition p_frac :: "jstr \<Rightarrow> (jstr \<times> jstr) option" where
  "p_frac s =
    (case s of c # r \<Rightarrow>
       if c = 46 then (let d = takeWhile is_digit r in
         if d = [] then None else Some (c # d, dropWhile is_digit r)) else Some ([], s)
     | [] \<Rightarrow> Some ([], s))"

definition p_sign :: "jstr \<Rightarrow> jstr \<times> jstr" where
  "p_sign s = (case s of c # r \<Rightarrow> if c = 43 \<or> c = 45 then ([c], r) else ([], s) | [] \<Rightarrow> ([], s))"

definition p_exp :: "jstr \<Rightarrow> (jstr \<times> jstr) option" where
  "p_exp s =
    (case s of c # r \<Rightarrow>
       if c = 101 \<or> c = 69 then
         (let (g, r') = p_sign r; d = takeWhile is_digit r' in
          if d = [] then None else Some (c # g @ d, dropWhile is_digit r')) else Some ([], s)
     | [] \<Rightarrow> Some ([], s))"

definition p_int :: "jstr \<Rightarrow> (jstr \<times> jstr) option" where
  "p_int s = (let d = takeWhile is_digit s in
     if d = [] \<or> (hd d = 48 \<and> tl d \<noteq> []) then None else Some (d, dropWhile is_digit s))"

definition p_unsigned :: "jstr \<Rightarrow> jstr \<Rightarrow> (json \<times> jstr) option" where
  "p_unsigned sign s =
    (case p_int s of None \<Rightarrow> None
     | Some (d, r) \<Rightarrow> (case p_frac r of None \<Rightarrow> None
       | Some (f, r') \<Rightarrow> (case p_exp r' of None \<Rightarrow> None
         | Some (e, r'') \<Rightarrow>
             Some (if f = [] \<and> e = []
                   then JInt (if sign = [] then int (digits_val d) else - int (digits_val d))
                   else JFrac (sign @ d @ f @ e), r''))))"

definition pnum :: "jstr \<Rightarrow> (json \<times> jstr) option" where
  "pnum s = (case s of c # r \<Rightarrow> if c = 45 then p_unsigned [45] r else p_unsigned [] s | [] \<Rightarrow> None)"

definition plit :: "jstr \<Rightarrow> json \<Rightarrow> jstr \<Rightarrow> (json \<times> jstr) option" where
  "plit w v s = (if starts_with s w then Some (v, drop (length w) s) else None)"

definition obj_of :: "(jstr \<times> json) list \<Rightarrow> (jstr \<times> json) list" where
  "obj_of kvs = foldl (\<lambda>m (k, v). map_set k v m) [] kvs"

text \<open>\<open>next_is c s\<close>: after white space comes \<open>c\<close>; the rest.\<close>

definition next_is :: "unit16 \<Rightarrow> jstr \<Rightarrow> jstr option" where
  "next_is c s = (case skip_ws s of [] \<Rightarrow> None | d # r \<Rightarrow> if d = c then Some r else None)"

definition pscalar :: "jstr \<Rightarrow> (json \<times> jstr) option" where
  "pscalar s =
    (case s of [] \<Rightarrow> None
     | c # cs \<Rightarrow>
        if c = 110 then plit (js ''null'') JNull s
        else if c = 116 then plit (js ''true'') (JBool True) s
        else if c = 102 then plit (js ''false'') (JBool False) s
        else if c = 34 then (case pstr cs of None \<Rightarrow> None | Some (t, r) \<Rightarrow> Some (JStr t, r))
        else pnum s)"

fun pval :: "nat \<Rightarrow> jstr \<Rightarrow> (json \<times> jstr) option"
  and pelems :: "nat \<Rightarrow> jstr \<Rightarrow> (json list \<times> jstr) option"
  and pmembers :: "nat \<Rightarrow> jstr \<Rightarrow> ((jstr \<times> json) list \<times> jstr) option" where
  "pval 0 s = None"
| "pval (Suc n) s =
    (case skip_ws s of [] \<Rightarrow> None
     | c # cs \<Rightarrow>
        if c = 91 then
          (case next_is 93 cs of Some r \<Rightarrow> Some (JArr [], r)
           | None \<Rightarrow> (case pelems n cs of None \<Rightarrow> None | Some (vs, r) \<Rightarrow> Some (JArr vs, r)))
        else if c = 123 then
          (case next_is 125 cs of Some r \<Rightarrow> Some (JObj [], r)
           | None \<Rightarrow> (case pmembers n cs of None \<Rightarrow> None | Some (kvs, r) \<Rightarrow> Some (JObj (obj_of kvs), r)))
        else pscalar (c # cs))"
| "pelems 0 s = None"
| "pelems (Suc n) s =
    (case pval n s of None \<Rightarrow> None
     | Some (v, r) \<Rightarrow>
        (case next_is 93 r of Some r' \<Rightarrow> Some ([v], r')
         | None \<Rightarrow> (case next_is 44 r of None \<Rightarrow> None
           | Some r' \<Rightarrow> (case pelems n r' of None \<Rightarrow> None | Some (vs, r'') \<Rightarrow> Some (v # vs, r'')))))"
| "pmembers 0 s = None"
| "pmembers (Suc n) s =
    (case next_is 34 s of None \<Rightarrow> None
     | Some s1 \<Rightarrow> (case pstr s1 of None \<Rightarrow> None
       | Some (k, s2) \<Rightarrow> (case next_is 58 s2 of None \<Rightarrow> None
         | Some s3 \<Rightarrow> (case pval n s3 of None \<Rightarrow> None
           | Some (v, r) \<Rightarrow>
              (case next_is 125 r of Some r' \<Rightarrow> Some ([(k, v)], r')
               | None \<Rightarrow> (case next_is 44 r of None \<Rightarrow> None
                 | Some r' \<Rightarrow> (case pmembers n r' of None \<Rightarrow> None
                   | Some (kvs, r'') \<Rightarrow> Some ((k, v) # kvs, r''))))))))"

definition json_parse :: "jstr \<Rightarrow> json option" where
  "json_parse s =
    (case pval (2 * length s + 2) s of None \<Rightarrow> None
     | Some (v, r) \<Rightarrow> if skip_ws r = [] then Some v else None)"

definition field :: "json \<Rightarrow> string \<Rightarrow> json option" where
  "field v k = (case v of JObj kvs \<Rightarrow> map_of kvs (js k) | _ \<Rightarrow> None)"

subsection \<open>Consumption and fuel\<close>

lemma skip_ws_le: "length (skip_ws s) \<le> length s"
  by (simp add: skip_ws_def length_dropWhile_le)

lemma next_is_shorter: "next_is c s = Some r \<Longrightarrow> length r < length s"
  using skip_ws_le [of s] by (auto simp: next_is_def split: list.splits if_splits)

lemma pstr_shorter: "pstr s = Some (t, r) \<Longrightarrow> length r < length s"
proof (induction s arbitrary: t r rule: pstr.induct)
  case 1
  then show ?case by simp
next
  case (2 c cs)
  then show ?case
    by (fastforce split: if_splits option.splits prod.splits dest: p_escape_shorter)
qed

lemma plit_length: "plit w v s = Some (u, r) \<Longrightarrow> length s = length w + length r"
  by (auto simp: plit_def starts_with_iff split: if_splits)

lemma dropWhile_le: "length (dropWhile P s) \<le> length s"
  by (rule length_dropWhile_le)

lemma p_frac_le: "p_frac s = Some (f, r) \<Longrightarrow> length r \<le> length s"
  using dropWhile_le [of is_digit "tl s"]
  by (auto simp: p_frac_def Let_def split: list.splits if_splits)

lemma p_exp_le: "p_exp s = Some (f, r) \<Longrightarrow> length r \<le> length s"
  using dropWhile_le [of is_digit "tl s"] dropWhile_le [of is_digit "tl (tl s)"]
  by (auto simp: p_exp_def p_sign_def Let_def split: list.splits if_splits)

lemma p_int_shorter: "p_int s = Some (d, r) \<Longrightarrow> length r < length s"
proof -
  assume a: "p_int s = Some (d, r)"
  then have "takeWhile is_digit s \<noteq> []" and r: "r = dropWhile is_digit s"
    by (auto simp: p_int_def Let_def split: if_splits)
  then show ?thesis
    by (metis length_append length_greater_0_conv less_add_same_cancel2 takeWhile_dropWhile_id)
qed

lemma p_unsigned_shorter: "p_unsigned g s = Some (v, r) \<Longrightarrow> length r < length s"
  unfolding p_unsigned_def
  by (auto split: option.splits prod.splits dest!: p_int_shorter p_frac_le p_exp_le)

lemma pnum_shorter: "pnum s = Some (v, r) \<Longrightarrow> length r < length s"
  by (auto simp: pnum_def split: list.splits if_splits dest: p_unsigned_shorter)

lemma pscalar_shorter: "pscalar s = Some (v, r) \<Longrightarrow> length r < length s"
proof (cases s)
  case Nil
  then show "pscalar s = Some (v, r) \<Longrightarrow> ?thesis" by (simp add: pscalar_def)
next
  case (Cons c cs)
  then show "pscalar s = Some (v, r) \<Longrightarrow> ?thesis"
    by (auto simp: pscalar_def split: if_splits option.splits prod.splits
        dest: pstr_shorter pnum_shorter dest!: plit_length)
qed

text \<open>Fuel twice what was read is enough, and more of it changes nothing.\<close>

lemma pval_fuel:
  "pval m s = Some (v, r) \<Longrightarrow>
    length r < length s \<and> (\<forall>n. 2 * (length s - length r) \<le> n \<longrightarrow> pval n s = Some (v, r))"
  "pelems m s = Some (vs, r) \<Longrightarrow>
    length r < length s \<and> (\<forall>n. 2 * (length s - length r) + 1 \<le> n \<longrightarrow> pelems n s = Some (vs, r))"
  "pmembers m s = Some (kvs, r) \<Longrightarrow>
    length r < length s \<and> (\<forall>n. 2 * (length s - length r) + 1 \<le> n \<longrightarrow> pmembers n s = Some (kvs, r))"
proof (induction m s and m s and m s arbitrary: v r and vs r and kvs r rule: pval_pelems_pmembers.induct)
  case (2 n s)
  from "2.prems" obtain c cs where cs: "skip_ws s = c # cs"
    by (auto split: list.splits)
  then have l: "length cs < length s" using skip_ws_le [of s] by simp
  consider (arr) vs where "c = 91" "next_is 93 cs = None" "pelems n cs = Some (vs, r)" "v = JArr vs"
    | (obj) kvs where "c = 123" "next_is 125 cs = None" "pmembers n cs = Some (kvs, r)"
        "v = JObj (obj_of kvs)"
    | (other) "length r < length s" "\<And>k. pval (Suc k) s = Some (v, r)"
  proof -
    assume arr: "\<And>vs. c = 91 \<Longrightarrow> next_is 93 cs = None \<Longrightarrow> pelems n cs = Some (vs, r) \<Longrightarrow> v = JArr vs \<Longrightarrow> thesis"
      and obj: "\<And>kvs. c = 123 \<Longrightarrow> next_is 125 cs = None \<Longrightarrow> pmembers n cs = Some (kvs, r) \<Longrightarrow>
        v = JObj (obj_of kvs) \<Longrightarrow> thesis"
      and other: "length r < length s \<Longrightarrow> (\<And>k. pval (Suc k) s = Some (v, r)) \<Longrightarrow> thesis"
    show thesis
    proof (cases "c = 91 \<and> next_is 93 cs = None \<or> c = 123 \<and> next_is 125 cs = None")
      case True
      with "2.prems" cs arr obj show ?thesis by (auto split: option.splits prod.splits)
    next
      case False
      with "2.prems" cs have "pval (Suc k) s = Some (v, r)" for k by (auto split: option.splits)
      moreover from False "2.prems" cs have "length r < length (c # cs)"
        by (auto split: option.splits if_splits dest: next_is_shorter pscalar_shorter)
      ultimately show ?thesis using l other by simp
    qed
  qed
  then show ?case
  proof cases
    case arr
    with "2.IH"(1) [OF cs] cs have IH: "length r < length cs"
      "\<And>k. 2 * (length cs - length r) + 1 \<le> k \<Longrightarrow> pelems k cs = Some (vs, r)" by auto
    show ?thesis
    proof (intro conjI allI impI)
      fix k assume k: "2 * (length s - length r) \<le> k"
      with l IH(1) obtain j where j: "k = Suc j" "2 * (length cs - length r) + 1 \<le> j" by (cases k) auto
      with IH(2) [OF j(2)] arr cs show "pval k s = Some (v, r)" by simp
    qed (use l IH(1) in simp)
  next
    case obj
    with "2.IH"(2) [OF cs] cs have IH: "length r < length cs"
      "\<And>k. 2 * (length cs - length r) + 1 \<le> k \<Longrightarrow> pmembers k cs = Some (kvs, r)" by auto
    show ?thesis
    proof (intro conjI allI impI)
      fix k assume k: "2 * (length s - length r) \<le> k"
      with l IH(1) obtain j where j: "k = Suc j" "2 * (length cs - length r) + 1 \<le> j" by (cases k) auto
      with IH(2) [OF j(2)] obj cs show "pval k s = Some (v, r)" by simp
    qed (use l IH(1) in simp)
  next
    case other
    show ?thesis
    proof (intro conjI allI impI)
      fix k assume "2 * (length s - length r) \<le> k"
      with other(1) obtain j where "k = Suc j" by (cases k) auto
      with other(2) show "pval k s = Some (v, r)" by simp
    qed (rule other(1))
  qed
next
  case (4 n s)
  from "4.prems" obtain w q where v: "pval n s = Some (w, q)"
    by (auto split: option.splits)
  with "4.IH"(1) have q: "length q < length s"
    "\<And>k. 2 * (length s - length q) \<le> k \<Longrightarrow> pval k s = Some (w, q)" by auto
  show ?case
  proof (cases "next_is 93 q")
    case (Some q')
    with "4.prems" v have r: "q' = r" "vs = [w]" by auto
    with Some have l: "length r < length q" by (auto dest: next_is_shorter)
    show ?thesis
    proof (intro conjI allI impI)
      fix k assume k: "2 * (length s - length r) + 1 \<le> k"
      then obtain j where j: "k = Suc j" "2 * (length s - length q) \<le> j" using l q(1) by (cases k) auto
      with q(2) [OF j(2)] Some r show "pelems k s = Some (vs, r)" by simp
    qed (use l q(1) in simp)
  next
    case None
    with "4.prems" v obtain q' us where c: "next_is 44 q = Some q'" "pelems n q' = Some (us, r)" "vs = w # us"
      by (auto split: option.splits)
    with "4.IH"(2) [OF v refl None c(1)] have IH: "length r < length q'"
      "\<And>k. 2 * (length q' - length r) + 1 \<le> k \<Longrightarrow> pelems k q' = Some (us, r)" by auto
    have l: "length q' < length q" using c(1) by (rule next_is_shorter)
    show ?thesis
    proof (intro conjI allI impI)
      fix k assume k: "2 * (length s - length r) + 1 \<le> k"
      then obtain j where j: "k = Suc j" "2 * (length s - length q) \<le> j"
        "2 * (length q' - length r) + 1 \<le> j" using l q(1) IH(1) by (cases k) auto
      with q(2) [OF j(2)] IH(2) [OF j(3)] None c show "pelems k s = Some (vs, r)" by simp
    qed (use l q(1) IH(1) in simp)
  qed
next
  case (6 n s)
  from "6.prems" obtain s1 k s2 s3 w q where m: "next_is 34 s = Some s1" "pstr s1 = Some (k, s2)"
    "next_is 58 s2 = Some s3" and v: "pval n s3 = Some (w, q)"
    by (auto split: option.splits prod.splits)
  from m have s3: "length s3 < length s" using next_is_shorter pstr_shorter by (meson less_trans)
  from "6.IH"(1) [OF m(1,2) refl m(3)] v have q: "length q < length s3"
    "\<And>k. 2 * (length s3 - length q) \<le> k \<Longrightarrow> pval k s3 = Some (w, q)" by auto
  show ?case
  proof (cases "next_is 125 q")
    case (Some q')
    with "6.prems" v m have r: "q' = r" "kvs = [(k, w)]" by auto
    with Some have l: "length r < length q" by (auto dest: next_is_shorter)
    show ?thesis
    proof (intro conjI allI impI)
      fix i assume i: "2 * (length s - length r) + 1 \<le> i"
      then obtain j where j: "i = Suc j" "2 * (length s3 - length q) \<le> j"
        using l q(1) s3 by (cases i) auto
      with q(2) [OF j(2)] Some r m show "pmembers i s = Some (kvs, r)" by simp
    qed (use l q(1) s3 in simp)
  next
    case None
    with "6.prems" v m obtain q' us where c: "next_is 44 q = Some q'" "pmembers n q' = Some (us, r)"
      "kvs = (k, w) # us"
      by (auto split: option.splits)
    with "6.IH"(2) [OF m(1,2) refl m(3) v refl None c(1)] have IH: "length r < length q'"
      "\<And>k. 2 * (length q' - length r) + 1 \<le> k \<Longrightarrow> pmembers k q' = Some (us, r)" by auto
    have l: "length q' < length q" using c(1) by (rule next_is_shorter)
    show ?thesis
    proof (intro conjI allI impI)
      fix i assume i: "2 * (length s - length r) + 1 \<le> i"
      then obtain j where j: "i = Suc j" "2 * (length s3 - length q) \<le> j"
        "2 * (length q' - length r) + 1 \<le> j" using l q(1) IH(1) s3 by (cases i) auto
      with q(2) [OF j(2)] IH(2) [OF j(3)] None c m show "pmembers i s = Some (kvs, r)" by simp
    qed (use l q(1) IH(1) s3 in simp)
  qed
qed simp_all

subsection \<open>Parsing what was printed\<close>

text \<open>What may follow a number: anything that does not extend it.\<close>

definition stops :: "jstr \<Rightarrow> bool" where
  "stops s = (case s of [] \<Rightarrow> True | c # _ \<Rightarrow> \<not> is_digit c \<and> c \<noteq> 46 \<and> c \<noteq> 101 \<and> c \<noteq> 69)"

definition hex_ok :: "nat \<Rightarrow> bool" where
  "hex_ok n = (hex_val (hex_char n) = Some n)"

lemma hex_table: "list_all hex_ok [0..<16]"
  by code_simp

lemma hex_val_char [simp]: "n < 16 \<Longrightarrow> hex_val (hex_char n) = Some n"
  using hex_table by (simp add: list_all_iff hex_ok_def)

lemma hex4_roundtrip: "hex4_val (hex4 c @ r) = Some (c, r)"
proof -
  define n where "n = unat c"
  have "unat c < 2 ^ LENGTH(16)" by (rule unsigned_less)
  then have n: "n < 65536" by (simp add: n_def)
  have "n div 4096 * 4096 + n div 256 mod 16 * 256 + n div 16 mod 16 * 16 + n mod 16 = n"
  proof -
    have "n div 4096 = n div 16 div 16 div 16" "n div 256 = n div 16 div 16"
      by (simp_all add: div_mult2_eq [symmetric])
    then have "n div 4096 * 4096 + n div 256 mod 16 * 256 + n div 16 mod 16 * 16 + n mod 16 =
        ((n div 16 div 16 div 16 * 16 + n div 16 div 16 mod 16) * 16 + n div 16 mod 16) * 16 + n mod 16"
      by (simp only: distrib_right mult.assoc)
    also have "\<dots> = n" by (simp only: div_mult_mod_eq)
    finally show ?thesis .
  qed
  then have e: "of_nat (n div 4096 * 4096 + n div 256 mod 16 * 256 + n div 16 mod 16 * 16 + n mod 16) = c"
    by (simp only: n_def of_nat_unat ucast_id)
  have d: "n div 4096 < 16" "n div 256 mod 16 < 16" "n div 16 mod 16 < 16" "n mod 16 < 16"
    using n by (simp_all add: less_mult_imp_div_less)
  show ?thesis
    unfolding hex4_def n_def [symmetric] Let_def append.simps hex4_val.simps
    by (simp only: hex_val_char d prod.case option.case e)
qed

lemma pstr_escape:
  "p_escape x = Some (c, y) \<Longrightarrow> pstr (92 # x) =
    (case pstr y of None \<Rightarrow> None | Some (t, r) \<Rightarrow> Some (c # t, r))"
  by simp

lemma short_escape_unescape: "short_escape c = Some e \<Longrightarrow> unescape e = Some c \<and> e \<noteq> 117"
  by (auto simp: short_escape_def unescape_def split: if_splits)

lemma pstr_plain:
  "\<not> c < 32 \<Longrightarrow> c \<noteq> 34 \<Longrightarrow> c \<noteq> 92 \<Longrightarrow> pstr (c # x) =
    (case pstr x of None \<Rightarrow> None | Some (t, r) \<Rightarrow> Some (c # t, r))"
  by simp

lemma pstr_quote_one:
  "pstr (quote_one c @ x) = (case pstr x of None \<Rightarrow> None | Some (t, r) \<Rightarrow> Some (c # t, r))"
proof (cases "short_escape c")
  case (Some e)
  then have "p_escape (e # x) = Some (c, x)"
    using short_escape_unescape [OF Some] by (simp add: p_escape_def)
  from pstr_escape [OF this] show ?thesis by (simp add: quote_one_def Some)
next
  case None
  show ?thesis
  proof (cases "c < 32 \<or> is_high c \<or> is_low c")
    case True
    have "p_escape (117 # hex4 c @ x) = Some (c, x)"
      by (simp add: p_escape_def hex4_roundtrip)
    from pstr_escape [OF this] True show ?thesis by (simp add: quote_one_def None u_escape_def)
  next
    case False
    with None show ?thesis
      by (subst pstr_plain [symmetric]) (auto simp: quote_one_def short_escape_def split: if_splits)
  qed
qed

lemma surrogate_plain: "is_high c \<or> is_low c \<Longrightarrow> \<not> c < 32 \<and> c \<noteq> 34 \<and> c \<noteq> 92"
  by (auto simp: is_high_def is_low_def word_less_nat_alt word_le_nat_alt)

lemma pstr_quote_body: "pstr (quote_body s @ 34 # r) = Some (s, r)"
proof (induction s rule: quote_body.induct)
  case 1
  then show ?case by simp
next
  case (2 c)
  then show ?case by (simp add: pstr_quote_one)
next
  case (3 c d cs)
  show ?case
  proof (cases "is_high c \<and> is_low d")
    case True
    with 3 surrogate_plain [of c] surrogate_plain [of d] show ?thesis
      by (simp add: pstr_plain del: pstr.simps)
  next
    case False
    then have "quote_body (c # d # cs) = quote_one c @ quote_body (d # cs)" by auto
    with "3.IH"(2) [OF False] show ?thesis by (simp add: pstr_quote_one del: pstr.simps quote_body.simps)
  qed
qed

lemma digits_val_append: "digits_val (s @ [c]) = digits_val s * 10 + (unat c - 48)"
  by (simp add: digits_val_def)

lemma unat_digit: "n < 10 \<Longrightarrow> unat (of_nat (48 + n) :: unit16) = 48 + n"
  by (simp add: unat_of_nat del: of_nat_add)

lemma digits_val_dec [simp]: "digits_val (dec_digits n) = n"
proof (induction n rule: dec_digits.induct)
  case (1 n)
  show ?case
  proof (cases "n < 10")
    case True
    then show ?thesis
      by (subst dec_digits.simps) (simp add: digits_val_def unat_digit del: of_nat_add)
  next
    case False
    with 1 show ?thesis
      by (subst dec_digits.simps) (simp add: digits_val_append unat_digit del: of_nat_add)
  qed
qed

lemma dec_digits_ne [simp]: "dec_digits n \<noteq> []"
  by (subst dec_digits.simps) simp

lemma dec_digits_lead: "0 < n \<Longrightarrow> hd (dec_digits n) \<noteq> 48"
proof (induction n rule: dec_digits.induct)
  case (1 n)
  show ?case
  proof (cases "n < 10")
    case True
    then have "unat (of_nat (48 + n) :: unit16) \<noteq> unat (48 :: unit16)"
      using 1 by (simp only: unat_digit) simp
    then have "(of_nat (48 + n) :: unit16) \<noteq> 48" by metis
    with True show ?thesis by (subst dec_digits.simps) (simp del: of_nat_add)
  next
    case False
    with 1 have "hd (dec_digits (n div 10)) \<noteq> 48" by auto
    with False show ?thesis by (subst dec_digits.simps) simp
  qed
qed

lemma dec_digits_0: "dec_digits 0 = [48]"
  by (subst dec_digits.simps) simp

lemma stops_take: "stops r \<Longrightarrow> takeWhile is_digit r = [] \<and> dropWhile is_digit r = r"
  by (cases r) (auto simp: stops_def)

lemma p_int_dec: "stops r \<Longrightarrow> p_int (dec_digits n @ r) = Some (dec_digits n, r)"
proof -
  assume r: "stops r"
  have d: "takeWhile is_digit (dec_digits n @ r) = dec_digits n"
    "dropWhile is_digit (dec_digits n @ r) = r"
    using dec_digits_digits [of n] stops_take [OF r]
    by (simp_all add: takeWhile_append2 dropWhile_append2 dropWhile_append3)
  have "\<not> (hd (dec_digits n) = 48 \<and> tl (dec_digits n) \<noteq> [])"
    by (cases "n = 0") (simp_all add: dec_digits_0 dec_digits_lead)
  with d show ?thesis by (auto simp: p_int_def Let_def)
qed

lemma p_unsigned_dec:
  assumes r: "stops r"
  shows "p_unsigned g (dec_digits n @ r) = Some (JInt (if g = [] then int n else - int n), r)"
proof -
  have "p_frac r = Some ([], r)" "p_exp r = Some ([], r)"
    using r by (auto simp: p_frac_def p_exp_def stops_def split: list.splits)
  then show ?thesis by (simp add: p_unsigned_def p_int_dec [OF r])
qed

lemma is_digit_45: "is_digit c \<Longrightarrow> c \<noteq> 45 \<and> c \<noteq> 110 \<and> c \<noteq> 116 \<and> c \<noteq> 102 \<and> c \<noteq> 34 \<and>
    c \<noteq> 91 \<and> c \<noteq> 123 \<and> c \<noteq> 93 \<and> c \<noteq> 125 \<and> \<not> json_ws c"
  by (auto simp: is_digit_def json_ws_def word_le_nat_alt)

lemma pnum_int: "stops r \<Longrightarrow> pnum (int_str i @ r) = Some (JInt i, r)"
proof -
  assume r: "stops r"
  obtain c cs where c: "dec_digits (nat i) = c # cs" by (cases "dec_digits (nat i)") auto
  then have "is_digit c" using dec_digits_digits [of "nat i"] by simp
  then have "c \<noteq> 45" using is_digit_45 by blast
  with c p_unsigned_dec [OF r, of "[]" "nat i"] p_unsigned_dec [OF r, of "[45]" "nat (- i)"]
  show ?thesis by (auto simp: pnum_def int_str_def)
qed

lemma int_str_inj: "int_str i = int_str j \<Longrightarrow> i = j"
  using pnum_int [of "[]" i] pnum_int [of "[]" j] by (simp add: stops_def)

text \<open>Values of integers, plain decimals, strings, arrays and objects without a repeated key.\<close>

definition frac_text :: "jstr \<Rightarrow> bool" where
  "frac_text s = (case p_int s of Some (d, c # f) \<Rightarrow> c = 46 \<and> f \<noteq> [] \<and> list_all is_digit f | _ \<Rightarrow> False)"

fun wf_json :: "json \<Rightarrow> bool" where
  "wf_json (JFrac s) = frac_text s"
| "wf_json (JArr vs) = list_all wf_json vs"
| "wf_json (JObj kvs) = (distinct (map fst kvs) \<and> list_all (\<lambda>kv. wf_json (snd kv)) kvs)"
| "wf_json _ = True"

lemma foldl_map_set:
  "distinct (map fst (m @ kvs)) \<Longrightarrow> foldl (\<lambda>m (k, v). map_set k v m) m kvs = m @ kvs"
proof (induction kvs arbitrary: m)
  case Nil
  then show ?case by simp
next
  case (Cons kv kvs)
  obtain k v where kv: "kv = (k, v)" by (cases kv)
  with Cons.prems have "k \<notin> fst ` set m" by auto
  then have "map_set k v m = m @ [(k, v)]" by (induction m) auto
  with Cons.IH [of "m @ [kv]"] Cons.prems kv show ?case by simp
qed

lemma obj_of_distinct: "distinct (map fst kvs) \<Longrightarrow> obj_of kvs = kvs"
  using foldl_map_set [of "[]" kvs] by (simp add: obj_of_def)

lemma next_is_hit [simp]: "\<not> json_ws c \<Longrightarrow> next_is c (c # r) = Some r"
  by (simp add: next_is_def skip_ws_def)

lemma next_is_miss [simp]: "\<not> json_ws d \<Longrightarrow> d \<noteq> c \<Longrightarrow> next_is c (d # r) = None"
  by (simp add: next_is_def skip_ws_def)

lemma not_ws [simp]:
  "\<not> json_ws 34" "\<not> json_ws 44" "\<not> json_ws 58" "\<not> json_ws 91" "\<not> json_ws 93"
  "\<not> json_ws 123" "\<not> json_ws 125" "\<not> json_ws 110" "\<not> json_ws 116" "\<not> json_ws 102" "\<not> json_ws 45"
  by (simp_all add: json_ws_def)

text \<open>The first character of a printed value.\<close>

definition json_head :: "unit16 \<Rightarrow> bool" where
  "json_head c = (\<not> json_ws c \<and> c \<noteq> 93 \<and> c \<noteq> 125)"

lemma js_words [wire_simps]:
  "js ''null'' = [110, 117, 108, 108]" "js ''true'' = [116, 114, 117, 101]"
  "js ''false'' = [102, 97, 108, 115, 101]"
  by (simp_all add: js_def of_char_def)

lemma int_str_head:
  obtains c cs where "int_str i = c # cs" "json_head c" "c = 45 \<or> is_digit c"
proof (cases "i < 0")
  case True
  then show ?thesis using that by (simp add: int_str_def json_head_def)
next
  case False
  obtain c cs where c: "dec_digits (nat i) = c # cs" by (cases "dec_digits (nat i)") auto
  then have "is_digit c" using dec_digits_digits [of "nat i"] by simp
  with c False is_digit_45 show ?thesis by (intro that) (auto simp: int_str_def json_head_def)
qed

lemma frac_shape:
  assumes "frac_text s"
  obtains d f where "s = d @ 46 # f" "d \<noteq> []" "list_all is_digit d" "\<not> (hd d = 48 \<and> tl d \<noteq> [])"
    "f \<noteq> []" "list_all is_digit f"
proof -
  obtain d t where t: "p_int s = Some (d, t)" using assms by (cases "p_int s") (auto simp: frac_text_def)
  obtain f where p: "p_int s = Some (d, 46 # f)" and f: "f \<noteq> []" "list_all is_digit f"
    using assms t by (cases t) (auto simp: frac_text_def)
  have d: "d = takeWhile is_digit s" "46 # f = dropWhile is_digit s" "d \<noteq> []" "\<not> (hd d = 48 \<and> tl d \<noteq> [])"
    using p unfolding p_int_def Let_def by (simp_all split: if_split_asm)
  have s: "s = d @ 46 # f" unfolding d(1) d(2) by (simp only: takeWhile_dropWhile_id)
  have "list_all is_digit d" unfolding list_all_iff d(1) by (metis set_takeWhileD)
  from that [OF s d(3) this d(4) f] show ?thesis .
qed

lemma frac_head:
  assumes "frac_text s"
  obtains c cs where "s = c # cs" "json_head c" "is_digit c"
proof -
  obtain d f where "s = d @ 46 # f" "d \<noteq> []" "list_all is_digit d" using assms by (rule frac_shape)
  then obtain c cs where c: "s = c # cs" "is_digit c" by (cases d) auto
  with is_digit_45 [of c] show ?thesis by (intro that) (auto simp: json_head_def)
qed

lemma pval_frac:
  assumes "frac_text s" and r: "stops r"
  shows "pval (Suc n) (s @ r) = Some (JFrac s, r)"
proof -
  obtain d f where s: "s = d @ 46 # f" and d: "d \<noteq> []" "list_all is_digit d" "\<not> (hd d = 48 \<and> tl d \<noteq> [])"
    and f: "f \<noteq> []" "list_all is_digit f"
    using assms(1) by (rule frac_shape)
  have dot: "\<not> is_digit 46" by (simp add: is_digit_def word_le_nat_alt)
  have "takeWhile is_digit (d @ 46 # f @ r) = d" "dropWhile is_digit (d @ 46 # f @ r) = 46 # f @ r"
    using d(2) dot by (simp_all add: list_all_iff takeWhile_append2 dropWhile_append2)
  then have i: "p_int (s @ r) = Some (d, 46 # f @ r)" using d by (simp add: p_int_def s Let_def)
  have "takeWhile is_digit (f @ r) = f" "dropWhile is_digit (f @ r) = r"
    using f(2) stops_take [OF r] by (simp_all add: list_all_iff takeWhile_append2 dropWhile_append2)
  then have p: "p_frac (46 # f @ r) = Some (46 # f, r)" using f(1) by (simp add: p_frac_def)
  have "p_exp r = Some ([], r)" using r by (auto simp: p_exp_def stops_def split: list.splits)
  then have u: "p_unsigned [] (s @ r) = Some (JFrac s, r)" unfolding p_unsigned_def i by (simp add: p s)
  obtain c cs where c: "s = c # cs" "is_digit c" using assms(1) by (rule frac_head)
  then show ?thesis using u is_digit_45 [of c] by (simp add: skip_ws_def pscalar_def pnum_def)
qed

lemma stringify_head:
  assumes "wf_json v"
  obtains c cs where "stringify v = c # cs" "json_head c"
proof (cases v)
  case (JInt i)
  with that show ?thesis using int_str_head [of i] by (metis stringify.simps(3))
next
  case (JBool b)
  with that show ?thesis by (cases b) (auto simp: js_words json_head_def json_ws_def)
next
  case (JFrac s)
  then have "frac_text s" using assms by simp
  then obtain c cs where "s = c # cs" "json_head c" by (rule frac_head)
  with that JFrac show ?thesis by simp
qed (use assms that in \<open>auto simp: js_words quote_def json_head_def json_ws_def split: if_splits\<close>)

lemma pval_int:
  assumes "stops r"
  shows "pval (Suc n) (int_str i @ r) = Some (JInt i, r)"
proof -
  obtain c cs where c: "int_str i = c # cs" "json_head c" "c = 45 \<or> is_digit c" by (rule int_str_head)
  then have n: "\<not> json_ws c" "c \<noteq> 110" "c \<noteq> 116" "c \<noteq> 102" "c \<noteq> 34" "c \<noteq> 91" "c \<noteq> 123"
    using is_digit_45 [of c] by (auto simp: json_head_def)
  with c(1) pnum_int [OF assms, of i] show ?thesis by (simp add: skip_ws_def pscalar_def)
qed

lemma stops_sep [simp]: "stops (44 # r)" "stops (93 # r)" "stops (125 # r)" "stops []"
  by (simp_all add: stops_def is_digit_def word_le_nat_alt)

definition enough :: "(nat \<Rightarrow> bool) \<Rightarrow> bool" where
  "enough P \<longleftrightarrow> (\<exists>m. \<forall>n\<ge>m. P n)"

lemma enough_step: "enough P \<Longrightarrow> (\<And>n. P n \<Longrightarrow> Q (Suc n)) \<Longrightarrow> enough Q"
  unfolding enough_def by (metis Suc_le_D Suc_le_mono)

lemma enough_always: "(\<And>n. Q (Suc n)) \<Longrightarrow> enough Q"
  unfolding enough_def by (metis Suc_le_D)

lemma enough_conj: "enough P \<Longrightarrow> enough Q \<Longrightarrow> enough (\<lambda>n. P n \<and> Q n)"
  unfolding enough_def by (meson le_cases order_trans)

lemma elems_head:
  assumes "list_all wf_json vs" "vs \<noteq> []"
  obtains c cs where "elems vs = c # cs" "json_head c"
proof -
  obtain v ws where vs: "vs = v # ws" using assms(2) by (cases vs) auto
  with assms(1) obtain c cs where "stringify v = c # cs" "json_head c"
    by (auto elim: stringify_head)
  with vs that show ?thesis by (cases ws) auto
qed

lemma members_head: "kvs \<noteq> [] \<Longrightarrow> \<exists>cs. members kvs = 34 # cs"
  by (cases kvs rule: members.cases) (auto simp: quote_def)

lemma pmembers_one:
  assumes "pval n (stringify v @ r) = Some (v, r)"
  shows "pmembers (Suc n) (quote k @ 58 # stringify v @ r) =
    (case next_is 125 r of Some r' \<Rightarrow> Some ([(k, v)], r')
     | None \<Rightarrow> (case next_is 44 r of None \<Rightarrow> None
       | Some r' \<Rightarrow> (case pmembers n r' of None \<Rightarrow> None
         | Some (kvs, r'') \<Rightarrow> Some ((k, v) # kvs, r''))))"
  by (simp add: quote_def pstr_quote_body assms del: pstr.simps)

lemma stringify_parse:
  "wf_json v \<Longrightarrow> stops r \<Longrightarrow> enough (\<lambda>n. pval n (stringify v @ r) = Some (v, r))"
  "list_all wf_json vs \<Longrightarrow> vs \<noteq> [] \<Longrightarrow>
    enough (\<lambda>n. pelems n (elems vs @ 93 # r) = Some (vs, r))"
  "list_all (\<lambda>kv. wf_json (snd kv)) kvs \<Longrightarrow> kvs \<noteq> [] \<Longrightarrow>
    enough (\<lambda>n. pmembers n (members kvs @ 125 # r) = Some (kvs, r))"
proof (induction v and vs and kvs arbitrary: r and r and r rule: stringify_elems_members.induct)
  case 1
  show ?case by (rule enough_always) (simp add: js_words skip_ws_def pscalar_def plit_def)
next
  case (2 b)
  show ?case by (rule enough_always) (simp add: js_words skip_ws_def pscalar_def plit_def)
next
  case (3 i)
  then show ?case by (intro enough_always) (simp only: stringify.simps pval_int)
next
  case (4 s)
  then show ?case by (intro enough_always) (simp only: stringify.simps wf_json.simps pval_frac)
next
  case (5 s)
  show ?case
    by (rule enough_always) (simp add: quote_def skip_ws_def pscalar_def pstr_quote_body del: pstr.simps)
next
  case (6 vs)
  show ?case
  proof (cases "vs = []")
    case True
    then show ?thesis by (intro enough_always) (simp add: skip_ws_def)
  next
    case False
    with "6.prems" obtain c cs where "elems vs = c # cs" "json_head c" by (auto elim: elems_head)
    then have e: "next_is 93 (elems vs @ 93 # r) = None" by (simp add: json_head_def)
    show ?thesis
      by (rule enough_step [OF "6.IH" [of r]]) (use False "6.prems" e in \<open>auto simp: skip_ws_def\<close>)
  qed
next
  case (7 kvs)
  show ?case
  proof (cases "kvs = []")
    case True
    then show ?thesis by (intro enough_always) (simp add: skip_ws_def)
  next
    case False
    then obtain cs where "members kvs = 34 # cs" using members_head by blast
    then have e: "next_is 125 (members kvs @ 125 # r) = None" by simp
    show ?thesis
      by (rule enough_step [OF "7.IH" [of r]])
        (use False "7.prems" e in \<open>auto simp: skip_ws_def obj_of_distinct\<close>)
  qed
next
  case (9 v)
  show ?case by (rule enough_step [OF "9.IH" [of "93 # r"]]) (use 9 in auto)
next
  case (10 v w vs)
  have "enough (\<lambda>n. pval n (stringify v @ 44 # elems (w # vs) @ 93 # r) = Some (v, 44 # elems (w # vs) @ 93 # r) \<and>
      pelems n (elems (w # vs) @ 93 # r) = Some (w # vs, r))"
    by (rule enough_conj) (use 10 in auto)
  then show ?case by (rule enough_step) auto
next
  case (12 k v)
  show ?case
    by (rule enough_step [OF "12.IH" [of "125 # r"]])
      (use 12 in \<open>auto simp: pmembers_one simp del: pmembers.simps\<close>)
next
  case (13 k v kv kvs)
  have "enough (\<lambda>n. pval n (stringify v @ 44 # members (kv # kvs) @ 125 # r) =
        Some (v, 44 # members (kv # kvs) @ 125 # r) \<and>
      pmembers n (members (kv # kvs) @ 125 # r) = Some (kv # kvs, r))"
    by (rule enough_conj) (use 13 in auto)
  then show ?case by (rule enough_step) (auto simp: pmembers_one simp del: pmembers.simps)
qed simp_all

lemma json_roundtrip: "wf_json v \<Longrightarrow> json_parse (stringify v) = Some v"
proof -
  assume "wf_json v"
  then obtain m where "pval m (stringify v) = Some (v, [])"
    using stringify_parse(1) [of v "[]"] by (auto simp: enough_def)
  from pval_fuel(1) [OF this]
  have "\<forall>n. 2 * length (stringify v) \<le> n \<longrightarrow> pval n (stringify v) = Some (v, [])"
    by simp
  then have "pval (2 * length (stringify v) + 2) (stringify v) = Some (v, [])"
    by (metis le_add1)
  then show ?thesis by (simp add: json_parse_def skip_ws_def del: pval.simps)
qed

end
