(* ===== verification/Wire.thy ===== *)
theory Wire
  imports Json
begin

text \<open>
  The data model (\<open>packages/models/src\<close>) and the message bodies that ride the encrypted text path:
  typing, call, group, status and media bodies (\<open>apps/mobile/src/typing/wire.ts\<close>,
  \<open>call/wire.ts\<close>, \<open>group/wire.ts\<close>, \<open>store/statuses.ts\<close>, \<open>packages/client/src/media/media.ts\<close>).
  A body is a marker followed by JSON text. The sources cast what \<open>JSON.parse\<close> returns to the
  payload type without checking it: \<open>parse_*\<close> return the JSON value, \<open>*_of_json\<close> say when it
  has the shape the cast promises.
\<close>

subsection \<open>Envelopes, statuses, verdicts\<close>

datatype ciphertext_type = PreKey | Whisper

fun type_code :: "ciphertext_type \<Rightarrow> int" where
  "type_code PreKey = 3"
| "type_code Whisper = 2"

definition type_of_code :: "int \<Rightarrow> ciphertext_type option" where
  "type_of_code n = (if n = 3 then Some PreKey else if n = 2 then Some Whisper else None)"

record envelope =
  env_id :: "jstr option"
  recipientId :: jstr
  recipientDevice :: int
  senderId :: jstr
  senderDevice :: int
  env_type :: ciphertext_type
  ciphertext :: jstr
  timestamp :: int

datatype message_status = Sending | Sent | Delivered | Read

fun status_name :: "message_status \<Rightarrow> jstr" where
  "status_name Sending = js ''sending''"
| "status_name Sent = js ''sent''"
| "status_name Delivered = js ''delivered''"
| "status_name Read = js ''read''"

datatype relay_message =
    SendEnvelope envelope "jstr option"
  | DeliverEnvelope envelope
  | EnvelopeAck jstr int "jstr option"
  | DeliveryReceipt jstr message_status jstr int
  | StatusUpdate jstr message_status
  | RegisterPush jstr

datatype scam_category =
    Advance_fee | Investment_fraud | Romance | Job_offer | Impersonation | Phishing | Lottery
  | Otp_solicitation | Deepfake | Rental_escrow

fun category_label :: "scam_category \<Rightarrow> jstr" where
  "category_label Advance_fee = js ''Advance-fee fraud''"
| "category_label Investment_fraud = js ''Investment fraud''"
| "category_label Romance = js ''Romance scam''"
| "category_label Job_offer = js ''Job offer scam''"
| "category_label Impersonation = js ''Impersonation''"
| "category_label Phishing = js ''Phishing link''"
| "category_label Lottery = js ''Lottery / prize fraud''"
| "category_label Otp_solicitation = js ''Code / password request''"
| "category_label Deepfake = js ''Possible deepfake''"
| "category_label Rental_escrow = js ''Rental / escrow fraud''"

text \<open>Scores are in hundredths: \<open>55\<close> is the 0.55 of the source.\<close>

record scam_verdict =
  flagged :: bool
  category :: "scam_category option"
  score :: int
  modelVersion :: jstr

record fp_report =
  textHash :: jstr
  fp_verdict :: scam_verdict
  reportedAt :: int

subsection \<open>JSON access\<close>

definition as_str :: "json option \<Rightarrow> jstr option" where
  "as_str v = (case v of Some (JStr s) \<Rightarrow> Some s | _ \<Rightarrow> None)"

definition as_int :: "json option \<Rightarrow> int option" where
  "as_int v = (case v of Some (JInt i) \<Rightarrow> Some i | _ \<Rightarrow> None)"

definition as_bool :: "json option \<Rightarrow> bool option" where
  "as_bool v = (case v of Some (JBool b) \<Rightarrow> Some b | _ \<Rightarrow> None)"

text \<open>An optional string field: absent is \<open>Some None\<close>, any other shape \<open>None\<close>.\<close>

definition as_opt_str :: "json option \<Rightarrow> jstr option option" where
  "as_opt_str v = (case v of None \<Rightarrow> Some None | Some (JStr s) \<Rightarrow> Some (Some s) | _ \<Rightarrow> None)"

fun str_list :: "json list \<Rightarrow> jstr list option" where
  "str_list [] = Some []"
| "str_list (JStr s # vs) = map_option (Cons s) (str_list vs)"
| "str_list (_ # vs) = None"

definition as_strs :: "json option \<Rightarrow> jstr list option" where
  "as_strs v = (case v of Some (JArr vs) \<Rightarrow> str_list vs | _ \<Rightarrow> None)"

lemma str_list_map [simp]: "str_list (map JStr xs) = Some xs"
  by (induction xs) auto

text \<open>\<open>if (payload)\<close>: the JavaScript truth value.\<close>

fun truthy :: "json \<Rightarrow> bool" where
  "truthy JNull = False"
| "truthy (JBool b) = b"
| "truthy (JInt i) = (i \<noteq> 0)"
| "truthy (JStr s) = (s \<noteq> [])"
| "truthy _ = True"

text \<open>\<open>JSON.stringify\<close> leaves out a property whose value is \<open>undefined\<close>.\<close>

definition opt_prop :: "string \<Rightarrow> ('a \<Rightarrow> json) \<Rightarrow> 'a option \<Rightarrow> (jstr \<times> json) list" where
  "opt_prop k f x = (case x of None \<Rightarrow> [] | Some a \<Rightarrow> [(js k, f a)])"

subsection \<open>Bodies: a marker and JSON\<close>

definition TYPING_PREFIX :: jstr where "TYPING_PREFIX = js ''hwfa-typing:''"
definition CALL_PREFIX :: jstr where "CALL_PREFIX = js ''hwfa-call:''"
definition GROUP_PREFIX :: jstr where "GROUP_PREFIX = js ''hwfa-group:''"
definition STATUS_PREFIX :: jstr where "STATUS_PREFIX = js ''hwfa-status:''"
definition MEDIA_PREFIX :: jstr where "MEDIA_PREFIX = js ''hwfa-media:''"

lemmas prefix_defs = TYPING_PREFIX_def CALL_PREFIX_def GROUP_PREFIX_def STATUS_PREFIX_def MEDIA_PREFIX_def

definition parse_body :: "jstr \<Rightarrow> jstr \<Rightarrow> json option" where
  "parse_body p body =
    (if starts_with body p then json_parse (drop (length p) body) else None)"

record typing_payload =
  typing :: bool
  typing_gid :: "jstr option"

definition typing_json :: "typing_payload \<Rightarrow> json" where
  "typing_json p = JObj ((js ''typing'', JBool (typing p)) # opt_prop ''gid'' JStr (typing_gid p))"

definition buildTypingBody :: "typing_payload \<Rightarrow> jstr" where
  "buildTypingBody p = TYPING_PREFIX @ stringify (typing_json p)"

definition isTypingBody :: "jstr \<Rightarrow> bool" where
  "isTypingBody body = starts_with body TYPING_PREFIX"

definition parseTypingBody :: "jstr \<Rightarrow> json option" where
  "parseTypingBody body = parse_body TYPING_PREFIX body"

definition typing_of_json :: "json \<Rightarrow> typing_payload option" where
  "typing_of_json v =
    (case (as_bool (field v ''typing''), as_opt_str (field v ''gid'')) of
       (Some t, Some g) \<Rightarrow> Some \<lparr>typing = t, typing_gid = g\<rparr> | _ \<Rightarrow> None)"

record group_payload =
  gid :: jstr
  group_name :: jstr
  group_members :: "jstr list"
  group_text :: jstr

definition group_json :: "group_payload \<Rightarrow> json" where
  "group_json p = JObj [(js ''gid'', JStr (gid p)), (js ''name'', JStr (group_name p)),
     (js ''members'', JArr (map JStr (group_members p))), (js ''text'', JStr (group_text p))]"

definition buildGroupBody :: "group_payload \<Rightarrow> jstr" where
  "buildGroupBody p = GROUP_PREFIX @ stringify (group_json p)"

definition isGroupBody :: "jstr \<Rightarrow> bool" where
  "isGroupBody body = starts_with body GROUP_PREFIX"

definition parseGroupBody :: "jstr \<Rightarrow> json option" where
  "parseGroupBody body = parse_body GROUP_PREFIX body"

definition group_of_json :: "json \<Rightarrow> group_payload option" where
  "group_of_json v =
    (case (as_str (field v ''gid''), as_str (field v ''name''), as_strs (field v ''members''),
           as_str (field v ''text'')) of
       (Some g, Some n, Some ms, Some t) \<Rightarrow>
         Some \<lparr>gid = g, group_name = n, group_members = ms, group_text = t\<rparr> | _ \<Rightarrow> None)"

record status_payload =
  st_id :: jstr
  st_text :: jstr
  st_at :: int
  expiresAt :: int

definition status_json :: "status_payload \<Rightarrow> json" where
  "status_json p = JObj [(js ''id'', JStr (st_id p)), (js ''text'', JStr (st_text p)),
     (js ''at'', JInt (st_at p)), (js ''expiresAt'', JInt (expiresAt p))]"

definition buildStatusBody :: "status_payload \<Rightarrow> jstr" where
  "buildStatusBody p = STATUS_PREFIX @ stringify (status_json p)"

definition isStatusBody :: "jstr \<Rightarrow> bool" where
  "isStatusBody body = starts_with body STATUS_PREFIX"

definition parseStatusBody :: "jstr \<Rightarrow> json option" where
  "parseStatusBody body = parse_body STATUS_PREFIX body"

definition status_of_json :: "json \<Rightarrow> status_payload option" where
  "status_of_json v =
    (case (as_str (field v ''id''), as_str (field v ''text''), as_int (field v ''at''),
           as_int (field v ''expiresAt'')) of
       (Some i, Some t, Some a, Some e) \<Rightarrow>
         Some \<lparr>st_id = i, st_text = t, st_at = a, expiresAt = e\<rparr> | _ \<Rightarrow> None)"

record media_ref =
  keyB64 :: jstr
  ivB64 :: jstr
  mime :: jstr
  msize :: int
  sha256B64 :: jstr
  mname :: "jstr option"
  locator :: jstr

definition media_json :: "media_ref \<Rightarrow> json" where
  "media_json r = JObj ([(js ''keyB64'', JStr (keyB64 r)), (js ''ivB64'', JStr (ivB64 r)),
     (js ''mime'', JStr (mime r)), (js ''size'', JInt (msize r)),
     (js ''sha256B64'', JStr (sha256B64 r))] @ opt_prop ''name'' JStr (mname r) @
     [(js ''locator'', JStr (locator r))])"

definition buildMediaBody :: "media_ref \<Rightarrow> jstr \<Rightarrow> jstr" where
  "buildMediaBody r loc = MEDIA_PREFIX @ stringify (media_json (r\<lparr>locator := loc\<rparr>))"

definition isMediaBody :: "jstr \<Rightarrow> bool" where
  "isMediaBody body = starts_with body MEDIA_PREFIX"

definition parseMediaBody :: "jstr \<Rightarrow> json option" where
  "parseMediaBody body = parse_body MEDIA_PREFIX body"

definition media_of_json :: "json \<Rightarrow> media_ref option" where
  "media_of_json v =
    (case (as_str (field v ''keyB64''), as_str (field v ''ivB64''), as_str (field v ''mime''),
           as_int (field v ''size''), as_str (field v ''sha256B64''), as_opt_str (field v ''name''),
           as_str (field v ''locator'')) of
       (Some k, Some i, Some m, Some s, Some h, Some n, Some l) \<Rightarrow>
         Some \<lparr>keyB64 = k, ivB64 = i, mime = m, msize = s, sha256B64 = h, mname = n, locator = l\<rparr>
     | _ \<Rightarrow> None)"

subsection \<open>Call signals\<close>

datatype signal_type = Ring | Accept | Decline | Ice | Hangup

fun signal_name :: "signal_type \<Rightarrow> jstr" where
  "signal_name Ring = js ''ring''"
| "signal_name Accept = js ''accept''"
| "signal_name Decline = js ''decline''"
| "signal_name Ice = js ''ice''"
| "signal_name Hangup = js ''hangup''"

record sdp =
  sdp_type :: jstr
  sdp_text :: jstr

text \<open>\<open>None\<close> in the last two fields is \<open>null\<close>.\<close>

record ice =
  ice_text :: jstr
  sdpMid :: "jstr option"
  sdpMLineIndex :: "int option"

record call_signal =
  sig_type :: signal_type
  sig_call :: jstr
  sig_video :: "bool option"
  sig_sdp :: "sdp option"
  sig_ice :: "ice option"

definition null_or :: "('a \<Rightarrow> json) \<Rightarrow> 'a option \<Rightarrow> json" where
  "null_or f x = (case x of None \<Rightarrow> JNull | Some a \<Rightarrow> f a)"

definition sdp_json :: "sdp \<Rightarrow> json" where
  "sdp_json d = JObj [(js ''type'', JStr (sdp_type d)), (js ''sdp'', JStr (sdp_text d))]"

definition ice_json :: "ice \<Rightarrow> json" where
  "ice_json c = JObj [(js ''candidate'', JStr (ice_text c)), (js ''sdpMid'', null_or JStr (sdpMid c)),
     (js ''sdpMLineIndex'', null_or JInt (sdpMLineIndex c))]"

definition call_json :: "call_signal \<Rightarrow> json" where
  "call_json s = JObj ([(js ''type'', JStr (signal_name (sig_type s))), (js ''callId'', JStr (sig_call s))] @
     opt_prop ''video'' JBool (sig_video s) @ opt_prop ''sdp'' sdp_json (sig_sdp s) @
     opt_prop ''candidate'' ice_json (sig_ice s))"

definition buildCallBody :: "call_signal \<Rightarrow> jstr" where
  "buildCallBody s = CALL_PREFIX @ stringify (call_json s)"

definition isCallBody :: "jstr \<Rightarrow> bool" where
  "isCallBody body = starts_with body CALL_PREFIX"

definition parseCallBody :: "jstr \<Rightarrow> json option" where
  "parseCallBody body = parse_body CALL_PREFIX body"

definition signal_of_name :: "jstr \<Rightarrow> signal_type option" where
  "signal_of_name n = find (\<lambda>t. signal_name t = n) [Ring, Accept, Decline, Ice, Hangup]"

definition opt_field :: "(json \<Rightarrow> 'a option) \<Rightarrow> json option \<Rightarrow> 'a option option" where
  "opt_field f v = (case v of None \<Rightarrow> Some None | Some j \<Rightarrow> map_option Some (f j))"

definition sdp_of_json :: "json \<Rightarrow> sdp option" where
  "sdp_of_json v =
    (case (as_str (field v ''type''), as_str (field v ''sdp'')) of
       (Some t, Some s) \<Rightarrow> Some \<lparr>sdp_type = t, sdp_text = s\<rparr> | _ \<Rightarrow> None)"

definition null_str :: "json option \<Rightarrow> jstr option option" where
  "null_str v = (case v of None \<Rightarrow> Some None | Some JNull \<Rightarrow> Some None | Some (JStr s) \<Rightarrow> Some (Some s) | _ \<Rightarrow> None)"

definition null_int :: "json option \<Rightarrow> int option option" where
  "null_int v = (case v of None \<Rightarrow> Some None | Some JNull \<Rightarrow> Some None | Some (JInt s) \<Rightarrow> Some (Some s) | _ \<Rightarrow> None)"

definition ice_of_json :: "json \<Rightarrow> ice option" where
  "ice_of_json v =
    (case (as_str (field v ''candidate''), null_str (field v ''sdpMid''), null_int (field v ''sdpMLineIndex'')) of
       (Some c, Some m, Some i) \<Rightarrow> Some \<lparr>ice_text = c, sdpMid = m, sdpMLineIndex = i\<rparr> | _ \<Rightarrow> None)"

definition call_of_json :: "json \<Rightarrow> call_signal option" where
  "call_of_json v =
    (case (Option.bind (as_str (field v ''type'')) signal_of_name, as_str (field v ''callId''),
           opt_field (\<lambda>j. as_bool (Some j)) (field v ''video''), opt_field sdp_of_json (field v ''sdp''),
           opt_field ice_of_json (field v ''candidate'')) of
       (Some t, Some c, Some vd, Some sd, Some ic) \<Rightarrow>
         Some \<lparr>sig_type = t, sig_call = c, sig_video = vd, sig_sdp = sd, sig_ice = ic\<rparr> | _ \<Rightarrow> None)"

subsection \<open>Fresh identifiers\<close>

text \<open>\<open>n.toString(36)\<close>; the random suffix is the caller's.\<close>

fun base36 :: "nat \<Rightarrow> jstr" where
  "base36 n = (let c = (\<lambda>d. of_nat (if d < 10 then 48 + d else 87 + d)) in
     if n < 36 then [c n] else base36 (n div 36) @ [c (n mod 36)])"

declare base36.simps [simp del]

definition fresh_id :: "jstr \<Rightarrow> nat \<Rightarrow> jstr \<Rightarrow> jstr" where
  "fresh_id p now rnd = p @ base36 now @ 45 # rnd"

definition newCallId :: "nat \<Rightarrow> jstr \<Rightarrow> jstr" where
  "newCallId now rnd = fresh_id (js ''call-'') now rnd"

definition newGroupId :: "nat \<Rightarrow> jstr \<Rightarrow> jstr" where
  "newGroupId now rnd = fresh_id (js ''group-'') now rnd"

definition newClientRef :: "nat \<Rightarrow> jstr \<Rightarrow> jstr" where
  "newClientRef now rnd = fresh_id [] now rnd"

subsection \<open>Which store a body goes to\<close>

datatype body_kind = KTyping | KCall | KGroup | KStatus | KMedia | KText

definition body_kind :: "jstr \<Rightarrow> body_kind" where
  "body_kind b = (if isTypingBody b then KTyping else if isCallBody b then KCall
     else if isGroupBody b then KGroup else if isStatusBody b then KStatus
     else if isMediaBody b then KMedia else KText)"

subsection \<open>Round trips\<close>

lemma of_char_16_inject: "(of_char c :: unit16) = of_char d \<longleftrightarrow> c = d"
proof
  assume "(of_char c :: unit16) = of_char d"
  then have "unat (of_nat (of_char c :: nat) :: unit16) = unat (of_nat (of_char d :: nat) :: unit16)"
    by (simp only: of_nat_of_char)
  moreover have "(of_char c :: nat) < 256" "(of_char d :: nat) < 256" by simp_all
  ultimately have "(of_char c :: nat) = of_char d" by (simp add: unat_of_nat del: of_nat_of_char)
  then show "c = d" by simp
qed simp

lemma js_inject [simp]: "js s = js t \<longleftrightarrow> s = t"
proof -
  have "inj (of_char :: char \<Rightarrow> unit16)" by (rule injI) (simp add: of_char_16_inject)
  then show ?thesis by (simp add: js_def inj_map_eq_map)
qed

lemma starts_with_js: "length t \<le> length s \<Longrightarrow> starts_with (js s @ r) (js t) \<longleftrightarrow> take (length t) s = t"
  by (simp add: starts_with_def js_def take_map flip: js_inject)

named_theorems payload_defs \<open>the JSON shape of the payloads and its readers\<close>

lemmas [payload_defs] = field_def as_str_def as_int_def as_bool_def as_opt_str_def as_strs_def
  opt_prop_def null_or_def null_str_def null_int_def opt_field_def

lemma typing_of_json [simp]: "typing_of_json (typing_json p) = Some p"
  by (cases p) (simp add: typing_json_def typing_of_json_def payload_defs split: option.splits)

lemma group_of_json [simp]: "group_of_json (group_json p) = Some p"
  by (cases p) (simp add: group_json_def group_of_json_def payload_defs)

lemma status_of_json [simp]: "status_of_json (status_json p) = Some p"
  by (cases p) (simp add: status_json_def status_of_json_def payload_defs)

lemma media_of_json [simp]: "media_of_json (media_json p) = Some p"
  by (cases p) (simp add: media_json_def media_of_json_def payload_defs split: option.splits)

lemma signal_of_name [simp]: "signal_of_name (signal_name t) = Some t"
  by (cases t) (simp_all add: signal_of_name_def)

lemma sdp_of_json [simp]: "sdp_of_json (sdp_json d) = Some d"
  by (cases d) (simp add: sdp_json_def sdp_of_json_def payload_defs)

lemma ice_of_json [simp]: "ice_of_json (ice_json c) = Some c"
  by (cases c) (simp add: ice_json_def ice_of_json_def payload_defs split: option.splits)

lemma call_of_json [simp]: "call_of_json (call_json s) = Some s"
  by (cases s) (simp add: call_json_def call_of_json_def payload_defs split: option.splits)

lemma wf_payloads [simp]:
  "wf_json (typing_json t)" "wf_json (group_json g)" "wf_json (status_json s)"
  "wf_json (media_json m)" "wf_json (call_json c)"
  by (auto simp: typing_json_def group_json_def status_json_def media_json_def call_json_def
      sdp_json_def ice_json_def payload_defs list_all_iff split: option.splits)

lemma parse_body_build [simp]: "wf_json v \<Longrightarrow> parse_body p (p @ stringify v) = Some v"
  by (simp add: parse_body_def json_roundtrip)

lemma parse_build:
  "parseTypingBody (buildTypingBody t) = Some (typing_json t)"
  "parseGroupBody (buildGroupBody g) = Some (group_json g)"
  "parseStatusBody (buildStatusBody s) = Some (status_json s)"
  "parseMediaBody (buildMediaBody m l) = Some (media_json (m\<lparr>locator := l\<rparr>))"
  "parseCallBody (buildCallBody c) = Some (call_json c)"
  by (simp_all add: parseTypingBody_def buildTypingBody_def parseGroupBody_def buildGroupBody_def
      parseStatusBody_def buildStatusBody_def parseMediaBody_def buildMediaBody_def
      parseCallBody_def buildCallBody_def)

lemma marker_chars [wire_simps]:
  "TYPING_PREFIX = [104, 119, 102, 97, 45, 116, 121, 112, 105, 110, 103, 58]"
  "CALL_PREFIX = [104, 119, 102, 97, 45, 99, 97, 108, 108, 58]"
  "GROUP_PREFIX = [104, 119, 102, 97, 45, 103, 114, 111, 117, 112, 58]"
  "STATUS_PREFIX = [104, 119, 102, 97, 45, 115, 116, 97, 116, 117, 115, 58]"
  "MEDIA_PREFIX = [104, 119, 102, 97, 45, 109, 101, 100, 105, 97, 58]"
  by (simp_all add: prefix_defs js_def of_char_def)

lemmas is_body_defs = isTypingBody_def isCallBody_def isGroupBody_def isStatusBody_def isMediaBody_def

lemma markers_exclusive:
  "isTypingBody b \<Longrightarrow> \<not> isCallBody b \<and> \<not> isGroupBody b \<and> \<not> isStatusBody b \<and> \<not> isMediaBody b"
  "isCallBody b \<Longrightarrow> \<not> isGroupBody b \<and> \<not> isStatusBody b \<and> \<not> isMediaBody b"
  "isGroupBody b \<Longrightarrow> \<not> isStatusBody b \<and> \<not> isMediaBody b"
  "isStatusBody b \<Longrightarrow> \<not> isMediaBody b"
  by (auto simp: is_body_defs starts_with_iff marker_chars)

lemma body_kind_build [simp]:
  "body_kind (buildTypingBody t) = KTyping" "body_kind (buildCallBody c) = KCall"
  "body_kind (buildGroupBody g) = KGroup" "body_kind (buildStatusBody s) = KStatus"
  "body_kind (buildMediaBody m l) = KMedia"
  by (simp_all add: body_kind_def is_body_defs buildTypingBody_def buildCallBody_def
      buildGroupBody_def buildStatusBody_def buildMediaBody_def marker_chars)

subsection \<open>The contract of a body format\<close>

text \<open>
  What the conversation store relies on for each kind of body: what one client builds starts with
  the kind's marker, and parsing it on another client gives a payload of the promised shape.
\<close>

locale wire_body =
  fixes marker :: jstr and build :: "'p \<Rightarrow> jstr" and parse :: "jstr \<Rightarrow> json option"
    and shape :: "json \<Rightarrow> 'p option"
  assumes build_marker: "starts_with (build p) marker"
    and parse_shape: "Option.bind (parse (build p)) shape = Some p"
    and parse_object: "\<exists>kvs. parse (build p) = Some (JObj kvs)"
begin

lemma build_inject: "build p = build q \<longleftrightarrow> p = q"
  by (metis parse_shape option.inject)

lemma parsed: "\<exists>v. parse (build p) = Some v \<and> truthy v \<and> shape v = Some p"
  using parse_object [of p] parse_shape [of p] by auto

end

interpretation typing_body: wire_body TYPING_PREFIX buildTypingBody parseTypingBody typing_of_json
  by unfold_locales (simp_all add: parse_build, simp_all add: buildTypingBody_def typing_json_def)

interpretation group_body: wire_body GROUP_PREFIX buildGroupBody parseGroupBody group_of_json
  by unfold_locales (simp_all add: parse_build, simp_all add: buildGroupBody_def group_json_def)

interpretation status_body: wire_body STATUS_PREFIX buildStatusBody parseStatusBody status_of_json
  by unfold_locales (simp_all add: parse_build, simp_all add: buildStatusBody_def status_json_def)

interpretation call_body: wire_body CALL_PREFIX buildCallBody parseCallBody call_of_json
  by unfold_locales (simp_all add: parse_build, simp_all add: buildCallBody_def call_json_def)

definition mediaBody :: "media_ref \<Rightarrow> jstr" where
  "mediaBody r = buildMediaBody r (locator r)"

interpretation media_body: wire_body MEDIA_PREFIX mediaBody parseMediaBody media_of_json
  by unfold_locales (simp_all add: mediaBody_def parse_build,
      simp_all add: buildMediaBody_def media_json_def)

end
