(* ===== verification/Conversations.thy ===== *)
theory Conversations
  imports Wire
begin

text \<open>
  The app-level conversation store, \<open>apps/mobile/src/store/conversations.ts\<close>.

  The store is a record: the \<open>Map\<close> of threads in insertion order, the id counter, the \<open>started\<close>
  flag, whether the save timer is armed, and the list snapshot (an array of references to the
  threads, so its keys in order; \<open>getConversations\<close> reads through them). Every method is a function
  on that record that also returns the calls it makes on other components, in order (\<open>conv_effect\<close>).
  An \<open>async\<close> method is one function per stretch between two \<open>await\<close>s: nothing else of the store
  runs in between, and everything may run between two stretches. \<open>Date.now()\<close>, the account id and
  the random part of an id are arguments.

  The sources cast parsed payloads without a check. \<open>receive\<close> is \<open>None\<close> where the payload
  lacks the shape the cast promises: what the code does then is not modelled.
\<close>

subsection \<open>State\<close>

datatype media_state = Loading | Ready | Failed

record chat_message =
  m_id :: jstr
  m_text :: jstr
  mine :: bool
  m_at :: int
  clientRef :: "jstr option"
  status :: "message_status option"
  envelopeId :: "jstr option"
  readSent :: bool
  verdict :: "scam_verdict option"
  dismissed :: bool
  media :: "media_ref option"
  mediaMime :: "jstr option"
  mediaName :: "jstr option"
  mediaSize :: "int option"
  mediaUri :: "jstr option"
  mediaState :: "media_state option"
  mediaSaved :: bool
  starred :: bool
  m_sender :: "jstr option"

record group_info =
  g_name :: jstr
  g_members :: "jstr list"

record conversation =
  peerUserId :: jstr
  peerPhone :: "jstr option"
  messages :: "chat_message list"
  unread :: int
  lastAt :: int
  group :: "group_info option"
  peerIdentityB64 :: "jstr option"

text \<open>\<open>PersistedState\<close> as \<open>hydrate\<close> reads it: the fields it defaults may be missing.\<close>

record saved_conversation =
  s_peer :: jstr
  s_phone :: "jstr option"
  s_messages :: "chat_message list option"
  s_unread :: "int option"
  s_lastAt :: "int option"
  s_group :: "group_info option"
  s_identity :: "jstr option"

record persisted =
  p_version :: int
  p_counter :: "nat option"
  p_conversations :: "saved_conversation list option"

record conv_store =
  convs :: "(jstr, conversation) jsmap"
  counter :: nat
  started :: bool
  saveTimer :: bool
  listSnapshot :: "jstr list"

record media_plain =
  pl_bytes :: "byte list"
  pl_mime :: jstr
  pl_name :: "jstr option"

text \<open>The calls a method makes on the outside, in the order it makes them.\<close>

datatype conv_effect =
    Emit
  | ArmSave
  | DisarmSave
  | Save persisted
  | Subscribe
  | LoadBlob
  | SendText jstr jstr "jstr option"
  | SendRead jstr jstr
  | RouteTyping jstr jstr bool
  | RouteCall jstr call_signal
  | RouteStatus jstr status_payload "jstr option"
  | ClearTyping
  | Upload jstr jstr media_plain jstr
  | Download jstr jstr media_ref
  | SaveFile jstr jstr "byte list" jstr jstr

subsection \<open>Helpers of the module\<close>

text \<open>A JavaScript string is falsy when it is empty; \<open>undefined\<close> is.\<close>

fun some_text :: "jstr option \<Rightarrow> bool" where
  "some_text None = False"
| "some_text (Some s) = (s \<noteq> [])"

text \<open>\<open>a ?? b\<close> with an optional right operand.\<close>

fun or_else :: "'a option \<Rightarrow> 'a option \<Rightarrow> 'a option" where
  "or_else None b = b"
| "or_else (Some a) b = Some a"

fun status_rank :: "message_status \<Rightarrow> int" where
  "status_rank Sending = 0"
| "status_rank Sent = 1"
| "status_rank Delivered = 2"
| "status_rank Read = 3"

definition isImageMime :: "jstr option \<Rightarrow> bool" where
  "isImageMime m = (case m of None \<Rightarrow> False | Some s \<Rightarrow> s \<noteq> [] \<and> starts_with s (js ''image/''))"

definition mediaLabel :: "jstr option \<Rightarrow> jstr option \<Rightarrow> jstr" where
  "mediaLabel m name =
    (if isImageMime m then [0xD83D, 0xDCF7] @ js '' Photo''
     else if \<exists>s\<in>set_option m. starts_with s (js ''video/'') then [0xD83C, 0xDFAC] @ js '' Video''
     else if \<exists>s\<in>set_option m. starts_with s (js ''audio/'') then [0xD83C, 0xDFB5] @ js '' Audio''
     else [0xD83D, 0xDCCE] @ js '' '' @ (case name of None \<Rightarrow> js ''File'' | Some n \<Rightarrow> n))"

definition base64FromDataUri :: "jstr \<Rightarrow> jstr" where
  "base64FromDataUri uri =
    (case find_index (\<lambda>c. c = 44) uri of None \<Rightarrow> [] | Some comma \<Rightarrow> drop (Suc comma) uri)"

text \<open>\<open>mediaService.ts\<close>.\<close>

definition toDataUri :: "byte list \<Rightarrow> jstr \<Rightarrow> jstr" where
  "toDataUri bytes m = js ''data:'' @ m @ js '';base64,'' @ bytes_to_base64 bytes"

subsection \<open>Internals: \<open>ensure\<close>, \<open>make\<close>, \<open>rebuild\<close>, \<open>emit\<close>, \<open>schedulePersist\<close>\<close>

definition init_store :: conv_store where
  "init_store = \<lparr>convs = [], counter = 0, started = False, saveTimer = False, listSnapshot = []\<rparr>"

definition conv_of :: "conv_store \<Rightarrow> jstr \<Rightarrow> conversation option" where
  "conv_of s peer = map_of (convs s) peer"

definition put :: "jstr \<Rightarrow> conversation \<Rightarrow> conv_store \<Rightarrow> conv_store" where
  "put peer c s = s\<lparr>convs := map_set peer c (convs s)\<rparr>"

definition empty_conv :: "jstr \<Rightarrow> conversation" where
  "empty_conv peer = \<lparr>peerUserId = peer, peerPhone = None, messages = [], unread = 0, lastAt = 0,
     group = None, peerIdentityB64 = None\<rparr>"

definition ensure :: "jstr \<Rightarrow> conv_store \<Rightarrow> conv_store \<times> conversation" where
  "ensure peer s =
    (case conv_of s peer of
       Some c \<Rightarrow> (s, c)
     | None \<Rightarrow> (put peer (empty_conv peer) s, empty_conv peer))"

definition msg_id :: "nat \<Rightarrow> jstr" where
  "msg_id n = js ''m'' @ dec_digits n"

definition client_ref :: "nat \<Rightarrow> nat \<Rightarrow> jstr" where
  "client_ref n at = js ''c'' @ dec_digits n @ js ''-'' @ base36 at"

definition make :: "jstr \<Rightarrow> bool \<Rightarrow> int \<Rightarrow> conv_store \<Rightarrow> conv_store \<times> chat_message" where
  "make text own at s =
    (s\<lparr>counter := Suc (counter s)\<rparr>,
     \<lparr>m_id = msg_id (counter s), m_text = text, mine = own, m_at = at, clientRef = None,
      status = None, envelopeId = None, readSent = False, verdict = None, dismissed = False,
      media = None, mediaMime = None, mediaName = None, mediaSize = None, mediaUri = None,
      mediaState = None, mediaSaved = False, starred = False, m_sender = None\<rparr>)"

definition rebuild :: "conv_store \<Rightarrow> conv_store" where
  "rebuild s = s\<lparr>listSnapshot := map fst (sort_desc (\<lambda>p. lastAt (snd p)) (convs s))\<rparr>"

definition schedulePersist :: "conv_store \<Rightarrow> conv_store \<times> conv_effect list" where
  "schedulePersist s = (if saveTimer s then (s, []) else (s\<lparr>saveTimer := True\<rparr>, [ArmSave]))"

definition emit :: "conv_store \<Rightarrow> conv_store \<times> conv_effect list" where
  "emit s = (let (s', es) = schedulePersist s in (s', Emit # es))"

definition publish :: "conv_store \<Rightarrow> conv_store \<times> conv_effect list" where
  "publish s = emit (rebuild s)"

definition strip_media :: "chat_message \<Rightarrow> chat_message" where
  "strip_media m = m\<lparr>mediaUri := None, mediaState := None\<rparr>"

definition save_conv :: "conversation \<Rightarrow> saved_conversation" where
  "save_conv c = \<lparr>s_peer = peerUserId c, s_phone = peerPhone c,
     s_messages = Some (map strip_media (messages c)), s_unread = Some (unread c),
     s_lastAt = Some (lastAt c), s_group = group c, s_identity = peerIdentityB64 c\<rparr>"

definition to_persist :: "conv_store \<Rightarrow> persisted" where
  "to_persist s = \<lparr>p_version = 1, p_counter = Some (counter s),
     p_conversations = Some (map (\<lambda>p. save_conv (snd p)) (convs s))\<rparr>"

text \<open>The timer's callback.\<close>

definition persist_tick :: "conv_store \<Rightarrow> conv_store \<times> conv_effect list" where
  "persist_tick s = (s\<lparr>saveTimer := False\<rparr>, [Save (to_persist s)])"

subsection \<open>Reading\<close>

definition getConversations :: "conv_store \<Rightarrow> conversation list" where
  "getConversations s = List.map_filter (conv_of s) (listSnapshot s)"

definition getMessages :: "conv_store \<Rightarrow> jstr \<Rightarrow> chat_message list" where
  "getMessages s peer = (case conv_of s peer of None \<Rightarrow> [] | Some c \<Rightarrow> messages c)"

definition getStarred :: "conv_store \<Rightarrow> (chat_message \<times> jstr \<times> jstr option) list" where
  "getStarred s = sort_desc (\<lambda>e. m_at (fst e))
     (concat (map (\<lambda>p. map (\<lambda>m. (m, peerUserId (snd p), peerPhone (snd p)))
        (filter starred (messages (snd p)))) (convs s)))"

subsection \<open>Starting and hydrating\<close>

definition start :: "conv_store \<Rightarrow> conv_store \<times> conv_effect list" where
  "start s = (if started s then (s, []) else (s\<lparr>started := True\<rparr>, [Subscribe, LoadBlob]))"

text \<open>One round of the \<open>for\<close> loop of \<open>hydrate\<close>. The literal of the \<open>else\<close> branch has five fields.\<close>

definition hydrate_one :: "conv_store \<Rightarrow> saved_conversation \<Rightarrow> conv_store" where
  "hydrate_one s c =
    (let ms = (case s_messages c of None \<Rightarrow> [] | Some l \<Rightarrow> l);
         un = (case s_unread c of None \<Rightarrow> 0 | Some n \<Rightarrow> n);
         la = (case s_lastAt c of None \<Rightarrow> 0 | Some n \<Rightarrow> n) in
     case conv_of s (s_peer c) of
       Some e \<Rightarrow> put (s_peer c)
         (e\<lparr>messages := ms @ messages e, peerPhone := or_else (peerPhone e) (s_phone c),
            unread := unread e + un, lastAt := max (lastAt e) la\<rparr>) s
     | None \<Rightarrow> put (s_peer c)
         \<lparr>peerUserId = s_peer c, peerPhone = s_phone c, messages = ms, unread = un, lastAt = la,
          group = None, peerIdentityB64 = None\<rparr> s)"

text \<open>After \<open>await loadMessages()\<close>; \<open>None\<close> is an absent or corrupt blob.\<close>

definition hydrate :: "persisted option \<Rightarrow> conv_store \<Rightarrow> conv_store \<times> conv_effect list" where
  "hydrate blob s =
    (case blob of None \<Rightarrow> (s, [])
     | Some d \<Rightarrow>
         (let s1 = s\<lparr>counter := max (counter s) (case p_counter d of None \<Rightarrow> 0 | Some n \<Rightarrow> n)\<rparr>;
              s2 = foldl hydrate_one s1 (case p_conversations d of None \<Rightarrow> [] | Some cs \<Rightarrow> cs)
          in publish s2))"

subsection \<open>Peers and outbound text\<close>

definition setPeerIdentity :: "jstr \<Rightarrow> jstr \<Rightarrow> conv_store \<Rightarrow> conv_store \<times> conv_effect list" where
  "setPeerIdentity peer key s =
    (case conv_of s peer of None \<Rightarrow> (s, [])
     | Some c \<Rightarrow> if peerIdentityB64 c = Some key then (s, [])
                 else publish (put peer (c\<lparr>peerIdentityB64 := Some key\<rparr>) s))"

definition ensurePeer :: "jstr \<Rightarrow> jstr option \<Rightarrow> conv_store \<Rightarrow> conv_store \<times> conv_effect list" where
  "ensurePeer peer phone s =
    (let (s1, c) = ensure peer s in
     if some_text phone \<and> peerPhone c \<noteq> phone
     then publish (put peer (c\<lparr>peerPhone := phone\<rparr>) s1) else (s1, []))"

definition append_msg :: "jstr \<Rightarrow> conversation \<Rightarrow> chat_message \<Rightarrow> int \<Rightarrow> conv_store \<Rightarrow>
    conv_store \<times> conv_effect list" where
  "append_msg peer c m at s = publish (put peer (c\<lparr>messages := messages c @ [m], lastAt := at\<rparr>) s)"

definition others :: "jstr option \<Rightarrow> jstr list \<Rightarrow> jstr list" where
  "others me ms = filter (\<lambda>m. Some m \<noteq> me) ms"

definition roster :: "jstr option \<Rightarrow> jstr list \<Rightarrow> jstr list" where
  "roster me ms = (case me of Some a \<Rightarrow> if a \<noteq> [] then uniq (ms @ [a]) else ms | None \<Rightarrow> ms)"

definition sendGroup :: "jstr option \<Rightarrow> nat \<Rightarrow> jstr \<Rightarrow> conversation \<Rightarrow> group_info \<Rightarrow> jstr \<Rightarrow>
    conv_store \<Rightarrow> conv_store \<times> conv_effect list" where
  "sendGroup me now peer c g text s =
    (let (s1, m) = make text True (int now) s;
         (s2, es) = append_msg peer c m (int now) s1;
         body = buildGroupBody \<lparr>gid = peerUserId c, group_name = g_name g,
                  group_members = roster me (g_members g), group_text = text\<rparr>
     in (s2, es @ map (\<lambda>p. SendText p body None) (others me (g_members g))))"

definition send :: "jstr option \<Rightarrow> nat \<Rightarrow> jstr \<Rightarrow> jstr \<Rightarrow> conv_store \<Rightarrow> conv_store \<times> conv_effect list" where
  "send me now peer text s =
    (let (s1, c) = ensure peer s in
     case group c of
       Some g \<Rightarrow> sendGroup me now peer c g text s1
     | None \<Rightarrow>
         (let (s2, m) = make text True (int now) s1;
              ref = client_ref (counter s2) now;
              (s3, es) = append_msg peer c (m\<lparr>clientRef := Some ref, status := Some Sending\<rparr>)
                (int now) s2
          in (s3, es @ [SendText peer text (Some ref)])))"

definition createGroup :: "nat \<Rightarrow> jstr \<Rightarrow> jstr \<Rightarrow> jstr list \<Rightarrow> conv_store \<Rightarrow>
    conv_store \<times> conv_effect list \<times> jstr" where
  "createGroup now rnd name ms s =
    (let g = newGroupId now rnd;
         (s1, c) = ensure g s;
         (s2, es) = publish (put g (c\<lparr>group := Some \<lparr>g_name = name, g_members = ms\<rparr>,
                      lastAt := int now\<rparr>) s1)
     in (s2, es, g))"

definition sendTyping :: "jstr option \<Rightarrow> jstr \<Rightarrow> bool \<Rightarrow> conv_store \<Rightarrow> conv_store \<times> conv_effect list" where
  "sendTyping me cid on s =
    (case conv_of s cid of None \<Rightarrow> (s, [])
     | Some c \<Rightarrow>
         if messages c = [] then (s, [])
         else (case group c of
             Some g \<Rightarrow> (s, map (\<lambda>p. SendText p (buildTypingBody \<lparr>typing = on, typing_gid = Some cid\<rparr>) None)
                             (others me (g_members g)))
           | None \<Rightarrow> (s, [SendText cid (buildTypingBody \<lparr>typing = on, typing_gid = None\<rparr>) None])))"

definition ensureGroup :: "jstr option \<Rightarrow> group_payload \<Rightarrow> conv_store \<Rightarrow> conv_store \<times> conversation" where
  "ensureGroup me p s =
    (let (s1, c) = ensure (gid p) s;
         ms = (if some_text me then others me (group_members p) else group_members p);
         c1 = c\<lparr>group := Some \<lparr>g_name = group_name p, g_members = ms\<rparr>\<rparr>
     in (put (gid p) c1 s1, c1))"

subsection \<open>One message\<close>

definition patch :: "jstr \<Rightarrow> jstr \<Rightarrow> (chat_message \<Rightarrow> chat_message) \<Rightarrow> conv_store \<Rightarrow>
    conv_store \<times> conv_effect list" where
  "patch peer mid f s =
    (case conv_of s peer of None \<Rightarrow> (s, [])
     | Some c \<Rightarrow>
         (case find_index (\<lambda>m. m_id m = mid) (messages c) of None \<Rightarrow> (s, [])
          | Some i \<Rightarrow> publish (put peer
              (c\<lparr>messages := splice_at i (f (messages c ! i)) (messages c)\<rparr>) s)))"

definition rank_of :: "chat_message \<Rightarrow> int" where
  "rank_of m = (case status m of None \<Rightarrow> - 1 | Some t \<Rightarrow> status_rank t)"

text \<open>The first thread that holds the reference is the one that is updated, or left as it is.\<close>

fun status_loop :: "jstr \<Rightarrow> message_status \<Rightarrow> (jstr, conversation) jsmap \<Rightarrow> conv_store \<Rightarrow>
    conv_store \<times> conv_effect list" where
  "status_loop ref t [] s = (s, [])"
| "status_loop ref t ((peer, c) # rest) s =
    (case find_index (\<lambda>m. clientRef m = Some ref) (messages c) of
       None \<Rightarrow> status_loop ref t rest s
     | Some i \<Rightarrow>
         if status_rank t \<le> rank_of (messages c ! i) then (s, [])
         else publish (put peer
           (c\<lparr>messages := splice_at i ((messages c ! i)\<lparr>status := Some t\<rparr>) (messages c)\<rparr>) s))"

definition applyStatus :: "jstr \<Rightarrow> message_status \<Rightarrow> conv_store \<Rightarrow> conv_store \<times> conv_effect list" where
  "applyStatus ref t s = status_loop ref t (convs s) s"

definition needs_receipt :: "chat_message \<Rightarrow> bool" where
  "needs_receipt m = (\<not> mine m \<and> \<not> readSent m \<and> some_text (envelopeId m))"

definition receipt_of :: "jstr \<Rightarrow> chat_message \<Rightarrow> conv_effect" where
  "receipt_of peer m = SendRead (case m_sender m of None \<Rightarrow> peer | Some u \<Rightarrow> u) (the (envelopeId m))"

definition mark_msg :: "chat_message \<Rightarrow> chat_message" where
  "mark_msg m = (if needs_receipt m then m\<lparr>readSent := True\<rparr> else m)"

text \<open>A receipt that throws is caught, and the message is marked all the same.\<close>

definition markRead :: "jstr \<Rightarrow> conv_store \<Rightarrow> conv_store \<times> conv_effect list" where
  "markRead peer s =
    (case conv_of s peer of None \<Rightarrow> (s, [])
     | Some c \<Rightarrow>
         (let due = filter needs_receipt (messages c);
              s1 = put peer (c\<lparr>messages := map mark_msg (messages c), unread := 0\<rparr>) s;
              receipts = map (receipt_of peer) due
          in if due \<noteq> [] \<or> unread c \<noteq> 0
             then (let (s2, es) = publish s1 in (s2, receipts @ es)) else (s1, receipts)))"

definition map_msg :: "jstr \<Rightarrow> jstr \<Rightarrow> (chat_message \<Rightarrow> chat_message) \<Rightarrow> conv_store \<Rightarrow>
    conv_store \<times> conv_effect list" where
  "map_msg peer mid f s =
    (case conv_of s peer of None \<Rightarrow> (s, [])
     | Some c \<Rightarrow> publish (put peer
         (c\<lparr>messages := map (\<lambda>m. if m_id m = mid then f m else m) (messages c)\<rparr>) s))"

definition toggleStar :: "jstr \<Rightarrow> jstr \<Rightarrow> conv_store \<Rightarrow> conv_store \<times> conv_effect list" where
  "toggleStar peer mid s = map_msg peer mid (\<lambda>m. m\<lparr>starred := \<not> starred m\<rparr>) s"

definition dismissScamWarning :: "jstr \<Rightarrow> jstr \<Rightarrow> conv_store \<Rightarrow> conv_store \<times> conv_effect list" where
  "dismissScamWarning peer mid s = map_msg peer mid (\<lambda>m. m\<lparr>dismissed := True\<rparr>) s"

definition reset :: "conv_store \<Rightarrow> conv_store \<times> conv_effect list" where
  "reset s =
    (let s1 = s\<lparr>saveTimer := False, convs := [], counter := 0\<rparr>;
         (s2, es) = publish s1
     in (s2, (if saveTimer s then [DisarmSave] else []) @ ClearTyping # es @
          [Save \<lparr>p_version = 1, p_counter = Some 0, p_conversations = Some []\<rparr>]))"

subsection \<open>Attachments\<close>

text \<open>\<open>sendMedia\<close> up to the upload, after it, and when either await fails.\<close>

definition sendMedia :: "nat \<Rightarrow> jstr \<Rightarrow> media_plain \<Rightarrow> conv_store \<Rightarrow> conv_store \<times> conv_effect list" where
  "sendMedia now peer d s =
    (let (s1, c) = ensure peer s;
         (s2, m) = make (mediaLabel (Some (pl_mime d)) (pl_name d)) True (int now) s1;
         ref = client_ref (counter s2) now;
         m1 = m\<lparr>clientRef := Some ref, status := Some Sending, mediaMime := Some (pl_mime d),
                mediaName := pl_name d, mediaSize := Some (int (length (pl_bytes d)))\<rparr>;
         m2 = (if isImageMime (Some (pl_mime d))
               then m1\<lparr>mediaUri := Some (toDataUri (pl_bytes d) (pl_mime d)), mediaState := Some Ready\<rparr>
               else m1);
         (s3, es) = append_msg peer c m2 (int now) s2
     in (s3, es @ [Upload peer (m_id m2) d ref]))"

definition sendMedia_uploaded :: "jstr \<Rightarrow> jstr \<Rightarrow> jstr \<Rightarrow> media_ref \<Rightarrow> conv_store \<Rightarrow>
    conv_store \<times> conv_effect list" where
  "sendMedia_uploaded peer mid ref r s =
    (let (s1, es) = patch peer mid (\<lambda>m. m\<lparr>media := Some r\<rparr>) s
     in (s1, es @ [SendText peer (buildMediaBody r (locator r)) (Some ref)]))"

definition sendMedia_failed :: "jstr \<Rightarrow> jstr \<Rightarrow> conv_store \<Rightarrow> conv_store \<times> conv_effect list" where
  "sendMedia_failed peer mid s = patch peer mid (\<lambda>m. m\<lparr>mediaState := Some Failed\<rparr>) s"

text \<open>\<open>loadMedia\<close> up to the download and after it (\<open>None\<close>: it threw).\<close>

definition loadMedia :: "jstr \<Rightarrow> jstr \<Rightarrow> media_ref \<Rightarrow> conv_store \<Rightarrow> conv_store \<times> conv_effect list" where
  "loadMedia peer mid r s =
    (let (s1, es) = patch peer mid (\<lambda>m. m\<lparr>mediaState := Some Loading\<rparr>) s
     in (s1, es @ [Download peer mid r]))"

definition loadMedia_done :: "jstr \<Rightarrow> jstr \<Rightarrow> media_plain option \<Rightarrow> conv_store \<Rightarrow>
    conv_store \<times> conv_effect list" where
  "loadMedia_done peer mid res s =
    (case res of
       Some d \<Rightarrow> patch peer mid (\<lambda>m. m\<lparr>mediaUri := Some (toDataUri (pl_bytes d) (pl_mime d)),
                                   mediaState := Some Ready\<rparr>) s
     | None \<Rightarrow> patch peer mid (\<lambda>m. m\<lparr>mediaState := Some Failed\<rparr>) s)"

definition wants_fetch :: "chat_message \<Rightarrow> bool" where
  "wants_fetch m = (media m \<noteq> None \<and> \<not> some_text (mediaUri m) \<and> mediaState m \<noteq> Some Loading)"

fun load_all :: "jstr \<Rightarrow> chat_message list \<Rightarrow> conv_store \<Rightarrow> conv_store \<times> conv_effect list" where
  "load_all peer [] s = (s, [])"
| "load_all peer (m # ms) s =
    (case media m of
       Some r \<Rightarrow>
         if isImageMime (Some (mime r)) \<and> wants_fetch m
         then (let (s1, e1) = loadMedia peer (m_id m) r s; (s2, e2) = load_all peer ms s1 in (s2, e1 @ e2))
         else load_all peer ms s
     | None \<Rightarrow> load_all peer ms s)"

definition loadPendingMedia :: "jstr \<Rightarrow> conv_store \<Rightarrow> conv_store \<times> conv_effect list" where
  "loadPendingMedia peer s =
    (case conv_of s peer of None \<Rightarrow> (s, []) | Some c \<Rightarrow> load_all peer (messages c) s)"

definition find_msg :: "conv_store \<Rightarrow> jstr \<Rightarrow> jstr \<Rightarrow> chat_message option" where
  "find_msg s peer mid =
    (case conv_of s peer of None \<Rightarrow> None | Some c \<Rightarrow> find (\<lambda>m. m_id m = mid) (messages c))"

definition downloadMedia :: "jstr \<Rightarrow> jstr \<Rightarrow> conv_store \<Rightarrow> conv_store \<times> conv_effect list" where
  "downloadMedia peer mid s =
    (case find_msg s peer mid of None \<Rightarrow> (s, [])
     | Some m \<Rightarrow>
         (case media m of None \<Rightarrow> (s, [])
          | Some r \<Rightarrow> if wants_fetch m then loadMedia peer mid r s else (s, [])))"

datatype save_result = NoMedia | FetchFirst | CannotLoad | NoData | BadBase64 | Writing

text \<open>\<open>saveMedia\<close> from the point where the message is at hand: the data URI to the file.\<close>

definition save_bytes :: "(jstr \<Rightarrow> byte list) \<Rightarrow> jstr \<Rightarrow> jstr \<Rightarrow> media_ref \<Rightarrow> chat_message \<Rightarrow>
    save_result \<times> conv_effect list" where
  "save_bytes decode peer mid r m =
    (let d = base64FromDataUri (the (mediaUri m)) in
     if d = [] then (NoData, [])
     else (Writing, [SaveFile peer mid (decode d) (mime r)
             (the (or_else (mname r) (or_else (mediaName m) (Some (js ''file'')))))]))"

definition saveMedia :: "(jstr \<Rightarrow> byte list) \<Rightarrow> jstr \<Rightarrow> jstr \<Rightarrow> conv_store \<Rightarrow>
    conv_store \<times> save_result \<times> conv_effect list" where
  "saveMedia decode peer mid s =
    (case find_msg s peer mid of None \<Rightarrow> (s, NoMedia, [])
     | Some m \<Rightarrow>
         (case media m of None \<Rightarrow> (s, NoMedia, [])
          | Some r \<Rightarrow>
              if some_text (mediaUri m) then (s, save_bytes decode peer mid r m)
              else (let (s1, es) = loadMedia peer mid r s in (s1, FetchFirst, es))))"

text \<open>After the awaited \<open>loadMedia\<close>, and after the file is written.\<close>

definition saveMedia_loaded :: "(jstr \<Rightarrow> byte list) \<Rightarrow> jstr \<Rightarrow> jstr \<Rightarrow> media_ref \<Rightarrow> conv_store \<Rightarrow>
    save_result \<times> conv_effect list" where
  "saveMedia_loaded decode peer mid r s =
    (case find_msg s peer mid of None \<Rightarrow> (CannotLoad, [])
     | Some m \<Rightarrow> if some_text (mediaUri m) then save_bytes decode peer mid r m else (CannotLoad, []))"

definition saveMedia_done :: "jstr \<Rightarrow> jstr \<Rightarrow> conv_store \<Rightarrow> conv_store \<times> conv_effect list" where
  "saveMedia_done peer mid s = patch peer mid (\<lambda>m. m\<lparr>mediaSaved := True\<rparr>) s"

subsection \<open>Inbound\<close>

definition with_env :: "jstr option \<Rightarrow> chat_message \<Rightarrow> chat_message" where
  "with_env env m = (if some_text env then m\<lparr>envelopeId := env\<rparr> else m)"

definition receive_group :: "jstr option \<Rightarrow> jstr \<Rightarrow> group_payload \<Rightarrow> int \<Rightarrow> jstr option \<Rightarrow>
    scam_verdict option \<Rightarrow> conv_store \<Rightarrow> conv_store \<times> conv_effect list" where
  "receive_group me peer p at env v s =
    (let (s1, c) = ensureGroup me p s;
         (s2, m) = make (group_text p) False at s1;
         m1 = with_env env (m\<lparr>m_sender := Some peer\<rparr>);
         m2 = (case v of None \<Rightarrow> m1 | Some _ \<Rightarrow> m1\<lparr>verdict := v\<rparr>)
     in append_msg (gid p) (c\<lparr>unread := unread c + 1\<rparr>) m2 at s2)"

definition receive_text :: "jstr \<Rightarrow> jstr \<Rightarrow> int \<Rightarrow> jstr option \<Rightarrow> scam_verdict option \<Rightarrow>
    conv_store \<Rightarrow> conv_store \<times> conv_effect list" where
  "receive_text peer text at env v s =
    (let (s1, c) = ensure peer s;
         (s2, m) = make text False at s1;
         m1 = with_env env m;
         m2 = (case v of None \<Rightarrow> m1 | Some _ \<Rightarrow> m1\<lparr>verdict := v\<rparr>)
     in append_msg peer (c\<lparr>unread := unread c + 1\<rparr>) m2 at s2)"

definition receive_media :: "jstr \<Rightarrow> media_ref \<Rightarrow> int \<Rightarrow> jstr option \<Rightarrow>
    conv_store \<Rightarrow> conv_store \<times> conv_effect list" where
  "receive_media peer r at env s =
    (let (s1, c) = ensure peer s;
         (s2, m) = make (mediaLabel (Some (mime r)) (mname r)) False at s1;
         m1 = (with_env env m)\<lparr>media := Some r, mediaMime := Some (mime r), mediaName := mname r,
                mediaSize := Some (msize r)\<rparr>;
         m2 = (if isImageMime (Some (mime r)) then m1\<lparr>mediaState := Some Loading\<rparr> else m1);
         (s3, es) = append_msg peer (c\<lparr>unread := unread c + 1\<rparr>) m2 at s2
     in if isImageMime (Some (mime r))
        then (let (s4, es2) = loadMedia peer (m_id m2) r s3 in (s4, es @ es2)) else (s3, es))"

text \<open>\<open>if (payload) k\<close>: nothing for \<open>null\<close> or a falsy payload, \<open>None\<close> for a shape the cast hides.\<close>

definition on_payload :: "json option \<Rightarrow> (json \<Rightarrow> 'a option) \<Rightarrow> 'b \<Rightarrow> ('a \<Rightarrow> 'b) \<Rightarrow> 'b option" where
  "on_payload p shape skip k =
    (case p of None \<Rightarrow> Some skip
     | Some v \<Rightarrow> if truthy v then map_option k (shape v) else Some skip)"

definition receive :: "jstr option \<Rightarrow> jstr \<Rightarrow> jstr \<Rightarrow> int \<Rightarrow> jstr option \<Rightarrow> scam_verdict option \<Rightarrow>
    conv_store \<Rightarrow> (conv_store \<times> conv_effect list) option" where
  "receive me peer text at env v s =
    (if isTypingBody text then
       on_payload (parseTypingBody text) typing_of_json (s, [])
         (\<lambda>p. (s, [RouteTyping (case typing_gid p of None \<Rightarrow> peer | Some g \<Rightarrow> g) peer (typing p)]))
     else if isCallBody text then
       on_payload (parseCallBody text) call_of_json (s, []) (\<lambda>c. (s, [RouteCall peer c]))
     else if isGroupBody text then
       on_payload (parseGroupBody text) group_of_json (s, [])
         (\<lambda>p. receive_group me peer p at env v s)
     else if isStatusBody text then
       on_payload (parseStatusBody text) status_of_json (s, [])
         (\<lambda>p. (s, [RouteStatus peer p (Option.bind (conv_of s peer) peerPhone)]))
     else if isMediaBody text then
       on_payload (parseMediaBody text) media_of_json (receive_text peer text at env v s)
         (\<lambda>r. receive_media peer r at env s)
     else Some (receive_text peer text at env v s))"

end
