(* ===== verification/ConvInvariant.thy ===== *)
theory ConvInvariant
  imports Conversations
begin

text \<open>
  The invariant of the conversation store over every run of its methods, restarts included: threads
  are keyed by their peer, message ids are fresh and unique across all threads, a client reference
  names the one outbound message that carries it, receipts and statuses sit on the right side of a
  thread, and the list snapshot names existing threads once each. \<open>conv_step\<close> has one rule per
  method (or stretch of an \<open>async\<close> method) and \<open>conv_reach\<close> is its closure.
\<close>

interpretation convs: keyed_store conv_of put "\<lambda>s. map_ok (convs s)"
  by unfold_locales (auto simp: conv_of_def put_def)

subsection \<open>Identifiers\<close>

lemma dec_digits_inject [simp]: "dec_digits m = dec_digits n \<longleftrightarrow> m = n"
  by (metis digits_val_dec)

lemma msg_id_inject [simp]: "msg_id m = msg_id n \<longleftrightarrow> m = n"
  by (simp add: msg_id_def)

lemma takeWhile_digits: "takeWhile is_digit (dec_digits n @ 45 # r) = dec_digits n"
proof -
  have "takeWhile is_digit (dec_digits n @ 45 # r) = dec_digits n @ takeWhile is_digit (45 # r)"
    by (rule takeWhile_append2) (simp add: dec_digits_digits)
  then show ?thesis by (simp add: is_digit_def)
qed

lemma client_ref_inject: "client_ref m a = client_ref n b \<Longrightarrow> m = n"
proof -
  assume "client_ref m a = client_ref n b"
  then have "dec_digits m @ 45 # base36 a = dec_digits n @ 45 # base36 b"
    by (simp add: client_ref_def js_Cons of_char_def)
  then have "takeWhile is_digit (dec_digits m @ 45 # base36 a) = takeWhile is_digit (dec_digits n @ 45 # base36 b)"
    by simp
  then show "m = n" by (simp only: takeWhile_digits dec_digits_inject)
qed

subsection \<open>The invariant\<close>

definition ids :: "conversation \<Rightarrow> jstr set" where
  "ids c = m_id ` set (messages c)"

definition ref_ok :: "chat_message \<Rightarrow> nat \<Rightarrow> bool" where
  "ref_ok m i = (\<forall>r. clientRef m = Some r \<longrightarrow> mine m \<and> (\<exists>a. r = client_ref (Suc i) a))"

definition msg_ok :: "nat \<Rightarrow> chat_message \<Rightarrow> bool" where
  "msg_ok n m \<longleftrightarrow> (\<exists>i<n. m_id m = msg_id i \<and> ref_ok m i) \<and>
     (mine m \<longrightarrow> \<not> readSent m \<and> envelopeId m = None) \<and> (status m \<noteq> None \<longrightarrow> clientRef m \<noteq> None) \<and>
     (mine m \<longrightarrow> verdict m = None)"

definition conv_ok :: "nat \<Rightarrow> jstr \<Rightarrow> conversation \<Rightarrow> bool" where
  "conv_ok n peer c \<longleftrightarrow> peerUserId c = peer \<and> distinct (map m_id (messages c)) \<and> 0 \<le> unread c \<and>
     (\<forall>m\<in>set (messages c). msg_ok n m)"

definition store_inv :: "conv_store \<Rightarrow> bool" where
  "store_inv s \<longleftrightarrow> map_ok (convs s) \<and>
     (\<forall>k c. conv_of s k = Some c \<longrightarrow> conv_ok (counter s) k c) \<and>
     (\<forall>k c j d. conv_of s k = Some c \<longrightarrow> conv_of s j = Some d \<longrightarrow> k \<noteq> j \<longrightarrow> ids c \<inter> ids d = {}) \<and>
     distinct (listSnapshot s) \<and> set (listSnapshot s) \<subseteq> fst ` set (convs s)"

lemma store_invD:
  assumes "store_inv s"
  shows "map_ok (convs s)" "conv_of s k = Some c \<Longrightarrow> conv_ok (counter s) k c"
    "conv_of s k = Some c \<Longrightarrow> conv_of s j = Some d \<Longrightarrow> k \<noteq> j \<Longrightarrow> ids c \<inter> ids d = {}"
  using assms by (auto simp: store_inv_def)

lemma msg_ok_mono: "msg_ok n m \<Longrightarrow> n \<le> k \<Longrightarrow> msg_ok k m"
  unfolding msg_ok_def by (meson order_less_le_trans)

lemma conv_ok_mono: "conv_ok n p c \<Longrightarrow> n \<le> k \<Longrightarrow> conv_ok k p c"
  by (auto simp: conv_ok_def intro: msg_ok_mono)

lemma conv_ok_ids: "conv_ok n p c \<Longrightarrow> x \<in> ids c \<Longrightarrow> \<exists>i<n. x = msg_id i"
  by (auto simp: conv_ok_def ids_def msg_ok_def)

lemma put_simps [simp]:
  "counter (put k c s) = counter s" "listSnapshot (put k c s) = listSnapshot s"
  "saveTimer (put k c s) = saveTimer s" "started (put k c s) = started s"
  "convs (put k c s) = map_set k c (convs s)"
  by (simp_all add: put_def)

lemma conv_of_put [simp]: "conv_of (put k c s) j = (if j = k then Some c else conv_of s j)"
  by (rule convs.look_store)

lemma conv_of_ext [simp]:
  "conv_of (s\<lparr>counter := n\<rparr>) = conv_of s" "conv_of (s\<lparr>started := b\<rparr>) = conv_of s"
  "conv_of (s\<lparr>saveTimer := b\<rparr>) = conv_of s" "conv_of (s\<lparr>listSnapshot := l\<rparr>) = conv_of s"
  by (auto simp: conv_of_def)

lemma inv_init: "store_inv init_store"
  by (simp add: store_inv_def init_store_def conv_of_def)

lemma inv_put:
  assumes s: "store_inv s" and c: "conv_ok (counter s) k c"
    and new: "\<And>j d. conv_of s j = Some d \<Longrightarrow> j \<noteq> k \<Longrightarrow> ids c \<inter> ids d = {}"
  shows "store_inv (put k c s)"
proof -
  have "ids a \<inter> ids b = {}"
    if "conv_of (put k c s) i = Some a" "conv_of (put k c s) j = Some b" "i \<noteq> j" for a b i j
    using that new [of j b] new [of i a] store_invD(3) [OF s, of i a j b]
    by (auto split: if_splits)
  moreover have "\<forall>j d. conv_of (put k c s) j = Some d \<longrightarrow> conv_ok (counter (put k c s)) j d"
    using c store_invD(2) [OF s] by auto
  moreover have "map_ok (convs (put k c s))" by (simp add: convs.valid_store store_invD(1) [OF s] map_ok_set)
  ultimately show ?thesis using s by (auto simp: store_inv_def keys_map_set)
qed

text \<open>A thread replaced by one with the same ids.\<close>

lemma inv_same:
  assumes "store_inv s" "conv_of s k = Some c0" "conv_ok (counter s) k c" "ids c = ids c0"
  shows "store_inv (put k c s)"
  using assms store_invD(3) [OF assms(1) assms(2)] by (intro inv_put) auto

lemma inv_publish: "store_inv s \<Longrightarrow> store_inv (fst (publish s))"
  by (auto simp: store_inv_def publish_def emit_def rebuild_def schedulePersist_def Let_def
      map_ok_def distinct_map conv_of_def)
     (metis distinct_map distinct_sort set_sort sort_desc_def)+

lemma publish_simps [simp]:
  "conv_of (fst (publish s)) = conv_of s" "counter (fst (publish s)) = counter s"
  "convs (fst (publish s)) = convs s" "started (fst (publish s)) = started s"
  "saveTimer (fst (publish s))" 
  by (auto simp: publish_def emit_def rebuild_def schedulePersist_def Let_def conv_of_def)

lemma publish_snapshot: "listSnapshot (fst (publish s)) = map fst (sort_desc (\<lambda>p. lastAt (snd p)) (convs s))"
  by (simp add: publish_def emit_def rebuild_def schedulePersist_def Let_def)

lemma publish_effects: "snd (publish s) = (if saveTimer s then [Emit] else [Emit, ArmSave])"
  by (simp add: publish_def emit_def rebuild_def schedulePersist_def Let_def)

lemma publish_pair: "publish s = (fst (publish s), if saveTimer s then [Emit] else [Emit, ArmSave])"
  by (metis publish_effects prod.collapse)

subsection \<open>Building blocks\<close>

lemma ensure_simps [simp]: "conv_of (fst (ensure p s)) j = (if j = p then Some (snd (ensure p s)) else conv_of s j)"
  "counter (fst (ensure p s)) = counter s"
  by (auto simp: ensure_def split: option.splits)

lemma ensure_value: "snd (ensure p s) = (case conv_of s p of Some c \<Rightarrow> c | None \<Rightarrow> empty_conv p)"
  by (auto simp: ensure_def split: option.splits)

lemma inv_ensure: "store_inv s \<Longrightarrow> store_inv (fst (ensure p s))"
  unfolding ensure_def
  by (auto split: option.split intro!: inv_put simp: conv_ok_def empty_conv_def ids_def)

lemma inv_counter: "store_inv s \<Longrightarrow> counter s \<le> n \<Longrightarrow> store_inv (s\<lparr>counter := n\<rparr>)"
  by (auto simp: store_inv_def intro: conv_ok_mono)

lemma conv_ok_append:
  assumes "conv_ok n p c" and "m_id m = msg_id n" and "msg_ok (Suc n) m" and "0 \<le> u"
  shows "conv_ok (Suc n) p (c\<lparr>messages := messages c @ [m], unread := u, lastAt := a\<rparr>)"
proof -
  have "m_id x \<noteq> msg_id n" if "x \<in> set (messages c)" for x
    using conv_ok_ids [OF assms(1), of "m_id x"] that by (auto simp: ids_def)
  then have "m_id m \<notin> m_id ` set (messages c)" unfolding assms(2) by (metis imageE)
  then show ?thesis using assms by (auto simp: conv_ok_def intro: msg_ok_mono)
qed

text \<open>Every method that adds a message: \<open>make\<close>, then \<open>append_msg\<close>.\<close>

lemma inv_append:
  assumes s: "store_inv s" and c: "conv_of s p = Some c" and d: "ids d = ids c" "messages d = messages c"
    "peerUserId d = p" "0 \<le> unread d"
    and m: "m_id m = msg_id (counter s)" "msg_ok (Suc (counter s)) m"
  shows "store_inv (fst (append_msg p d m a (s\<lparr>counter := Suc (counter s)\<rparr>)))"
proof -
  let ?s = "s\<lparr>counter := Suc (counter s)\<rparr>"
  let ?d = "d\<lparr>messages := messages d @ [m], lastAt := a\<rparr>"
  have cok: "conv_ok (counter s) p c" using store_invD(2) [OF s c] .
  then have "conv_ok (counter s) p d" using d by (auto simp: conv_ok_def)
  from conv_ok_append [OF this m(1) m(2) d(4), of a] have dok: "conv_ok (Suc (counter s)) p ?d" by simp
  have fresh: "msg_id (counter s) \<notin> ids e" if "conv_of s j = Some e" for j e
    using conv_ok_ids [OF store_invD(2) [OF s that]] by fastforce
  have "ids ?d \<inter> ids e = {}" if "conv_of ?s j = Some e" "j \<noteq> p" for j e
    using store_invD(3) [OF s c, of j e] that fresh [of j e] m(1) d(1) by (auto simp: ids_def)
  with inv_counter [OF s, of "Suc (counter s)"] dok show ?thesis
    unfolding append_msg_def by (intro inv_publish inv_put) simp_all
qed

text \<open>Every method that rewrites messages in place.\<close>

definition keeps :: "(chat_message \<Rightarrow> chat_message) \<Rightarrow> bool" where
  "keeps f \<longleftrightarrow> (\<forall>m. m_id (f m) = m_id m \<and> clientRef (f m) = clientRef m \<and> mine (f m) = mine m \<and>
     envelopeId (f m) = envelopeId m \<and> verdict (f m) = verdict m \<and> (mine m \<longrightarrow> readSent (f m) = readSent m) \<and>
     (clientRef m = None \<longrightarrow> status (f m) = status m))"

lemma keeps_msg_ok: "keeps f \<Longrightarrow> msg_ok n m \<Longrightarrow> msg_ok n (f m)"
  unfolding keeps_def msg_ok_def ref_ok_def by metis

lemma keeps_map:
  assumes "keeps f" and "conv_ok n p c" and "0 \<le> u"
  shows "conv_ok n p (c\<lparr>messages := map f (messages c), unread := u\<rparr>)"
    "ids (c\<lparr>messages := map f (messages c), unread := u\<rparr>) = ids c"
proof -
  have "map m_id (map f (messages c)) = map m_id (messages c)"
    using assms(1) by (simp add: keeps_def)
  then have "distinct (map m_id (map f (messages c))) = distinct (map m_id (messages c))" by (rule arg_cong)
  moreover have "m_id ` f ` set (messages c) = m_id ` set (messages c)"
    using assms(1) by (simp add: keeps_def image_image)
  ultimately show "conv_ok n p (c\<lparr>messages := map f (messages c), unread := u\<rparr>)"
    "ids (c\<lparr>messages := map f (messages c), unread := u\<rparr>) = ids c"
    using assms keeps_msg_ok [OF assms(1)] by (auto simp: conv_ok_def ids_def simp del: map_map)
qed

lemma keeps_if: "keeps f \<Longrightarrow> keeps (\<lambda>m. if P m then f m else m)"
  by (simp add: keeps_def)

lemma inv_map:
  assumes "store_inv s" "conv_of s p = Some c" "keeps f" "0 \<le> u"
  shows "store_inv (put p (c\<lparr>messages := map f (messages c), unread := u\<rparr>) s)"
  using assms keeps_map [OF assms(3) store_invD(2) [OF assms(1,2)] assms(4)]
  by (intro inv_same) simp_all

text \<open>An update at the index \<open>findIndex\<close> found is a map over the messages, ids being distinct.\<close>

lemma update_at_index:
  assumes "find_index P xs = Some i" and "distinct (map k xs)"
  shows "splice_at i (f (xs ! i)) xs = map (\<lambda>x. if k x = k (xs ! i) then f x else x) xs"
proof -
  have i: "i < length xs" using find_index_SomeD [OF assms(1)] by simp
  show ?thesis
  proof (rule nth_equalityI)
    fix j assume "j < length (splice_at i (f (xs ! i)) xs)"
    then have j: "j < length xs" by (simp add: splice_at_update [OF i])
    have "k (xs ! j) = k (xs ! i) \<longleftrightarrow> j = i"
      using assms(2) i j by (metis distinct_conv_nth length_map nth_map)
    then show "splice_at i (f (xs ! i)) xs ! j = map (\<lambda>x. if k x = k (xs ! i) then f x else x) xs ! j"
      using i j by (simp add: splice_at_update nth_list_update)
  qed (simp add: splice_at_update [OF i])
qed

lemma patch_map:
  assumes "store_inv s"
  shows "patch p mid f s = (case conv_of s p of None \<Rightarrow> (s, [])
     | Some c \<Rightarrow> if mid \<in> ids c then map_msg p mid f s else (s, []))"
proof (cases "conv_of s p")
  case (Some c)
  show ?thesis
  proof (cases "find_index (\<lambda>m. m_id m = mid) (messages c)")
    case None
    then have "mid \<notin> ids c" by (auto simp: ids_def)
    with None Some show ?thesis by (simp add: patch_def del: find_index_None)
  next
    case (Some i)
    have "distinct (map m_id (messages c))"
      using store_invD(2) [OF assms \<open>conv_of s p = Some c\<close>] by (simp add: conv_ok_def)
    moreover have "m_id (messages c ! i) = mid" "mid \<in> ids c"
      using find_index_SomeD [OF Some] by (auto simp: ids_def)
    ultimately show ?thesis using update_at_index [OF Some, of m_id f] Some \<open>conv_of s p = Some c\<close>
      by (simp add: patch_def map_msg_def)
  qed
qed (simp add: patch_def)

lemma inv_map_msg: "store_inv s \<Longrightarrow> keeps f \<Longrightarrow> store_inv (fst (map_msg p mid f s))"
proof (cases "conv_of s p")
  case (Some c)
  moreover assume s: "store_inv s" and "keeps f"
  moreover have "0 \<le> unread c" using store_invD(2) [OF s Some] by (simp add: conv_ok_def)
  ultimately have "store_inv (put p (c\<lparr>messages := map (\<lambda>m. if m_id m = mid then f m else m) (messages c),
      unread := unread c\<rparr>) s)" by (intro inv_map keeps_if)
  then show ?thesis by (simp add: map_msg_def Some inv_publish)
qed (simp add: map_msg_def)

subsection \<open>Steps and runs\<close>

lemma keeps_media [simp]:
  "keeps (\<lambda>m. m\<lparr>starred := \<not> starred m\<rparr>)" "keeps (\<lambda>m. m\<lparr>dismissed := True\<rparr>)"
  "keeps (\<lambda>m. m\<lparr>media := r\<rparr>)" "keeps (\<lambda>m. m\<lparr>mediaState := t\<rparr>)"
  "keeps (\<lambda>m. m\<lparr>mediaUri := u, mediaState := t\<rparr>)" "keeps (\<lambda>m. m\<lparr>mediaSaved := True\<rparr>)"
  "keeps mark_msg" "keeps strip_media"
  by (simp_all add: keeps_def mark_msg_def needs_receipt_def strip_media_def)

lemma inv_patch: "store_inv s \<Longrightarrow> keeps f \<Longrightarrow> store_inv (fst (patch p mid f s))"
  by (simp add: patch_map inv_map_msg split: option.split)

lemma inv_meta:
  assumes "store_inv s" "conv_of s p = Some c0" "messages c = messages c0" "unread c = unread c0"
    "peerUserId c = peerUserId c0"
  shows "store_inv (put p c s)"
  using assms store_invD(2) [OF assms(1,2)] by (intro inv_same) (auto simp: conv_ok_def ids_def)

lemma inv_ensure_meta:
  assumes "store_inv s" "messages c = messages (snd (ensure p s))"
    "unread c = unread (snd (ensure p s))" "peerUserId c = peerUserId (snd (ensure p s))"
  shows "store_inv (put p c (fst (ensure p s)))"
  using assms by (intro inv_meta [OF inv_ensure]) auto

lemma msg_ok_make:
  assumes "m_id m = msg_id n" "clientRef m = None \<or> mine m \<and> (\<exists>a. clientRef m = Some (client_ref (Suc n) a))"
    "mine m \<longrightarrow> \<not> readSent m \<and> envelopeId m = None \<and> verdict m = None" "status m \<noteq> None \<longrightarrow> clientRef m \<noteq> None"
  shows "msg_ok (Suc n) m"
  using assms by (auto simp: msg_ok_def ref_ok_def)

lemma inv_append_ensured:
  assumes s: "store_inv s" and d: "messages d = messages (snd (ensure p s))"
    "peerUserId d = peerUserId (snd (ensure p s))" "unread (snd (ensure p s)) \<le> unread d"
    and m: "m_id m = msg_id (counter s)" "msg_ok (Suc (counter s)) m"
  shows "store_inv (fst (append_msg p d m a ((fst (ensure p s))\<lparr>counter := Suc (counter s)\<rparr>)))"
proof -
  have c: "conv_of (fst (ensure p s)) p = Some (snd (ensure p s))" by simp
  have ok: "conv_ok (counter s) p (snd (ensure p s))"
    using store_invD(2) [OF inv_ensure [OF s] c] by simp
  have "store_inv (fst (append_msg p d m a ((fst (ensure p s))\<lparr>counter := Suc (counter (fst (ensure p s)))\<rparr>)))"
    using d m ok by (intro inv_append [OF inv_ensure [OF s] c]) (auto simp: conv_ok_def ids_def)
  then show ?thesis by simp
qed

lemmas make_defs = make_def with_env_def

lemma inv_sendGroup:
  assumes "store_inv s" "conv_of s p = Some c"
  shows "store_inv (fst (sendGroup me now p c g text s))"
proof -
  have "peerUserId c = p" "0 \<le> unread c" using store_invD(2) [OF assms] by (simp_all add: conv_ok_def)
  then show ?thesis
    using assms by (auto simp: sendGroup_def make_def Let_def case_prod_beta intro!: inv_append msg_ok_make)
qed

lemma inv_send: "store_inv s \<Longrightarrow> store_inv (fst (send me now p text s))"
  by (auto simp: send_def make_def Let_def case_prod_beta split: option.split
      intro!: inv_sendGroup inv_ensure inv_append_ensured msg_ok_make)

lemma inv_createGroup: "store_inv s \<Longrightarrow> store_inv (fst (createGroup now rnd name ms s))"
  by (simp add: createGroup_def Let_def case_prod_beta inv_publish inv_ensure_meta)

lemma inv_ensurePeer: "store_inv s \<Longrightarrow> store_inv (fst (ensurePeer p ph s))"
  by (simp add: ensurePeer_def case_prod_beta inv_publish inv_ensure_meta inv_ensure)

lemma inv_setPeerIdentity: "store_inv s \<Longrightarrow> store_inv (fst (setPeerIdentity p k s))"
  by (auto simp: setPeerIdentity_def split: option.split intro!: inv_publish inv_meta)

lemma inv_sendMedia: "store_inv s \<Longrightarrow> store_inv (fst (sendMedia now p d s))"
  by (auto simp: sendMedia_def make_def Let_def case_prod_beta intro!: inv_append_ensured msg_ok_make)

lemma inv_loadMedia: "store_inv s \<Longrightarrow> store_inv (fst (loadMedia p mid r s))"
  by (simp add: loadMedia_def case_prod_beta inv_patch)

lemma inv_load_all: "store_inv s \<Longrightarrow> store_inv (fst (load_all p ms s))"
  by (induction ms arbitrary: s) (auto simp: case_prod_beta inv_loadMedia Let_def split: option.split)

lemma inv_receive_text: "store_inv s \<Longrightarrow> store_inv (fst (receive_text p text a env v s))"
  by (auto simp: receive_text_def make_defs Let_def case_prod_beta split: option.split
      intro!: inv_append_ensured msg_ok_make)

lemma inv_receive_media: "store_inv s \<Longrightarrow> store_inv (fst (receive_media p r a env s))"
  by (auto simp: receive_media_def make_defs Let_def case_prod_beta
      intro!: inv_loadMedia inv_append_ensured msg_ok_make)

lemma ensureGroup_simps [simp]: "counter (fst (ensureGroup me p s)) = counter s"
  "conv_of (fst (ensureGroup me p s)) j = (if j = gid p then Some (snd (ensureGroup me p s)) else conv_of s j)"
  by (auto simp: ensureGroup_def Let_def case_prod_beta)

lemma inv_ensureGroup: "store_inv s \<Longrightarrow> store_inv (fst (ensureGroup me p s))"
  by (simp add: ensureGroup_def Let_def case_prod_beta inv_ensure_meta)

lemma inv_receive_group:
  assumes "store_inv s" shows "store_inv (fst (receive_group me p g a env v s))"
proof -
  let ?s = "fst (ensureGroup me g s)" and ?c = "snd (ensureGroup me g s)"
  have "conv_of ?s (gid g) = Some ?c" and s: "store_inv ?s" by (simp_all add: inv_ensureGroup assms)
  with store_invD(2) [OF s this(1)] have "conv_of ?s (gid g) = Some ?c" "peerUserId ?c = gid g" "0 \<le> unread ?c"
    by (simp_all add: conv_ok_def)
  then have "store_inv (fst (append_msg (gid g) (?c\<lparr>unread := unread ?c + 1\<rparr>) m b (?s\<lparr>counter := Suc (counter s)\<rparr>)))"
    if "m_id m = msg_id (counter s)" "msg_ok (Suc (counter s)) m" for m b
    using inv_append [OF s, of "gid g" ?c "?c\<lparr>unread := unread ?c + 1\<rparr>" m b] that by (simp add: ids_def)
  note step = this
  show ?thesis
    by (auto simp: receive_group_def make_defs Let_def case_prod_beta split: option.split intro!: step msg_ok_make)
qed

lemma inv_receive:
  assumes "store_inv s" and "receive me p text a env v s = Some r"
  shows "store_inv (fst r)"
proof -
  have pay: "Q r" if "on_payload j sh skip k = Some r" "Q skip" "\<And>x. Q (k x)" for j sh skip k and Q :: "_ \<Rightarrow> bool"
    using that by (auto simp: on_payload_def split: option.splits if_splits)
  from assms show ?thesis unfolding receive_def
    by (auto split: if_splits elim!: pay [of _ _ _ _ "\<lambda>r. store_inv (fst r)"]
        simp: inv_receive_text inv_receive_media inv_receive_group)
qed

lemma inv_status_loop:
  assumes "store_inv s" "set m \<subseteq> set (convs s)"
  shows "store_inv (fst (status_loop ref t m s))"
  using assms(2)
proof (induction m)
  case (Cons pc m)
  obtain p c where pc: "pc = (p, c)" by (cases pc)
  have c: "conv_of s p = Some c"
    using Cons.prems store_invD(1) [OF assms(1)] by (auto simp: pc conv_of_def map_ok_mem [symmetric])
  have c_ok: "conv_ok (counter s) p c" using store_invD(2) [OF assms(1) c] .
  show ?case
  proof (cases "find_index (\<lambda>m. clientRef m = Some ref) (messages c)")
    case (Some i)
    have i: "clientRef (messages c ! i) = Some ref" and il: "i < length (messages c)"
      using find_index_SomeD [OF Some] by simp_all
    let ?f = "\<lambda>m. if m_id m = m_id (messages c ! i) then
        (if clientRef m = Some ref then m\<lparr>status := Some t\<rparr> else m) else m"
    have "keeps ?f" by (rule keeps_if) (simp add: keeps_def)
    moreover have "splice_at i ((messages c ! i)\<lparr>status := Some t\<rparr>) (messages c) = map ?f (messages c)"
      using update_at_index [OF Some, of m_id "\<lambda>m. if clientRef m = Some ref then m\<lparr>status := Some t\<rparr> else m"] i c_ok
      by (simp add: conv_ok_def)
    moreover have "store_inv (put p (c\<lparr>messages := map ?f (messages c), unread := unread c\<rparr>) s)"
      using c_ok by (intro inv_map [OF assms(1) c] \<open>keeps ?f\<close>) (simp add: conv_ok_def)
    ultimately show ?thesis by (simp add: pc Some assms(1) inv_publish)
  next
    case None
    then show ?thesis using Cons by (simp add: pc del: find_index_None)
  qed
qed (simp add: assms)

lemma inv_applyStatus: "store_inv s \<Longrightarrow> store_inv (fst (applyStatus ref t s))"
  by (simp add: applyStatus_def inv_status_loop)

lemma inv_markRead:
  assumes "store_inv s" shows "store_inv (fst (markRead p s))"
proof (cases "conv_of s p")
  case (Some c)
  then have "store_inv (put p (c\<lparr>messages := map mark_msg (messages c), unread := 0\<rparr>) s)"
    by (intro inv_map assms) simp_all
  then show ?thesis by (simp add: markRead_def Some Let_def case_prod_beta inv_publish)
qed (simp add: markRead_def assms)

lemma publish_clear: "publish (s\<lparr>saveTimer := b, convs := m, counter := n, listSnapshot := l\<rparr>) =
    publish (s\<lparr>saveTimer := b, convs := m, counter := n\<rparr>)"
  by (simp add: publish_def rebuild_def)

lemma inv_reset: "store_inv s \<Longrightarrow> store_inv (fst (reset s))"
proof -
  have "store_inv (s\<lparr>saveTimer := False, convs := [], counter := 0, listSnapshot := []\<rparr>)"
    by (simp add: store_inv_def conv_of_def)
  then have "store_inv (fst (publish (s\<lparr>saveTimer := False, convs := [], counter := 0\<rparr>)))"
    by (metis inv_publish publish_clear)
  then show ?thesis by (simp add: reset_def Let_def case_prod_beta)
qed

text \<open>
  One rule per method. \<open>Restart\<close> is a new process: an empty store that starts and hydrates from what
  a run before it saved, before anything else happens to it.
\<close>

inductive conv_step :: "jstr option \<Rightarrow> conv_store \<Rightarrow> conv_store \<Rightarrow> bool" for me where
  Start: "conv_step me s (fst (start s))"
| SetPeerIdentity: "conv_step me s (fst (setPeerIdentity p k s))"
| EnsurePeer: "conv_step me s (fst (ensurePeer p ph s))"
| Send: "conv_step me s (fst (send me now p text s))"
| CreateGroup: "conv_step me s (fst (createGroup now rnd name ms s))"
| SendTyping: "conv_step me s (fst (sendTyping me p on s))"
| SendMedia: "conv_step me s (fst (sendMedia now p d s))"
| Uploaded: "conv_step me s (fst (sendMedia_uploaded p mid ref r s))"
| UploadFailed: "conv_step me s (fst (sendMedia_failed p mid s))"
| LoadMedia: "conv_step me s (fst (loadMedia p mid r s))"
| Loaded: "conv_step me s (fst (loadMedia_done p mid res s))"
| LoadPending: "conv_step me s (fst (loadPendingMedia p s))"
| Download: "conv_step me s (fst (downloadMedia p mid s))"
| Save: "conv_step me s (fst (saveMedia decode p mid s))"
| Saved: "conv_step me s (fst (saveMedia_done p mid s))"
| ApplyStatus: "conv_step me s (fst (applyStatus ref t s))"
| MarkRead: "conv_step me s (fst (markRead p s))"
| ToggleStar: "conv_step me s (fst (toggleStar p mid s))"
| Dismiss: "conv_step me s (fst (dismissScamWarning p mid s))"
| Receive: "receive me p text a env v s = Some r \<Longrightarrow> conv_step me s (fst r)"
| PersistTick: "conv_step me s (fst (persist_tick s))"
| Reset: "conv_step me s (fst (reset s))"

inductive conv_reach :: "conv_store \<Rightarrow> bool" where
  Init: "conv_reach init_store"
| Step: "conv_reach s \<Longrightarrow> conv_step me s s' \<Longrightarrow> conv_reach s'"
| Restart: "conv_reach s \<Longrightarrow> conv_reach (fst (hydrate (Some (to_persist s)) (fst (start init_store))))"

inductive_cases conv_stepE: "conv_step me s s'"

lemma inv_step: "conv_step me s s' \<Longrightarrow> store_inv s \<Longrightarrow> store_inv s'"
proof (induction rule: conv_step.induct)
  case (Start s)
  then show ?case by (auto simp: start_def store_inv_def conv_of_def)
next
  case (SendTyping s p on)
  then show ?case by (auto simp: sendTyping_def split: option.split)
next
  case (Loaded s p mid res)
  then show ?case by (auto simp: loadMedia_done_def inv_patch split: option.split)
next
  case (PersistTick s)
  then show ?case by (auto simp: persist_tick_def store_inv_def conv_of_def)
next
  case (Save s decode p mid)
  then show ?case by (auto simp: saveMedia_def inv_loadMedia Let_def case_prod_beta split: option.split)
next
  case (Receive p body a env v s r)
  then show ?case by (rule inv_receive [rotated])
qed (auto simp: inv_setPeerIdentity inv_ensurePeer inv_send inv_createGroup inv_sendMedia
    sendMedia_uploaded_def sendMedia_failed_def saveMedia_done_def case_prod_beta inv_patch
    inv_loadMedia loadPendingMedia_def inv_load_all downloadMedia_def inv_applyStatus inv_markRead
    toggleStar_def dismissScamWarning_def inv_map_msg inv_reset split: option.split)

subsection \<open>What a restart brings back\<close>

text \<open>The \<open>else\<close> branch of \<open>hydrate\<close> on a thread the timer saved.\<close>

definition restored :: "conversation \<Rightarrow> conversation" where
  "restored c = c\<lparr>messages := map strip_media (messages c), group := None, peerIdentityB64 := None\<rparr>"

lemma hydrate_fresh:
  assumes "map_ok m" "\<forall>p\<in>set m. peerUserId (snd p) = fst p" "fst ` set m \<inter> fst ` set (convs s) = {}"
  shows "foldl hydrate_one s (map (\<lambda>p. save_conv (snd p)) m) =
    s\<lparr>convs := convs s @ map (\<lambda>p. (fst p, restored (snd p))) m\<rparr>"
  using assms
proof (induction m arbitrary: s)
  case (Cons pc m)
  obtain k c where pc: "pc = (k, c)" by (cases pc)
  have k: "peerUserId c = k" "k \<notin> fst ` set (convs s)" using Cons.prems pc by auto
  then have none: "conv_of s k = None" by (simp add: conv_of_def map_of_eq_None_iff)
  have new: "map_set k v q = q @ [(k, v)]" if "k \<notin> fst ` set q" for v and q :: "(jstr, conversation) jsmap"
    using that by (induction q) auto
  have "hydrate_one s (save_conv c) = s\<lparr>convs := convs s @ [(k, restored c)]\<rparr>"
    using k new [OF k(2)] none by (cases c) (simp add: hydrate_one_def save_conv_def restored_def put_def)
  then show ?case using Cons.IH [of "s\<lparr>convs := convs s @ [(k, restored c)]\<rparr>"] Cons.prems
    by (auto simp: pc)
qed simp

lemma store_keys:
  assumes "store_inv s" "p \<in> set (convs s)"
  shows "peerUserId (snd p) = fst p"
proof -
  have "conv_of s (fst p) = Some (snd p)"
    using assms store_invD(1) by (simp add: conv_of_def map_ok_mem [symmetric])
  then show ?thesis using store_invD(2) [OF assms(1)] by (auto simp: conv_ok_def)
qed

lemma hydrate_saved:
  assumes "store_inv s"
  shows "convs (fst (hydrate (Some (to_persist s)) (fst (start init_store)))) =
      map (\<lambda>p. (fst p, restored (snd p))) (convs s)"
    "counter (fst (hydrate (Some (to_persist s)) (fst (start init_store)))) = counter s"
  using assms hydrate_fresh [of "convs s"] store_keys [OF assms] store_invD(1) [OF assms]
  by (simp_all add: hydrate_def to_persist_def start_def init_store_def Let_def)

lemma map_of_map_snd: "map_of (map (\<lambda>p. (fst p, f (snd p))) m) k = map_option f (map_of m k)"
  by (induction m) auto

lemma conv_of_restored:
  "conv_of (fst (hydrate (Some (to_persist s)) (fst (start init_store)))) k = map_option restored (conv_of s k)"
  if "store_inv s"
  unfolding conv_of_def hydrate_saved(1) [OF that] by (rule map_of_map_snd)

lemma restored_ok: "conv_ok n k c \<Longrightarrow> conv_ok n k (restored c)" "ids (restored c) = ids c"
proof -
  show "ids (restored c) = ids c"
    by (auto simp: ids_def restored_def strip_media_def image_image)
  assume c: "conv_ok n k c"
  then have "conv_ok n k (c\<lparr>messages := map strip_media (messages c), unread := unread c\<rparr>)"
    by (intro keeps_map) (simp_all add: conv_ok_def)
  then show "conv_ok n k (restored c)" by (simp add: conv_ok_def restored_def)
qed

lemma inv_restart:
  assumes s: "store_inv s"
  shows "store_inv (fst (hydrate (Some (to_persist s)) (fst (start init_store))))" (is "store_inv ?t")
proof -
  obtain u where t: "?t = fst (publish u)" by (auto simp: hydrate_def to_persist_def Let_def)
  have m: "map_ok (convs ?t)"
    using store_invD(1) [OF s] by (simp add: hydrate_saved(1) [OF s] map_ok_def comp_def)
  have "\<forall>k c. conv_of ?t k = Some c \<longrightarrow> conv_ok (counter ?t) k c"
    using store_invD(2) [OF s] by (auto simp: conv_of_restored [OF s] hydrate_saved(2) [OF s] restored_ok(1))
  moreover have "\<forall>k c j d. conv_of ?t k = Some c \<longrightarrow> conv_of ?t j = Some d \<longrightarrow> k \<noteq> j \<longrightarrow> ids c \<inter> ids d = {}"
    using store_invD(3) [OF s] by (fastforce simp: conv_of_restored [OF s] restored_ok(2))
  ultimately have "store_inv (?t\<lparr>listSnapshot := []\<rparr>)" using m by (simp add: store_inv_def)
  then have "store_inv (fst (publish (?t\<lparr>listSnapshot := []\<rparr>)))" by (rule inv_publish)
  moreover have "fst (publish (?t\<lparr>listSnapshot := []\<rparr>)) = ?t"
    unfolding t by (simp add: publish_def emit_def rebuild_def schedulePersist_def Let_def)
  ultimately show ?thesis by simp
qed

lemma reach_inv: "conv_reach s \<Longrightarrow> store_inv s"
  by (induction rule: conv_reach.induct) (auto intro: inv_init inv_step inv_restart)

end
