(* ===== verification/ConvProps.thy ===== *)
theory ConvProps
  imports ConvInvariant "HOL-Library.Option_ord"
begin

text \<open>
  What the methods of the conversation store do, over the runs of \<open>ConvInvariant\<close>: delivery ticks,
  inbound routing, group fan-out and its reception, read receipts, restarts, the list snapshot.
\<close>

subsection \<open>Delivery ticks\<close>

definition raise :: "jstr \<Rightarrow> message_status \<Rightarrow> chat_message \<Rightarrow> chat_message" where
  "raise ref t m = (if clientRef m = Some ref \<and> rank_of m < status_rank t then m\<lparr>status := Some t\<rparr> else m)"

lemma ref_unique:
  assumes s: "store_inv s" and c: "conv_of s k = Some c" "conv_of s j = Some d"
    and m: "m \<in> set (messages c)" "n \<in> set (messages d)" "clientRef m = Some r" "clientRef n = Some r"
  shows "k = j \<and> m_id m = m_id n"
proof -
  from store_invD(2) [OF s c(1)] m obtain i where i: "m_id m = msg_id i" "\<exists>a. r = client_ref (Suc i) a"
    by (auto simp: conv_ok_def msg_ok_def ref_ok_def)
  from store_invD(2) [OF s c(2)] m obtain l where l: "m_id n = msg_id l" "\<exists>a. r = client_ref (Suc l) a"
    by (auto simp: conv_ok_def msg_ok_def ref_ok_def)
  from i l have id: "m_id m = m_id n" by (auto dest: client_ref_inject)
  moreover have "m_id m \<in> ids c" "m_id m \<in> ids d" using m id unfolding ids_def by (metis imageI)+
  ultimately show ?thesis using store_invD(3) [OF s c] by auto
qed

lemma status_loop_conv:
  assumes s: "store_inv s" and m: "set m \<subseteq> set (convs s)" "map_ok m"
  shows "conv_of (fst (status_loop ref t m s)) k =
    (case map_of m k of Some c \<Rightarrow> Some (c\<lparr>messages := map (raise ref t) (messages c)\<rparr>) | None \<Rightarrow> conv_of s k)"
  using m
proof (induction m)
  case (Cons pc m)
  obtain p c where pc: "pc = (p, c)" by (cases pc)
  have in_conv: "conv_of s j = Some d" if "map_of (pc # m) j = Some d" for j d
    using that Cons.prems store_invD(1) [OF s] map_of_SomeD [OF that] by (auto simp: conv_of_def map_ok_mem [symmetric])
  have c: "conv_of s p = Some c" using in_conv [of p c] by (simp add: pc)
  show ?case
  proof (cases "find_index (\<lambda>m. clientRef m = Some ref) (messages c)")
    case None
    then have "map (raise ref t) (messages c) = messages c" by (auto simp: raise_def intro: map_idI)
    moreover have "map_of m p = None" using Cons.prems by (simp add: pc map_of_eq_None_iff)
    ultimately show ?thesis using Cons None c
      by (auto simp: pc split: option.split simp del: find_index_None)
  next
    case (Some i)
    let ?m = "messages c ! i"
    have i: "clientRef ?m = Some ref" "i < length (messages c)" using find_index_SomeD [OF Some] by simp_all
    have other: "clientRef x \<noteq> Some ref" if "conv_of s j = Some d" "x \<in> set (messages d)" "j \<noteq> p" for j d x
      using ref_unique [OF s c that(1), of ?m x] i that by auto
    have same: "x = ?m" if "x \<in> set (messages c)" "clientRef x = Some ref" for x
      using ref_unique [OF s c c, of ?m x] i that store_invD(2) [OF s c]
      by (metis conv_ok_def distinct_map inj_on_eq_iff nth_mem)
    have d: "distinct (map m_id (messages c))" using store_invD(2) [OF s c] by (simp add: conv_ok_def)
    have rest: "map (raise ref t) (messages d) = messages d" if "map_of m j = Some d" for j d
    proof -
      have "map_of m p = None" using Cons.prems by (simp add: pc map_of_eq_None_iff)
      then have "j \<noteq> p" using that by auto
      then have "conv_of s j = Some d" "j \<noteq> p" using in_conv [of j d] that by (auto simp: pc)
      then show ?thesis using other by (auto simp: raise_def intro!: map_idI)
    qed
    have upd: "splice_at i (?m\<lparr>status := Some t\<rparr>) (messages c) = map (\<lambda>x. if m_id x = m_id ?m then x\<lparr>status := Some t\<rparr> else x) (messages c)"
      using update_at_index [OF Some d, of "\<lambda>x. x\<lparr>status := Some t\<rparr>"] by simp
    have hit: "m_id x = m_id ?m \<longleftrightarrow> clientRef x = Some ref" if "x \<in> set (messages c)" for x
      using same [OF that] i d that by (metis distinct_map inj_on_eq_iff nth_mem)
    have "conv_of (fst (status_loop ref t (pc # m) s)) p = Some (c\<lparr>messages := map (raise ref t) (messages c)\<rparr>)"
    proof (cases "status_rank t \<le> rank_of ?m")
      case True
      have "map (raise ref t) (messages c) = messages c"
        using same True by (intro map_idI) (auto simp: raise_def)
      then show ?thesis using c True by (simp add: pc Some)
    next
      case False
      have "map (\<lambda>x. if m_id x = m_id ?m then x\<lparr>status := Some t\<rparr> else x) (messages c) = map (raise ref t) (messages c)"
        using same hit False by (intro map_cong refl) (auto simp: raise_def)
      then show ?thesis using c False by (simp add: pc Some upd)
    qed
    moreover have "conv_of (fst (status_loop ref t (pc # m) s)) j = conv_of s j" if "j \<noteq> p" for j
      using that by (simp add: pc Some)
    ultimately show ?thesis using rest in_conv [of k]
      by (cases "k = p") (auto simp: pc split: option.split)
  qed
qed simp

lemma applyStatus_conv:
  assumes "store_inv s"
  shows "conv_of (fst (applyStatus ref t s)) k =
    map_option (\<lambda>c. c\<lparr>messages := map (raise ref t) (messages c)\<rparr>) (conv_of s k)"
  using status_loop_conv [OF assms, of "convs s" ref t k] store_invD(1) [OF assms]
  by (auto simp: applyStatus_def conv_of_def split: option.splits)

text \<open>A status update raises the tick of the one message that carries the client reference, never
  lowers one, and changes nothing else in any thread.\<close>

theorem applyStatus_raises:
  assumes "conv_reach s"
  shows "conv_of (fst (applyStatus ref t s)) k =
    map_option (\<lambda>c. c\<lparr>messages := map (\<lambda>m. if clientRef m = Some ref \<and> rank_of m < status_rank t
      then m\<lparr>status := Some t\<rparr> else m) (messages c)\<rparr>) (conv_of s k)"
  using applyStatus_conv [OF reach_inv [OF assms]] by (simp add: raise_def [abs_def])

text \<open>The ticks are ordered as \<open>STATUS_RANK\<close> ranks them; a message without a status is below all of them.\<close>

instantiation message_status :: linorder
begin

definition less_eq_message_status :: "message_status \<Rightarrow> message_status \<Rightarrow> bool" where
  "less_eq_message_status a b = (status_rank a \<le> status_rank b)"

definition less_message_status :: "message_status \<Rightarrow> message_status \<Rightarrow> bool" where
  "less_message_status a b = (status_rank a < status_rank b)"

instance
proof
  fix a b :: message_status
  show "a \<le> b \<Longrightarrow> b \<le> a \<Longrightarrow> a = b" by (cases a; cases b) (simp_all add: less_eq_message_status_def)
qed (auto simp: less_eq_message_status_def less_message_status_def)

end

lemma raise_max: "raise r t m = (if clientRef m = Some r then m\<lparr>status := max (status m) (Some t)\<rparr> else m)"
proof (cases "status m")
  case None
  then show ?thesis by (cases t) (simp_all add: raise_def rank_of_def max_def less_eq_option_def)
next
  case (Some u)
  then have "m\<lparr>status := Some u\<rparr> = m" by simp
  moreover have "status_rank u = status_rank t \<Longrightarrow> u = t" by (cases u; cases t) simp_all
  ultimately show ?thesis using Some by (auto simp: raise_def rank_of_def max_def less_eq_message_status_def)
qed

lemma raise_commute: "raise r t (raise q u m) = raise q u (raise r t m)"
  by (simp add: raise_max max.assoc max.commute [of "Some t"])

lemma inv_fold_status: "store_inv s \<Longrightarrow> store_inv (fold (\<lambda>p s. fst (applyStatus (fst p) (snd p) s)) us s)"
  by (induction us arbitrary: s) (simp_all add: inv_applyStatus)

lemma fold_status_conv:
  assumes "store_inv s"
  shows "conv_of (fold (\<lambda>p s. fst (applyStatus (fst p) (snd p) s)) us s) k =
    map_option (\<lambda>c. c\<lparr>messages := map (fold (\<lambda>p. raise (fst p) (snd p)) us) (messages c)\<rparr>) (conv_of s k)"
  using assms
proof (induction us arbitrary: s)
  case (Cons u us)
  then show ?case
    by (cases "conv_of s k") (simp_all add: inv_applyStatus applyStatus_conv comp_def)
qed (auto simp: option.map_ident)

lemma Max_insert_max: "finite U \<Longrightarrow> Max (insert (max a b) U) = Max (insert a (insert b U))"
  by (cases "U = {}") (simp_all add: max.assoc)

lemma fold_raise_max:
  "fold (\<lambda>p. raise (fst p) (snd p)) us m =
    m\<lparr>status := Max (insert (status m) {Some t | r t. (r, t) \<in> set us \<and> clientRef m = Some r})\<rparr>"
proof (induction us arbitrary: m)
  case (Cons u us)
  let ?U = "{Some t | r t. (r, t) \<in> set us \<and> clientRef m = Some r}"
  have fin: "finite ?U" by (rule finite_subset [of _ "(\<lambda>p. Some (snd p)) ` set us"]) force+
  show ?case
  proof (cases "clientRef m = Some (fst u)")
    case True
    then have "{Some t | r t. (r, t) \<in> set (u # us) \<and> clientRef m = Some r} = insert (Some (snd u)) ?U"
      by (cases u) auto
    moreover have "raise (fst u) (snd u) m = m\<lparr>status := max (status m) (Some (snd u))\<rparr>"
      using True by (simp add: raise_max)
    ultimately show ?thesis using fin by (simp add: Cons.IH Max_insert_max)
  next
    case False
    then have "{Some t | r t. (r, t) \<in> set (u # us) \<and> clientRef m = Some r} = ?U" by (cases u) auto
    moreover have "raise (fst u) (snd u) m = m" using False by (simp add: raise_max)
    ultimately show ?thesis by (simp add: Cons.IH)
  qed
qed simp

text \<open>C2: After any updates in any order, with repetitions and for any messages, the tick of every message is the highest
  status that was reported for it (or that it had), and nothing else in any thread has changed.\<close>

theorem tick_is_highest_status:
  assumes "conv_reach s"
  shows "conv_of (fold (\<lambda>u s. fst (applyStatus (fst u) (snd u) s)) us s) k =
    map_option (\<lambda>c. c\<lparr>messages := map (\<lambda>m. m\<lparr>status :=
      Max (insert (status m) {Some t | r t. (r, t) \<in> set us \<and> clientRef m = Some r})\<rparr>) (messages c)\<rparr>) (conv_of s k)"
  using fold_status_conv [OF reach_inv [OF assms]] by (simp add: fold_raise_max [abs_def])

text \<open>Delivery updates may arrive in any order: the threads end up the same, so a late
  "sent" after a "read" leaves the tick at "read".\<close>

theorem status_order_irrelevant:
  assumes "conv_reach s" and "mset us = mset vs"
  shows "conv_of (fold (\<lambda>u s. fst (applyStatus (fst u) (snd u) s)) us s) k =
    conv_of (fold (\<lambda>u s. fst (applyStatus (fst u) (snd u) s)) vs s) k"
proof -
  have "fold (\<lambda>p. raise (fst p) (snd p)) us = fold (\<lambda>p. raise (fst p) (snd p)) vs"
    using assms(2) by (rule fold_multiset_equiv [rotated]) (auto simp: comp_def raise_commute)
  then show ?thesis using fold_status_conv [OF reach_inv [OF assms(1)]] by simp
qed


subsection \<open>Inbound bodies\<close>

lemma receive_signal_frame:
  assumes "receive me peer body at env v s = Some (s', es)" and "body_kind body \<in> {KTyping, KCall, KStatus}"
  shows "s' = s" "Emit \<notin> set es" "ArmSave \<notin> set es"
  using assms unfolding receive_def body_kind_def on_payload_def
  by (auto split: if_splits option.splits)

text \<open>A typing, call or status body never touches a thread, an unread count or the saved state,
  whoever sends it and whatever it contains: at most it is routed to the store of its kind.\<close>

theorem signals_leave_threads:
  assumes "receive me peer body at env v s = Some (s', es)"
    and "body_kind body \<in> {KTyping, KCall, KStatus}"
  shows "s' = s \<and> Emit \<notin> set es \<and> ArmSave \<notin> set es"
  using receive_signal_frame [OF assms] by simp

lemma append_msg_conv:
  "conv_of (fst (append_msg p c m a s)) j =
    (if j = p then Some (c\<lparr>messages := messages c @ [m], lastAt := a\<rparr>) else conv_of s j)"
  by (simp add: append_msg_def)

lemma receive_text_conv:
  "conv_of (fst (receive_text peer body at env v s)) j =
    (if j = peer then (let c = snd (ensure peer s) in
       Some (c\<lparr>unread := unread c + 1, lastAt := at, messages := messages c @
        [with_env env ((snd (make body False at s))\<lparr>verdict := v\<rparr>)]\<rparr>)) else conv_of s j)"
  by (cases v) (auto simp: receive_text_def make_def with_env_def Let_def case_prod_beta append_msg_conv)

lemma receive_KText:
  "body_kind body = KText \<Longrightarrow> receive me peer body at env v s = Some (receive_text peer body at env v s)"
  by (simp add: receive_def body_kind_def split: if_splits)

text \<open>An ordinary text is appended once, at the end of its sender's thread (a new one when there is
  none), inbound, with its time, envelope and scam verdict; the thread's unread count grows by one and
  every other thread stays as it is.\<close>

theorem text_is_appended_once:
  assumes "body_kind body = KText" and "receive me peer body at env v s = Some (s', es)"
  shows "\<exists>c m. conv_of s' peer = Some c \<and> messages c = getMessages s peer @ [m] \<and>
    m_text m = body \<and> \<not> mine m \<and> m_at m = at \<and> verdict m = v \<and>
    (some_text env \<longrightarrow> envelopeId m = env) \<and> m_id m = msg_id (counter s) \<and> lastAt c = at \<and>
    unread c = (case conv_of s peer of Some d \<Rightarrow> unread d | None \<Rightarrow> 0) + 1 \<and>
    (\<forall>j. j \<noteq> peer \<longrightarrow> conv_of s' j = conv_of s j) \<and> Emit \<in> set es"
proof -
  have s': "(s', es) = receive_text peer body at env v s"
    using assms(2) by (simp add: receive_KText [OF assms(1)])
  have "Emit \<in> set es"
    using arg_cong [OF s', of snd] publish_effects
    by (cases v) (auto simp: receive_text_def append_msg_def Let_def case_prod_beta split: if_splits)
  then show ?thesis
    using receive_text_conv [of peer body at env v s] arg_cong [OF s', of fst]
    by (auto simp: Let_def make_def with_env_def ensure_value getMessages_def empty_conv_def
        split: option.splits)
qed

subsection \<open>Groups\<close>

lemma sendGroup_effects:
  "SendText p body ref \<in> set (snd (sendGroup me now peer c g txt s)) \<longleftrightarrow>
     p \<in> set (others me (g_members g)) \<and> ref = None \<and>
     body = buildGroupBody \<lparr>gid = peerUserId c, group_name = g_name g,
       group_members = roster me (g_members g), group_text = txt\<rparr>"
  by (auto simp: sendGroup_def make_def Let_def case_prod_beta append_msg_def publish_effects)

lemma receive_group_body:
  "receive me peer (buildGroupBody p) at env v s = Some (receive_group me peer p at env v s)"
proof -
  have "body_kind (buildGroupBody p) = KGroup" by simp
  then have "\<not> isTypingBody (buildGroupBody p)" "\<not> isCallBody (buildGroupBody p)" "isGroupBody (buildGroupBody p)"
    by (auto simp: body_kind_def split: if_splits)
  moreover obtain w where "parseGroupBody (buildGroupBody p) = Some w" "truthy w" "group_of_json w = Some p"
    using group_body.parsed by blast
  ultimately show ?thesis by (simp add: receive_def on_payload_def)
qed

lemma receive_group_conv:
  "\<exists>m c. conv_of (fst (receive_group me peer p at env v s)) (gid p) = Some c \<and>
     messages c = getMessages s (gid p) @ [m] \<and> m_text m = group_text p \<and> \<not> mine m \<and>
     m_sender m = Some peer \<and>
     group c = Some \<lparr>g_name = group_name p,
       g_members = (if some_text me then others me (group_members p) else group_members p)\<rparr>"
  by (cases v) (auto simp: receive_group_def ensureGroup_def make_def with_env_def Let_def case_prod_beta
      append_msg_conv ensure_value getMessages_def empty_conv_def split: option.splits)

text \<open>C5: A group message reaches every other member and nobody else: \<open>send\<close> hands one body to the
  client per member, and a member that receives it appends the text to the thread of the same group,
  attributed to the sender, with the sender's roster (sender included, itself excluded).\<close>

theorem group_message_delivered:
  assumes "conv_of s g = Some c" and "group c = Some info" and "peerUserId c = g" and "a \<noteq> []"
  shows "\<exists>body. (\<forall>b x ref. SendText b x ref \<in> set (snd (send (Some a) now g txt s)) \<longleftrightarrow>
        b \<in> set (g_members info) \<and> b \<noteq> a \<and> x = body \<and> ref = None) \<and>
      (\<forall>b t. b \<noteq> [] \<longrightarrow>
        (\<exists>t' es d m. receive (Some b) a body at env v t = Some (t', es) \<and> conv_of t' g = Some d \<and>
         messages d = getMessages t g @ [m] \<and> m_text m = txt \<and> m_sender m = Some a \<and>
         group d = Some \<lparr>g_name = g_name info, g_members = others (Some b) (uniq (g_members info @ [a]))\<rparr>))"
proof -
  have send: "send (Some a) now g txt s = sendGroup (Some a) now g c info txt s"
    using assms by (simp add: send_def ensure_def)
  let ?p = "\<lparr>gid = g, group_name = g_name info, group_members = roster (Some a) (g_members info), group_text = txt\<rparr>"
  have "\<exists>t' es d m. receive (Some b) a (buildGroupBody ?p) at env v t = Some (t', es) \<and> conv_of t' g = Some d \<and>
      messages d = getMessages t g @ [m] \<and> m_text m = txt \<and> m_sender m = Some a \<and>
      group d = Some \<lparr>g_name = g_name info, g_members = others (Some b) (uniq (g_members info @ [a]))\<rparr>"
    if "b \<noteq> []" for b t
    using receive_group_conv [of "Some b" a ?p at env v t] that assms(4)
      receive_group_body [of "Some b" a ?p at env v t]
    by (cases "receive_group (Some b) a ?p at env v t") (auto simp: roster_def)
  moreover have "SendText b x ref \<in> set (snd (send (Some a) now g txt s)) \<longleftrightarrow>
      b \<in> set (g_members info) \<and> b \<noteq> a \<and> x = buildGroupBody ?p \<and> ref = None" for b x ref
    using assms(3) by (auto simp: send sendGroup_effects others_def)
  ultimately show ?thesis by blast
qed

subsection \<open>Read receipts\<close>

lemma map_set_same: "map_of m k = Some v \<Longrightarrow> map_set k v m = m"
  by (induction m) (auto split: if_splits)

lemma put_same: "conv_of s k = Some c \<Longrightarrow> put k c s = s"
  by (simp add: conv_of_def put_def map_set_same)

lemma mark_done [simp]: "\<not> needs_receipt (mark_msg m)"
  by (simp add: mark_msg_def needs_receipt_def)

lemma mark_id: "filter needs_receipt ms = [] \<Longrightarrow> map mark_msg ms = ms"
  by (auto simp: mark_msg_def filter_empty_conv intro: map_idI)

lemma markRead_nothing:
  assumes "conv_of s p = Some c" "filter needs_receipt (messages c) = []" "unread c = 0"
  shows "markRead p s = (s, [])"
proof -
  have "c\<lparr>messages := messages c, unread := 0\<rparr> = c" using assms(3) by simp
  then show ?thesis using assms mark_id by (simp add: markRead_def put_same)
qed

lemma markRead_conv:
  "conv_of s p = Some c \<Longrightarrow>
    conv_of (fst (markRead p s)) p = Some (c\<lparr>messages := map mark_msg (messages c), unread := 0\<rparr>)"
  by (simp add: markRead_def Let_def case_prod_beta)

text \<open>Opening a thread sends one read receipt for each inbound message that has an envelope and was
  not receipted yet, to the real sender (in a group, the member), in thread order; it clears the
  unread count, and opening the thread again sends nothing and changes nothing.\<close>

theorem markRead_once:
  assumes "conv_of s p = Some c"
  shows "filter (\<lambda>e. \<exists>u i. e = SendRead u i) (snd (markRead p s)) =
      map (\<lambda>m. SendRead (case m_sender m of None \<Rightarrow> p | Some u \<Rightarrow> u) (the (envelopeId m)))
        (filter (\<lambda>m. \<not> mine m \<and> \<not> readSent m \<and> some_text (envelopeId m)) (messages c)) \<and>
    (\<exists>d. conv_of (fst (markRead p s)) p = Some d \<and> unread d = 0) \<and>
    markRead p (fst (markRead p s)) = (fst (markRead p s), [])"
proof -
  have all: "filter (\<lambda>e. \<exists>u i. e = SendRead u i) (map (receipt_of p) ms) = map (receipt_of p) ms" for ms
    by (induction ms) (auto simp: receipt_of_def)
  have "filter (\<lambda>e. \<exists>u i. e = SendRead u i) (snd (markRead p s)) =
      map (\<lambda>m. SendRead (case m_sender m of None \<Rightarrow> p | Some u \<Rightarrow> u) (the (envelopeId m)))
        (filter (\<lambda>m. \<not> mine m \<and> \<not> readSent m \<and> some_text (envelopeId m)) (messages c))"
    using assms by (simp add: markRead_def Let_def case_prod_beta all publish_effects
        receipt_of_def [abs_def] needs_receipt_def [abs_def])
  moreover have "\<exists>d. conv_of (fst (markRead p s)) p = Some d \<and> unread d = 0"
    using markRead_conv [OF assms] by simp
  moreover have "markRead p (fst (markRead p s)) = (fst (markRead p s), [])"
    by (rule markRead_nothing [OF markRead_conv [OF assms]]) (simp_all add: filter_empty_conv)
  ultimately show ?thesis by blast
qed

subsection \<open>Restarts\<close>


text \<open>Because \<open>hydrate\<close> drops the group of a saved thread, after a restart a text typed into a
  group goes to the group id as if it were a user, and to none of the members.\<close>

theorem group_lost_on_restart:
  assumes "conv_reach s" and "conv_of s g = Some c" and "group c = Some info"
    and "SendText p body ref \<in> set (snd (send me now g txt
      (fst (hydrate (Some (to_persist s)) (fst (start init_store))))))"
  shows "p = g \<and> body = txt"
proof -
  let ?t = "fst (hydrate (Some (to_persist s)) (fst (start init_store)))"
  have "conv_of ?t g = Some (restored c)"
    using conv_of_restored [OF reach_inv [OF assms(1)]] assms(2) by simp
  then have "send me now g txt ?t = (let (s2, m) = make txt True (int now) ?t;
              ref = client_ref (counter s2) now;
              (s3, es) = append_msg g (restored c) (m\<lparr>clientRef := Some ref, status := Some Sending\<rparr>)
                (int now) s2
          in (s3, es @ [SendText g txt (Some ref)]))"
    by (simp add: send_def ensure_def restored_def)
  then show ?thesis using assms(4)
    by (auto simp: Let_def case_prod_beta append_msg_def publish_effects split: if_splits)
qed

subsection \<open>The list and the stars\<close>

lemma getConversations_publish:
  assumes "map_ok (convs s)"
  shows "getConversations (fst (publish s)) = map snd (sort_desc (\<lambda>p. lastAt (snd p)) (convs s))"
proof -
  have "conv_of s (fst p) = Some (snd p)" if "p \<in> set (sort_desc (\<lambda>p. lastAt (snd p)) (convs s))" for p
    using that assms by (simp add: conv_of_def map_ok_mem [symmetric])
  then have "List.map_filter (conv_of s) (map fst l) = map snd l"
    if "set l \<subseteq> set (sort_desc (\<lambda>p. lastAt (snd p)) (convs s))" for l
    using that by (induction l) (auto simp: map_filter_simps)
  then show ?thesis by (simp add: getConversations_def publish_snapshot)
qed

text \<open>What the listeners see after every notification is the complete list of threads, each once,
  newest activity first.\<close>

theorem list_is_complete_and_sorted:
  assumes "conv_reach s"
  shows "mset (getConversations (fst (publish s))) = mset (map snd (convs s)) \<and>
    sorted_wrt (\<lambda>a b. lastAt b \<le> lastAt a) (getConversations (fst (publish s)))"
proof -
  have "map_ok (convs s)" using reach_inv [OF assms] by (rule store_invD(1))
  moreover have "sorted_wrt (\<lambda>a b. lastAt (snd b) \<le> lastAt (snd a)) (sort_desc (\<lambda>p. lastAt (snd p)) (convs s))"
    by (rule sorted_sort_desc)
  ultimately show ?thesis by (simp add: getConversations_publish sorted_wrt_map)
qed

text \<open>Starring a message twice restores every thread.\<close>

theorem toggleStar_involution:
  "conv_of (fst (toggleStar p mid (fst (toggleStar p mid s)))) = conv_of s"
proof (rule ext)
  fix k
  have "map ((\<lambda>m. if m_id m = mid then m\<lparr>starred := \<not> starred m\<rparr> else m) \<circ>
      (\<lambda>m. if m_id m = mid then m\<lparr>starred := \<not> starred m\<rparr> else m)) ms = ms" for ms
    by (rule map_idI) simp
  note unchanged = this
  show "conv_of (fst (toggleStar p mid (fst (toggleStar p mid s)))) k = conv_of s k"
    by (cases "conv_of s p") (simp_all add: toggleStar_def map_msg_def unchanged del: map_map, simp_all add: unchanged)
qed



text \<open>A message that arrives between \<open>start\<close> and the end of \<open>hydrate\<close> takes an id that the saved
  history already uses: here the thread ends up with two messages under the first id.\<close>

theorem hydrate_race:
  "map m_id (getMessages (fst (hydrate
      (Some (to_persist (fst (send None 0 (js ''bob'') (js ''hi'') init_store))))
      (fst (receive_text (js ''bob'') (js ''yo'') 1 None None (fst (start init_store)))))) (js ''bob'')) =
    [msg_id 0, msg_id 0]"
  by (simp add: getMessages_def hydrate_def to_persist_def send_def receive_text_def start_def init_store_def
      ensure_def conv_of_def make_def append_msg_def publish_def emit_def rebuild_def schedulePersist_def
      save_conv_def hydrate_one_def put_def with_env_def empty_conv_def strip_media_def Let_def)

subsection \<open>Witnesses\<close>

definition demo :: conv_store where
  "demo = fst (send (Some (js ''me'')) 5 (js ''bob'') (js ''hi'') init_store)"

lemma demo_reach: "conv_reach demo"
  unfolding demo_def by (rule conv_reach.Step [OF conv_reach.Init conv_step.Send])

lemma demo_conv: "\<exists>m. conv_of demo (js ''bob'') = Some ((empty_conv (js ''bob''))\<lparr>messages := [m], lastAt := 5\<rparr>) \<and>
    clientRef m = Some (client_ref 1 5) \<and> status m = Some Sending"
  by (simp add: demo_def send_def ensure_def init_store_def conv_of_def put_def make_def Let_def
      case_prod_beta append_msg_def empty_conv_def)

definition demo_group :: conv_store where
  "demo_group = fst (createGroup 5 [] (js ''team'') [js ''bob'', js ''eve''] demo)"

lemma demo_group_reach: "conv_reach demo_group"
  unfolding demo_group_def by (rule conv_reach.Step [OF demo_reach conv_step.CreateGroup])

lemma demo_new_conv: "k \<noteq> js ''bob'' \<Longrightarrow> conv_of demo k = None"
  by (simp add: demo_def send_def ensure_def init_store_def conv_of_def put_def make_def Let_def
      case_prod_beta append_msg_def empty_conv_def)

lemma demo_group_conv: "\<exists>c. conv_of demo_group (newGroupId 5 []) = Some c \<and> peerUserId c = newGroupId 5 [] \<and>
    group c = Some \<lparr>g_name = js ''team'', g_members = [js ''bob'', js ''eve'']\<rparr>"
proof -
  have "newGroupId 5 [] \<noteq> js ''bob''" by (simp add: newGroupId_def fresh_id_def js_Cons of_char_def)
  then show ?thesis
    by (simp add: demo_group_def createGroup_def Let_def case_prod_beta ensure_value demo_new_conv empty_conv_def)
qed

lemma applyStatus_raises_witness:
  "\<exists>c m. conv_of (fst (applyStatus (client_ref 1 5) Read demo)) (js ''bob'') = Some c \<and>
    messages c = [m] \<and> status m = Some Read"
  using demo_conv by (auto simp: applyStatus_raises [OF demo_reach] rank_of_def)

lemma tick_is_highest_status_witness:
  "\<exists>c m. conv_of (fold (\<lambda>u s. fst (applyStatus (fst u) (snd u) s)) [(client_ref 1 5, Read), (client_ref 1 5, Sent)] demo) (js ''bob'') = Some c \<and>
    messages c = [m] \<and> status m = Some Read"
proof -
  let ?us = "[(client_ref 1 5, Read), (client_ref 1 5, Sent)]"
  have e: "{Some t | t. (client_ref (Suc 0) 5, t) \<in> set ?us} = {Some Read, Some Sent}" by auto
  have x: "Max (insert (Some Sending) {Some Read, Some Sent}) = Some Read"
    by (simp add: max_def less_eq_message_status_def)
  obtain m where m: "conv_of demo (js ''bob'') = Some ((empty_conv (js ''bob''))\<lparr>messages := [m], lastAt := 5\<rparr>)"
    "clientRef m = Some (client_ref 1 5)" "status m = Some Sending" using demo_conv by blast
  show ?thesis
    unfolding tick_is_highest_status [OF demo_reach, of ?us "js ''bob''"] m(1) option.map
    using e x by (simp add: m(2,3) del: set_simps)
qed

lemma status_order_irrelevant_witness:
  "conv_of (fold (\<lambda>u s. fst (applyStatus (fst u) (snd u) s)) [(client_ref 1 5, Read), (client_ref 1 5, Sent)] demo) (js ''bob'') =
   conv_of (fold (\<lambda>u s. fst (applyStatus (fst u) (snd u) s)) [(client_ref 1 5, Sent), (client_ref 1 5, Read)] demo) (js ''bob'')"
  by (rule status_order_irrelevant [OF demo_reach]) simp

lemma signals_leave_threads_witness:
  "demo = fst (demo, [RouteTyping (js ''bob'') (js ''bob'') True]) \<and> Emit \<notin> set [RouteTyping (js ''bob'') (js ''bob'') True] \<and>
    ArmSave \<notin> set [RouteTyping (js ''bob'') (js ''bob'') True]"
proof -
  let ?p = "\<lparr>typing = True, typing_gid = None\<rparr>"
  have "isTypingBody (buildTypingBody ?p)"
    using body_kind_build(1) [of ?p] by (simp add: body_kind_def split: if_splits)
  moreover obtain w where "parseTypingBody (buildTypingBody ?p) = Some w" "truthy w" "typing_of_json w = Some ?p"
    using typing_body.parsed by blast
  ultimately have "receive None (js ''bob'') (buildTypingBody ?p) 0 None None demo =
      Some (demo, [RouteTyping (js ''bob'') (js ''bob'') True])"
    by (simp add: receive_def on_payload_def)
  from signals_leave_threads [OF this] show ?thesis by simp
qed

lemma text_is_appended_once_witness:
  "\<exists>c m. conv_of (fst (receive_text (js ''bob'') (js ''yo'') 9 None None demo)) (js ''bob'') = Some c \<and>
    messages c = getMessages demo (js ''bob'') @ [m] \<and> m_text m = js ''yo'' \<and> \<not> mine m"
proof -
  have k: "body_kind (js ''yo'') = KText"
    by (simp add: body_kind_def is_body_defs marker_chars js_Cons of_char_def)
  show ?thesis
    using text_is_appended_once [OF k, where me = None and peer = "js ''bob''" and at = 9 and env = None
        and v = None and s = demo and s' = "fst (receive_text (js ''bob'') (js ''yo'') 9 None None demo)"
        and es = "snd (receive_text (js ''bob'') (js ''yo'') 9 None None demo)"]
    by (auto simp: receive_KText [OF k])
qed

lemma group_message_delivered_witness:
  "\<exists>body. SendText (js ''bob'') body None \<in> set (snd (send (Some (js ''me'')) 7 (newGroupId 5 []) (js ''yo'') demo_group))"
proof -
  obtain c where c: "conv_of demo_group (newGroupId 5 []) = Some c" "peerUserId c = newGroupId 5 []"
    "group c = Some \<lparr>g_name = js ''team'', g_members = [js ''bob'', js ''eve'']\<rparr>"
    using demo_group_conv by blast
  show ?thesis
    using group_message_delivered [OF c(1) c(3) c(2), of "js ''me''" 7 "js ''yo''" 9 None None] by (auto simp: js_def)
qed

lemma markRead_once_witness:
  "\<exists>d. conv_of (fst (markRead (js ''bob'') demo)) (js ''bob'') = Some d \<and> unread d = 0"
  using demo_conv markRead_once [of demo "js ''bob''"] by blast


lemma group_lost_on_restart_witness:
  "\<exists>ref. SendText (newGroupId 5 []) (js ''yo'') ref \<in> set (snd (send None 7 (newGroupId 5 []) (js ''yo'')
      (fst (hydrate (Some (to_persist demo_group)) (fst (start init_store))))))"
proof -
  let ?t = "fst (hydrate (Some (to_persist demo_group)) (fst (start init_store)))"
  obtain c where c: "conv_of demo_group (newGroupId 5 []) = Some c"
    "group c = Some \<lparr>g_name = js ''team'', g_members = [js ''bob'', js ''eve'']\<rparr>"
    using demo_group_conv by blast
  have "conv_of ?t (newGroupId 5 []) = Some (restored c)"
    using conv_of_restored [OF reach_inv [OF demo_group_reach]] c by simp
  then have "\<exists>p body ref. SendText p body ref \<in> set (snd (send None 7 (newGroupId 5 []) (js ''yo'') ?t))"
    by (auto simp: send_def ensure_def restored_def Let_def case_prod_beta)
  then show ?thesis using group_lost_on_restart [OF demo_group_reach c] by blast
qed

lemma list_is_complete_and_sorted_witness:
  "mset (getConversations (fst (publish demo))) = mset (map snd (convs demo))"
  using list_is_complete_and_sorted [OF demo_reach] by blast


end
