(* ===== verification/Typing.thy ===== *)
theory Typing
  imports Wire
begin

text \<open>
  The typing store, \<open>apps/mobile/src/store/typing.ts\<close>: who is typing in which conversation. A signal
  lives for \<open>TYPING_TTL_MS\<close>; a one-second sweep drops what has expired. Screens read a cached list
  per conversation. The clock is read once per handler. \<open>typing_reach t s\<close>: the store is \<open>s\<close> after
  some sequence of handlers at non-decreasing times up to \<open>t\<close>.
\<close>

subsection \<open>State and operations\<close>

definition TYPING_TTL_MS :: int where "TYPING_TTL_MS = 6000"

record typing_store =
  byConv :: "(jstr, (jstr, int) jsmap) jsmap"
  sweepTimer :: bool
  snapshots :: "(jstr, jstr list) jsmap"

datatype typing_effect = TypingChanged | StartSweep | StopSweep

definition typing_init :: typing_store where
  "typing_init = \<lparr>byConv = [], sweepTimer = False, snapshots = []\<rparr>"

definition senders_of :: "typing_store \<Rightarrow> jstr \<Rightarrow> (jstr, int) jsmap option" where
  "senders_of s c = map_of (byConv s) c"

definition set_senders :: "jstr \<Rightarrow> (jstr, int) jsmap \<Rightarrow> typing_store \<Rightarrow> typing_store" where
  "set_senders c m s = s\<lparr>byConv := map_set c m (byConv s)\<rparr>"

definition drop_conv :: "jstr \<Rightarrow> typing_store \<Rightarrow> typing_store" where
  "drop_conv c s = s\<lparr>byConv := map_del c (byConv s)\<rparr>"

definition compute_live :: "int \<Rightarrow> jstr \<Rightarrow> typing_store \<Rightarrow> jstr list" where
  "compute_live now c s =
    (case senders_of s c of None \<Rightarrow> []
     | Some m \<Rightarrow> map fst (filter (\<lambda>p. now < snd p) m))"

definition invalidate :: "int \<Rightarrow> jstr \<Rightarrow> typing_store \<Rightarrow> typing_store" where
  "invalidate now c s =
    (let new = compute_live now c s in
     if map_of (snapshots s) c = Some new then s
     else s\<lparr>snapshots := map_set c new (snapshots s)\<rparr>)"

definition ensureSweep :: "typing_store \<Rightarrow> typing_store \<times> typing_effect list" where
  "ensureSweep s = (if sweepTimer s then (s, []) else (s\<lparr>sweepTimer := True\<rparr>, [StartSweep]))"

definition receiveTyping :: "int \<Rightarrow> jstr \<Rightarrow> jstr \<Rightarrow> bool \<Rightarrow> typing_store \<Rightarrow>
    typing_store \<times> typing_effect list" where
  "receiveTyping now c sender on s =
    (if on then
       (let m = (case senders_of s c of None \<Rightarrow> [] | Some m \<Rightarrow> m);
            (s1, es) = ensureSweep (set_senders c (map_set sender (now + TYPING_TTL_MS) m) s)
        in (invalidate now c s1, es @ [TypingChanged]))
     else
       (case senders_of s c of None \<Rightarrow> (s, [])
        | Some m \<Rightarrow>
            (let m1 = map_del sender m;
                 s1 = (if m1 = [] then drop_conv c s else set_senders c m1 s)
             in (invalidate now c s1, [TypingChanged]))))"

definition clear_typing :: "typing_store \<Rightarrow> typing_store \<times> typing_effect list" where
  "clear_typing s =
    (if byConv s = [] then (s, []) else (s\<lparr>byConv := [], snapshots := []\<rparr>, [TypingChanged]))"

definition getTyping :: "int \<Rightarrow> jstr \<Rightarrow> typing_store \<Rightarrow> typing_store \<times> jstr list" where
  "getTyping now c s =
    (case map_of (snapshots s) c of
       Some l \<Rightarrow> (s, l)
     | None \<Rightarrow> (s\<lparr>snapshots := map_set c (compute_live now c s) (snapshots s)\<rparr>, compute_live now c s))"

text \<open>One round of the sweep's outer loop; \<open>changed\<close> is never reset between rounds.\<close>

definition sweep_one :: "int \<Rightarrow> typing_store \<times> bool \<Rightarrow> jstr \<times> (jstr, int) jsmap \<Rightarrow> typing_store \<times> bool" where
  "sweep_one now sc p =
    (let (s, changed) = sc; (c, m) = p;
         live = filter (\<lambda>q. now < snd q) m;
         changed1 = (changed \<or> length live \<noteq> length m);
         s1 = (if live = [] then drop_conv c s else set_senders c live s)
     in (if changed1 then invalidate now c s1 else s1, changed1))"

definition sweep :: "int \<Rightarrow> typing_store \<Rightarrow> typing_store \<times> typing_effect list" where
  "sweep now s =
    (let (s1, changed) = foldl (sweep_one now) (s, False) (byConv s);
         stop = (byConv s1 = [] \<and> sweepTimer s1);
         s2 = (if stop then s1\<lparr>sweepTimer := False\<rparr> else s1)
     in (s2, (if stop then [StopSweep] else []) @ (if changed then [TypingChanged] else [])))"

subsection \<open>Runs\<close>

text \<open>The sweep fires only while its timer is armed.\<close>

inductive typing_reach :: "int \<Rightarrow> typing_store \<Rightarrow> bool" where
  Init: "typing_reach t typing_init"
| Receive: "typing_reach t s \<Longrightarrow> t \<le> now \<Longrightarrow> typing_reach now (fst (receiveTyping now c x on s))"
| Clear: "typing_reach t s \<Longrightarrow> t \<le> now \<Longrightarrow> typing_reach now (fst (clear_typing s))"
| Get: "typing_reach t s \<Longrightarrow> t \<le> now \<Longrightarrow> typing_reach now (fst (getTyping now c s))"
| Sweep: "typing_reach t s \<Longrightarrow> t \<le> now \<Longrightarrow> sweepTimer s \<Longrightarrow> typing_reach now (fst (sweep now s))"

interpretation rooms: keyed_store_del senders_of set_senders "\<lambda>s. map_ok (byConv s)" drop_conv
  by unfold_locales (auto simp: senders_of_def set_senders_def drop_conv_def)

subsection \<open>Invariant\<close>

text \<open>
  No conversation is kept without a typist, a sweep is pending while anyone types, and a cached list
  names recorded typists only and misses none that is still live.
\<close>

definition snap_ok :: "int \<Rightarrow> typing_store \<Rightarrow> jstr \<Rightarrow> bool" where
  "snap_ok t s c \<longleftrightarrow> (\<forall>l. map_of (snapshots s) c = Some l \<longrightarrow>
     set (compute_live t c s) \<subseteq> set l \<and>
     set l \<subseteq> (case senders_of s c of None \<Rightarrow> {} | Some m \<Rightarrow> fst ` set m))"

definition rooms_ok :: "typing_store \<Rightarrow> bool" where
  "rooms_ok s \<longleftrightarrow> map_ok (byConv s) \<and> (\<forall>c m. senders_of s c = Some m \<longrightarrow> m \<noteq> [] \<and> map_ok m)"

definition typing_inv :: "int \<Rightarrow> typing_store \<Rightarrow> bool" where
  "typing_inv t s \<longleftrightarrow> rooms_ok s \<and> (byConv s \<noteq> [] \<longrightarrow> sweepTimer s) \<and> (\<forall>c. snap_ok t s c)"

lemma senders_ext [simp]: "senders_of (s\<lparr>sweepTimer := b\<rparr>) = senders_of s"
  "senders_of (s\<lparr>snapshots := x\<rparr>) = senders_of s" "senders_of (invalidate t c s) = senders_of s"
  by (auto simp: senders_of_def invalidate_def Let_def)

lemma live_ext [simp]: "compute_live t c (s\<lparr>sweepTimer := b\<rparr>) = compute_live t c s"
  "compute_live t c (s\<lparr>snapshots := x\<rparr>) = compute_live t c s"
  "compute_live t c (invalidate u d s) = compute_live t c s"
  by (simp_all add: compute_live_def)

lemma room_fields [simp]: "snapshots (set_senders c m s) = snapshots s" "snapshots (drop_conv c s) = snapshots s"
  "sweepTimer (set_senders c m s) = sweepTimer s" "sweepTimer (drop_conv c s) = sweepTimer s"
  "byConv (invalidate t c s) = byConv s" "sweepTimer (invalidate t c s) = sweepTimer s"
  by (simp_all add: set_senders_def drop_conv_def invalidate_def Let_def)

lemma live_known: "set (compute_live t c s) \<subseteq> (case senders_of s c of None \<Rightarrow> {} | Some m \<Rightarrow> fst ` set m)"
  by (auto simp: compute_live_def split: option.splits)

lemma snapshots_invalidate:
  "map_of (snapshots (invalidate t c s)) d = (if d = c then Some (compute_live t c s) else map_of (snapshots s) d)"
  by (auto simp: invalidate_def Let_def)

lemma compute_live_cong: "senders_of s c = senders_of s' c \<Longrightarrow> compute_live t c s = compute_live t c s'"
  by (simp add: compute_live_def)

lemma snap_ok_invalidate: "snap_ok t (invalidate t c s) c"
  using live_known [of t c s] by (simp add: snap_ok_def snapshots_invalidate compute_live_def)

lemma snap_ok_other: "d \<noteq> c \<Longrightarrow> snap_ok t (invalidate u c s) d = snap_ok t s d"
  by (simp add: snap_ok_def snapshots_invalidate compute_live_def)

lemma snap_ok_later: "snap_ok t s c \<Longrightarrow> t \<le> u \<Longrightarrow> snap_ok u s c"
proof -
  assume "t \<le> u"
  then have "set (compute_live u c s) \<subseteq> set (compute_live t c s)"
    by (cases "senders_of s c") (auto simp: compute_live_def)
  then show "snap_ok t s c \<Longrightarrow> snap_ok u s c" by (fastforce simp: snap_ok_def)
qed

lemma snap_ok_ext [simp]: "snap_ok t (s\<lparr>sweepTimer := b\<rparr>) c = snap_ok t s c"
  by (simp add: snap_ok_def)

lemma typing_inv_later: "typing_inv t s \<Longrightarrow> t \<le> u \<Longrightarrow> typing_inv u s"
  by (auto simp: typing_inv_def intro: snap_ok_later)

lemma rooms_ok_set: "rooms_ok s \<Longrightarrow> m \<noteq> [] \<Longrightarrow> map_ok m \<Longrightarrow> rooms_ok (set_senders c m s)"
  by (auto simp: rooms_ok_def rooms.valid_store rooms.look_store split: if_splits)

lemma rooms_ok_drop: "rooms_ok s \<Longrightarrow> rooms_ok (drop_conv c s)"
  by (auto simp: rooms_ok_def rooms.valid_del rooms.look_del split: if_splits)

lemma rooms_ok_ext [simp]: "rooms_ok (s\<lparr>sweepTimer := b\<rparr>) = rooms_ok s"
  "rooms_ok (s\<lparr>snapshots := x\<rparr>) = rooms_ok s" "rooms_ok (invalidate t c s) = rooms_ok s"
  by (simp_all add: rooms_ok_def) 

lemma set_senders_nonempty [simp]: "byConv (set_senders c m s) \<noteq> []"
  by (simp add: set_senders_def)

lemma drop_conv_empty: "byConv s = [] \<Longrightarrow> byConv (drop_conv c s) = []"
  by (simp add: drop_conv_def)

text \<open>A change to one conversation followed by \<open>invalidate\<close>.\<close>

lemma typing_inv_touch:
  assumes s: "typing_inv t s" and le: "t \<le> now" and r: "rooms_ok s'" and n: "snapshots s' = snapshots s"
    and d: "\<And>d. d \<noteq> c \<Longrightarrow> senders_of s' d = senders_of s d" and b: "byConv s' \<noteq> [] \<longrightarrow> sweepTimer s'"
  shows "typing_inv now (invalidate now c s')"
proof -
  have "snap_ok now (invalidate now c s') e" for e
  proof (cases "e = c")
    case False
    then have "compute_live now e s' = compute_live now e s" using d by (intro compute_live_cong) simp
    moreover have "snap_ok now s e" using typing_inv_later [OF s le] by (simp add: typing_inv_def)
    ultimately show ?thesis using False d by (simp add: snap_ok_other) (simp add: snap_ok_def n)
  qed (simp add: snap_ok_invalidate)
  then show ?thesis using r b by (simp add: typing_inv_def)
qed

lemma inv_receiveTyping:
  assumes s: "typing_inv t s" and le: "t \<le> now"
  shows "typing_inv now (fst (receiveTyping now c x on s))"
proof (cases on)
  case True
  define m where "m = (case senders_of s c of None \<Rightarrow> [] | Some m \<Rightarrow> m)"
  define u where "u = (fst (ensureSweep (set_senders c (map_set x (now + TYPING_TTL_MS) m) s)))"
  have m: "map_ok m" using s by (auto simp: m_def typing_inv_def rooms_ok_def split: option.split)
  have "rooms_ok u" "snapshots u = snapshots s" "sweepTimer u"
    using s rooms_ok_set [of s "map_set x (now + TYPING_TTL_MS) m"] m
    by (auto simp: u_def ensureSweep_def typing_inv_def)
  moreover have "senders_of u d = senders_of s d" if "d \<noteq> c" for d
    using that by (simp add: u_def ensureSweep_def rooms.look_store)
  ultimately have "typing_inv now (invalidate now c u)" by (intro typing_inv_touch [OF s le]) auto
  then show ?thesis using True by (simp add: receiveTyping_def case_prod_beta Let_def u_def m_def)
next
  case False
  show ?thesis
  proof (cases "senders_of s c")
    case None
    then show ?thesis using False typing_inv_later [OF s le] by (simp add: receiveTyping_def)
  next
    case (Some m)
    define u where "u = (if map_del x m = [] then drop_conv c s else set_senders c (map_del x m) s)"
    have m: "map_ok m" "rooms_ok s" using s Some by (auto simp: typing_inv_def rooms_ok_def)
    have "byConv s \<noteq> []" using Some by (auto simp: senders_of_def)
    then have "rooms_ok u" "snapshots u = snapshots s" "sweepTimer u"
      using s m by (auto simp: u_def typing_inv_def intro!: rooms_ok_set rooms_ok_drop)
    moreover have "senders_of u d = senders_of s d" if "d \<noteq> c" for d
      using that by (simp add: u_def rooms.look_store rooms.look_del)
    ultimately have "typing_inv now (invalidate now c u)" by (intro typing_inv_touch [OF s le]) auto
    then show ?thesis using False Some by (simp add: receiveTyping_def Let_def u_def)
  qed
qed

lemma inv_getTyping:
  assumes "typing_inv t s" "t \<le> now"
  shows "typing_inv now (fst (getTyping now c s))"
proof (cases "map_of (snapshots s) c")
  case None
  then have "fst (getTyping now c s) = invalidate now c s" by (simp add: getTyping_def invalidate_def Let_def)
  then show ?thesis
    using assms by (simp, intro typing_inv_touch) (auto simp: typing_inv_def)
qed (simp add: getTyping_def typing_inv_later [OF assms])

lemma inv_clear: "typing_inv t s \<Longrightarrow> typing_inv t (fst (clear_typing s))"
  by (auto simp: clear_typing_def typing_inv_def rooms_ok_def snap_ok_def senders_of_def)


subsection \<open>The sweep\<close>

definition exact :: "int \<Rightarrow> typing_store \<Rightarrow> jstr \<Rightarrow> bool" where
  "exact t s c \<longleftrightarrow> (\<forall>l. map_of (snapshots s) c = Some l \<longrightarrow> set l = set (compute_live t c s))"

definition unexpired :: "int \<Rightarrow> (jstr, int) jsmap \<Rightarrow> (jstr, int) jsmap option" where
  "unexpired now m = (let live = filter (\<lambda>q. now < snd q) m in if live = [] then None else Some live)"

lemma live_unexpired: "Option.bind (senders_of s c) (unexpired now) = senders_of s' c \<Longrightarrow>
    compute_live now c s' = compute_live now c s"
  by (auto simp: compute_live_def unexpired_def Let_def split: option.splits if_splits)

lemma sweep_one_step:
  assumes s: "rooms_ok s" "\<And>e. snap_ok now s e" and m: "senders_of s c = Some m"
  shows "rooms_ok (fst (sweep_one now (s, b) (c, m)))"
    "senders_of (fst (sweep_one now (s, b) (c, m))) d = (if d = c then unexpired now m else senders_of s d)"
    "snap_ok now (fst (sweep_one now (s, b) (c, m))) d"
    "exact now (fst (sweep_one now (s, b) (c, m))) c"
    "d \<noteq> c \<Longrightarrow> exact now s d \<Longrightarrow> exact now (fst (sweep_one now (s, b) (c, m))) d"
    "sweepTimer (fst (sweep_one now (s, b) (c, m))) = sweepTimer s"
proof -
  define live where "live = filter (\<lambda>q. now < snd q) m"
  define s1 where "s1 = (if live = [] then drop_conv c s else set_senders c live s)"
  define ch where "ch = (b \<or> length live \<noteq> length m)"
  have out: "fst (sweep_one now (s, b) (c, m)) = (if ch then invalidate now c s1 else s1)"
    by (simp add: sweep_one_def Let_def live_def s1_def ch_def)
  have m_ok: "map_ok m" using s m by (simp add: rooms_ok_def)
  then have "map_ok live" by (simp add: live_def map_ok_def distinct_map_filter)
  then have r: "rooms_ok s1" using s by (simp add: s1_def rooms_ok_set rooms_ok_drop)
  have look: "senders_of s1 d = (if d = c then unexpired now m else senders_of s d)" for d
    by (auto simp: s1_def unexpired_def Let_def live_def rooms.look_store rooms.look_del)
  have live: "compute_live now d s1 = compute_live now d s" for d
    by (cases "d = c") (auto simp: look m intro: live_unexpired compute_live_cong)
  have snap: "snapshots s1 = snapshots s" by (simp add: s1_def)
  have same: "live = m" if "\<not> ch"
    using that length_filter_less [of _ m "\<lambda>q. now < snd q"] by (auto simp: ch_def live_def filter_id_conv)
  have all: "compute_live now c s = map fst m" if "\<not> ch"
    using same [OF that] m by (simp add: compute_live_def live_def)
  show "rooms_ok (fst (sweep_one now (s, b) (c, m)))" using r by (simp add: out)
  show "senders_of (fst (sweep_one now (s, b) (c, m))) d = (if d = c then unexpired now m else senders_of s d)"
    by (simp add: out look)
  have other: "snap_ok now s1 e" if "e \<noteq> c" for e
    using s(2) [of e] that look by (simp add: snap_ok_def snap live)
  have unchanged: "set l = fst ` set m" if "\<not> ch" "map_of (snapshots s) c = Some l" for l
    using s(2) [of c] that all [OF that(1)] m by (auto simp: snap_ok_def)
  have self: "unexpired now m = Some m" if "\<not> ch"
    using same [OF that] s(1) m by (auto simp: unexpired_def Let_def live_def rooms_ok_def)
  show "snap_ok now (fst (sweep_one now (s, b) (c, m))) d"
  proof (cases "d = c")
    case True
    then show ?thesis
      using unchanged self all by (auto simp: out snap_ok_invalidate snap_ok_def [of now s1] snap live look)
  qed (simp add: out snap_ok_other other)
  show "exact now (fst (sweep_one now (s, b) (c, m))) c"
    using unchanged all by (cases ch) (simp_all add: out exact_def snapshots_invalidate snap live)
  show "exact now (fst (sweep_one now (s, b) (c, m))) d" if "d \<noteq> c" "exact now s d"
    using that by (cases ch) (simp_all add: out exact_def snapshots_invalidate snap live)
  show "sweepTimer (fst (sweep_one now (s, b) (c, m))) = sweepTimer s"
    by (simp add: out s1_def)
qed

lemma sweep_loop:
  assumes "map_ok es" "\<forall>c m. (c, m) \<in> set es \<longrightarrow> senders_of s c = Some m" "rooms_ok s" "\<forall>e. snap_ok now s e"
  shows "rooms_ok (fst (foldl (sweep_one now) (s, b) es)) \<and>
    (\<forall>d. senders_of (fst (foldl (sweep_one now) (s, b) es)) d =
      (case map_of es d of Some m \<Rightarrow> unexpired now m | None \<Rightarrow> senders_of s d)) \<and>
    (\<forall>d. snap_ok now (fst (foldl (sweep_one now) (s, b) es)) d) \<and>
    (\<forall>d. d \<in> fst ` set es \<or> exact now s d \<longrightarrow> exact now (fst (foldl (sweep_one now) (s, b) es)) d) \<and>
    sweepTimer (fst (foldl (sweep_one now) (s, b) es)) = sweepTimer s"
  using assms
proof (induction es arbitrary: s b)
  case (Cons p es)
  obtain c m where p: "p = (c, m)" by (cases p)
  obtain s1 b1 where s1: "sweep_one now (s, b) (c, m) = (s1, b1)" by (cases "sweep_one now (s, b) (c, m)")
  have m: "senders_of s c = Some m" using Cons.prems(2) p by simp
  note step = sweep_one_step [OF Cons.prems(3) Cons.prems(4) [rule_format] m, where b = b, unfolded s1 fst_conv]
  have c: "c \<notin> fst ` set es" "map_ok es" using Cons.prems(1) p by simp_all
  have "senders_of s1 d = Some k" if "(d, k) \<in> set es" for d k
  proof -
    have "d \<noteq> c" using that c(1) by force
    moreover have "senders_of s d = Some k" using that by (intro Cons.prems(2) [rule_format]) (simp add: p)
    ultimately show ?thesis by (simp only: step(2) if_False)
  qed
  then have mem: "\<forall>d k. (d, k) \<in> set es \<longrightarrow> senders_of s1 d = Some k" by blast
  have "\<forall>e. snap_ok now s1 e" using step(3) by blast
  note IH = Cons.IH [OF c(2) mem step(1) this, of b1]
  note IH1 = IH [THEN conjunct1]
    and IH2 = IH [THEN conjunct2, THEN conjunct1, rule_format]
    and IH3 = IH [THEN conjunct2, THEN conjunct2, THEN conjunct1, rule_format]
    and IH4 = IH [THEN conjunct2, THEN conjunct2, THEN conjunct2, THEN conjunct1, rule_format]
    and IH5 = IH [THEN conjunct2, THEN conjunct2, THEN conjunct2, THEN conjunct2]
  have none: "map_of es c = None" using c(1) by (simp add: map_of_eq_None_iff)
  have fold: "foldl (sweep_one now) (s, b) (p # es) = foldl (sweep_one now) (s1, b1) es"
    by (simp add: p s1)
  have ex1: "exact now s1 d" if "d = c \<or> exact now s d" for d
    using that step(4) step(5) [of d] by (cases "d = c") simp_all
  have ex: "d \<in> fst ` set (p # es) \<or> exact now s d \<longrightarrow>
      exact now (fst (foldl (sweep_one now) (s1, b1) es)) d" for d
    using IH4 [of d] ex1 [of d] by (cases "d \<in> fst ` set es") (auto simp: p)
  have look: "senders_of (fst (foldl (sweep_one now) (s1, b1) es)) d =
      (case map_of (p # es) d of Some m \<Rightarrow> unexpired now m | None \<Rightarrow> senders_of s d)" for d
    using none by (cases "d = c") (simp_all add: p IH2 step(2) split: option.split)
  show ?case unfolding fold
    by (intro conjI allI IH1 look ex IH3) (rule trans [OF IH5 step(6)])
qed simp

lemma sweep_spec:
  assumes s: "typing_inv t s" and le: "t \<le> now"
  shows "typing_inv now (fst (sweep now s))" "exact now (fst (sweep now s)) c"
    "senders_of (fst (sweep now s)) c = Option.bind (senders_of s c) (unexpired now)"
proof -
  obtain u b where u: "foldl (sweep_one now) (s, False) (byConv s) = (u, b)"
    by (cases "foldl (sweep_one now) (s, False) (byConv s)")
  have r: "rooms_ok s" using s by (simp add: typing_inv_def)
  then have m: "map_ok (byConv s)" by (simp add: rooms_ok_def)
  have ok: "snap_ok now s e" for e using typing_inv_later [OF s le] by (simp add: typing_inv_def)
  have mem: "\<forall>d k. (d, k) \<in> set (byConv s) \<longrightarrow> senders_of s d = Some k"
    using m by (simp add: senders_of_def map_ok_mem)
  have "\<forall>e. snap_ok now s e" using ok by blast
  note loop = sweep_loop [OF m mem r this, of False, unfolded u fst_conv]
  have fin: "fst (sweep now s) = (if byConv u = [] \<and> sweepTimer u then u\<lparr>sweepTimer := False\<rparr> else u)"
    by (simp add: sweep_def u Let_def)
  have look: "senders_of u d = Option.bind (senders_of s d) (unexpired now)" for d
    using loop by (auto simp: senders_of_def split: option.splits)
  have ex: "exact now u d" for d
  proof (cases "d \<in> fst ` set (byConv s)")
    case False
    then have none: "senders_of s d = None" by (simp add: senders_of_def map_of_eq_None_iff)
    have "exact now s d" using ok [of d] by (simp add: exact_def snap_ok_def none compute_live_def)
    then show ?thesis using loop by blast
  qed (use loop in blast)
  show "typing_inv now (fst (sweep now s))"
  proof -
    have "sweepTimer u" if ne: "byConv u \<noteq> []"
    proof -
      have "rooms_ok u" using loop by simp
      obtain p es where "byConv u = p # es" using ne by (cases "byConv u") auto
      then obtain d k where "senders_of u d = Some k"
        by (cases p) (fastforce simp: senders_of_def)
      then have "byConv s \<noteq> []" using look [of d] by (auto simp: senders_of_def)
      then show ?thesis using s loop by (simp add: typing_inv_def)
    qed
    moreover have "rooms_ok u" "\<forall>d. snap_ok now u d" using loop by blast+
    ultimately show ?thesis by (simp add: fin typing_inv_def)
  qed
  show "exact now (fst (sweep now s)) c" using ex [of c] by (simp add: fin exact_def)
  show "senders_of (fst (sweep now s)) c = Option.bind (senders_of s c) (unexpired now)"
    by (simp add: fin look)
qed

lemma typing_reach_inv: "typing_reach t s \<Longrightarrow> typing_inv t s"
proof (induction rule: typing_reach.induct)
  case (Init t)
  then show ?case by (simp add: typing_inv_def typing_init_def rooms_ok_def snap_ok_def senders_of_def)
next
  case (Clear t s now)
  then show ?case using inv_clear typing_inv_later by blast
qed (simp_all add: inv_receiveTyping inv_getTyping sweep_spec(1))


subsection \<open>What a screen shows\<close>

lemma getTyping_snd: "snd (getTyping now c s) = (case map_of (snapshots s) c of Some l \<Rightarrow> l | None \<Rightarrow> compute_live now c s)"
  by (simp add: getTyping_def split: option.split)

lemma set_compute_live:
  assumes "rooms_ok s"
  shows "set (compute_live now c s) = {x. \<exists>m e. senders_of s c = Some m \<and> map_of m x = Some e \<and> now < e}"
proof (cases "senders_of s c")
  case (Some m)
  then have "map_ok m" using assms by (simp add: rooms_ok_def)
  then show ?thesis using Some by (force simp: compute_live_def map_ok_mem [symmetric])
qed (simp add: compute_live_def)



text \<open>A "typing" signal shows its sender at once and a "stopped" signal removes it at once, in that
  conversation, after any history.\<close>

theorem typing_signal_shown:
  assumes "typing_reach t s" and "t \<le> now"
  shows "x \<in> set (snd (getTyping now c (fst (receiveTyping now c x True s)))) \<and>
    x \<notin> set (snd (getTyping now c (fst (receiveTyping now c x False s))))"
proof -
  have inv: "typing_inv t s" using assms(1) by (rule typing_reach_inv)
  let ?on = "fst (receiveTyping now c x True s)" and ?off = "fst (receiveTyping now c x False s)"
  have ok: "typing_inv now ?on" "typing_inv now ?off" by (rule inv_receiveTyping [OF inv assms(2)])+
  have "senders_of ?on c = Some (map_set x (now + TYPING_TTL_MS) (case senders_of s c of None \<Rightarrow> [] | Some m \<Rightarrow> m))"
    by (simp add: receiveTyping_def Let_def case_prod_beta ensureSweep_def rooms.look_store)
  then have "x \<in> set (compute_live now c ?on)"
    using ok(1) by (subst set_compute_live) (auto simp: typing_inv_def TYPING_TTL_MS_def)
  then have "x \<in> set (snd (getTyping now c ?on))"
    using ok(1) by (fastforce simp: getTyping_snd typing_inv_def snap_ok_def split: option.split)
  moreover have gone: "x \<notin> (case senders_of ?off c of None \<Rightarrow> {} | Some m \<Rightarrow> fst ` set m)"
  proof (cases "senders_of s c")
    case (Some m)
    have "x \<notin> fst ` set (map_del x m)" by (auto simp: map_del_def AList.delete_eq)
    then show ?thesis using Some
      by (auto simp: receiveTyping_def Let_def rooms.look_store rooms.look_del)
  qed (simp add: receiveTyping_def)
  have "x \<notin> set (snd (getTyping now c ?off))"
  proof (cases "map_of (snapshots ?off) c")
    case None
    then show ?thesis using gone live_known [of now c ?off] by (auto simp: getTyping_snd)
  next
    case (Some l)
    then have "set l \<subseteq> (case senders_of ?off c of None \<Rightarrow> {} | Some m \<Rightarrow> fst ` set m)"
      using ok(2) by (simp add: typing_inv_def snap_ok_def)
    then show ?thesis using gone Some by (auto simp: getTyping_snd)
  qed
  ultimately show ?thesis ..
qed

lemma typing_signal_shown_witness:
  "[1] \<in> set (snd (getTyping 3 [] (fst (receiveTyping 3 [] [1] True typing_init))))"
  using typing_signal_shown [OF typing_reach.Init [of 3], of 3 "[1]" "[]"] by simp

end
