(* ===== verification/Statuses.thy ===== *)
theory Statuses
  imports Wire
begin

text \<open>
  The status store of the Updates tab, \<open>apps/mobile/src/store/statuses.ts\<close>, and \<open>postStatus\<close>
  (\<open>apps/mobile/src/status/post.ts\<close>). The list is in memory only: de-duplicated by id, expired
  entries pruned, newest first.
\<close>

subsection \<open>State and operations\<close>

definition STATUS_TTL_MS :: int where "STATUS_TTL_MS = 24 * 60 * 60 * 1000"

record status_item = status_payload +
  fromUserId :: jstr
  fromPhone :: "jstr option"
  st_mine :: bool

type_synonym status_store = "status_item list"

definition upsert :: "int \<Rightarrow> status_item \<Rightarrow> status_store \<Rightarrow> status_store" where
  "upsert now item items =
    (let kept = filter (\<lambda>s. st_id s \<noteq> st_id item \<and> now < expiresAt s) items;
         pushed = (if now < expiresAt item then kept @ [item] else kept)
     in sort_desc st_at pushed)"

definition status_item_of :: "status_payload \<Rightarrow> jstr \<Rightarrow> jstr option \<Rightarrow> bool \<Rightarrow> status_item" where
  "status_item_of p u ph own = status_payload.extend p \<lparr>fromUserId = u, fromPhone = ph, st_mine = own\<rparr>"

definition addOwn :: "int \<Rightarrow> status_payload \<Rightarrow> status_store \<Rightarrow> status_store" where
  "addOwn now p = upsert now (status_item_of p (js ''me'') None True)"

definition receiveStatus :: "int \<Rightarrow> jstr \<Rightarrow> status_payload \<Rightarrow> jstr option \<Rightarrow> status_store \<Rightarrow> status_store" where
  "receiveStatus now u p ph = upsert now (status_item_of p u ph False)"

text \<open>The list and whether the listeners are told.\<close>

definition prune :: "int \<Rightarrow> status_store \<Rightarrow> status_store \<times> bool" where
  "prune now items =
    (let new = filter (\<lambda>s. now < expiresAt s) items in
     if length new \<noteq> length items then (new, True) else (items, False))"

text \<open>
  \<open>postStatus\<close>: the store after \<open>addOwn\<close>, the sends it starts (one per listed conversation) and, once
  they have settled, the number that succeeded.
\<close>

definition post_payload :: "nat \<Rightarrow> jstr \<Rightarrow> jstr \<Rightarrow> status_payload" where
  "post_payload now rnd text =
    \<lparr>st_id = fresh_id (js ''s-'') now rnd, st_text = text, st_at = int now,
     expiresAt = int now + STATUS_TTL_MS\<rparr>"

definition postStatus :: "nat \<Rightarrow> jstr \<Rightarrow> jstr \<Rightarrow> jstr list \<Rightarrow> status_store \<Rightarrow>
    status_store \<times> (jstr \<times> jstr) list" where
  "postStatus now rnd text peers items =
    (let p = post_payload now rnd text; body = buildStatusBody p
     in (addOwn (int now) p items, map (\<lambda>u. (u, body)) peers))"

definition post_result :: "('e + unit) list \<Rightarrow> nat" where
  "post_result outcomes = foldl (\<lambda>sent r. case r of Inr _ \<Rightarrow> sent + 1 | Inl _ \<Rightarrow> sent) 0 outcomes"

subsection \<open>Invariant\<close>

inductive status_reach :: "status_store \<Rightarrow> bool" where
  Init: "status_reach []"
| Own: "status_reach s \<Longrightarrow> status_reach (addOwn now p s)"
| Inbound: "status_reach s \<Longrightarrow> status_reach (receiveStatus now u p ph s)"
| Prune: "status_reach s \<Longrightarrow> status_reach (fst (prune now s))"

definition status_inv :: "status_store \<Rightarrow> bool" where
  "status_inv s \<longleftrightarrow> distinct (map st_id s) \<and> sorted_wrt (\<lambda>a b. st_at b \<le> st_at a) s"

lemma distinct_sort_desc: "distinct (map f (sort_desc k xs)) = distinct (map f xs)"
  by (metis mset_map mset_sort_desc mset_eq_imp_distinct_iff)

lemma set_upsert: "set (upsert now i s) =
    {x \<in> set s. st_id x \<noteq> st_id i \<and> now < expiresAt x} \<union> (if now < expiresAt i then {i} else {})"
  by (auto simp: upsert_def Let_def)

lemma inv_upsert: "status_inv s \<Longrightarrow> status_inv (upsert now i s)"
  unfolding status_inv_def upsert_def Let_def
  by (auto simp: distinct_sort_desc distinct_map_filter sorted_sort_desc)

lemma sorted_wrt_prune: "status_inv s \<Longrightarrow> status_inv (fst (prune now s))"
  by (auto simp: prune_def status_inv_def Let_def distinct_map_filter sorted_wrt_filter)

lemma status_reach_inv: "status_reach s \<Longrightarrow> status_inv s"
proof (induction rule: status_reach.induct)
  case Init
  then show ?case by (simp add: status_inv_def)
qed (simp_all add: addOwn_def receiveStatus_def inv_upsert sorted_wrt_prune)

lemma item_fields [simp]: "st_id (status_item_of p u ph m) = st_id p" "st_at (status_item_of p u ph m) = st_at p"
  "expiresAt (status_item_of p u ph m) = expiresAt p" "fromUserId (status_item_of p u ph m) = u"
  by (simp_all add: status_item_of_def status_payload.extend_def)

text \<open>The Updates list never shows the same status twice and is always newest first; receiving a
  status leaves exactly the live statuses, the new one replacing any older copy of it, and drops it
  when it has already expired.\<close>

theorem status_list:
  assumes "status_reach s"
  shows "distinct (map st_id s) \<and> sorted_wrt (\<lambda>a b. st_at b \<le> st_at a) s \<and>
    set (receiveStatus now u p ph s) = {x \<in> set s. st_id x \<noteq> st_id p \<and> now < expiresAt x} \<union>
      (if now < expiresAt p then {status_item_of p u ph False} else {})"
  using status_reach_inv [OF assms] by (simp add: status_inv_def receiveStatus_def set_upsert)

definition demo_status :: status_payload where
  "demo_status = \<lparr>st_id = [1], st_text = [2], st_at = 5, expiresAt = 9\<rparr>"

lemma status_list_witness:
  "length (receiveStatus 6 [7] demo_status None (addOwn 5 demo_status [])) = 1"
proof -
  have r: "status_reach (addOwn 5 demo_status [])" by (rule status_reach.Own [OF status_reach.Init])
  then have "status_reach (receiveStatus 6 [7] demo_status None (addOwn 5 demo_status []))"
    by (rule status_reach.Inbound)
  moreover have "set (receiveStatus 6 [7] demo_status None (addOwn 5 demo_status [])) = {status_item_of demo_status [7] None False}"
    using status_list [OF r, of 6 "[7]" demo_status None]
    by (auto simp: addOwn_def set_upsert demo_status_def)
  ultimately show ?thesis
    using status_reach_inv distinct_card [of "receiveStatus 6 [7] demo_status None (addOwn 5 demo_status [])"]
    by (simp add: status_inv_def distinct_map)
qed

text \<open>Posting a status shows it on one's own list for a day, hands every listed peer one body that
  the peer's client routes to its Updates tab as the same payload, and counts the sends that
  succeeded.\<close>

theorem postStatus_reaches_peers:
  "fst (postStatus now rnd text peers items) = addOwn (int now) (post_payload now rnd text) items \<and>
   (\<forall>t. int now \<le> t \<and> t < int now + STATUS_TTL_MS \<longrightarrow>
      (\<exists>x \<in> set (fst (prune t (addOwn (int now) (post_payload now rnd text) items))). st_text x = text \<and> st_mine x)) \<and>
   map fst (snd (postStatus now rnd text peers items)) = peers \<and>
   (\<forall>b \<in> set (map snd (snd (postStatus now rnd text peers items))).
      body_kind b = KStatus \<and> Option.bind (parseStatusBody b) status_of_json = Some (post_payload now rnd text)) \<and>
   post_result rs = length (filter (\<lambda>r. \<exists>u. r = Inr u) rs)"
proof -
  have count: "foldl (\<lambda>sent r. case r of Inr _ \<Rightarrow> sent + 1 | Inl _ \<Rightarrow> sent) n xs = n + length (filter (\<lambda>r. \<exists>u. r = Inr u) xs)"
    for n and xs :: "('a + unit) list"
    by (induction xs arbitrary: n) (auto split: sum.splits)
  let ?i = "status_item_of (post_payload now rnd text) (js ''me'') None True"
  have "\<exists>x \<in> set (fst (prune t (addOwn (int now) (post_payload now rnd text) items))). st_text x = text \<and> st_mine x"
    if "int now \<le> t" "t < int now + STATUS_TTL_MS" for t
  proof
    show "?i \<in> set (fst (prune t (addOwn (int now) (post_payload now rnd text) items)))"
      using that by (auto simp: prune_def Let_def addOwn_def set_upsert post_payload_def STATUS_TTL_MS_def)
  qed (simp add: status_item_of_def status_payload.extend_def post_payload_def)
  then show ?thesis
    by (auto simp: postStatus_def Let_def post_result_def count status_body.parse_shape comp_def)
qed

lemma postStatus_reaches_peers_witness:
  "\<exists>x \<in> set (fst (prune 8 (addOwn 7 (post_payload 7 [] [65]) []))). st_text x = [65]"
proof -
  have "\<forall>t. int 7 \<le> t \<and> t < int 7 + STATUS_TTL_MS \<longrightarrow>
      (\<exists>x \<in> set (fst (prune t (addOwn (int 7) (post_payload 7 [] [65]) []))). st_text x = [65] \<and> st_mine x)"
    using postStatus_reaches_peers [of 7 "[]" "[65]" "[]" "[]" "[]"] by blast
  from spec [OF this, of 8] show ?thesis by (auto simp: STATUS_TTL_MS_def)
qed

end
