(* ===== verification/Calls.thy ===== *)
theory Calls
  imports Wire
begin

text \<open>
  Calls: the display store (\<open>apps/mobile/src/call/store.ts\<close>), the signal bus (\<open>call/signalBus.ts\<close>)
  and the call manager (\<open>call/manager.ts\<close>).

  WebRTC is outside the sources: the peer connection is what the manager has told it (whether a
  remote description is set, the candidates added), media streams are their tracks' \<open>enabled\<close> flags
  and the URL string, and what an \<open>await\<close> yields is an argument of the function that continues after
  it. An \<open>async\<close> method is one function per stretch between awaits; every stretch reads \<open>this\<close> as it is
  then. The candidates queued in \<open>drainIce\<close> are added in one stretch. A \<open>TypeError\<close> on a missing
  \<open>this.pc\<close> rejects the method's promise: the effect \<open>Throws\<close>, after which nothing more happens.
\<close>

subsection \<open>State\<close>

datatype call_status = Idle | Outgoing | Incoming | Active | Ended

record call_ui =
  u_status :: call_status
  u_call :: "jstr option"
  u_peer :: "jstr option"
  u_name :: "jstr option"
  u_video :: bool
  u_muted :: bool
  u_cameraOff :: bool
  u_local :: "jstr option"
  u_remote :: "jstr option"
  u_startedAt :: "int option"
  u_reason :: "jstr option"

datatype direction = DirOut | DirIn
datatype call_outcome = Completed | Missed | Declined | CallFailed

record call_log_entry =
  l_call :: jstr
  l_peer :: jstr
  l_name :: "jstr option"
  l_video :: bool
  l_dir :: direction
  l_outcome :: call_outcome
  l_at :: int

record media_stream =
  audio_on :: "bool list"
  video_on :: "bool list"
  stream_url :: jstr

record peer_conn =
  remote_set :: bool
  added :: "ice list"

record call_sys =
  pc :: "peer_conn option"
  local_media :: "media_stream option"
  remote_media :: "jstr option"
  callId :: "jstr option"
  peerId :: "jstr option"
  dir :: direction
  with_video :: bool
  answered :: bool
  pendingIce :: "ice list"
  pendingOffer :: "sdp option"
  ui :: call_ui
  call_log :: "call_log_entry list"
  resets :: nat

datatype call_effect =
    AskPermission bool
  | GetMedia bool
  | CreateOffer
  | CreateAnswer
  | SetLocal sdp
  | SetRemote "sdp option"
  | SendSignal jstr jstr
  | StopTracks
  | ClosePc
  | ResetIn nat
  | FlipCamera
  | Throws

definition IDLE :: call_ui where
  "IDLE = \<lparr>u_status = Idle, u_call = None, u_peer = None, u_name = None, u_video = False,
     u_muted = False, u_cameraOff = False, u_local = None, u_remote = None, u_startedAt = None,
     u_reason = None\<rparr>"

definition call_init :: call_sys where
  "call_init = \<lparr>pc = None, local_media = None, remote_media = None, callId = None, peerId = None,
     dir = DirOut, with_video = False, answered = False, pendingIce = [], pendingOffer = None,
     ui = IDLE, call_log = [], resets = 0\<rparr>"

subsection \<open>The display store and the bus\<close>

definition set_ui :: "(call_ui \<Rightarrow> call_ui) \<Rightarrow> call_sys \<Rightarrow> call_sys" where
  "set_ui f s = s\<lparr>ui := f (ui s)\<rparr>"

definition addLog :: "call_log_entry \<Rightarrow> call_sys \<Rightarrow> call_sys" where
  "addLog e s = s\<lparr>call_log := take 100 (e # call_log s)\<rparr>"

text \<open>A \<open>setTimeout(() => callStore.reset(), ms)\<close> that fires.\<close>

definition reset_fires :: "call_sys \<Rightarrow> call_sys" where
  "reset_fires s = s\<lparr>ui := IDLE, resets := resets s - 1\<rparr>"

definition routeCallSignal :: "(jstr \<Rightarrow> call_signal \<Rightarrow> 'e list) option \<Rightarrow> jstr \<Rightarrow> call_signal \<Rightarrow> 'e list" where
  "routeCallSignal handler from sig = (case handler of None \<Rightarrow> [] | Some h \<Rightarrow> h from sig)"

text \<open>\<open>ensurePermissions\<close>: \<open>None\<close> is a request that threw.\<close>

datatype permission = RecordAudio | Camera

definition ensurePermissions :: "bool \<Rightarrow> bool \<Rightarrow> (permission \<Rightarrow> bool) option \<Rightarrow> bool" where
  "ensurePermissions android video res =
    (if \<not> android then True
     else (case res of None \<Rightarrow> False
       | Some granted \<Rightarrow> list_all granted (RecordAudio # (if video then [Camera] else []))))"

subsection \<open>Internals of the manager\<close>

definition sendTo :: "jstr \<Rightarrow> call_signal \<Rightarrow> call_effect list" where
  "sendTo peer sig = [SendSignal peer (buildCallBody sig)]"

definition signal_to_peer :: "call_sys \<Rightarrow> call_signal \<Rightarrow> call_effect list" where
  "signal_to_peer s sig =
    (case peerId s of Some p \<Rightarrow> if p \<noteq> [] then sendTo p sig else [] | None \<Rightarrow> [])"

definition mk_signal :: "signal_type \<Rightarrow> jstr \<Rightarrow> call_signal" where
  "mk_signal t c = \<lparr>sig_type = t, sig_call = c, sig_video = None, sig_sdp = None, sig_ice = None\<rparr>"

definition nonempty :: "jstr option \<Rightarrow> bool" where
  "nonempty x = (case x of None \<Rightarrow> False | Some s \<Rightarrow> s \<noteq> [])"

definition new_pc :: peer_conn where
  "new_pc = \<lparr>remote_set = False, added = []\<rparr>"

definition finish_call :: "int \<Rightarrow> call_outcome \<Rightarrow> jstr \<Rightarrow> call_sys \<Rightarrow> call_sys \<times> call_effect list" where
  "finish_call now oc reason s =
    (let s1 = (if nonempty (callId s) \<and> nonempty (peerId s)
               then addLog \<lparr>l_call = the (callId s), l_peer = the (peerId s), l_name = u_name (ui s),
                      l_video = with_video s, l_dir = dir s, l_outcome = oc, l_at = now\<rparr> s
               else s);
         es = (if local_media s \<noteq> None then [StopTracks] else []) @ (if pc s \<noteq> None then [ClosePc] else []);
         s2 = s1\<lparr>pc := None, local_media := None, remote_media := None, callId := None, peerId := None,
                answered := False, pendingIce := [], pendingOffer := None, resets := Suc (resets s1)\<rparr>
     in (set_ui (\<lambda>u. u\<lparr>u_status := Ended, u_reason := Some reason, u_local := None, u_remote := None\<rparr>) s2,
         es @ [ResetIn 1200]))"

definition drainIce :: "call_sys \<Rightarrow> call_sys" where
  "drainIce s = (case pc s of None \<Rightarrow> s
     | Some p \<Rightarrow> s\<lparr>pendingIce := [], pc := Some (p\<lparr>added := added p @ pendingIce s\<rparr>)\<rparr>)"

text \<open>The engine has applied a remote description.\<close>

definition mark_remote :: "call_sys \<Rightarrow> call_sys" where
  "mark_remote s = s\<lparr>pc := map_option (\<lambda>p. p\<lparr>remote_set := True\<rparr>) (pc s)\<rparr>"

definition go_active :: "int \<Rightarrow> call_sys \<Rightarrow> call_sys" where
  "go_active now s =
    set_ui (\<lambda>u. u\<lparr>u_status := Active, u_startedAt := Some now\<rparr>) (s\<lparr>answered := True\<rparr>)"

text \<open>\<open>attachLocalMedia\<close> after \<open>getUserMedia\<close>.\<close>

definition attach :: "media_stream \<Rightarrow> call_sys \<Rightarrow> call_sys \<times> bool" where
  "attach m s =
    (let s1 = s\<lparr>local_media := Some m\<rparr> in
     if pc s = None \<and> audio_on m @ video_on m \<noteq> [] then (s1, False)
     else (set_ui (\<lambda>u. u\<lparr>u_local := Some (stream_url m)\<rparr>) s1, True))"

subsection \<open>Placing a call\<close>

definition start_call :: "bool \<Rightarrow> call_sys \<Rightarrow> call_sys \<times> call_effect list" where
  "start_call video s = (if pc s \<noteq> None then (s, []) else (s, [AskPermission video]))"

definition start_permitted :: "nat \<Rightarrow> jstr \<Rightarrow> jstr \<Rightarrow> jstr option \<Rightarrow> bool \<Rightarrow> bool \<Rightarrow> call_sys \<Rightarrow>
    call_sys \<times> call_effect list" where
  "start_permitted now rnd peer name video granted s =
    (if \<not> granted
     then (set_ui (\<lambda>u. u\<lparr>u_status := Ended, u_reason := Some (js ''Permission denied'')\<rparr>)
             (s\<lparr>resets := Suc (resets s)\<rparr>), [ResetIn 1500])
     else (let c = newCallId now rnd;
               s1 = s\<lparr>callId := Some c, peerId := Some peer, dir := DirOut, with_video := video, answered := False\<rparr>;
               s2 = set_ui (\<lambda>u. u\<lparr>u_status := Outgoing, u_call := Some c, u_peer := Some peer, u_name := name,
                      u_video := video, u_muted := False, u_cameraOff := False, u_remote := None\<rparr>) s1
           in (s2\<lparr>pc := Some new_pc\<rparr>, [GetMedia video])))"

definition start_media :: "media_stream \<Rightarrow> call_sys \<Rightarrow> call_sys \<times> call_effect list" where
  "start_media m s =
    (let (s1, ok) = attach m s in
     (s1, if ok \<and> pc s1 \<noteq> None then [CreateOffer] else [Throws]))"

definition start_offer :: "sdp \<Rightarrow> call_sys \<Rightarrow> call_sys \<times> call_effect list" where
  "start_offer offer s = (s, if pc s \<noteq> None then [SetLocal offer] else [Throws])"

text \<open>After a hang-up the call id is \<open>null\<close>, but so is the peer, and nothing is sent.\<close>

definition start_ring :: "bool \<Rightarrow> sdp \<Rightarrow> call_sys \<Rightarrow> call_sys \<times> call_effect list" where
  "start_ring video offer s =
    (s, signal_to_peer s ((mk_signal Ring (case callId s of Some c \<Rightarrow> c | None \<Rightarrow> []))
          \<lparr>sig_video := Some video, sig_sdp := Some offer\<rparr>))"

subsection \<open>Inbound signals\<close>

definition onSignal :: "int \<Rightarrow> jstr \<Rightarrow> call_signal \<Rightarrow> call_sys \<Rightarrow> call_sys \<times> call_effect list" where
  "onSignal now from sig s =
    (case sig_type sig of
       Ring \<Rightarrow>
         if pc s \<noteq> None \<or> nonempty (callId s) then (s, sendTo from (mk_signal Decline (sig_call sig)))
         else (let vid = (sig_video sig = Some True);
                   s1 = s\<lparr>callId := Some (sig_call sig), peerId := Some from, dir := DirIn,
                          with_video := vid, pendingOffer := sig_sdp sig\<rparr>
               in (set_ui (\<lambda>u. u\<lparr>u_status := Incoming, u_call := Some (sig_call sig), u_peer := Some from,
                      u_video := vid, u_muted := False, u_cameraOff := False, u_remote := None\<rparr>) s1, []))
     | Accept \<Rightarrow>
         if callId s \<noteq> Some (sig_call sig) \<or> pc s = None then (s, [])
         else (case sig_sdp sig of Some d \<Rightarrow> (s, [SetRemote (Some d)]) | None \<Rightarrow> (go_active now s, []))
     | Ice \<Rightarrow>
         (case sig_ice sig of None \<Rightarrow> (s, [])
          | Some c \<Rightarrow>
              if callId s \<noteq> Some (sig_call sig) then (s, [])
              else (case pc s of
                  Some p \<Rightarrow> if remote_set p then (s\<lparr>pc := Some (p\<lparr>added := added p @ [c]\<rparr>)\<rparr>, [])
                            else (s\<lparr>pendingIce := pendingIce s @ [c]\<rparr>, [])
                | None \<Rightarrow> (s\<lparr>pendingIce := pendingIce s @ [c]\<rparr>, [])))
     | Decline \<Rightarrow>
         if callId s \<noteq> Some (sig_call sig) then (s, [])
         else finish_call now Declined (js ''Call declined'') s
     | Hangup \<Rightarrow>
         if callId s \<noteq> Some (sig_call sig) then (s, [])
         else finish_call now (if answered s then Completed else Missed) (js ''Call ended'') s)"

text \<open>The caller's continuation once the accepted answer is applied.\<close>

definition accepted_applied :: "int \<Rightarrow> call_sys \<Rightarrow> call_sys \<times> call_effect list" where
  "accepted_applied now s = (go_active now (drainIce (mark_remote s)), [])"

subsection \<open>Answering, declining, hanging up\<close>

definition accept_call :: "call_sys \<Rightarrow> call_sys \<times> call_effect list" where
  "accept_call s =
    (if dir s \<noteq> DirIn \<or> pendingOffer s = None \<or> \<not> nonempty (callId s) \<or> \<not> nonempty (peerId s)
     then (s, []) else (s, [AskPermission (with_video s)]))"

definition decline_call :: "int \<Rightarrow> call_sys \<Rightarrow> call_sys \<times> call_effect list" where
  "decline_call now s =
    (let es = (if nonempty (callId s) \<and> nonempty (peerId s)
               then signal_to_peer s (mk_signal Decline (the (callId s))) else []);
         (s1, es1) = finish_call now Declined (js ''Declined'') s
     in (s1, es @ es1))"

definition hangup_call :: "int \<Rightarrow> call_sys \<Rightarrow> call_sys \<times> call_effect list" where
  "hangup_call now s =
    (let es = (if nonempty (callId s) \<and> nonempty (peerId s)
               then signal_to_peer s (mk_signal Hangup (the (callId s))) else []);
         (s1, es1) = finish_call now (if answered s then Completed else Missed) (js ''Call ended'') s
     in (s1, es @ es1))"

definition accept_permitted :: "int \<Rightarrow> bool \<Rightarrow> call_sys \<Rightarrow> call_sys \<times> call_effect list" where
  "accept_permitted now granted s =
    (if \<not> granted then decline_call now s
     else (s\<lparr>pc := Some new_pc\<rparr>, [GetMedia (with_video s)]))"

definition accept_media :: "media_stream \<Rightarrow> call_sys \<Rightarrow> call_sys \<times> call_effect list" where
  "accept_media m s =
    (let (s1, ok) = attach m s in
     (s1, if ok \<and> pc s1 \<noteq> None then [SetRemote (pendingOffer s1)] else [Throws]))"

definition accept_remote :: "call_sys \<Rightarrow> call_sys \<times> call_effect list" where
  "accept_remote s =
    (let s1 = drainIce (mark_remote s) in (s1, if pc s1 \<noteq> None then [CreateAnswer] else [Throws]))"

definition accept_answer :: "sdp \<Rightarrow> call_sys \<Rightarrow> call_sys \<times> call_effect list" where
  "accept_answer answer s = (s, if pc s \<noteq> None then [SetLocal answer] else [Throws])"

definition accept_send :: "int \<Rightarrow> sdp \<Rightarrow> call_sys \<Rightarrow> call_sys \<times> call_effect list" where
  "accept_send now answer s =
    (go_active now s,
     signal_to_peer s ((mk_signal Accept (case callId s of Some c \<Rightarrow> c | None \<Rightarrow> []))\<lparr>sig_sdp := Some answer\<rparr>))"

subsection \<open>Controls and engine events\<close>

definition toggleMute :: "call_sys \<Rightarrow> call_sys" where
  "toggleMute s = (case local_media s of None \<Rightarrow> s
     | Some m \<Rightarrow> (let on = (\<exists>t\<in>set (audio_on m). t) in
         set_ui (\<lambda>u. u\<lparr>u_muted := on\<rparr>) (s\<lparr>local_media := Some (m\<lparr>audio_on := map (\<lambda>_. \<not> on) (audio_on m)\<rparr>)\<rparr>)))"

definition toggleCamera :: "call_sys \<Rightarrow> call_sys" where
  "toggleCamera s = (case local_media s of None \<Rightarrow> s
     | Some m \<Rightarrow> (let on = (\<exists>t\<in>set (video_on m). t) in
         set_ui (\<lambda>u. u\<lparr>u_cameraOff := on\<rparr>) (s\<lparr>local_media := Some (m\<lparr>video_on := map (\<lambda>_. \<not> on) (video_on m)\<rparr>)\<rparr>)))"

definition switchCamera :: "call_sys \<Rightarrow> call_effect list" where
  "switchCamera s = (case local_media s of None \<Rightarrow> [] | Some m \<Rightarrow> map (\<lambda>_. FlipCamera) (video_on m))"

definition on_icecandidate :: "ice option \<Rightarrow> call_sys \<Rightarrow> call_effect list" where
  "on_icecandidate cand s =
    (case cand of None \<Rightarrow> []
     | Some c \<Rightarrow> if nonempty (callId s) then signal_to_peer s ((mk_signal Ice (the (callId s)))\<lparr>sig_ice := Some c\<rparr>)
                 else [])"

definition on_track :: "jstr option \<Rightarrow> call_sys \<Rightarrow> call_sys" where
  "on_track url s =
    (let r = (case url of Some _ \<Rightarrow> url | None \<Rightarrow> remote_media s); s1 = s\<lparr>remote_media := r\<rparr>
     in if r \<noteq> None then set_ui (\<lambda>u. u\<lparr>u_remote := r\<rparr>) s1 else s1)"

datatype conn_state = ConnNew | Connecting | Connected | Disconnected | ConnFailed | Closed

definition on_connectionstate :: "int \<Rightarrow> conn_state \<Rightarrow> call_sys \<Rightarrow> call_sys \<times> call_effect list" where
  "on_connectionstate now st s =
    (if st \<in> {ConnFailed, Disconnected, Closed} \<and> nonempty (callId s)
     then finish_call now (if answered s then Completed else CallFailed) (js ''Call ended'') s
     else (s, []))"


subsection \<open>Runs\<close>

text \<open>Any event and any continuation at any time.\<close>

inductive call_step :: "call_sys \<Rightarrow> call_sys \<Rightarrow> bool" where
  StartPermitted: "peer \<noteq> [] \<Longrightarrow> call_step s (fst (start_permitted now rnd peer name v ok s))"
| StartMedia: "call_step s (fst (start_media m s))"
| Signal: "from \<noteq> [] \<Longrightarrow> call_step s (fst (onSignal now from sig s))"
| AcceptedApplied: "call_step s (fst (accepted_applied now s))"
| AcceptPermitted: "call_step s (fst (accept_permitted now ok s))"
| AcceptMedia: "call_step s (fst (accept_media m s))"
| AcceptRemote: "call_step s (fst (accept_remote s))"
| AcceptSend: "call_step s (fst (accept_send now d s))"
| DeclineCall: "call_step s (fst (decline_call now s))"
| HangupCall: "call_step s (fst (hangup_call now s))"
| Mute: "call_step s (toggleMute s)"
| CameraToggle: "call_step s (toggleCamera s)"
| Track: "call_step s (on_track u s)"
| ConnState: "call_step s (fst (on_connectionstate now st s))"
| ResetFires: "0 < resets s \<Longrightarrow> call_step s (reset_fires s)"

inductive call_reach :: "call_sys \<Rightarrow> bool" where
  Init: "call_reach call_init"
| Step: "call_reach s \<Longrightarrow> call_step s s' \<Longrightarrow> call_reach s'"

inductive_cases call_stepE: "call_step s s'"

definition call_inv :: "call_sys \<Rightarrow> bool" where
  "call_inv s \<longleftrightarrow> length (call_log s) \<le> 100 \<and> (callId s = None \<longleftrightarrow> peerId s = None) \<and>
     (callId s = None \<longrightarrow> pendingOffer s = None \<and> pendingIce s = []) \<and>
     (\<forall>p. pc s = Some p \<longrightarrow> added p \<noteq> [] \<longrightarrow> remote_set p) \<and>
     (\<forall>e\<in>set (call_log s). l_call e \<noteq> [] \<and> l_peer e \<noteq> [])"

lemma call_inv_ui [simp]: "call_inv (set_ui f s) = call_inv s" "call_inv (s\<lparr>answered := b\<rparr>) = call_inv s"
  "call_inv (s\<lparr>local_media := m\<rparr>) = call_inv s" "call_inv (s\<lparr>remote_media := r\<rparr>) = call_inv s"
  "call_inv (s\<lparr>resets := k\<rparr>) = call_inv s" "call_inv (s\<lparr>ui := v\<rparr>) = call_inv s"
  by (simp_all add: call_inv_def set_ui_def)

lemma inv_finish: "call_inv s \<Longrightarrow> call_inv (fst (finish_call now oc r s))"
  by (auto simp: finish_call_def Let_def call_inv_def addLog_def nonempty_def set_ui_def
      split: option.splits dest: in_set_takeD)

lemma inv_drain: "call_inv s \<Longrightarrow> call_inv (drainIce (mark_remote s))"
  by (auto simp: drainIce_def mark_remote_def call_inv_def split: option.split)

lemma inv_attach: "call_inv s \<Longrightarrow> call_inv (fst (attach m s))"
  by (simp add: attach_def Let_def)

lemma inv_onSignal: "call_inv s \<Longrightarrow> call_inv (fst (onSignal now from sig s))"
proof (cases "sig_type sig")
  case Ring
  then show "call_inv s \<Longrightarrow> ?thesis" by (auto simp: onSignal_def Let_def) (auto simp: call_inv_def)
next
  case Accept
  then show "call_inv s \<Longrightarrow> ?thesis" by (auto simp: onSignal_def go_active_def split: option.split)
next
  case Ice
  then show "call_inv s \<Longrightarrow> ?thesis" by (auto simp: onSignal_def call_inv_def split: option.split)
next
  case Decline
  then show "call_inv s \<Longrightarrow> ?thesis" by (simp add: onSignal_def inv_finish)
next
  case Hangup
  then show "call_inv s \<Longrightarrow> ?thesis" by (simp add: onSignal_def inv_finish)
qed

lemma inv_decline: "call_inv s \<Longrightarrow> call_inv (fst (decline_call now s))"
  by (simp add: decline_call_def Let_def case_prod_beta inv_finish)

lemma call_step_inv: "call_step s s' \<Longrightarrow> call_inv s \<Longrightarrow> call_inv s'"
proof (induction rule: call_step.induct)
  case (StartPermitted peer s now rnd name v ok)
  then show ?case by (auto simp: start_permitted_def Let_def) (auto simp: call_inv_def new_pc_def set_ui_def)
next
  case (AcceptPermitted s now ok)
  then show ?case by (auto simp: accept_permitted_def inv_decline) (auto simp: call_inv_def new_pc_def)
next
  case (Mute s)
  then show ?case by (auto simp: toggleMute_def Let_def split: option.split)
next
  case (CameraToggle s)
  then show ?case by (auto simp: toggleCamera_def Let_def split: option.split)
next
  case (Track s u)
  then show ?case by (auto simp: on_track_def Let_def)
qed (simp_all add: start_media_def accepted_applied_def go_active_def accept_media_def accept_remote_def
    accept_send_def hangup_call_def on_connectionstate_def reset_fires_def Let_def case_prod_beta
    inv_onSignal inv_attach inv_drain inv_decline inv_finish)

lemma call_reach_inv: "call_reach s \<Longrightarrow> call_inv s"
proof (induction rule: call_reach.induct)
  case Init
  then show ?case by (simp add: call_inv_def call_init_def)
qed (rule call_step_inv)

subsection \<open>Properties\<close>



text \<open>One call at a time: while a call is up, ringing or being placed, a signal that names another
  call changes nothing, and a second ring is answered with exactly one decline, which is a decline of
  the newcomer's own call to its manager.\<close>

theorem other_calls_do_not_interfere:
  assumes "callId s = Some c" and "c \<noteq> []" and "sig_call sig \<noteq> c"
  shows "fst (onSignal now from sig s) = s \<and>
    snd (onSignal now from sig s) =
      (if sig_type sig = Ring then [SendSignal from (buildCallBody (mk_signal Decline (sig_call sig)))] else []) \<and>
    Option.bind (parseCallBody (buildCallBody (mk_signal Decline (sig_call sig)))) call_of_json =
      Some (mk_signal Decline (sig_call sig))"
  using assms
  by (cases "sig_type sig") (auto simp: onSignal_def nonempty_def sendTo_def call_body.parse_shape
      split: option.split)

lemma other_calls_do_not_interfere_witness:
  "snd (onSignal 2 [9] (mk_signal Ring [1]) (fst (onSignal 1 [7] (mk_signal Ring [8]) call_init))) =
    [SendSignal [9] (buildCallBody (mk_signal Decline [1]))]"
proof -
  have "callId (fst (onSignal 1 [7] (mk_signal Ring [8]) call_init)) = Some [8]"
    by (simp add: onSignal_def call_init_def nonempty_def mk_signal_def set_ui_def Let_def)
  from other_calls_do_not_interfere [OF this, of "mk_signal Ring [1]" 2 "[9]"] show ?thesis
    by (simp add: mk_signal_def)
qed

lemma ice_queue:
  assumes "callId s = Some c" "pc s = Some p" "\<not> remote_set p"
  shows "fold (\<lambda>k s. fst (onSignal now from ((mk_signal Ice c)\<lparr>sig_ice := Some k\<rparr>) s)) ks s =
    s\<lparr>pendingIce := pendingIce s @ ks\<rparr>"
  using assms by (induction ks arbitrary: s) (simp_all add: onSignal_def mk_signal_def)

text \<open>Candidates that arrive before the answer are neither lost nor reordered: once the accept is
  applied the connection has them all, in the order they came, and the queue is empty.\<close>

theorem early_candidates_are_kept:
  assumes "callId s = Some c" and "pc s = Some p" and "\<not> remote_set p"
  shows "\<exists>q. pc (fst (accepted_applied t (fold (\<lambda>k s. fst (onSignal now from ((mk_signal Ice c)\<lparr>sig_ice := Some k\<rparr>) s)) ks s))) = Some q \<and>
      added q = added p @ pendingIce s @ ks \<and> remote_set q \<and>
    pendingIce (fst (accepted_applied t (fold (\<lambda>k s. fst (onSignal now from ((mk_signal Ice c)\<lparr>sig_ice := Some k\<rparr>) s)) ks s))) = []"
  using assms(2) unfolding ice_queue [OF assms]
  by (simp add: accepted_applied_def go_active_def drainIce_def mark_remote_def set_ui_def)

definition dialing :: call_sys where
  "dialing = fst (start_permitted 1 [2] [7] None False True call_init)"

lemma dialing_fields: "callId dialing = Some (newCallId 1 [2])" "pc dialing = Some new_pc"
  by (simp_all add: dialing_def start_permitted_def Let_def set_ui_def)

lemma early_candidates_are_kept_witness:
  "\<exists>q. pc (fst (accepted_applied 5 (fold (\<lambda>k s. fst (onSignal 3 [7] ((mk_signal Ice (newCallId 1 [2]))\<lparr>sig_ice := Some k\<rparr>) s))
      [\<lparr>ice_text = [1], sdpMid = None, sdpMLineIndex = None\<rparr>] dialing))) = Some q \<and> length (added q) = 1"
proof -
  have "pendingIce dialing = []" by (simp add: dialing_def start_permitted_def Let_def set_ui_def call_init_def)
  then show ?thesis
    using early_candidates_are_kept [OF dialing_fields, of 5 3 "[7]" "[\<lparr>ice_text = [1], sdpMid = None, sdpMLineIndex = None\<rparr>]"]
    by (fastforce simp: new_pc_def)
qed

text \<open>Hanging up logs the call exactly once, as completed when it was answered and missed otherwise,
  tells the peer, and leaves the manager free: a second hang-up logs and sends nothing.\<close>

theorem hangup_logs_once:
  assumes "callId s = Some c" and "peerId s = Some p" and "c \<noteq> []" and "p \<noteq> []"
  shows "(\<exists>e. call_log (fst (hangup_call now s)) = take 100 (e # call_log s) \<and> l_call e = c \<and> l_peer e = p \<and>
      l_outcome e = (if answered s then Completed else Missed) \<and> l_at e = now) \<and>
    SendSignal p (buildCallBody (mk_signal Hangup c)) \<in> set (snd (hangup_call now s)) \<and>
    pc (fst (hangup_call now s)) = None \<and> callId (fst (hangup_call now s)) = None \<and>
    call_log (fst (hangup_call t (fst (hangup_call now s)))) = call_log (fst (hangup_call now s)) \<and>
    (\<forall>q b. SendSignal q b \<notin> set (snd (hangup_call t (fst (hangup_call now s)))))"
  using assms
  by (auto simp: hangup_call_def finish_call_def Let_def case_prod_beta nonempty_def addLog_def set_ui_def
      signal_to_peer_def sendTo_def)

lemma hangup_logs_once_witness:
  "callId (fst (hangup_call 9 dialing)) = None"
proof -
  have "peerId dialing = Some [7]" "newCallId 1 [2] \<noteq> []"
    by (simp_all add: dialing_def start_permitted_def Let_def set_ui_def newCallId_def fresh_id_def)
  then show ?thesis using hangup_logs_once [OF dialing_fields(1), of "[7]"] by blast
qed

text \<open>What the client at \<open>p\<close> hears of what \<open>from\<close> sends it: each body parsed and handed to its manager.\<close>

definition heard :: "jstr \<Rightarrow> call_effect list \<Rightarrow> call_signal list" where
  "heard p es = List.map_filter (\<lambda>e. case e of
     SendSignal q b \<Rightarrow> if q = p then Option.bind (parseCallBody b) call_of_json else None | _ \<Rightarrow> None) es"

definition deliver :: "int \<Rightarrow> jstr \<Rightarrow> jstr \<Rightarrow> call_effect list \<Rightarrow> call_sys \<Rightarrow> call_sys" where
  "deliver now from p es t = fold (\<lambda>sig t. fst (onSignal now from sig t)) (heard p es) t"

lemma heard_simps [simp]: "heard p [] = []"
  "heard p (SendSignal q b # es) = (if q = p then (case Option.bind (parseCallBody b) call_of_json of
      Some g \<Rightarrow> [g] | None \<Rightarrow> []) else []) @ heard p es"
  "heard p (StopTracks # es) = heard p es" "heard p (ClosePc # es) = heard p es" "heard p (ResetIn k # es) = heard p es"
  by (auto simp: heard_def map_filter_simps split: option.split)

lemma deliver_one: "p \<noteq> [] \<Longrightarrow> peerId s = Some p \<Longrightarrow> deliver now from p (signal_to_peer s sig) t = fst (onSignal now from sig t)"
  by (simp add: deliver_def signal_to_peer_def sendTo_def call_body.parse_shape)



text \<open>A caller who hangs up while the callee's permission dialog is open wedges the callee: the
  accept goes on without a call, opens a connection that no call owns, and from then on every ring is
  declined as busy and no call can be placed.\<close>

theorem accept_after_hangup_wedges:
  assumes "sig_type r = Ring" and "sig_call r \<noteq> []" and "sig_sdp r = Some offer" and "from \<noteq> []"
  shows "let s1 = fst (onSignal 1 from r call_init);
      s2 = fst (onSignal 2 from (mk_signal Hangup (sig_call r)) s1);
      s3 = fst (accept_permitted 3 True s2)
    in snd (accept_call s1) = [AskPermission (with_video s1)] \<and> callId s3 = None \<and> pc s3 = Some new_pc \<and>
      start_call v s3 = (s3, []) \<and>
      (sig_type q = Ring \<longrightarrow> onSignal 4 x q s3 = (s3, [SendSignal x (buildCallBody (mk_signal Decline (sig_call q)))]))"
  using assms
  by (simp add: onSignal_def call_init_def nonempty_def Let_def set_ui_def mk_signal_def accept_call_def
      finish_call_def accept_permitted_def start_call_def sendTo_def addLog_def)

lemma accept_after_hangup_wedges_witness:
  "\<exists>s. callId s = None \<and> start_call True s = (s, [])"
  using accept_after_hangup_wedges [of "(mk_signal Ring [8])\<lparr>sig_sdp := Some \<lparr>sdp_type = [], sdp_text = []\<rparr>\<rparr>"
      "\<lparr>sdp_type = [], sdp_text = []\<rparr>" "[7]" True "mk_signal Ring [9]" "[6]"]
  by (auto simp: mk_signal_def Let_def)

text \<open>The delayed reset of the display after a call ends is not cancelled by the next call: a ring
  accepted within that time is wiped from the screen while the manager still holds it.\<close>

theorem late_reset_hides_new_call:
  "let s1 = fst (hangup_call 1 dialing);
      s2 = fst (onSignal 2 [9] (mk_signal Ring [8]) s1);
      s3 = reset_fires s2
    in resets s1 = 1 \<and> u_status (ui s2) = Incoming \<and> callId s3 = Some [8] \<and> ui s3 = IDLE"
  by (simp add: dialing_def start_permitted_def hangup_call_def finish_call_def onSignal_def mk_signal_def
      nonempty_def reset_fires_def set_ui_def addLog_def call_init_def Let_def case_prod_beta newCallId_def fresh_id_def)

end
