(* ===== verification/Connection.thy ===== *)
theory Connection
  imports Wire
begin

text \<open>
  The connection state machine of \<open>HwfaClient\<close> (\<open>packages/client/src/client.ts\<close>): \<open>connectRelay\<close>,
  the socket callbacks, the reconnect timer and \<open>close\<close>.

  Sockets are numbered in the order they are created. What the environment may do is its part of the
  state: a socket opens at most once, never after it was asked to close, and reports its close once;
  the promise of \<open>connect\<close> settles once; a \<open>connectRelay\<close> call waits for \<open>ensureAccess\<close>, which succeeds or throws.
  \<open>conn_step True\<close> leaves out the calls for which \<open>ensureAccess\<close> throws or leaves no token.
\<close>

subsection \<open>State\<close>

datatype conn_state = Connecting | Connected | Offline
datatype sock_state = SkConnecting | SkOpen | SkClosing | SkClosed

record conn =
  relay :: "nat option"
  account :: "jstr option"
  connState :: conn_state
  intentionalClose :: bool
  reconnectAttempt :: nat
  reconnectTimer :: bool
  pushToken :: "jstr option"
  socks :: "sock_state list"
  waiting_access :: nat
  waiting_connect :: "nat list"

datatype conn_effect =
    StateChange conn_state
  | EnsureAccess
  | NewSocket nat
  | SetTimer nat
  | ClearTimer
  | CloseSocket nat
  | PushRegister jstr
  | MaintainPreKeys
  | Fails

definition conn_init :: conn where
  "conn_init = \<lparr>relay = None, account = None, connState = Offline, intentionalClose = False,
     reconnectAttempt = 0, reconnectTimer = False, pushToken = None, socks = [], waiting_access = 0,
     waiting_connect = []\<rparr>"

definition RECONNECT_BACKOFF_MS :: "nat list" where
  "RECONNECT_BACKOFF_MS = [1000, 2000, 5000, 10000, 15000]"

subsection \<open>Operations\<close>

definition setConnectionState :: "conn_state \<Rightarrow> conn \<Rightarrow> conn \<times> conn_effect list" where
  "setConnectionState st s =
    (if connState s = st then (s, []) else (s\<lparr>connState := st\<rparr>, [StateChange st]))"

definition scheduleReconnect :: "conn \<Rightarrow> conn \<times> conn_effect list" where
  "scheduleReconnect s =
    (if reconnectTimer s \<or> intentionalClose s \<or> account s = None then (s, [])
     else (s\<lparr>reconnectAttempt := Suc (reconnectAttempt s), reconnectTimer := True\<rparr>,
       [SetTimer (RECONNECT_BACKOFF_MS ! min (reconnectAttempt s) (length RECONNECT_BACKOFF_MS - 1))]))"

text \<open>\<open>connectRelay\<close> up to its first await.\<close>

definition connectRelay :: "conn \<Rightarrow> conn \<times> conn_effect list" where
  "connectRelay s =
    (if account s = None then (s, [Fails])
     else (s\<lparr>waiting_access := Suc (waiting_access s)\<rparr>, [EnsureAccess]))"

text \<open>\<open>ensureAccess\<close> returned; \<open>has_token\<close> says whether there is a bearer token now.\<close>

definition access_ready :: "bool \<Rightarrow> conn \<Rightarrow> conn \<times> conn_effect list" where
  "access_ready has_token s =
    (let s = s\<lparr>waiting_access := waiting_access s - 1\<rparr> in
     if \<not> has_token then (s, [Fails])
     else if relay s \<noteq> None then (s, [])
     else (let (s1, es) = setConnectionState Connecting (s\<lparr>intentionalClose := False\<rparr>);
               i = length (socks s1)
           in (s1\<lparr>relay := Some i, socks := socks s1 @ [SkConnecting], waiting_connect := i # waiting_connect s1\<rparr>,
               es @ [NewSocket i])))"

definition access_failed :: "conn \<Rightarrow> conn \<times> conn_effect list" where
  "access_failed s = (s\<lparr>waiting_access := waiting_access s - 1\<rparr>, [Fails])"

definition on_open :: "nat \<Rightarrow> conn \<Rightarrow> conn \<times> conn_effect list" where
  "on_open i s = setConnectionState Connected (s\<lparr>socks := (socks s)[i := SkOpen], reconnectAttempt := 0\<rparr>)"

text \<open>After \<open>await this.relay.connect()\<close>; \<open>this.relay\<close> may be gone by then.\<close>

definition connect_resolved :: "nat \<Rightarrow> conn \<Rightarrow> conn \<times> conn_effect list" where
  "connect_resolved i s =
    (let (s1, es) = setConnectionState Connected (s\<lparr>waiting_connect := remove1 i (waiting_connect s)\<rparr>)
     in (s1, es @ (case pushToken s1 of
           Some t \<Rightarrow> if t = [] then [MaintainPreKeys]
                     else if relay s1 = None then [Fails] else [PushRegister t, MaintainPreKeys]
         | None \<Rightarrow> [MaintainPreKeys])))"

definition connect_rejected :: "nat \<Rightarrow> conn \<Rightarrow> conn \<times> conn_effect list" where
  "connect_rejected i s =
    (let (s1, e1) = setConnectionState Offline (s\<lparr>waiting_connect := remove1 i (waiting_connect s), relay := None\<rparr>);
         (s2, e2) = scheduleReconnect s1
     in (s2, e1 @ e2 @ [Fails]))"

definition handleSocketClosed :: "nat \<Rightarrow> conn \<Rightarrow> conn \<times> conn_effect list" where
  "handleSocketClosed i s =
    (let s = s\<lparr>socks := (socks s)[i := SkClosed], relay := None\<rparr> in
     if intentionalClose s then (s, [])
     else (let (s1, e1) = setConnectionState Offline s; (s2, e2) = scheduleReconnect s1 in (s2, e1 @ e2)))"

definition timer_fires :: "conn \<Rightarrow> conn \<times> conn_effect list" where
  "timer_fires s = connectRelay (s\<lparr>reconnectTimer := False\<rparr>)"

definition close_client :: "conn \<Rightarrow> conn \<times> conn_effect list" where
  "close_client s =
    (let e0 = (if reconnectTimer s then [ClearTimer] else []) @ (case relay s of Some i \<Rightarrow> [CloseSocket i] | None \<Rightarrow> []);
         sk = (case relay s of Some i \<Rightarrow> (socks s)[i := SkClosing] | None \<Rightarrow> socks s);
         (s1, e1) = setConnectionState Offline
           (s\<lparr>intentionalClose := True, reconnectTimer := False, relay := None, socks := sk\<rparr>)
     in (s1, e0 @ e1))"

text \<open>\<open>resume\<close>, \<open>confirmOtp\<close>, \<open>onboard\<close> and \<open>linkWithCode\<close> set the account and connect; \<open>deleteAccount\<close>
  drops it and closes.\<close>

definition login :: "jstr \<Rightarrow> conn \<Rightarrow> conn \<times> conn_effect list" where
  "login u s = connectRelay (s\<lparr>account := Some u\<rparr>)"

definition account_deleted :: "conn \<Rightarrow> conn \<times> conn_effect list" where
  "account_deleted s = close_client (s\<lparr>account := None\<rparr>)"

definition registerPushToken :: "jstr \<Rightarrow> conn \<Rightarrow> conn \<times> conn_effect list" where
  "registerPushToken t s =
    (s\<lparr>pushToken := Some t\<rparr>, if relay s \<noteq> None then [PushRegister t] else [])"

text \<open>\<open>onConnectionChange\<close>: the new subscriber is told the state at once.\<close>

definition onConnectionChange :: "conn \<Rightarrow> conn_effect list" where
  "onConnectionChange s = [StateChange (connState s)]"

subsection \<open>Steps and runs\<close>

inductive conn_step :: "bool \<Rightarrow> conn \<Rightarrow> conn_effect list \<Rightarrow> conn \<Rightarrow> bool" for healthy where
  Login: "login u s = (s', es) \<Longrightarrow> conn_step healthy s es s'"
| Connect: "connectRelay s = (s', es) \<Longrightarrow> conn_step healthy s es s'"
| AccessReady: "0 < waiting_access s \<Longrightarrow> access_ready True s = (s', es) \<Longrightarrow> conn_step healthy s es s'"
| AccessNoToken: "\<not> healthy \<Longrightarrow> 0 < waiting_access s \<Longrightarrow> access_ready False s = (s', es) \<Longrightarrow> conn_step healthy s es s'"
| AccessFailed: "\<not> healthy \<Longrightarrow> 0 < waiting_access s \<Longrightarrow> access_failed s = (s', es) \<Longrightarrow> conn_step healthy s es s'"
| Open: "i < length (socks s) \<Longrightarrow> socks s ! i = SkConnecting \<Longrightarrow> on_open i s = (s', es) \<Longrightarrow>
    conn_step healthy s es s'"
| Resolved: "i \<in> set (waiting_connect s) \<Longrightarrow> i < length (socks s) \<Longrightarrow> socks s ! i = SkOpen \<Longrightarrow>
    connect_resolved i s = (s', es) \<Longrightarrow> conn_step healthy s es s'"
| Rejected: "i \<in> set (waiting_connect s) \<Longrightarrow> connect_rejected i s = (s', es) \<Longrightarrow> conn_step healthy s es s'"
| SockClosed: "i < length (socks s) \<Longrightarrow> socks s ! i \<noteq> SkClosed \<Longrightarrow> handleSocketClosed i s = (s', es) \<Longrightarrow>
    conn_step healthy s es s'"
| Timer: "reconnectTimer s \<Longrightarrow> timer_fires s = (s', es) \<Longrightarrow> conn_step healthy s es s'"
| CloseClient: "close_client s = (s', es) \<Longrightarrow> conn_step healthy s es s'"
| Deleted: "account_deleted s = (s', es) \<Longrightarrow> conn_step healthy s es s'"
| Push: "registerPushToken t s = (s', es) \<Longrightarrow> conn_step healthy s es s'"

inductive conn_reach :: "bool \<Rightarrow> conn \<Rightarrow> bool" for healthy where
  Init: "conn_reach healthy conn_init"
| Step: "conn_reach healthy s \<Longrightarrow> conn_step healthy s es s' \<Longrightarrow> conn_reach healthy s'"

inductive_cases conn_stepE: "conn_step healthy s es s'"

lemmas conn_op_defs = setConnectionState_def scheduleReconnect_def connectRelay_def access_ready_def
  access_failed_def on_open_def connect_resolved_def connect_rejected_def handleSocketClosed_def
  timer_fires_def close_client_def login_def account_deleted_def registerPushToken_def

subsection \<open>Invariant\<close>

definition conn_inv :: "conn \<Rightarrow> bool" where
  "conn_inv s \<longleftrightarrow> (reconnectTimer s \<longrightarrow> \<not> intentionalClose s \<and> account s \<noteq> None) \<and>
     (connState s = Offline \<longrightarrow> relay s = None) \<and>
     (\<forall>i. relay s = Some i \<longrightarrow> i < length (socks s))"

definition will_retry :: "conn \<Rightarrow> bool" where
  "will_retry s \<longleftrightarrow> (connState s = Offline \<and> account s \<noteq> None \<and> \<not> intentionalClose s \<longrightarrow>
     reconnectTimer s \<or> 0 < waiting_access s)"

lemma step_inv: "conn_step h s es s' \<Longrightarrow> conn_inv s \<Longrightarrow> conn_inv s'"
  by (erule conn_stepE) (auto simp: conn_op_defs conn_inv_def Let_def split: if_splits option.splits)

lemma step_retry: "conn_step True s es s' \<Longrightarrow> conn_inv s \<Longrightarrow> will_retry s \<Longrightarrow> will_retry s'"
  by (erule conn_stepE) (auto simp: conn_op_defs conn_inv_def will_retry_def Let_def split: if_splits option.splits)

lemma reach_conn_inv: "conn_reach h s \<Longrightarrow> conn_inv s"
proof (induction rule: conn_reach.induct)
  case Init
  then show ?case by (simp add: conn_inv_def conn_init_def)
qed (rule step_inv)

lemma reach_retry: "conn_reach True s \<Longrightarrow> will_retry s"
proof (induction rule: conn_reach.induct)
  case Init
  then show ?case by (simp add: will_retry_def conn_init_def)
next
  case (Step s es s')
  then show ?case using step_retry reach_conn_inv by blast
qed


subsection \<open>Properties\<close>


lemma reach_op:
  "conn_reach h s \<Longrightarrow> conn_reach h (fst (login u s))"
  "conn_reach h s \<Longrightarrow> 0 < waiting_access s \<Longrightarrow> conn_reach h (fst (access_ready True s))"
  "conn_reach False s \<Longrightarrow> 0 < waiting_access s \<Longrightarrow> conn_reach False (fst (access_failed s))"
  "conn_reach h s \<Longrightarrow> i \<in> set (waiting_connect s) \<Longrightarrow> conn_reach h (fst (connect_rejected i s))"
  "conn_reach h s \<Longrightarrow> i < length (socks s) \<Longrightarrow> socks s ! i = SkConnecting \<Longrightarrow> conn_reach h (fst (on_open i s))"
  "conn_reach h s \<Longrightarrow> i < length (socks s) \<Longrightarrow> socks s ! i \<noteq> SkClosed \<Longrightarrow> conn_reach h (fst (handleSocketClosed i s))"
  "conn_reach h s \<Longrightarrow> reconnectTimer s \<Longrightarrow> conn_reach h (fst (timer_fires s))"
  "conn_reach h s \<Longrightarrow> conn_reach h (fst (close_client s))"
  by (rule conn_reach.Step, assumption, rule conn_step.intros, (simp add: prod_eq_iff)+)+


text \<open>Every reconnect timer is armed with the delay of the backoff table for the number of attempts
  since the socket last opened (one second at first, fifteen at most), counts as one more attempt, and
  is the only one armed.\<close>

theorem backoff_delay:
  assumes "conn_step h s es s'" and "SetTimer d \<in> set es"
  shows "d = RECONNECT_BACKOFF_MS ! min (reconnectAttempt s) 4 \<and> 1000 \<le> d \<and> d \<le> 15000 \<and>
    reconnectAttempt s' = Suc (reconnectAttempt s) \<and> \<not> reconnectTimer s \<and> reconnectTimer s' \<and>
    length (filter (\<lambda>e. \<exists>t. e = SetTimer t) es) = 1"
proof -
  have d: "1000 \<le> RECONNECT_BACKOFF_MS ! min n 4 \<and> RECONNECT_BACKOFF_MS ! min n 4 \<le> 15000" for n
  proof -
    have "min n 4 < length RECONNECT_BACKOFF_MS" by (simp add: RECONNECT_BACKOFF_MS_def)
    then have "RECONNECT_BACKOFF_MS ! min n 4 \<in> set RECONNECT_BACKOFF_MS" by (rule nth_mem)
    then show ?thesis by (auto simp: RECONNECT_BACKOFF_MS_def)
  qed
  have l: "length RECONNECT_BACKOFF_MS - Suc 0 = 4" by (simp add: RECONNECT_BACKOFF_MS_def)
  show ?thesis
    using assms(1) by (rule conn_stepE) (use assms(2) in \<open>auto simp: conn_op_defs Let_def d l split: if_splits option.splits\<close>)
qed

definition retrying :: conn where
  "retrying = fst (access_ready True (fst (login [1] conn_init)))"

lemma backoff_delay_witness:
  "reconnectTimer (fst (connect_rejected 0 retrying)) \<and> RECONNECT_BACKOFF_MS ! min (reconnectAttempt retrying) 4 = 1000"
proof -
  have w: "0 \<in> set (waiting_connect retrying)" and a: "reconnectAttempt retrying = 0"
    by (simp_all add: retrying_def conn_op_defs conn_init_def Let_def)
  have "conn_step True retrying (snd (connect_rejected 0 retrying)) (fst (connect_rejected 0 retrying))"
    by (rule conn_step.Rejected [OF w]) simp
  moreover have "SetTimer 1000 \<in> set (snd (connect_rejected 0 retrying))"
    by (simp add: retrying_def conn_op_defs conn_init_def Let_def RECONNECT_BACKOFF_MS_def)
  ultimately show ?thesis using backoff_delay a by fastforce
qed

text \<open>C34: After \<open>close\<close>, with no connection attempt under way, the client stays closed: whatever closes
  and connection failures of old sockets are still reported, it stays offline, arms no timer, opens no
  socket and reports no state change.\<close>

theorem close_is_final:
  assumes "s0 = fst (close_client s)"
    and "s' = fold (\<lambda>e s. fst (case e of Inl i \<Rightarrow> connect_rejected i s | Inr i \<Rightarrow> handleSocketClosed i s)) evs s0"
  shows "connState s' = Offline \<and> \<not> reconnectTimer s' \<and> relay s' = None \<and> intentionalClose s' \<and>
    (case ev of Inl i \<Rightarrow> snd (connect_rejected i s') = [Fails] | Inr i \<Rightarrow> snd (handleSocketClosed i s') = [])"
proof -
  define closed where "closed s \<longleftrightarrow> connState s = Offline \<and> \<not> reconnectTimer s \<and> relay s = None \<and> intentionalClose s" for s :: conn
  have "closed s0" by (simp add: assms(1) closed_def close_client_def setConnectionState_def Let_def)
  moreover have "closed (fst (case e of Inl i \<Rightarrow> connect_rejected i s | Inr i \<Rightarrow> handleSocketClosed i s))"
    if "closed s" for s and e :: "nat + nat"
    using that by (auto simp: closed_def conn_op_defs Let_def split: sum.split)
  ultimately have "closed s'" unfolding assms(2) by (induction evs arbitrary: s0) simp_all
  then show ?thesis by (auto simp: closed_def conn_op_defs Let_def split: sum.split)
qed

lemma close_is_final_witness: "\<not> reconnectTimer (fst (handleSocketClosed 0 (fst (close_client retrying))))"
  using close_is_final [OF refl refl, of "[Inr 0]" retrying "Inr 0"] by simp

text \<open>When the refresh of the access token fails during an automatic attempt, the client gives up for
  good although it was not closed: it is reachable offline, with an account, no timer and nothing under
  way. The comment at the timer says that \<open>connectRelay\<close> reschedules itself on failure.\<close>

theorem reconnect_gives_up:
  "\<exists>s. conn_reach False s \<and> connState s = Offline \<and> account s \<noteq> None \<and> \<not> intentionalClose s \<and>
     \<not> reconnectTimer s \<and> waiting_access s = 0 \<and> waiting_connect s = [] \<and> relay s = None"
proof -
  let ?s = "fst (access_failed (fst (timer_fires (fst (connect_rejected 0 (fst (access_ready True (fst (login [1] conn_init)))))))))"
  have "conn_reach False ?s"
    by (intro reach_op conn_reach.Init)
      (simp_all add: conn_op_defs conn_init_def Let_def RECONNECT_BACKOFF_MS_def)
  moreover have "connState ?s = Offline \<and> account ?s \<noteq> None \<and> \<not> intentionalClose ?s \<and>
     \<not> reconnectTimer ?s \<and> waiting_access ?s = 0 \<and> waiting_connect ?s = [] \<and> relay ?s = None"
    by (simp add: conn_op_defs conn_init_def Let_def RECONNECT_BACKOFF_MS_def)
  ultimately show ?thesis by blast
qed

text \<open>The late close event of an old socket drops the new connection: after closing and logging in
  again, the client is offline with no relay while its new socket is open.\<close>

theorem stale_close_drops_new_socket:
  "\<exists>s. conn_reach True s \<and> relay s = None \<and> connState s = Offline \<and> reconnectTimer s \<and>
     length (socks s) = 2 \<and> socks s ! 1 = SkOpen"
proof -
  let ?c = "fst (close_client (fst (on_open 0 (fst (access_ready True (fst (login [1] conn_init)))))))"
  let ?s = "fst (handleSocketClosed 0 (fst (on_open 1 (fst (access_ready True (fst (login [1] ?c)))))))"
  have "conn_reach True ?s"
    by (intro reach_op conn_reach.Init) (simp_all add: conn_op_defs conn_init_def Let_def)
  moreover have "relay ?s = None \<and> connState ?s = Offline \<and> reconnectTimer ?s \<and> length (socks ?s) = 2 \<and> socks ?s ! 1 = SkOpen"
    by (simp add: conn_op_defs conn_init_def Let_def RECONNECT_BACKOFF_MS_def)
  ultimately show ?thesis by blast
qed

end
