(* ===== verification/Discovery.thy ===== *)
theory Discovery
  imports Wire
begin

text \<open>
  \<open>packages/client/src/discovery.ts\<close>: the client of the Discovery API. \<open>fetch\<close> and the server behind it
  are a parameter: a function from a request and the state \<open>'w\<close> of the world to the new state and a
  response, or \<open>None\<close> when \<open>fetch\<close> throws. Every exception of the sources is a value of \<open>disc_error\<close>.
  Key bundles and prekeys are JSON the client passes on unread.

  \<open>request\<close> retries at most once, and \<open>refresh\<close> makes an unauthenticated request that never retries, so
  the recursion of the sources is written out as two attempts.
\<close>

subsection \<open>Requests and responses\<close>

record http_req =
  rq_method :: jstr
  rq_url :: jstr
  rq_bearer :: "jstr option"
  rq_body :: "jstr option"

record http_res =
  rs_status :: int
  rs_text :: jstr

datatype disc_error =
    NetworkError
  | DiscoveryError int jstr jstr
  | BadBody
  | NoRefreshToken
  | NoDevOtp
  | OtpFailed
  | LinkFailed

record disc =
  baseUrl :: jstr
  token :: "jstr option"
  refresh_token :: "jstr option"

type_synonym 'w fetch = "http_req \<Rightarrow> 'w \<Rightarrow> 'w \<times> http_res option"
type_synonym ('w, 'a) disc_result = "disc \<times> 'w \<times> (disc_error + 'a)"

fun truthy_str :: "jstr option \<Rightarrow> bool" where
  "truthy_str None = False"
| "truthy_str (Some s) = (s \<noteq> [])"

definition setToken :: "jstr \<Rightarrow> disc \<Rightarrow> disc" where
  "setToken t d = d\<lparr>token := Some t\<rparr>"

definition setTokens :: "jstr \<Rightarrow> jstr \<Rightarrow> disc \<Rightarrow> disc" where
  "setTokens a r d = d\<lparr>token := Some a, refresh_token := Some r\<rparr>"

subsection \<open>Transport\<close>

definition mk_req :: "disc \<Rightarrow> string \<Rightarrow> jstr \<Rightarrow> json option \<Rightarrow> bool \<Rightarrow> http_req" where
  "mk_req d meth path body auth =
    \<lparr>rq_method = js meth, rq_url = baseUrl d @ path,
     rq_bearer = (if auth \<and> truthy_str (token d) then token d else None),
     rq_body = map_option stringify body\<rparr>"

definition is_ok :: "http_res \<Rightarrow> bool" where
  "is_ok r = (200 \<le> rs_status r \<and> rs_status r \<le> 299)"

definition finish :: "jstr \<Rightarrow> http_res \<Rightarrow> disc_error + json" where
  "finish path r =
    (if \<not> is_ok r then Inl (DiscoveryError (rs_status r) path (rs_text r))
     else (case json_parse (rs_text r) of None \<Rightarrow> Inl BadBody | Some v \<Rightarrow> Inr v))"

text \<open>One attempt that does not retry.\<close>

definition attempt :: "'w fetch \<Rightarrow> string \<Rightarrow> jstr \<Rightarrow> json option \<Rightarrow> bool \<Rightarrow> disc \<Rightarrow> 'w \<Rightarrow> 'w \<times> (disc_error + json)" where
  "attempt fetch meth path body auth d w =
    (case fetch (mk_req d meth path body auth) w of
       (w1, None) \<Rightarrow> (w1, Inl NetworkError)
     | (w1, Some r) \<Rightarrow> (w1, finish path r))"

text \<open>The property of a response that is not an object is \<open>undefined\<close>, of \<open>null\<close> a \<open>TypeError\<close>.\<close>

definition prop_of :: "json \<Rightarrow> string \<Rightarrow> (json option \<Rightarrow> disc_error + 'a) \<Rightarrow> disc_error + 'a" where
  "prop_of v k f = (if v = JNull then Inl BadBody else f (field v k))"

definition refresh_body :: "jstr \<Rightarrow> json" where
  "refresh_body r = JObj [(js ''refreshToken'', JStr r)]"

definition refresh :: "'w fetch \<Rightarrow> disc \<Rightarrow> 'w \<Rightarrow> ('w, unit) disc_result" where
  "refresh fetch d w =
    (if \<not> truthy_str (refresh_token d) then (d, w, Inl NoRefreshToken)
     else
       (case attempt fetch ''POST'' (js ''/v1/auth/refresh'') (Some (refresh_body (the (refresh_token d)))) False d w of
          (w1, Inl e) \<Rightarrow> (d, w1, Inl e)
        | (w1, Inr v) \<Rightarrow>
            if v = JNull then (d, w1, Inl BadBody)
            else (let d1 = d\<lparr>token := as_str (field v ''token'')\<rparr>;
                      r = as_str (field v ''refreshToken'')
                  in (if truthy_str r then d1\<lparr>refresh_token := r\<rparr> else d1, w1, Inr ()))))"

definition request :: "'w fetch \<Rightarrow> string \<Rightarrow> jstr \<Rightarrow> json option \<Rightarrow> bool \<Rightarrow> disc \<Rightarrow> 'w \<Rightarrow> ('w, json) disc_result" where
  "request fetch meth path body auth d w =
    (case fetch (mk_req d meth path body auth) w of
       (w1, None) \<Rightarrow> (d, w1, Inl NetworkError)
     | (w1, Some r) \<Rightarrow>
         if rs_status r = 401 \<and> auth \<and> truthy_str (refresh_token d)
         then (case refresh fetch d w1 of
             (d2, w2, Inl _) \<Rightarrow> (d2, w2, Inl (DiscoveryError 401 path (rs_text r)))
           | (d2, w2, Inr _) \<Rightarrow>
               (let (w3, res) = attempt fetch meth path body auth d2 w2 in (d2, w3, res)))
         else (d, w1, finish path r))"

text \<open>\<open>const {k} = await ...; return f(k)\<close>.\<close>

definition then_prop :: "('w, json) disc_result \<Rightarrow> string \<Rightarrow> (json option \<Rightarrow> disc_error + 'a) \<Rightarrow> ('w, 'a) disc_result" where
  "then_prop r k f = (case r of (d, w, Inl e) \<Rightarrow> (d, w, Inl e) | (d, w, Inr v) \<Rightarrow> (d, w, prop_of v k f))"

definition expect :: "(json option \<Rightarrow> 'a option) \<Rightarrow> json option \<Rightarrow> disc_error + 'a" where
  "expect f v = (case f v of None \<Rightarrow> Inl BadBody | Some x \<Rightarrow> Inr x)"

text \<open>\<open>devices ?? []\<close>.\<close>

definition or_empty :: "(json option \<Rightarrow> 'a list option) \<Rightarrow> json option \<Rightarrow> disc_error + 'a list" where
  "or_empty f v = (case v of None \<Rightarrow> Inr [] | Some JNull \<Rightarrow> Inr [] | Some _ \<Rightarrow> expect f v)"

subsection \<open>Access tokens\<close>

text \<open>\<open>atob\<close> yields one code unit per byte.\<close>

definition decodeBase64Url :: "jstr \<Rightarrow> jstr option" where
  "decodeBase64Url s = map_option (map ucast) (url_to_bytes s)"

text \<open>
  \<open>frac_ms\<close> is the value of a number literal with a fraction or exponent, in thousandths rounded down
  (\<open>x * 1000 - now < 60000\<close> for whole \<open>now\<close> is the same of the rounded value).
\<close>

definition expiringSoon :: "(jstr \<Rightarrow> int) \<Rightarrow> int \<Rightarrow> jstr \<Rightarrow> bool" where
  "expiringSoon frac_ms now tok =
    (case find_index (\<lambda>c. c = 46) tok of
       None \<Rightarrow> True
     | Some 0 \<Rightarrow> True
     | Some dot \<Rightarrow>
         (case Option.bind (decodeBase64Url (take dot tok)) json_parse of
            None \<Rightarrow> True
          | Some v \<Rightarrow>
              (case field v ''exp'' of
                 Some (JInt e) \<Rightarrow> e * 1000 - now < 60000
               | Some (JFrac t) \<Rightarrow> frac_ms t - now < 60000
               | _ \<Rightarrow> True)))"

definition ensureAccess :: "'w fetch \<Rightarrow> (jstr \<Rightarrow> int) \<Rightarrow> int \<Rightarrow> disc \<Rightarrow> 'w \<Rightarrow> ('w, unit) disc_result" where
  "ensureAccess fetch frac_ms now d w =
    (if \<not> truthy_str (refresh_token d) then (d, w, Inr ())
     else if truthy_str (token d) \<and> \<not> expiringSoon frac_ms now (the (token d)) then (d, w, Inr ())
     else refresh fetch d w)"

subsection \<open>Accounts and devices\<close>

record registered =
  reg_user :: jstr
  reg_otpSent :: bool
  reg_devOtp :: "jstr option"

definition registered_of :: "json \<Rightarrow> registered option" where
  "registered_of v =
    (case (as_str (field v ''userId''), as_bool (field v ''otpSent''), as_opt_str (field v ''devOtp'')) of
       (Some u, Some s, Some o') \<Rightarrow> Some \<lparr>reg_user = u, reg_otpSent = s, reg_devOtp = o'\<rparr> | _ \<Rightarrow> None)"

definition register :: "'w fetch \<Rightarrow> (jstr \<times> json) list \<Rightarrow> json list \<Rightarrow> jstr \<Rightarrow> disc \<Rightarrow> 'w \<Rightarrow> ('w, registered) disc_result" where
  "register fetch bundle keys phone d w =
    (case request fetch ''POST'' (js ''/v1/accounts/register'')
        (Some (JObj ((js ''phoneNumber'', JStr phone) # bundle @ [(js ''oneTimePreKeys'', JArr keys)]))) True d w of
       (d1, w1, Inl e) \<Rightarrow> (d1, w1, Inl e)
     | (d1, w1, Inr v) \<Rightarrow> (d1, w1, case registered_of v of None \<Rightarrow> Inl BadBody | Some r \<Rightarrow> Inr r))"

definition submitOtp :: "'w fetch \<Rightarrow> jstr \<Rightarrow> jstr \<Rightarrow> disc \<Rightarrow> 'w \<Rightarrow> ('w, jstr) disc_result" where
  "submitOtp fetch user code d w =
    (case request fetch ''POST'' (js ''/v1/accounts/verify'')
        (Some (JObj [(js ''userId'', JStr user), (js ''code'', JStr code)])) False d w of
       (d1, w1, Inl e) \<Rightarrow> (d1, w1, Inl e)
     | (d1, w1, Inr v) \<Rightarrow>
         if v = JNull then (d1, w1, Inl BadBody)
         else (let t = as_str (field v ''token'') in
           if as_bool (field v ''verified'') \<noteq> Some True \<or> \<not> truthy_str t then (d1, w1, Inl OtpFailed)
           else (d1\<lparr>token := t, refresh_token := as_str (field v ''refreshToken'')\<rparr>, w1, Inr (the t))))"

definition onboard :: "'w fetch \<Rightarrow> (jstr \<times> json) list \<Rightarrow> json list \<Rightarrow> jstr \<Rightarrow> disc \<Rightarrow> 'w \<Rightarrow> ('w, jstr) disc_result" where
  "onboard fetch bundle keys phone d w =
    (case register fetch bundle keys phone d w of
       (d1, w1, Inl e) \<Rightarrow> (d1, w1, Inl e)
     | (d1, w1, Inr r) \<Rightarrow>
         if \<not> truthy_str (reg_devOtp r) then (d1, w1, Inl NoDevOtp)
         else (case submitOtp fetch (reg_user r) (the (reg_devOtp r)) d1 w1 of
             (d2, w2, Inl e) \<Rightarrow> (d2, w2, Inl e)
           | (d2, w2, Inr _) \<Rightarrow> (d2, w2, Inr (reg_user r))))"

definition fetchBundle :: "'w fetch \<Rightarrow> jstr \<Rightarrow> disc \<Rightarrow> 'w \<Rightarrow> ('w, json) disc_result" where
  "fetchBundle fetch user d w = request fetch ''GET'' (js ''/v1/keys/'' @ user) None True d w"

definition createLinkToken :: "'w fetch \<Rightarrow> disc \<Rightarrow> 'w \<Rightarrow> ('w, jstr) disc_result" where
  "createLinkToken fetch d w =
    then_prop (request fetch ''POST'' (js ''/v1/devices/link-token'') (Some (JObj [])) True d w)
      ''token'' (expect as_str)"

definition linkDevice :: "'w fetch \<Rightarrow> jstr \<Rightarrow> (jstr \<times> json) list \<Rightarrow> json list \<Rightarrow> disc \<Rightarrow> 'w \<Rightarrow>
    ('w, jstr \<times> jstr) disc_result" where
  "linkDevice fetch tok bundle keys d w =
    (case request fetch ''POST'' (js ''/v1/devices/link'')
        (Some (JObj ((js ''token'', JStr tok) # bundle @ [(js ''oneTimePreKeys'', JArr keys)]))) False d w of
       (d1, w1, Inl e) \<Rightarrow> (d1, w1, Inl e)
     | (d1, w1, Inr v) \<Rightarrow>
         if v = JNull then (d1, w1, Inl BadBody)
         else (let t = as_str (field v ''token'') in
           if \<not> truthy_str t then (d1, w1, Inl LinkFailed)
           else (d1\<lparr>token := t, refresh_token := as_str (field v ''refreshToken'')\<rparr>, w1,
             (case (as_str (field v ''userId''), as_str (field v ''accountId'')) of
                (Some u, Some a) \<Rightarrow> Inr (u, a) | _ \<Rightarrow> Inl BadBody))))"

record device_info =
  di_user :: jstr
  di_device :: int
  di_primary :: bool

definition device_of :: "json \<Rightarrow> device_info option" where
  "device_of v =
    (case (as_str (field v ''userId''), as_int (field v ''deviceId''), as_bool (field v ''primary'')) of
       (Some u, Some n, Some p) \<Rightarrow> Some \<lparr>di_user = u, di_device = n, di_primary = p\<rparr> | _ \<Rightarrow> None)"

fun all_some :: "('a \<Rightarrow> 'b option) \<Rightarrow> 'a list \<Rightarrow> 'b list option" where
  "all_some f [] = Some []"
| "all_some f (x # xs) = (case (f x, all_some f xs) of (Some y, Some ys) \<Rightarrow> Some (y # ys) | _ \<Rightarrow> None)"

definition as_list :: "(json \<Rightarrow> 'a option) \<Rightarrow> json option \<Rightarrow> 'a list option" where
  "as_list f v = (case v of Some (JArr vs) \<Rightarrow> all_some f vs | _ \<Rightarrow> None)"

definition listMyDevices :: "'w fetch \<Rightarrow> disc \<Rightarrow> 'w \<Rightarrow> ('w, device_info list) disc_result" where
  "listMyDevices fetch d w =
    then_prop (request fetch ''GET'' (js ''/v1/devices'') None True d w) ''devices'' (or_empty (as_list device_of))"

text \<open>A \<open>DELETE\<close> with the bearer token and no retry; \<open>None\<close> is the success without a body.\<close>

definition delete_at :: "'w fetch \<Rightarrow> jstr \<Rightarrow> jstr \<Rightarrow> disc \<Rightarrow> 'w \<Rightarrow> 'w \<times> disc_error option" where
  "delete_at fetch path shown d w =
    (case fetch \<lparr>rq_method = js ''DELETE'', rq_url = baseUrl d @ path,
        rq_bearer = (if truthy_str (token d) then token d else None), rq_body = None\<rparr> w of
       (w1, None) \<Rightarrow> (w1, Some NetworkError)
     | (w1, Some r) \<Rightarrow>
         (w1, if \<not> is_ok r then Some (DiscoveryError (rs_status r) shown (rs_text r)) else None))"

text \<open>\<open>enc\<close> is the user id after \<open>encodeURIComponent\<close>.\<close>

definition removeDevice :: "'w fetch \<Rightarrow> jstr \<Rightarrow> disc \<Rightarrow> 'w \<Rightarrow> 'w \<times> disc_error option" where
  "removeDevice fetch enc d w = delete_at fetch (js ''/v1/devices/'' @ enc) (js ''/v1/devices'') d w"

definition deleteAccount :: "'w fetch \<Rightarrow> disc \<Rightarrow> 'w \<Rightarrow> ('w, unit) disc_result" where
  "deleteAccount fetch d w =
    (case delete_at fetch (js ''/v1/accounts'') (js ''/v1/accounts'') d w of
       (w1, Some e) \<Rightarrow> (d, w1, Inl e)
     | (w1, None) \<Rightarrow> (d\<lparr>token := None\<rparr>, w1, Inr ()))"

definition listDevices :: "'w fetch \<Rightarrow> jstr \<Rightarrow> disc \<Rightarrow> 'w \<Rightarrow> ('w, jstr list) disc_result" where
  "listDevices fetch acct d w =
    then_prop (request fetch ''GET'' (js ''/v1/accounts/'' @ acct @ js ''/devices'') None True d w)
      ''devices'' (or_empty as_strs)"

definition resolveAccount :: "'w fetch \<Rightarrow> jstr \<Rightarrow> disc \<Rightarrow> 'w \<Rightarrow> ('w, jstr) disc_result" where
  "resolveAccount fetch user d w =
    then_prop (request fetch ''GET'' (js ''/v1/accounts/'' @ user @ js ''/account'') None True d w)
      ''accountId'' (expect as_str)"

definition uploadOneTimePreKeys :: "'w fetch \<Rightarrow> json list \<Rightarrow> disc \<Rightarrow> 'w \<Rightarrow> ('w, json) disc_result" where
  "uploadOneTimePreKeys fetch keys d w =
    request fetch ''PUT'' (js ''/v1/keys/upload'') (Some (JObj [(js ''oneTimePreKeys'', JArr keys)])) True d w"

definition poolSize :: "'w fetch \<Rightarrow> disc \<Rightarrow> 'w \<Rightarrow> ('w, int) disc_result" where
  "poolSize fetch d w =
    then_prop (request fetch ''GET'' (js ''/v1/keys/pool'') None True d w) ''poolSize'' (expect as_int)"

definition getSalt :: "'w fetch \<Rightarrow> disc \<Rightarrow> 'w \<Rightarrow> ('w, jstr) disc_result" where
  "getSalt fetch d w =
    then_prop (request fetch ''GET'' (js ''/v1/contacts/salt'') None True d w) ''saltB64'' (expect as_str)"

definition match_of :: "json \<Rightarrow> (jstr \<times> jstr) option" where
  "match_of v = (case (as_str (field v ''phoneHashB64''), as_str (field v ''userId'')) of
     (Some h, Some u) \<Rightarrow> Some (h, u) | _ \<Rightarrow> None)"

definition intersect :: "'w fetch \<Rightarrow> jstr list \<Rightarrow> disc \<Rightarrow> 'w \<Rightarrow> ('w, (jstr \<times> jstr) list) disc_result" where
  "intersect fetch hashes d w =
    then_prop (request fetch ''POST'' (js ''/v1/contacts/intersect'')
        (Some (JObj [(js ''phoneHashesB64'', JArr (map JStr hashes))])) True d w)
      ''matches'' (expect (as_list match_of))"


subsection \<open>What goes over the network\<close>

text \<open>A server that writes down the requests it gets.\<close>

definition recording :: "'w fetch \<Rightarrow> ('w \<times> http_req list) fetch" where
  "recording f r wl = (let (w, x) = f r (fst wl) in ((w, snd wl @ [r]), x))"

definition refresh_req :: "disc \<Rightarrow> http_req" where
  "refresh_req d = mk_req d ''POST'' (js ''/v1/auth/refresh'') (Some (refresh_body (the (refresh_token d)))) False"

lemma recording_cases:
  obtains w x where "recording f r (v, log) = ((w, log @ [r]), x)" "f r v = (w, x)"
  by (cases "f r v") (simp add: recording_def)

lemma attempt_records:
  "\<exists>w'. attempt (recording f) m p b a d (w, log) = ((w', log @ [mk_req d m p b a]), snd (attempt f m p b a d w)) \<and>
     fst (attempt f m p b a d w) = w'"
  by (rule recording_cases [of f "mk_req d m p b a" w log]) (auto simp: attempt_def split: option.split)

lemma refresh_records:
  assumes "truthy_str (refresh_token d)"
  shows "\<exists>w'. refresh (recording f) d (w, log) =
    (fst (refresh f d w), (w', log @ [refresh_req d]), snd (snd (refresh f d w))) \<and> fst (snd (refresh f d w)) = w'"
  using attempt_records [of f "''POST''" "js ''/v1/auth/refresh''" "Some (refresh_body (the (refresh_token d)))" False d w log] assms
  by (cases "attempt f ''POST'' (js ''/v1/auth/refresh'') (Some (refresh_body (the (refresh_token d)))) False d w")
    (auto simp: refresh_def refresh_req_def Let_def split: sum.split)

text \<open>An authenticated call makes one request; when the server answers 401 and a refresh token is
  held it makes exactly one refresh (which carries no access token) and, if that succeeds, exactly one
  more attempt, with the new access token. It never makes more than three requests, and any other
  answer is returned as it is.\<close>

theorem request_retries_once:
  "\<exists>reqs. snd (fst (snd (request (recording f) m p b auth d (w, log)))) = log @ reqs \<and>
     (reqs = [mk_req d m p b auth] \<or>
      (auth \<and> truthy_str (refresh_token d) \<and>
       (reqs = [mk_req d m p b auth, refresh_req d] \<and>
          (\<exists>t. snd (snd (request (recording f) m p b auth d (w, log))) = Inl (DiscoveryError 401 p t)) \<or>
        reqs = [mk_req d m p b auth, refresh_req d,
          mk_req (fst (request (recording f) m p b auth d (w, log))) m p b auth])))"
proof -
  obtain w1 x where r: "recording f (mk_req d m p b auth) (w, log) = ((w1, log @ [mk_req d m p b auth]), x)"
    by (rule recording_cases)
  show ?thesis
  proof (cases "\<exists>r. x = Some r \<and> rs_status r = 401 \<and> auth \<and> truthy_str (refresh_token d)")
    case False
    then show ?thesis by (auto simp: request_def r split: option.split)
  next
    case True
    then obtain re where x: "x = Some re" and re: "rs_status re = 401" "auth" "truthy_str (refresh_token d)" by blast
    obtain w2 where ref: "refresh (recording f) d (w1, log @ [mk_req d m p b auth]) =
        (fst (refresh f d w1), (w2, log @ [mk_req d m p b auth, refresh_req d]), snd (snd (refresh f d w1)))"
      using refresh_records [OF re(3), of f w1 "log @ [mk_req d m p b auth]"] by auto
    obtain w3 res where att: "attempt (recording f) m p b auth (fst (refresh f d w1))
        (w2, log @ [mk_req d m p b auth, refresh_req d]) =
        ((w3, log @ [mk_req d m p b auth, refresh_req d, mk_req (fst (refresh f d w1)) m p b auth]), res)"
      using attempt_records [of f m p b auth "fst (refresh f d w1)" w2 "log @ [mk_req d m p b auth, refresh_req d]"] by auto
    show ?thesis
      using re r x ref att by (cases "snd (snd (refresh f d w1))") (simp_all add: request_def)
  qed
qed

text \<open>Verifying the code keeps tokens only on success: an error (transport, HTTP status, malformed
  body, not verified) leaves the client's tokens as they were, and success stores a non-empty access
  token, the one returned.\<close>

theorem submitOtp_tokens:
  "case submitOtp fetch user code d w of
     (d', w', Inl e) \<Rightarrow> d' = d
   | (d', w', Inr t) \<Rightarrow> token d' = Some t \<and> t \<noteq> [] \<and> baseUrl d' = baseUrl d"
proof -
  have same: "fst (request fetch m p b False d w) = d" for m p b
    by (auto simp: request_def split: prod.split option.split)
  obtain w1 r where q: "request fetch ''POST'' (js ''/v1/accounts/verify'')
      (Some (JObj [(js ''userId'', JStr user), (js ''code'', JStr code)])) False d w = (d, w1, r)"
    using same by (metis prod.collapse)
  show ?thesis
    by (cases r; cases "as_str (field (projr r) ''token'')")
      (auto simp: submitOtp_def q Let_def)
qed

text \<open>A usable access token costs no request; a missing or expiring one costs one refresh, which
  changes the tokens only when it succeeds.\<close>

theorem ensureAccess_refreshes_when_due:
  "(\<not> truthy_str (refresh_token d) \<or> truthy_str (token d) \<and> \<not> expiringSoon frac now (the (token d)) \<longrightarrow>
     ensureAccess (recording f) frac now d (w, log) = (d, (w, log), Inr ())) \<and>
   (truthy_str (refresh_token d) \<and> (\<not> truthy_str (token d) \<or> expiringSoon frac now (the (token d))) \<longrightarrow>
     snd (fst (snd (ensureAccess (recording f) frac now d (w, log)))) = log @ [refresh_req d] \<and>
     (\<forall>e. snd (snd (ensureAccess (recording f) frac now d (w, log))) = Inl e \<longrightarrow>
        fst (ensureAccess (recording f) frac now d (w, log)) = d))"
proof -
  have fail: "fst (refresh g d v) = d" if "snd (snd (refresh g d v)) = Inl e" for g :: "'x fetch" and v e
    using that by (auto simp: refresh_def Let_def split: if_splits prod.splits sum.splits)
  show ?thesis
    using refresh_records [of d f w log] fail [of "recording f" "(w, log)"] by (auto simp: ensureAccess_def)
qed

definition demo_server :: "unit fetch" where
  "demo_server r w = (w, None)"

definition demo_disc :: disc where
  "demo_disc = \<lparr>baseUrl = [], token = None, refresh_token = Some [49]\<rparr>"

lemma ensureAccess_refreshes_when_due_witness:
  "snd (fst (snd (ensureAccess (recording demo_server) (\<lambda>_. 0) 0 demo_disc ((), [])))) = [refresh_req demo_disc]"
  using ensureAccess_refreshes_when_due [of demo_disc "\<lambda>_. 0" 0 demo_server "()" "[]"] by (simp add: demo_disc_def)

text \<open>Deleting the account leaves the refresh token in the client, and the next check of the access
  token presents it to the server again.\<close>

theorem deleted_account_keeps_refresh_token:
  assumes "deleteAccount f d w = (d', w', Inr ())" and "truthy_str (refresh_token d)"
  shows "token d' = None \<and> refresh_token d' = refresh_token d \<and>
    snd (fst (snd (ensureAccess (recording f) frac now d' (w', [])))) = [refresh_req d]"
proof -
  have d': "d' = d\<lparr>token := None\<rparr>" using assms(1) by (auto simp: deleteAccount_def split: prod.splits option.splits)
  have "refresh_req d' = refresh_req d" by (simp add: d' refresh_req_def mk_req_def)
  then show ?thesis
    using refresh_records [of d' f w' "[]"] assms(2) by (auto simp: d' ensureAccess_def)
qed

lemma deleted_account_keeps_refresh_token_witness:
  "refresh_token (fst (deleteAccount (\<lambda>r w. (w, Some \<lparr>rs_status = 204, rs_text = []\<rparr>)) demo_disc ())) = Some [49]"
proof -
  let ?f = "\<lambda>r w. (w, Some \<lparr>rs_status = 204, rs_text = []\<rparr>)"
  have del: "deleteAccount ?f demo_disc () = (demo_disc\<lparr>token := None\<rparr>, (), Inr ())"
    by (simp add: deleteAccount_def delete_at_def is_ok_def)
  have "truthy_str (refresh_token demo_disc)" by (simp add: demo_disc_def)
  from deleted_account_keeps_refresh_token [OF del this, of "\<lambda>_. 0" 0] show ?thesis
    unfolding del by (simp add: demo_disc_def)
qed

subsection \<open>Expiry of a token\<close>

lemma utf8_ascii: "\<forall>c\<in>set s. c < 128 \<Longrightarrow> utf8_encode s = map ucast s"
proof (induction s)
  case (Cons c s)
  then have c: "unat c < 128" by (simp add: word_less_nat_alt)
  have "unat (ucast c :: 32 word) = unat c" using c by (simp add: unsigned_ucast_eq take_bit_nat_eq_self)
  then have "(ucast c :: 32 word) < 0x80" using c by (simp add: word_less_nat_alt)
  moreover have "u8 (ucast c) = ucast c" unfolding u8_def
    by (rule bit_word_eqI) (auto simp: bit_simps)
  ultimately show ?case using Cons by simp
qed simp

lemma ascii_back: "\<forall>c\<in>set s. c < 128 \<Longrightarrow> map ucast (map ucast s :: byte list) = (s :: jstr)"
proof (induction s)
  case (Cons c s)
  then have c: "unat c < 128" by (simp add: word_less_nat_alt)
  have "unat (ucast (ucast c :: byte) :: unit16) = unat c"
    using c by (simp add: unsigned_ucast_eq unsigned_take_bit_eq take_bit_nat_eq_self)
  then have "(ucast (ucast c :: byte) :: unit16) = c" by (rule unsigned_word_eqI)
  then show ?case using Cons by simp
qed simp

definition token_of :: "int \<Rightarrow> jstr \<Rightarrow> jstr" where
  "token_of e sig = base64_url_encode (stringify (JObj [(js ''exp'', JInt e)])) @ 46 # sig"

lemma url_no_dot: "\<forall>c\<in>set (base64_url_encode s). c \<noteq> 46"
proof -
  let ?x = "sextets (map unat (utf8_encode s))"
  have "unat b < 2 ^ LENGTH(8)" for b :: byte by (rule unsigned_less)
  then have "\<forall>n\<in>set (map unat (utf8_encode s)). n < 256" by simp
  then have "n \<in> set ?x \<Longrightarrow> n < 64" for n using sextets_less by blast
  moreover have "list_all (\<lambda>n. to_url (b64_char n) \<noteq> 46) [0..<64]" by code_simp
  ultimately show ?thesis by (auto simp: url_encode_sextets list_all_iff)
qed


lemma int_str_ascii: "\<forall>c\<in>set (int_str e). c < 128"
proof -
  have d: "c < 128" if "is_digit c" for c
    using that by (auto simp: is_digit_def word_le_nat_alt word_less_nat_alt)
  show ?thesis using dec_digits_digits [of "nat (- e)"] dec_digits_digits [of "nat e"]
    by (auto simp: int_str_def intro!: d)
qed

lemma exp_json: "stringify (JObj [(js ''exp'', JInt e)]) = [123, 34, 101, 120, 112, 34, 58] @ int_str e @ [125]"
  by (simp add: quote_def js_def of_char_def quote_one_def short_escape_def is_high_def is_low_def)

text \<open>A token that carries an expiry claim counts as expiring exactly when it expires within a
  minute; a token with no payload before its first dot always counts as expiring.\<close>

theorem expiringSoon_exact:
  "expiringSoon frac now (token_of e sig) = (e * 1000 - now < 60000) \<and>
   (\<forall>t. (\<forall>c\<in>set t. c \<noteq> 46) \<or> (\<exists>u. t = 46 # u) \<longrightarrow> expiringSoon frac now t)"
proof -
  let ?j = "stringify (JObj [(js ''exp'', JInt e)])"
  let ?b = "base64_url_encode ?j"
  have ascii: "\<forall>c\<in>set ?j. c < 128" unfolding exp_json using int_str_ascii by auto
  have dec: "decodeBase64Url ?b = Some ?j"
    unfolding decodeBase64Url_def url_bytes_roundtrip by (simp only: utf8_ascii [OF ascii] option.map ascii_back [OF ascii])
  have "?b \<noteq> []"
    by (simp only: exp_json utf8_ascii [OF ascii [unfolded exp_json]] url_encode_sextets) simp
  then obtain c b where b: "?b = c # b" by (cases ?b) auto
  have dot: "find_index (\<lambda>c. c = 46) (x @ 46 # sig) = Some (length x)" if "\<forall>c\<in>set x. c \<noteq> (46 :: unit16)" for x
    using that by (induction x) auto
  have "length ?b = Suc (length b)" unfolding b by simp
  then have "find_index (\<lambda>c. c = 46) (token_of e sig) = Some (Suc (length b))"
    unfolding token_of_def by (simp only: dot [OF url_no_dot])
  moreover have "take (Suc (length b)) (token_of e sig) = ?b" unfolding token_of_def b by simp
  moreover have "json_parse ?j = Some (JObj [(js ''exp'', JInt e)])" by (rule json_roundtrip) simp
  ultimately have "expiringSoon frac now (token_of e sig) = (e * 1000 - now < 60000)"
    unfolding expiringSoon_def by (simp add: dec field_def del: stringify.simps)
  moreover have "expiringSoon frac now t" if "(\<forall>c\<in>set t. c \<noteq> 46) \<or> (\<exists>u. t = 46 # u)" for t
    using that
  proof
    assume "\<forall>c\<in>set t. c \<noteq> 46"
    then have "find_index (\<lambda>c. c = 46) t = None" by simp
    then show ?thesis unfolding expiringSoon_def by (simp del: find_index_None)
  qed (auto simp: expiringSoon_def)
  ultimately show ?thesis by blast
qed

lemma expiringSoon_exact_witness: "expiringSoon (\<lambda>_. 0) 0 [46, 65]"
  using expiringSoon_exact [of "\<lambda>_. 0" 0 0 "[]"] by blast

end
