(* ===== verification/Relay.thy ===== *)
theory Relay
  imports Wire
begin

text \<open>
  \<open>packages/client/src/relay.ts\<close>: the connection to the relay. The WebSocket is outside the sources:
  the connection records whether it has one, and each handler returns what it does to it and to the
  client's callbacks, in order. A handler is \<open>None\<close> when a frame lacks the shape its cast promises.
\<close>

subsection \<open>Frames\<close>

definition env_json :: "envelope \<Rightarrow> json" where
  "env_json e = JObj (opt_prop ''id'' JStr (env_id e) @
     [(js ''recipientId'', JStr (recipientId e)), (js ''recipientDevice'', JInt (recipientDevice e)),
      (js ''senderId'', JStr (senderId e)), (js ''senderDevice'', JInt (senderDevice e)),
      (js ''type'', JInt (type_code (env_type e))), (js ''ciphertext'', JStr (ciphertext e)),
      (js ''timestamp'', JInt (timestamp e))])"

definition env_of_json :: "json \<Rightarrow> envelope option" where
  "env_of_json v =
    (case (as_opt_str (field v ''id''), as_str (field v ''recipientId''), as_int (field v ''recipientDevice''),
           as_str (field v ''senderId''), as_int (field v ''senderDevice''),
           Option.bind (as_int (field v ''type'')) type_of_code, as_str (field v ''ciphertext''),
           as_int (field v ''timestamp'')) of
       (Some i, Some r, Some rd, Some s, Some sd, Some t, Some c, Some at) \<Rightarrow>
         Some \<lparr>env_id = i, recipientId = r, recipientDevice = rd, senderId = s, senderDevice = sd,
               env_type = t, ciphertext = c, timestamp = at\<rparr> | _ \<Rightarrow> None)"

definition kind_prop :: "string \<Rightarrow> jstr \<times> json" where
  "kind_prop k = (js ''kind'', JStr (js k))"

fun relay_json :: "relay_message \<Rightarrow> json" where
  "relay_json (SendEnvelope e ref) =
     JObj ([kind_prop ''send'', (js ''envelope'', env_json e)] @ opt_prop ''clientRef'' JStr ref)"
| "relay_json (DeliverEnvelope e) = JObj [kind_prop ''deliver'', (js ''envelope'', env_json e)]"
| "relay_json (EnvelopeAck i t ref) =
     JObj ([kind_prop ''ack'', (js ''envelopeId'', JStr i), (js ''acceptedAt'', JInt t)] @ opt_prop ''clientRef'' JStr ref)"
| "relay_json (DeliveryReceipt i st u d) =
     JObj [kind_prop ''receipt'', (js ''envelopeId'', JStr i), (js ''status'', JStr (status_name st)),
       (js ''targetId'', JStr u), (js ''targetDevice'', JInt d)]"
| "relay_json (StatusUpdate i st) =
     JObj [kind_prop ''status'', (js ''envelopeId'', JStr i), (js ''status'', JStr (status_name st))]"
| "relay_json (RegisterPush t) = JObj [kind_prop ''register-push'', (js ''token'', JStr t)]"

definition status_of_name :: "jstr \<Rightarrow> message_status option" where
  "status_of_name n = find (\<lambda>t. status_name t = n) [Sending, Sent, Delivered, Read]"

subsection \<open>The connection\<close>

record relay_conn =
  relayUrl :: jstr
  relay_token :: jstr
  relay_device :: int
  ws_open :: bool

datatype relay_effect =
    WsNew jstr
  | WsSend jstr
  | WsClose
  | OnDeliver envelope
  | OnAck "jstr option" jstr
  | OnStatus jstr message_status
  | OnOpen
  | OnClose
  | NotConnected
  | ParseError

text \<open>\<open>encodeURIComponent\<close>; \<open>None\<close> is the \<open>URIError\<close> on a lone surrogate.\<close>

definition uri_unreserved :: "byte \<Rightarrow> bool" where
  "uri_unreserved b = (48 \<le> b \<and> b \<le> 57 \<or> 65 \<le> b \<and> b \<le> 90 \<or> 97 \<le> b \<and> b \<le> 122 \<or>
     b \<in> {45, 95, 46, 33, 126, 42, 39, 40, 41})"

definition hex_upper :: "nat \<Rightarrow> unit16" where
  "hex_upper n = of_nat (if n < 10 then 48 + n else 55 + n)"

definition encodeURIComponent :: "jstr \<Rightarrow> jstr option" where
  "encodeURIComponent s =
    (if wf16 s then Some (concat (map (\<lambda>b. if uri_unreserved b then [ucast b]
        else [37, hex_upper (unat b div 16), hex_upper (unat b mod 16)]) (utf8_encode s)))
     else None)"

definition relay_send :: "relay_message \<Rightarrow> relay_conn \<Rightarrow> relay_effect list" where
  "relay_send m c = (if ws_open c then [WsSend (stringify (relay_json m))] else [NotConnected])"

text \<open>\<open>connect\<close> up to the awaited open; a token that cannot be encoded throws before the socket exists.\<close>

definition relay_connect :: "relay_conn \<Rightarrow> relay_conn \<times> relay_effect list" where
  "relay_connect c =
    (case encodeURIComponent (relay_token c) of None \<Rightarrow> (c, [ParseError])
     | Some t \<Rightarrow> (c\<lparr>ws_open := True\<rparr>,
         [WsNew (relayUrl c @ js ''?token='' @ t @ js ''&deviceId='' @ int_str (relay_device c))]))"

definition relay_close :: "relay_conn \<Rightarrow> relay_conn \<times> relay_effect list" where
  "relay_close c = (c\<lparr>ws_open := False\<rparr>, if ws_open c then [WsClose] else [])"

definition delivered_receipt :: "envelope \<Rightarrow> relay_message" where
  "delivered_receipt e = DeliveryReceipt (case env_id e of Some i \<Rightarrow> i | None \<Rightarrow> []) Delivered (senderId e) (senderDevice e)"

definition on_message :: "jstr \<Rightarrow> relay_conn \<Rightarrow> relay_effect list option" where
  "on_message raw c =
    (case json_parse raw of None \<Rightarrow> Some [ParseError]
     | Some v \<Rightarrow>
         if v = JNull then Some [ParseError]
         else (let kind = as_str (field v ''kind'') in
           if kind = Some (js ''deliver'') \<and> (\<exists>w\<in>set_option (field v ''envelope''). truthy w)
           then map_option (\<lambda>e. OnDeliver e # relay_send (delivered_receipt e) c)
                  (Option.bind (field v ''envelope'') env_of_json)
           else if kind = Some (js ''ack'')
           then (case (as_opt_str (field v ''clientRef''), as_str (field v ''envelopeId'')) of
               (Some r, Some i) \<Rightarrow> Some [OnAck r i] | _ \<Rightarrow> None)
           else if kind = Some (js ''status'')
           then (case (as_str (field v ''envelopeId''), Option.bind (as_str (field v ''status'')) status_of_name) of
               (Some i, Some t) \<Rightarrow> Some [OnStatus i t] | _ \<Rightarrow> None)
           else Some []))"

definition sendEnvelope :: "envelope \<Rightarrow> jstr option \<Rightarrow> relay_conn \<Rightarrow> relay_effect list" where
  "sendEnvelope e ref c = relay_send (SendEnvelope (e\<lparr>env_id := None\<rparr>) ref) c"

definition relay_readReceipt :: "jstr \<Rightarrow> jstr \<Rightarrow> int \<Rightarrow> relay_conn \<Rightarrow> relay_effect list" where
  "relay_readReceipt i u d c = relay_send (DeliveryReceipt i Read u d) c"

definition registerPush :: "jstr \<Rightarrow> relay_conn \<Rightarrow> relay_effect list" where
  "registerPush t c = relay_send (RegisterPush t) c"

subsection \<open>Frames survive the wire\<close>

lemma type_of_code [simp]: "type_of_code (type_code t) = Some t"
  by (cases t) (simp_all add: type_of_code_def)

lemma status_of_name [simp]: "status_of_name (status_name t) = Some t"
  by (cases t) (simp_all add: status_of_name_def)

lemma env_of_json [simp]: "env_of_json (env_json e) = Some e"
  by (cases e) (simp add: env_json_def env_of_json_def payload_defs split: option.splits)

lemma wf_relay [simp]: "wf_json (env_json e)" "wf_json (relay_json m)"
  by (auto simp: env_json_def payload_defs) (cases m; auto simp: env_json_def payload_defs kind_prop_def split: option.splits)+

lemma relay_parse: "json_parse (stringify (relay_json m)) = Some (relay_json m)"
  by (simp add: json_roundtrip)

lemma on_deliver:
  "on_message (stringify (relay_json (DeliverEnvelope e))) c = Some (OnDeliver e # relay_send (delivered_receipt e) c)"
  by (simp only: on_message_def relay_parse) (simp add: kind_prop_def payload_defs env_json_def [of e] Let_def,
      simp add: env_json_def [of e, symmetric] payload_defs [symmetric])

text \<open>Every frame the relay sends reaches its callback with what was sent: an envelope is handed on
  and answered at once with a "delivered" receipt for its id, addressed to its sender's device; an ack
  and a status reach theirs with their ids; the client's own kinds of frames are ignored.\<close>

theorem frames_are_dispatched:
  "on_message (stringify (relay_json m)) c =
    Some (case m of
        DeliverEnvelope e \<Rightarrow> [OnDeliver e, if ws_open c then WsSend (stringify (relay_json
          (DeliveryReceipt (case env_id e of Some i \<Rightarrow> i | None \<Rightarrow> []) Delivered (senderId e) (senderDevice e))))
          else NotConnected]
      | EnvelopeAck i t ref \<Rightarrow> [OnAck ref i]
      | StatusUpdate i st \<Rightarrow> [OnStatus i st]
      | _ \<Rightarrow> [])"
proof (cases m)
  case (DeliverEnvelope e)
  show ?thesis unfolding DeliverEnvelope on_deliver relay_send_def delivered_receipt_def by simp
next
  case (EnvelopeAck i t ref)
  then show ?thesis
    by (simp only: on_message_def relay_parse) (simp add: kind_prop_def payload_defs Let_def split: option.split)
next
  case (StatusUpdate i st)
  then show ?thesis
    by (simp only: on_message_def relay_parse) (simp add: kind_prop_def payload_defs Let_def)
qed (simp_all only: on_message_def relay_parse, simp_all add: kind_prop_def payload_defs Let_def)

end
