(* ===== verification/Messaging.thy ===== *)
theory Messaging
  imports Discovery Relay "HOL-Library.Sublist"
begin

text \<open>
  The messaging half of \<open>HwfaClient\<close> (\<open>packages/client/src/client.ts\<close>): fan-out of a text to the devices
  of a peer, sessions, inbound envelopes, acks and statuses, contact discovery, device linking,
  prekeys and onboarding. The connection half is \<open>Connection\<close>.

  The crypto provider (\<open>crypto-provider.ts\<close>, an interface) is a record of functions on its own state
  \<open>'c\<close>; \<open>None\<close> or \<open>False\<close> is a call that throws. The network is \<open>fetch\<close> on a world \<open>'w\<close>, as in
  \<open>Discovery\<close>. Envelopes handed to the relay are returned in order. \<open>alive\<close> says for which devices the
  socket is still there when their envelope is ready: it may drop between two awaits.
\<close>

subsection \<open>State\<close>

record registration =
  r_device :: int
  r_bundle :: "(jstr \<times> json) list"
  r_keys :: "json list"

record 'c provider =
  p_generate :: "int \<Rightarrow> 'c \<Rightarrow> 'c \<times> registration option"
  p_replenish :: "int \<Rightarrow> 'c \<Rightarrow> 'c \<times> json list option"
  p_localKey :: "'c \<Rightarrow> 'c \<times> jstr option"
  p_establish :: "jstr \<Rightarrow> int \<Rightarrow> json \<Rightarrow> 'c \<Rightarrow> 'c \<times> bool"
  p_encrypt :: "jstr \<Rightarrow> int \<Rightarrow> jstr \<Rightarrow> 'c \<Rightarrow> 'c \<times> (ciphertext_type \<times> jstr) option"
  p_decrypt :: "jstr \<Rightarrow> int \<Rightarrow> ciphertext_type \<times> jstr \<Rightarrow> 'c \<Rightarrow> 'c \<times> jstr option"

record 'c messenger =
  disc :: disc
  crypto :: 'c
  connected :: bool
  userId :: "jstr option"
  pendingUserId :: "jstr option"
  deviceId :: int
  my_relayUrl :: jstr
  peerDevice :: "(jstr, int) jsmap"
  peerIdentity :: "(jstr, jstr) jsmap"
  peerDevices :: "(jstr, jstr list \<times> int) jsmap"
  refToEnvelope :: "(jstr, jstr) jsmap"
  envelopeToRef :: "(jstr, jstr) jsmap"

record incoming_text =
  in_from :: jstr
  in_device :: int
  in_text :: jstr
  in_at :: int
  in_envelope :: jstr
  in_verdict :: scam_verdict

datatype client_error =
    DiscError disc_error
  | NotOnline
  | ProviderFailed
  | BadSalt
  | InvalidLinkCode
  | NoPendingOtp

definition DEVICE_LIST_TTL_MS :: int where "DEVICE_LIST_TTL_MS = 5 * 60 * 1000"
definition PREKEY_LOW_WATER :: int where "PREKEY_LOW_WATER = 20"
definition PREKEY_TARGET :: int where "PREKEY_TARGET = 50"

subsection \<open>Sending\<close>

definition devicesForPeer :: "'w fetch \<Rightarrow> int \<Rightarrow> jstr \<Rightarrow> 'c messenger \<Rightarrow> 'w \<Rightarrow> 'c messenger \<times> 'w \<times> jstr list" where
  "devicesForPeer fetch now peer s w =
    (case map_of (peerDevices s) peer of
       Some (ds, at) \<Rightarrow>
         if now - at < DEVICE_LIST_TTL_MS then (s, w, ds)
         else (let (d, w1, res) = listDevices fetch peer (disc s) w;
                   ds = (case res of Inr l \<Rightarrow> if peer \<in> set l then l else peer # l | Inl _ \<Rightarrow> [peer])
               in (s\<lparr>disc := d, peerDevices := map_set peer (ds, now) (peerDevices s)\<rparr>, w1, ds))
     | None \<Rightarrow>
         (let (d, w1, res) = listDevices fetch peer (disc s) w;
              ds = (case res of Inr l \<Rightarrow> if peer \<in> set l then l else peer # l | Inl _ \<Rightarrow> [peer])
          in (s\<lparr>disc := d, peerDevices := map_set peer (ds, now) (peerDevices s)\<rparr>, w1, ds)))"

definition bundle_of :: "json \<Rightarrow> (int \<times> jstr) option" where
  "bundle_of v = (case (as_int (field v ''deviceId''), as_str (field v ''identityKeyB64'')) of
     (Some d, Some k) \<Rightarrow> Some (d, k) | _ \<Rightarrow> None)"

text \<open>A bundle without the two fields counts as a failed fetch.\<close>

definition ensureSession :: "'w fetch \<Rightarrow> 'c provider \<Rightarrow> jstr \<Rightarrow> 'c messenger \<Rightarrow> 'w \<Rightarrow>
    'c messenger \<times> 'w \<times> int option" where
  "ensureSession fetch prov peer s w =
    (case map_of (peerDevice s) peer of
       Some known \<Rightarrow>
         if map_has (peerIdentity s) peer then (s, w, Some known)
         else (case fetchBundle fetch peer (disc s) w of
             (d, w1, Inr v) \<Rightarrow>
               (case bundle_of v of
                  Some (_, k) \<Rightarrow> (s\<lparr>disc := d, peerIdentity := map_set peer k (peerIdentity s)\<rparr>, w1, Some known)
                | None \<Rightarrow> (s\<lparr>disc := d\<rparr>, w1, Some known))
           | (d, w1, Inl _) \<Rightarrow> (s\<lparr>disc := d\<rparr>, w1, Some known))
     | None \<Rightarrow>
         (case fetchBundle fetch peer (disc s) w of
            (d, w1, Inl _) \<Rightarrow> (s\<lparr>disc := d\<rparr>, w1, None)
          | (d, w1, Inr v) \<Rightarrow>
              (case bundle_of v of
                 None \<Rightarrow> (s\<lparr>disc := d\<rparr>, w1, None)
               | Some (dev, k) \<Rightarrow>
                   (case p_establish prov peer dev v (crypto s) of
                      (c, False) \<Rightarrow> (s\<lparr>disc := d, crypto := c\<rparr>, w1, None)
                    | (c, True) \<Rightarrow>
                        (s\<lparr>disc := d, crypto := c, peerDevice := map_set peer dev (peerDevice s),
                           peerIdentity := map_set peer k (peerIdentity s)\<rparr>, w1, Some dev)))))"

text \<open>The body of the loop of \<open>sendText\<close>: what is thrown inside is caught inside.\<close>

definition send_one :: "'w fetch \<Rightarrow> 'c provider \<Rightarrow> (jstr \<Rightarrow> bool) \<Rightarrow> int \<Rightarrow> jstr \<Rightarrow> jstr \<Rightarrow> jstr \<Rightarrow> jstr \<Rightarrow>
    'c messenger \<Rightarrow> 'w \<Rightarrow> 'c messenger \<times> 'w \<times> relay_message list" where
  "send_one fetch prov alive now peer text ref dev s w =
    (if userId s = Some dev then (s, w, [])
     else (case ensureSession fetch prov dev s w of
         (s1, w1, None) \<Rightarrow> (s1, w1, [])
       | (s1, w1, Some pd) \<Rightarrow>
           (case p_encrypt prov dev pd text (crypto s1) of
              (c, None) \<Rightarrow> (s1\<lparr>crypto := c\<rparr>, w1, [])
            | (c, Some (ty, body)) \<Rightarrow>
                (s1\<lparr>crypto := c\<rparr>, w1,
                 if alive dev
                 then [SendEnvelope \<lparr>env_id = None, recipientId = dev, recipientDevice = pd,
                         senderId = the (userId s1), senderDevice = deviceId s1, env_type = ty,
                         ciphertext = body, timestamp = now\<rparr> (if dev = peer then Some ref else None)]
                 else []))))"

fun send_all :: "'w fetch \<Rightarrow> 'c provider \<Rightarrow> (jstr \<Rightarrow> bool) \<Rightarrow> int \<Rightarrow> jstr \<Rightarrow> jstr \<Rightarrow> jstr \<Rightarrow> jstr list \<Rightarrow>
    'c messenger \<Rightarrow> 'w \<Rightarrow> 'c messenger \<times> 'w \<times> relay_message list" where
  "send_all fetch prov alive now peer text ref [] s w = (s, w, [])"
| "send_all fetch prov alive now peer text ref (d # ds) s w =
    (let (s1, w1, m1) = send_one fetch prov alive now peer text ref d s w;
         (s2, w2, m2) = send_all fetch prov alive now peer text ref ds s1 w1
     in (s2, w2, m1 @ m2))"

definition sendText :: "'w fetch \<Rightarrow> 'c provider \<Rightarrow> (jstr \<Rightarrow> bool) \<Rightarrow> nat \<Rightarrow> jstr \<Rightarrow> jstr \<Rightarrow> jstr \<Rightarrow> jstr option \<Rightarrow>
    'c messenger \<Rightarrow> 'w \<Rightarrow> 'c messenger \<times> 'w \<times> relay_message list \<times> (client_error + jstr)" where
  "sendText fetch prov alive now rnd peer text clientRef s w =
    (if \<not> connected s \<or> userId s = None then (s, w, [], Inl NotOnline)
     else (let ref = (case clientRef of Some r \<Rightarrow> r | None \<Rightarrow> newClientRef now rnd);
               (s1, w1, ds) = devicesForPeer fetch (int now) peer s w;
               (s2, w2, ms) = send_all fetch prov alive (int now) peer text ref ds s1 w1
           in (s2, w2, ms, Inr ref)))"

definition sendReadReceipt :: "jstr \<Rightarrow> jstr \<Rightarrow> 'c messenger \<Rightarrow> relay_message list" where
  "sendReadReceipt peer env s =
    (if \<not> connected s then []
     else [DeliveryReceipt env Read peer (case map_of (peerDevice s) peer of Some d \<Rightarrow> d | None \<Rightarrow> 1)])"

subsection \<open>Receiving\<close>

text \<open>\<open>handleDeliver\<close>: what the text handlers are called with, nothing when decryption throws.\<close>

definition handleDeliver :: "'c provider \<Rightarrow> (jstr \<Rightarrow> scam_verdict) \<Rightarrow> int \<Rightarrow> envelope \<Rightarrow> 'c messenger \<Rightarrow>
    'c messenger \<times> incoming_text option" where
  "handleDeliver prov analyze now env s =
    (case p_decrypt prov (senderId env) (senderDevice env) (env_type env, ciphertext env) (crypto s) of
       (c, None) \<Rightarrow> (s\<lparr>crypto := c\<rparr>, None)
     | (c, Some text) \<Rightarrow>
         (s\<lparr>crypto := c, peerDevice := (if map_has (peerDevice s) (senderId env) then peerDevice s
              else map_set (senderId env) (senderDevice env) (peerDevice s))\<rparr>,
          Some \<lparr>in_from = senderId env, in_device = senderDevice env, in_text = text, in_at = now,
                in_envelope = (case env_id env of Some i \<Rightarrow> i | None \<Rightarrow> []), in_verdict = analyze text\<rparr>))"

text \<open>\<open>handleAck\<close> and \<open>handleStatus\<close>: the updates emitted.\<close>

definition handleAck :: "jstr option \<Rightarrow> jstr \<Rightarrow> 'c messenger \<Rightarrow> 'c messenger \<times> (jstr \<times> message_status) list" where
  "handleAck ref env s =
    (if truthy_str ref
     then (s\<lparr>refToEnvelope := map_set (the ref) env (refToEnvelope s),
             envelopeToRef := map_set env (the ref) (envelopeToRef s)\<rparr>, [(the ref, Sent)])
     else (s, []))"

definition handleStatus :: "jstr \<Rightarrow> message_status \<Rightarrow> 'c messenger \<Rightarrow> (jstr \<times> message_status) list" where
  "handleStatus env st s =
    (case map_of (envelopeToRef s) env of
       Some ref \<Rightarrow> if ref \<noteq> [] then [(ref, st)] else [] | None \<Rightarrow> [])"

subsection \<open>Identity keys and contacts\<close>

definition peerIdentityKey :: "jstr \<Rightarrow> 'c messenger \<Rightarrow> jstr option" where
  "peerIdentityKey peer s = map_of (peerIdentity s) peer"

definition setPeerIdentityKey :: "jstr \<Rightarrow> jstr \<Rightarrow> 'c messenger \<Rightarrow> 'c messenger" where
  "setPeerIdentityKey peer k s = s\<lparr>peerIdentity := map_set peer k (peerIdentity s)\<rparr>"

definition hashPhone :: "jstr \<Rightarrow> jstr \<Rightarrow> jstr option" where
  "hashPhone saltB64 phone =
    map_option (\<lambda>salt. bytes_to_base64 (sha256 (salt @ utf8_encode phone))) (base64_to_bytes saltB64)"

definition findContact :: "'w fetch \<Rightarrow> jstr \<Rightarrow> 'c messenger \<Rightarrow> 'w \<Rightarrow> 'c messenger \<times> 'w \<times> (client_error + jstr option)" where
  "findContact fetch phone s w =
    (case getSalt fetch (disc s) w of
       (d, w1, Inl e) \<Rightarrow> (s\<lparr>disc := d\<rparr>, w1, Inl (DiscError e))
     | (d, w1, Inr salt) \<Rightarrow>
         (case hashPhone salt phone of None \<Rightarrow> (s\<lparr>disc := d\<rparr>, w1, Inl BadSalt)
          | Some h \<Rightarrow>
              (case intersect fetch [h] d w1 of
                 (d2, w2, Inl e) \<Rightarrow> (s\<lparr>disc := d2\<rparr>, w2, Inl (DiscError e))
               | (d2, w2, Inr ms) \<Rightarrow> (s\<lparr>disc := d2\<rparr>, w2, Inr (case ms of [] \<Rightarrow> None | m # _ \<Rightarrow> Some (snd m))))))"

fun hash_phones :: "jstr \<Rightarrow> jstr list \<Rightarrow> (jstr, jstr) jsmap \<Rightarrow> (jstr, jstr) jsmap option" where
  "hash_phones salt [] m = Some m"
| "hash_phones salt (p # ps) m =
    (case hashPhone salt p of None \<Rightarrow> None | Some h \<Rightarrow> hash_phones salt ps (map_set h p m))"

definition match_phones :: "(jstr, jstr) jsmap \<Rightarrow> (jstr \<times> jstr) list \<Rightarrow> (jstr \<times> jstr) list" where
  "match_phones m ms =
    List.map_filter (\<lambda>q. case map_of m (fst q) of Some p \<Rightarrow> if p \<noteq> [] then Some (p, snd q) else None | None \<Rightarrow> None) ms"

definition discoverContacts :: "'w fetch \<Rightarrow> jstr list \<Rightarrow> 'c messenger \<Rightarrow> 'w \<Rightarrow>
    'c messenger \<times> 'w \<times> (client_error + (jstr \<times> jstr) list)" where
  "discoverContacts fetch phones s w =
    (if uniq phones = [] then (s, w, Inr [])
     else (case getSalt fetch (disc s) w of
         (d, w1, Inl e) \<Rightarrow> (s\<lparr>disc := d\<rparr>, w1, Inl (DiscError e))
       | (d, w1, Inr salt) \<Rightarrow>
           (case hash_phones salt (uniq phones) [] of None \<Rightarrow> (s\<lparr>disc := d\<rparr>, w1, Inl BadSalt)
            | Some m \<Rightarrow>
                (case intersect fetch (map fst m) d w1 of
                   (d2, w2, Inl e) \<Rightarrow> (s\<lparr>disc := d2\<rparr>, w2, Inl (DiscError e))
                 | (d2, w2, Inr ms) \<Rightarrow> (s\<lparr>disc := d2\<rparr>, w2, Inr (match_phones m ms))))))"

subsection \<open>Prekeys, linking, onboarding\<close>

text \<open>The state after \<open>maintainPreKeys\<close>; every failure in it is swallowed.\<close>

definition maintainPreKeys :: "'w fetch \<Rightarrow> 'c provider \<Rightarrow> 'c messenger \<Rightarrow> 'w \<Rightarrow> 'c messenger \<times> 'w" where
  "maintainPreKeys fetch prov s w =
    (case poolSize fetch (disc s) w of
       (d, w1, Inl _) \<Rightarrow> (s\<lparr>disc := d\<rparr>, w1)
     | (d, w1, Inr n) \<Rightarrow>
         if PREKEY_LOW_WATER \<le> n then (s\<lparr>disc := d\<rparr>, w1)
         else (case p_replenish prov (PREKEY_TARGET - n) (crypto s) of
             (c, None) \<Rightarrow> (s\<lparr>disc := d, crypto := c\<rparr>, w1)
           | (c, Some keys) \<Rightarrow>
               if keys = [] then (s\<lparr>disc := d, crypto := c\<rparr>, w1)
               else (case uploadOneTimePreKeys fetch keys d w1 of
                   (d2, w2, _) \<Rightarrow> (s\<lparr>disc := d2, crypto := c\<rparr>, w2))))"

definition link_payload :: "jstr \<Rightarrow> jstr \<Rightarrow> jstr \<Rightarrow> json" where
  "link_payload t d r = JObj [(js ''v'', JInt 1), (js ''t'', JStr t), (js ''d'', JStr d), (js ''r'', JStr r)]"

definition link_code :: "jstr \<Rightarrow> jstr \<Rightarrow> jstr \<Rightarrow> jstr" where
  "link_code t d r = base64_url_encode (stringify (link_payload t d r))"

definition createLinkCode :: "'w fetch \<Rightarrow> 'c messenger \<Rightarrow> 'w \<Rightarrow> 'c messenger \<times> 'w \<times> (client_error + jstr)" where
  "createLinkCode fetch s w =
    (case createLinkToken fetch (disc s) w of
       (d, w1, Inl e) \<Rightarrow> (s\<lparr>disc := d\<rparr>, w1, Inl (DiscError e))
     | (d, w1, Inr t) \<Rightarrow> (s\<lparr>disc := d\<rparr>, w1, Inr (link_code t (baseUrl d) (my_relayUrl s))))"

definition token_of_code :: "jstr \<Rightarrow> jstr option" where
  "token_of_code code =
    (case Option.bind (base64_url_decode code) json_parse of
       None \<Rightarrow> None
     | Some v \<Rightarrow> (case as_str (field v ''t'') of Some t \<Rightarrow> if t \<noteq> [] then Some t else None | None \<Rightarrow> None))"

text \<open>Up to the call of \<open>connectRelay\<close>: this device's user id and the account it joined.\<close>

definition linkWithCode :: "'w fetch \<Rightarrow> 'c provider \<Rightarrow> jstr \<Rightarrow> 'c messenger \<Rightarrow> 'w \<Rightarrow>
    'c messenger \<times> 'w \<times> (client_error + jstr \<times> jstr)" where
  "linkWithCode fetch prov code s w =
    (case token_of_code code of None \<Rightarrow> (s, w, Inl InvalidLinkCode)
     | Some t \<Rightarrow>
         (case p_generate prov (deviceId s) (crypto s) of
            (c, None) \<Rightarrow> (s\<lparr>crypto := c\<rparr>, w, Inl ProviderFailed)
          | (c, Some reg) \<Rightarrow>
              (let s1 = s\<lparr>crypto := c, deviceId := r_device reg\<rparr> in
               (case linkDevice fetch t (r_bundle reg) (r_keys reg) (disc s1) w of
                  (d, w1, Inl e) \<Rightarrow> (s1\<lparr>disc := d\<rparr>, w1, Inl (DiscError e))
                | (d, w1, Inr (u, a)) \<Rightarrow> (s1\<lparr>disc := d, userId := Some u\<rparr>, w1, Inr (u, a))))))"

text \<open>\<open>onboard\<close>, \<open>requestOtp\<close>, \<open>confirmOtp\<close> and \<open>resume\<close> up to the call of \<open>connectRelay\<close>.\<close>

definition client_onboard :: "'w fetch \<Rightarrow> 'c provider \<Rightarrow> jstr \<Rightarrow> 'c messenger \<Rightarrow> 'w \<Rightarrow>
    'c messenger \<times> 'w \<times> (client_error + jstr)" where
  "client_onboard fetch prov phone s w =
    (case p_generate prov (deviceId s) (crypto s) of
       (c, None) \<Rightarrow> (s\<lparr>crypto := c\<rparr>, w, Inl ProviderFailed)
     | (c, Some reg) \<Rightarrow>
         (let s1 = s\<lparr>crypto := c, deviceId := r_device reg\<rparr> in
          (case onboard fetch (r_bundle reg) (r_keys reg) phone (disc s1) w of
             (d, w1, Inl e) \<Rightarrow> (s1\<lparr>disc := d\<rparr>, w1, Inl (DiscError e))
           | (d, w1, Inr u) \<Rightarrow> (s1\<lparr>disc := d, userId := Some u\<rparr>, w1, Inr u))))"

definition requestOtp :: "'w fetch \<Rightarrow> 'c provider \<Rightarrow> jstr \<Rightarrow> 'c messenger \<Rightarrow> 'w \<Rightarrow>
    'c messenger \<times> 'w \<times> (client_error + registered)" where
  "requestOtp fetch prov phone s w =
    (case p_generate prov (deviceId s) (crypto s) of
       (c, None) \<Rightarrow> (s\<lparr>crypto := c\<rparr>, w, Inl ProviderFailed)
     | (c, Some reg) \<Rightarrow>
         (let s1 = s\<lparr>crypto := c, deviceId := r_device reg\<rparr> in
          (case register fetch (r_bundle reg) (r_keys reg) phone (disc s1) w of
             (d, w1, Inl e) \<Rightarrow> (s1\<lparr>disc := d\<rparr>, w1, Inl (DiscError e))
           | (d, w1, Inr res) \<Rightarrow> (s1\<lparr>disc := d, pendingUserId := Some (reg_user res)\<rparr>, w1, Inr res))))"

definition confirmOtp :: "'w fetch \<Rightarrow> jstr \<Rightarrow> 'c messenger \<Rightarrow> 'w \<Rightarrow> 'c messenger \<times> 'w \<times> (client_error + jstr)" where
  "confirmOtp fetch code s w =
    (if \<not> truthy_str (pendingUserId s) then (s, w, Inl NoPendingOtp)
     else (case submitOtp fetch (the (pendingUserId s)) code (disc s) w of
         (d, w1, Inl e) \<Rightarrow> (s\<lparr>disc := d\<rparr>, w1, Inl (DiscError e))
       | (d, w1, Inr _) \<Rightarrow>
           (s\<lparr>disc := d, userId := pendingUserId s, pendingUserId := None\<rparr>, w1, Inr (the (pendingUserId s)))))"

definition resume :: "jstr \<Rightarrow> int \<Rightarrow> 'c messenger \<Rightarrow> 'c messenger" where
  "resume u dev s = s\<lparr>userId := Some u, deviceId := (if 0 < dev then dev else 1)\<rparr>"

definition client_deleteAccount :: "'w fetch \<Rightarrow> 'c messenger \<Rightarrow> 'w \<Rightarrow> 'c messenger \<times> 'w \<times> (client_error + unit)" where
  "client_deleteAccount fetch s w =
    (case deleteAccount fetch (disc s) w of
       (d, w1, Inl e) \<Rightarrow> (s\<lparr>disc := d\<rparr>, w1, Inl (DiscError e))
     | (d, w1, Inr _) \<Rightarrow> (s\<lparr>disc := d, userId := None, connected := False\<rparr>, w1, Inr ()))"



interpretation identities: keyed_store "\<lambda>s k. peerIdentityKey k s" setPeerIdentityKey "\<lambda>s. map_ok (peerIdentity s)"
  by unfold_locales (auto simp: peerIdentityKey_def setPeerIdentityKey_def)

subsection \<open>Fan-out\<close>

lemma ensureSession_frame: "ensureSession fetch prov p s w = (s', w', r) \<Longrightarrow>
    userId s' = userId s \<and> deviceId s' = deviceId s \<and> connected s' = connected s"
  by (auto simp: ensureSession_def split: option.splits prod.splits sum.splits if_splits bool.splits)

lemma devicesForPeer_frame: "devicesForPeer fetch now p s w = (s', w', ds) \<Longrightarrow>
    userId s' = userId s \<and> deviceId s' = deviceId s \<and> connected s' = connected s \<and> peerDevice s' = peerDevice s \<and> crypto s' = crypto s"
  by (auto simp: devicesForPeer_def Let_def split: option.splits prod.splits if_splits)

lemma send_one_frame: "send_one fetch prov alive now p txt ref d s w = (s', w', ms) \<Longrightarrow>
    userId s' = userId s \<and> deviceId s' = deviceId s"
  by (auto simp: send_one_def dest!: ensureSession_frame split: option.splits prod.splits if_splits)

text \<open>What one round of the loop hands to the relay: nothing, or one envelope for the device.\<close>

definition env_for :: "int \<Rightarrow> jstr \<Rightarrow> jstr \<Rightarrow> jstr option \<Rightarrow> int \<Rightarrow> jstr \<Rightarrow> relay_message list \<Rightarrow> bool" where
  "env_for now peer ref me dev d ms \<longleftrightarrow> ms = [] \<or>
     (\<exists>e. ms = [SendEnvelope e (if d = peer then Some ref else None)] \<and> recipientId e = d \<and> env_id e = None \<and>
       Some (senderId e) = me \<and> senderDevice e = dev \<and> timestamp e = now)"

lemma send_one_env:
  assumes "send_one fetch prov alive now peer txt ref d s w = (s', w', ms)" and "userId s = Some me"
  shows "env_for now peer ref (Some me) (deviceId s) d ms \<and> (Some d = Some me \<longrightarrow> ms = [])"
  using assms by (auto simp: send_one_def env_for_def dest!: ensureSession_frame split: option.splits prod.splits if_splits)

definition recipient :: "relay_message \<Rightarrow> jstr" where
  "recipient m = (case m of SendEnvelope e _ \<Rightarrow> recipientId e | _ \<Rightarrow> [])"

lemma send_all_env:
  assumes "send_all fetch prov alive now peer txt ref ds s w = (s', w', ms)" and "userId s = Some me"
  shows "subseq (map recipient ms) (filter (\<lambda>d. d \<noteq> me) ds) \<and>
    (\<forall>m\<in>set ms. \<exists>e. m = SendEnvelope e (if recipientId e = peer then Some ref else None) \<and>
       env_id e = None \<and> senderId e = me \<and> senderDevice e = deviceId s \<and> timestamp e = now)"
  using assms
proof (induction ds arbitrary: s w s' w' ms)
  case (Cons d ds)
  obtain s1 w1 m1 where one: "send_one fetch prov alive now peer txt ref d s w = (s1, w1, m1)"
    by (cases "send_one fetch prov alive now peer txt ref d s w") auto
  obtain s2 w2 m2 where all: "send_all fetch prov alive now peer txt ref ds s1 w1 = (s2, w2, m2)"
    by (cases "send_all fetch prov alive now peer txt ref ds s1 w1") auto
  have ms: "ms = m1 @ m2" using Cons.prems(1) by (simp add: one all)
  have f: "userId s1 = Some me" "deviceId s1 = deviceId s" using send_one_frame [OF one] Cons.prems(2) by simp_all
  note IH = Cons.IH [OF all f(1)]
  from send_one_env [OF one Cons.prems(2)] show ?case
  proof (elim conjE)
    assume e: "env_for now peer ref (Some me) (deviceId s) d m1" and me: "Some d = Some me \<longrightarrow> m1 = []"
    show ?thesis
    proof (cases "m1 = []")
      case True
      then show ?thesis using IH f by (auto simp: ms)
    next
      case False
      then obtain e' where "m1 = [SendEnvelope e' (if d = peer then Some ref else None)]" "recipientId e' = d"
        "env_id e' = None" "senderId e' = me" "senderDevice e' = deviceId s" "timestamp e' = now"
        using e by (auto simp: env_for_def)
      moreover have "d \<noteq> me" using me False by auto
      ultimately show ?thesis using IH f by (auto simp: ms recipient_def)
    qed
  qed
qed simp

lemma send_all_complete:
  assumes "send_all fetch prov (\<lambda>_. True) now peer txt ref ds s w = (s', w', ms)" and "userId s = Some me"
    and "\<And>d s w. \<exists>s1 w1 pd. ensureSession fetch prov d s w = (s1, w1, Some pd)"
    and "\<And>d pd c. \<exists>c' x. p_encrypt prov d pd txt c = (c', Some x)"
  shows "map recipient ms = filter (\<lambda>d. d \<noteq> me) ds"
  using assms(1,2)
proof (induction ds arbitrary: s w s' w' ms)
  case (Cons d ds)
  obtain s1 w1 m1 where one: "send_one fetch prov (\<lambda>_. True) now peer txt ref d s w = (s1, w1, m1)"
    by (cases "send_one fetch prov (\<lambda>_. True) now peer txt ref d s w") auto
  obtain s2 w2 m2 where all: "send_all fetch prov (\<lambda>_. True) now peer txt ref ds s1 w1 = (s2, w2, m2)"
    by (cases "send_all fetch prov (\<lambda>_. True) now peer txt ref ds s1 w1") auto
  have "userId s1 = Some me" using send_one_frame [OF one] Cons.prems(2) by simp
  note IH = Cons.IH [OF all this]
  obtain s3 w3 pd where es: "ensureSession fetch prov d s w = (s3, w3, Some pd)" using assms(3) by blast
  obtain c ty b where en: "p_encrypt prov d pd txt (crypto s3) = (c, Some (ty, b))" using assms(4) by (metis prod.exhaust)
  have "map recipient m1 = (if d = me then [] else [d])"
    using one Cons.prems(2) by (auto simp: send_one_def es en recipient_def split: if_splits)
  then show ?case using Cons.prems(1) IH by (auto simp: one all)
qed simp

text \<open>A text goes out as at most one envelope per device of the peer's account and none to ourselves,
  in the order of the device list, each from our own id and device; only the copy for the primary
  device carries the client reference. A device that fails (no bundle, no session, encryption error,
  dropped socket) costs its own copy only: the call still returns the reference.\<close>

theorem text_fans_out:
  assumes "connected s" and "userId s = Some me"
    and "sendText fetch prov alive now rnd peer txt cref s w = (s', w', ms, res)"
    and "devicesForPeer fetch (int now) peer s w = (s1, w1, ds)"
  shows "res = Inr (case cref of Some r \<Rightarrow> r | None \<Rightarrow> newClientRef now rnd) \<and>
    subseq (map recipient ms) (filter (\<lambda>d. d \<noteq> me) ds) \<and>
    (\<forall>m\<in>set ms. \<exists>e. m = SendEnvelope e (if recipientId e = peer
         then Some (case cref of Some r \<Rightarrow> r | None \<Rightarrow> newClientRef now rnd) else None) \<and>
       env_id e = None \<and> senderId e = me \<and> senderDevice e = deviceId s \<and> timestamp e = int now)"
proof -
  let ?ref = "case cref of Some r \<Rightarrow> r | None \<Rightarrow> newClientRef now rnd"
  obtain s2 w2 where all: "send_all fetch prov alive (int now) peer txt ?ref ds s1 w1 = (s2, w2, ms)" and res: "res = Inr ?ref"
    using assms by (auto simp: sendText_def Let_def split: prod.splits)
  have "userId s1 = Some me" "deviceId s1 = deviceId s" using devicesForPeer_frame [OF assms(4)] assms(2) by simp_all
  then show ?thesis using send_all_env [OF all] res by simp
qed


definition demo_provider :: "unit provider" where
  "demo_provider = \<lparr>p_generate = (\<lambda>d c. (c, None)), p_replenish = (\<lambda>n c. (c, None)), p_localKey = (\<lambda>c. (c, None)),
     p_establish = (\<lambda>p d b c. (c, True)), p_encrypt = (\<lambda>p d t c. (c, Some (Whisper, t))),
     p_decrypt = (\<lambda>p d x c. (c, Some (snd x)))\<rparr>"

text \<open>A server that answers every request with the same bundle.\<close>

definition bundle_server :: "unit fetch" where
  "bundle_server r w = (w, Some \<lparr>rs_status = 200,
     rs_text = stringify (JObj [(js ''deviceId'', JInt 1), (js ''identityKeyB64'', JStr [])])\<rparr>)"

definition demo_messenger :: "unit messenger" where
  "demo_messenger = \<lparr>disc = demo_disc, crypto = (), connected = True, userId = Some [1], pendingUserId = None,
     deviceId = 1, my_relayUrl = [], peerDevice = [], peerIdentity = [], peerDevices = [([2], ([[2], [1], [3]], 0))],
     refToEnvelope = [], envelopeToRef = []\<rparr>"

lemma demo_devices: "devicesForPeer f 5 [2] demo_messenger w = (demo_messenger, w, [[2], [1], [3]])"
  by (simp add: devicesForPeer_def demo_messenger_def DEVICE_LIST_TTL_MS_def)

lemma bundle_server_request: "request bundle_server ''GET'' p None True d w =
    (d, w, Inr (JObj [(js ''deviceId'', JInt 1), (js ''identityKeyB64'', JStr [])]))"
  by (simp add: request_def bundle_server_def finish_def is_ok_def json_roundtrip del: stringify.simps)

lemma demo_session: "\<exists>s1 w1 pd. ensureSession bundle_server demo_provider d s w = (s1, w1, Some pd)"
  by (auto simp: ensureSession_def fetchBundle_def bundle_of_def payload_defs demo_provider_def bundle_server_request
      split: option.split)

lemma text_fans_out_witness:
  "snd (snd (snd (sendText bundle_server demo_provider (\<lambda>_. True) 5 [] [2] [65] (Some [9]) demo_messenger ()))) = Inr [9]"
proof -
  obtain s' w' ms res where r: "sendText bundle_server demo_provider (\<lambda>_. True) 5 [] [2] [65] (Some [9]) demo_messenger () = (s', w', ms, res)"
    by (metis prod.exhaust)
  have "connected demo_messenger" "userId demo_messenger = Some [1]" by (simp_all add: demo_messenger_def)
  from text_fans_out [OF this r] demo_devices [of bundle_server "()"] r show ?thesis by fastforce
qed


end
