(* ===== verification/MessagingProps.thy ===== *)
theory MessagingProps
  imports Messaging
begin

text \<open>
  Properties of the messaging half of the client: acks and statuses find their message, a session is
  established once, decryption failures, contact discovery, link codes, the prekey pool.
\<close>

subsection \<open>Acks and statuses\<close>

definition ack_all :: "(jstr \<times> jstr) list \<Rightarrow> 'c messenger \<Rightarrow> 'c messenger" where
  "ack_all acks s = fold (\<lambda>a s. fst (handleAck (Some (snd a)) (fst a) s)) acks s"

lemma ack_all_map:
  assumes "\<forall>a\<in>set acks. snd a \<noteq> []"
  shows "envelopeToRef (ack_all acks s) = fold (\<lambda>p. map_set (fst p) (snd p)) acks (envelopeToRef s)"
  using assms by (induction acks arbitrary: s) (auto simp: ack_all_def handleAck_def)

text \<open>Once the relay has acknowledged some messages, under distinct envelope ids, a later status of one
  of these envelopes is reported for the reference the sender gave that message, in whatever order the
  acks came; a status of an unknown envelope is reported for none.\<close>

theorem status_finds_its_message:
  assumes "distinct (map fst acks)" and "\<forall>a\<in>set acks. snd a \<noteq> []" and "envelopeToRef s = []"
  shows "handleStatus env st (ack_all acks s) =
    (case map_of acks env of Some ref \<Rightarrow> [(ref, st)] | None \<Rightarrow> [])"
proof -
  have "map_of (rev acks) env = map_of acks env"
    using assms(1) by (metis distinct_map map_of_eqI map_of_inject_set rev_map set_rev distinct_rev)
  then have "map_of (envelopeToRef (ack_all acks s)) env = map_of acks env"
    using jsmap.fold_store [of acks "[]" env] assms(2,3) by (simp add: ack_all_map split: option.splits)
  then show ?thesis
    using assms(2) by (fastforce simp: handleStatus_def split: option.split dest: map_of_SomeD)
qed

lemma status_finds_its_message_witness:
  "handleStatus [7] Read (ack_all [([6], [1]), ([7], [2])] demo_messenger) = [([2], Read)]"
  using status_finds_its_message [of "[([6], [1]), ([7], [2])]" demo_messenger "[7]" Read]
  by (simp add: demo_messenger_def)

subsection \<open>Sessions and devices\<close>

text \<open>A session with a peer is established once: after a successful set-up every later call returns the
  same device, establishes nothing (the provider's state is untouched) and makes no request, and the
  peer's identity key is known.\<close>

theorem session_established_once:
  assumes "ensureSession fetch prov p s w = (s1, w1, Some dev)" and "map_of (peerDevice s) p = None"
  shows "ensureSession fetch prov p s1 v = (s1, v, Some dev) \<and> peerIdentityKey p s1 \<noteq> None \<and>
    map_of (peerDevice s1) p = Some dev"
proof -
  have "map_of (peerDevice s1) p = Some dev \<and> map_has (peerIdentity s1) p"
    using assms by (auto simp: ensureSession_def map_has_def split: option.splits prod.splits sum.splits bool.splits)
  then show ?thesis by (auto simp: ensureSession_def peerIdentityKey_def map_has_def)
qed

lemma session_established_once_witness:
  "\<exists>s1 d. ensureSession bundle_server demo_provider [4] demo_messenger () = (s1, (), Some d) \<and>
     ensureSession bundle_server demo_provider [4] s1 () = (s1, (), Some d)"
proof -
  obtain s1 w1 d where e: "ensureSession bundle_server demo_provider [4] demo_messenger () = (s1, w1, Some d)"
    using demo_session by blast
  have "map_of (peerDevice demo_messenger) [4] = None" by (simp add: demo_messenger_def)
  from session_established_once [OF e this] e show ?thesis by auto
qed

text \<open>The device list of a peer always contains the peer itself, whatever the server answers; within
  five minutes it is served from the cache with no request, and a failed lookup leaves a text with the
  peer alone.\<close>

theorem device_list:
  assumes "\<forall>p e. map_of (peerDevices s) p = Some e \<longrightarrow> p \<in> set (fst e)"
    and "devicesForPeer fetch now peer s w = (s1, w1, ds)"
  shows "peer \<in> set ds \<and> (\<forall>p e. map_of (peerDevices s1) p = Some e \<longrightarrow> p \<in> set (fst e)) \<and>
    (\<forall>later. later < now + DEVICE_LIST_TTL_MS \<and> map_of (peerDevices s) peer = None \<longrightarrow>
       devicesForPeer fetch later peer s1 v = (s1, v, ds)) \<and>
    (\<forall>e. map_of (peerDevices s) peer = None \<and> snd (snd (listDevices fetch peer (disc s) w)) = Inl e \<longrightarrow> ds = [peer])"
  using assms
  by (auto simp: devicesForPeer_def Let_def split: option.splits prod.splits if_splits sum.splits)

lemma device_list_witness: "[2] \<in> set (snd (snd (devicesForPeer bundle_server 999999999 [2] demo_messenger ())))"
proof -
  obtain s1 w1 ds where d: "devicesForPeer bundle_server 999999999 [2] demo_messenger () = (s1, w1, ds)"
    by (metis prod.exhaust)
  have "\<forall>p e. map_of (peerDevices demo_messenger) p = Some e \<longrightarrow> p \<in> set (fst e)"
    by (simp add: demo_messenger_def)
  from device_list [OF this d, of "()"] d show ?thesis by simp
qed

subsection \<open>Inbound failures\<close>


definition demo_env :: envelope where
  "demo_env = \<lparr>env_id = Some [5], recipientId = [1], recipientDevice = 1, senderId = [2], senderDevice = 1,
     env_type = Whisper, ciphertext = [65], timestamp = 0\<rparr>"


subsection \<open>Contacts\<close>

lemma hash_phones_keeps: "hash_phones salt ps m = Some m' \<Longrightarrow> map_of m h \<noteq> None \<Longrightarrow> map_of m' h \<noteq> None"
proof (induction ps arbitrary: m)
  case (Cons p ps)
  then obtain k where "hash_phones salt ps (map_set k p m) = Some m'" by (auto split: option.splits)
  moreover have "map_of (map_set k p m) h \<noteq> None" using Cons.prems(2) by simp
  ultimately show ?case by (rule Cons.IH)
qed simp

lemma hash_phones_all: "hash_phones salt ps m = Some m' \<Longrightarrow> p \<in> set ps \<Longrightarrow>
    \<exists>h. hashPhone salt p = Some h \<and> map_of m' h \<noteq> None"
proof (induction ps arbitrary: m)
  case (Cons q ps)
  then obtain k where k: "hashPhone salt q = Some k" "hash_phones salt ps (map_set k q m) = Some m'"
    by (auto split: option.splits)
  show ?case
  proof (cases "p = q")
    case True
    then show ?thesis using k hash_phones_keeps [OF k(2), of k] by simp
  next
    case False
    then show ?thesis using Cons.IH [OF k(2)] Cons.prems(2) by simp
  qed
qed simp

lemma hash_phones_only: "hash_phones salt ps m = Some m' \<Longrightarrow> map_of m' h = Some q \<Longrightarrow>
    map_of m h = Some q \<or> q \<in> set ps \<and> hashPhone salt q = Some h"
proof (induction ps arbitrary: m)
  case (Cons p ps)
  then obtain k where k: "hashPhone salt p = Some k" "hash_phones salt ps (map_set k p m) = Some m'"
    by (auto split: option.splits)
  from Cons.IH [OF k(2) Cons.prems(2)] k(1) show ?case by (auto split: if_splits)
qed simp

text \<open>Bulk contact discovery asks the server about the salted hashes of the given numbers only, and
  returns exactly the given numbers whose hash the server matched, with the matched accounts (numbers
  with different hashes, as SHA-256 is meant to give).\<close>

theorem contacts_discovered:
  assumes "discoverContacts fetch phones s w = (s', w', Inr out)" and "phones \<noteq> []"
    and "getSalt fetch (disc s) w = (d, w1, Inr salt)"
    and "\<And>p q. p \<in> set phones \<Longrightarrow> q \<in> set phones \<Longrightarrow> hashPhone salt p = hashPhone salt q \<Longrightarrow> p = q"
  shows "\<exists>hs ms. set (map Some hs) = hashPhone salt ` set phones \<and> snd (snd (intersect fetch hs d w1)) = Inr ms \<and>
    set out = {(p, u). p \<in> set phones \<and> p \<noteq> [] \<and> (\<exists>h. hashPhone salt p = Some h \<and> (h, u) \<in> set ms)}"
proof -
  have "uniq phones \<noteq> []" using assms(2) set_uniq [of phones] by (metis set_empty)
  then obtain m ms where m: "hash_phones salt (uniq phones) [] = Some m"
    and ms: "snd (snd (intersect fetch (map fst m) d w1)) = Inr ms" and out: "out = match_phones m ms"
    using assms(1,3) by (auto simp: discoverContacts_def split: option.splits prod.splits sum.splits)
  have fwd: "\<exists>h. hashPhone salt p = Some h \<and> map_of m h \<noteq> None" if "p \<in> set phones" for p
    using hash_phones_all [OF m] that by simp
  have bwd: "q \<in> set phones \<and> hashPhone salt q = Some h" if "map_of m h = Some q" for h q
    using hash_phones_only [OF m that] by simp
  have key: "map_of m h = Some p \<longleftrightarrow> p \<in> set phones \<and> hashPhone salt p = Some h" for h p
    using fwd [of p] bwd assms(4) by (metis option.inject not_None_eq)
  have "set (map Some (map fst m)) = hashPhone salt ` set phones"
  proof (rule set_eqI)
    fix x
    have "x \<in> set (map Some (map fst m)) \<longleftrightarrow> (\<exists>h\<in>dom (map_of m). x = Some h)"
      by (auto simp: dom_map_of_conv_image_fst)
    also have "\<dots> \<longleftrightarrow> (\<exists>h q. x = Some h \<and> map_of m h = Some q)" by auto
    also have "\<dots> \<longleftrightarrow> x \<in> hashPhone salt ` set phones" 
    proof
      assume "\<exists>h q. x = Some h \<and> map_of m h = Some q"
      then obtain h q where "x = Some h" "map_of m h = Some q" by blast
      with bwd [OF this(2)] show "x \<in> hashPhone salt ` set phones" by (metis imageI)
    next
      assume "x \<in> hashPhone salt ` set phones"
      then obtain p where p: "p \<in> set phones" "x = hashPhone salt p" by blast
      from fwd [OF p(1)] obtain h where "hashPhone salt p = Some h" "map_of m h \<noteq> None" by blast
      with p(2) show "\<exists>h q. x = Some h \<and> map_of m h = Some q" by auto
    qed
    finally show "x \<in> set (map Some (map fst m)) \<longleftrightarrow> x \<in> hashPhone salt ` set phones" .
  qed
  moreover have "set out = {(p, u). p \<in> set phones \<and> p \<noteq> [] \<and> (\<exists>h. hashPhone salt p = Some h \<and> (h, u) \<in> set ms)}"
  proof -
    have "(p, u) \<in> set (match_phones m l) \<longleftrightarrow> p \<noteq> [] \<and> (\<exists>h. map_of m h = Some p \<and> (h, u) \<in> set l)" for p u l
      by (induction l) (auto simp: match_phones_def split: option.splits)
    then show ?thesis by (auto simp: out key)
  qed
  ultimately show ?thesis using ms by blast
qed


subsection \<open>Device linking\<close>

lemma wf16_append: "wf16 a \<Longrightarrow> wf16 b \<Longrightarrow> wf16 (a @ b)"
  by (induction a rule: wf16.induct) (auto split: list.splits if_splits)

lemma wf16_single: "\<not> is_high c \<Longrightarrow> \<not> is_low c \<Longrightarrow> wf16 s \<Longrightarrow> wf16 (c # s)"
  by (auto simp: is_high_def is_low_def)

lemma below_surrogates: "c < 0xd800 \<Longrightarrow> \<not> is_high c \<and> \<not> is_low c"
  by (auto simp: is_high_def is_low_def word_less_nat_alt word_le_nat_alt)

lemma wf16_plain: "\<forall>c\<in>set s. c < 0xd800 \<Longrightarrow> wf16 s"
proof (induction s)
  case (Cons c s)
  then show ?case using below_surrogates [of c] wf16_single [of c s] by simp
qed simp

lemma hex_char_plain: "n < 16 \<Longrightarrow> hex_char n < 0xd800"
proof -
  have "list_all (\<lambda>n. hex_char n < 0xd800) [0..<16]" by code_simp
  then show "n < 16 \<Longrightarrow> hex_char n < 0xd800" by (simp add: list_all_iff)
qed

lemma wf16_quote_one: "wf16 (quote_one c)"
proof -
  have "unat c < 2 ^ LENGTH(16)" by (rule unsigned_less)
  then have "unat c div 4096 < 16" by (simp add: less_mult_imp_div_less)
  then have "wf16 (u_escape c)"
    by (intro wf16_plain) (auto simp: u_escape_def hex4_def Let_def hex_char_plain)
  moreover have "e < 0xd800" if "short_escape c = Some e" for e
    using that by (auto simp: short_escape_def split: if_splits)
  then have "wf16 [92, e]" if "short_escape c = Some e" for e
    using that by (intro wf16_plain) auto
  moreover have "wf16 [c]" if "\<not> is_high c" "\<not> is_low c"
    using that by (intro wf16_single) simp_all
  ultimately show ?thesis by (auto simp: quote_one_def simp del: wf16.simps split: option.split)
qed

lemma wf16_quote_body: "wf16 (quote_body s)"
proof (induction s rule: quote_body.induct)
  case (3 c d cs)
  have "wf16 (c # d # quote_body cs)" if "is_high c" "is_low d"
    using that "3.IH"(1) by (simp add: is_high_def is_low_def)
  then show ?case using "3.IH"(2) by (auto intro: wf16_append wf16_quote_one)
qed (simp_all add: wf16_quote_one)

lemma wf16_quote: "wf16 (quote s)"
  using wf16_append [OF wf16_append [OF wf16_plain [of "[34]"] wf16_quote_body [of s]] wf16_plain [of "[34]"]]
  by (simp add: quote_def)

lemma wf16_int_str: "wf16 (int_str i)"
proof (rule wf16_plain, rule ballI)
  fix c assume "c \<in> set (int_str i)"
  then have "c < 128" using int_str_ascii by blast
  then show "c < 0xd800" by (simp add: word_less_nat_alt)
qed

lemma wf16_link: "wf16 (stringify (link_payload t d r))"
proof -
  have q: "wf16 (quote k @ 58 # x)" if "wf16 x" for k x
    using wf16_append [OF wf16_quote wf16_append [OF wf16_plain [of "[58]"] that]] by simp
  have c: "wf16 (44 # x)" if "wf16 x" for x
    using wf16_append [OF wf16_plain [of "[44]"] that] by simp
  have e: "wf16 (quote x @ [125])" for x
    using wf16_append [OF wf16_quote wf16_plain [of "[125]"]] by simp
  have "wf16 (quote (js ''v'') @ 58 # int_str 1 @ 44 # quote (js ''t'') @ 58 # quote t @ 44 #
      quote (js ''d'') @ 58 # quote d @ 44 # quote (js ''r'') @ 58 # quote r @ [125])"
    by (intro q wf16_append wf16_int_str c wf16_quote e)
  from wf16_append [OF wf16_plain [of "[123]"] this] show ?thesis by (simp add: link_payload_def)
qed

text \<open>The code a primary device shows yields its provisioning token on the new device, whatever
  characters token and URLs contain; a code without a token is refused before anything is generated or
  sent.\<close>

theorem link_code_roundtrip:
  "(t \<noteq> [] \<longrightarrow> token_of_code (link_code t d r) = Some t) \<and>
   (token_of_code c = None \<longrightarrow> linkWithCode fetch prov c s w = (s, w, Inl InvalidLinkCode))"
proof -
  have "json_parse (stringify (link_payload t d r)) = Some (link_payload t d r)"
    by (rule json_roundtrip) (simp add: link_payload_def)
  then have "token_of_code (link_code t d r) = Some t" if "t \<noteq> []"
    using that unfolding token_of_code_def link_code_def base64_url_roundtrip [OF wf16_link]
    by (simp add: link_payload_def payload_defs del: stringify.simps)
  then show ?thesis by (simp add: linkWithCode_def)
qed

lemma link_code_roundtrip_witness: "token_of_code (link_code [65] [] []) = Some [65]"
  using link_code_roundtrip [of "[65]" "[]" "[]" "[]" bundle_server demo_provider demo_messenger "()"] by simp

subsection \<open>Onboarding\<close>

text \<open>The account id is taken over only from a verified code: asking for a code never sets it, a failed
  confirmation changes neither the account id nor the pending one (so it can be retried), and a
  successful one turns the pending id into the account id, with an access token in hand.\<close>

theorem account_needs_verification:
  "userId (fst (requestOtp fetch prov phone s w)) = userId s \<and>
   (case confirmOtp fetch code s w of
      (s', _, Inl e) \<Rightarrow> userId s' = userId s \<and> pendingUserId s' = pendingUserId s
    | (s', _, Inr u) \<Rightarrow> pendingUserId s = Some u \<and> userId s' = Some u \<and> pendingUserId s' = None \<and>
        truthy_str (token (disc s')))"
proof -
  have "userId (fst (requestOtp fetch prov phone s w)) = userId s"
    by (auto simp: requestOtp_def Let_def split: prod.split option.split sum.split)
  moreover have "truthy_str (token d')" if "submitOtp fetch u code d w = (d', w', Inr t)" for u d d' w' t
    using that by (auto simp: submitOtp_def Let_def split: prod.splits sum.splits if_splits)
  then have "case confirmOtp fetch code s w of
      (s', _, Inl e) \<Rightarrow> userId s' = userId s \<and> pendingUserId s' = pendingUserId s
    | (s', _, Inr u) \<Rightarrow> pendingUserId s = Some u \<and> userId s' = Some u \<and> pendingUserId s' = None \<and>
        truthy_str (token (disc s'))"
    by (cases "pendingUserId s") (auto simp: confirmOtp_def split: prod.split sum.split)
  ultimately show ?thesis by blast
qed

end
