(* ===== verification/Regex.thy ===== *)
theory Regex
  imports Wire
begin

text \<open>
  The part of ECMAScript regular expressions the sources use: parsing of the pattern text and
  \<open>RegExp.prototype.test\<close> with the \<open>i\<close> flag. Without captures, look-ahead or back-references a match
  exists exactly when some sequence of choices matches, so the matcher returns every end position.

  The \<open>i\<close> flag without \<open>u\<close> never folds a non-ASCII character to an ASCII one, so for the ASCII patterns
  of the sources folding ASCII letters is exact.
\<close>

subsection \<open>Syntax\<close>

datatype cls = CDigit | CSpace | CNotSpace | CDot | CSet "unit16 list"

datatype rx =
    Eps
  | WordB
  | Chr unit16
  | Cls cls
  | ClsPlus cls
  | Seq rx rx
  | Alt rx rx

fun upto_rep :: "rx \<Rightarrow> nat \<Rightarrow> rx" where
  "upto_rep r 0 = Eps"
| "upto_rep r (Suc n) = Alt (Seq r (upto_rep r n)) Eps"

fun exactly :: "rx \<Rightarrow> nat \<Rightarrow> rx" where
  "exactly r 0 = Eps"
| "exactly r (Suc n) = Seq r (exactly r n)"

definition rep :: "rx \<Rightarrow> nat \<Rightarrow> nat \<Rightarrow> rx" where
  "rep r m n = Seq (exactly r m) (upto_rep r (n - m))"

subsection \<open>Matching\<close>

definition lower :: "unit16 \<Rightarrow> unit16" where
  "lower c = (if 65 \<le> c \<and> c \<le> 90 then c + 32 else c)"

definition is_word :: "unit16 \<Rightarrow> bool" where
  "is_word c = (48 \<le> c \<and> c \<le> 57 \<or> 65 \<le> c \<and> c \<le> 90 \<or> 97 \<le> c \<and> c \<le> 122 \<or> c = 95)"

definition js_space :: "unit16 \<Rightarrow> bool" where
  "js_space c = (9 \<le> c \<and> c \<le> 13 \<or> c = 32 \<or> c = 160 \<or> c = 0x1680 \<or> 0x2000 \<le> c \<and> c \<le> 0x200a \<or>
     c = 0x2028 \<or> c = 0x2029 \<or> c = 0x202f \<or> c = 0x205f \<or> c = 0x3000 \<or> c = 0xfeff)"

definition line_end :: "unit16 \<Rightarrow> bool" where
  "line_end c = (c = 10 \<or> c = 13 \<or> c = 0x2028 \<or> c = 0x2029)"

fun in_cls :: "cls \<Rightarrow> unit16 \<Rightarrow> bool" where
  "in_cls CDigit c = (48 \<le> c \<and> c \<le> 57)"
| "in_cls CSpace c = js_space c"
| "in_cls CNotSpace c = (\<not> js_space c)"
| "in_cls CDot c = (\<not> line_end c)"
| "in_cls (CSet ds) c = (\<exists>d\<in>set ds. lower d = lower c)"

definition at :: "jstr \<Rightarrow> nat \<Rightarrow> (unit16 \<Rightarrow> bool) \<Rightarrow> bool" where
  "at s i P = (i < length s \<and> P (s ! i))"

fun run :: "cls \<Rightarrow> jstr \<Rightarrow> nat list" where
  "run k [] = []"
| "run k (c # cs) = (if in_cls k c then 1 # map Suc (run k cs) else [])"

fun ends :: "rx \<Rightarrow> jstr \<Rightarrow> nat \<Rightarrow> nat list" where
  "ends Eps s i = [i]"
| "ends WordB s i = (if (0 < i \<and> at s (i - 1) is_word) \<noteq> at s i is_word then [i] else [])"
| "ends (Chr d) s i = (if at s i (\<lambda>c. lower c = lower d) then [Suc i] else [])"
| "ends (Cls k) s i = (if at s i (in_cls k) then [Suc i] else [])"
| "ends (ClsPlus k) s i = map (\<lambda>n. i + n) (run k (drop i s))"
| "ends (Seq a b) s i = concat (map (ends b s) (ends a s i))"
| "ends (Alt a b) s i = ends a s i @ ends b s i"

definition test :: "rx \<Rightarrow> jstr \<Rightarrow> bool" where
  "test r s = (\<exists>i\<in>set [0..<Suc (length s)]. ends r s i \<noteq> [])"

subsection \<open>Parsing a pattern\<close>

definition unit_of :: "char \<Rightarrow> unit16" where
  "unit_of c = of_char c"

definition digit_of :: "char \<Rightarrow> nat option" where
  "digit_of c = (if of_char c \<ge> (48 :: nat) \<and> of_char c \<le> (57 :: nat) then Some (of_char c - 48) else None)"

fun number :: "nat \<Rightarrow> string \<Rightarrow> nat \<times> string" where
  "number n [] = (n, [])"
| "number n (c # cs) = (case digit_of c of Some d \<Rightarrow> number (10 * n + d) cs | None \<Rightarrow> (n, c # cs))"

definition escape :: "char \<Rightarrow> rx option" where
  "escape c =
    (if c = CHR ''b'' then Some WordB else if c = CHR ''d'' then Some (Cls CDigit)
     else if c = CHR ''s'' then Some (Cls CSpace) else if c = CHR ''S'' then Some (Cls CNotSpace)
     else if c \<in> set ''./$'' then Some (Chr (unit_of c)) else None)"

fun char_set :: "string \<Rightarrow> (unit16 list \<times> string) option" where
  "char_set [] = None"
| "char_set (c # cs) =
    (if c = CHR '']'' then Some ([], cs)
     else map_option (\<lambda>(ds, t). (unit_of c # ds, t)) (char_set cs))"

definition quantify :: "rx \<Rightarrow> string \<Rightarrow> (rx \<times> string) option" where
  "quantify a s =
    (case s of [] \<Rightarrow> Some (a, [])
     | c # cs \<Rightarrow>
         if c = CHR ''?'' then Some (Alt a Eps, cs)
         else if c = CHR ''+'' then (case a of Cls k \<Rightarrow> Some (ClsPlus k, cs) | _ \<Rightarrow> None)
         else if c = CHR ''{'' then
           (let (m, t) = number 0 cs in
            if t \<noteq> [] \<and> hd t = CHR '','' then
              (let (n, u) = number 0 (tl t) in
               if u \<noteq> [] \<and> hd u = CHR ''}'' then Some (rep a m n, tl u) else None)
            else None)
         else Some (a, s))"

fun p_alt :: "nat \<Rightarrow> string \<Rightarrow> (rx \<times> string) option"
  and p_seq :: "nat \<Rightarrow> string \<Rightarrow> (rx \<times> string) option"
  and p_atom :: "nat \<Rightarrow> string \<Rightarrow> (rx \<times> string) option" where
  "p_alt 0 s = None"
| "p_alt (Suc n) s =
    (case p_seq n s of None \<Rightarrow> None
     | Some (a, t) \<Rightarrow>
         if t \<noteq> [] \<and> hd t = CHR ''|''
         then map_option (\<lambda>(b, u). (Alt a b, u)) (p_alt n (tl t)) else Some (a, t))"
| "p_seq 0 s = None"
| "p_seq (Suc n) s =
    (if s = [] \<or> hd s = CHR ''|'' \<or> hd s = CHR '')'' then Some (Eps, s)
     else (case p_atom n s of None \<Rightarrow> None
       | Some (a, t) \<Rightarrow>
           (case quantify a t of None \<Rightarrow> None
            | Some (q, u) \<Rightarrow> map_option (\<lambda>(b, v). (Seq q b, v)) (p_seq n u))))"
| "p_atom 0 s = None"
| "p_atom (Suc n) s =
    (case s of [] \<Rightarrow> None
     | c # cs \<Rightarrow>
         if c = CHR ''('' then
           (case p_alt n cs of Some (a, t) \<Rightarrow> if t \<noteq> [] \<and> hd t = CHR '')'' then Some (a, tl t) else None
            | None \<Rightarrow> None)
         else if c = CHR ''['' then map_option (\<lambda>(ds, t). (Cls (CSet ds), t)) (char_set cs)
         else if c = CHR ''.'' then Some (Cls CDot, cs)
         else if of_char c = (92 :: nat) then
           (case cs of [] \<Rightarrow> None | d # ds \<Rightarrow> map_option (\<lambda>r. (r, ds)) (escape d))
         else Some (Chr (unit_of c), cs))"

definition parse_rx :: "string \<Rightarrow> rx option" where
  "parse_rx p = (case p_alt (4 * length p + 4) p of Some (r, []) \<Rightarrow> Some r | _ \<Rightarrow> None)"

subsection \<open>Case does not matter\<close>

lemma lower_idem [simp]: "lower (lower c) = lower c"
proof -
  have "\<not> (65 \<le> c + 32 \<and> c + 32 \<le> 90)" if "65 \<le> c" "c \<le> 90"
  proof -
    have "unat (c + 32) = unat c + 32" using that by (simp add: unat_word_ariths word_le_nat_alt)
    then show ?thesis using that by (simp add: word_le_nat_alt)
  qed
  then show ?thesis by (auto simp: lower_def)
qed

lemma lower_range:
  assumes "65 \<le> c" "c \<le> (90 :: unit16)"
  shows "unat (lower c) = unat c + 32" "65 \<le> unat c" "unat c \<le> 90"
  using assms by (simp_all add: lower_def unat_word_ariths word_le_nat_alt)

lemma lower_is_word [simp]: "is_word (lower c) = is_word c"
proof (cases "65 \<le> c \<and> c \<le> 90")
  case True
  then show ?thesis using lower_range [of c] by (auto simp: is_word_def word_le_nat_alt)
qed (auto simp: lower_def)

lemma lower_other: "\<not> (65 \<le> c \<and> c \<le> 90) \<Longrightarrow> lower c = c"
  by (simp add: lower_def)

lemma lower_cls [simp]: "in_cls k (lower c) = in_cls k c"
proof (cases "65 \<le> c \<and> c \<le> 90")
  case True
  note r = lower_range [OF conjunct1 [OF True] conjunct2 [OF True]]
  have "lower c \<noteq> d \<and> c \<noteq> d" if "unat d < 65 \<or> 122 < unat d" for d
    using r that by auto
  then have "\<not> js_space (lower c)" "\<not> js_space c" "\<not> line_end (lower c)" "\<not> line_end c"
    using r by (auto simp: js_space_def line_end_def word_le_nat_alt)
  moreover have "\<not> in_cls CDigit (lower c)" "\<not> in_cls CDigit c" using r by (auto simp: word_le_nat_alt)
  ultimately show ?thesis by (cases k) auto
qed (simp add: lower_other)

lemma at_lower:
  assumes "\<And>c. P (lower c) = P c"
  shows "at (map lower s) i P = at s i P"
  by (cases "i < length s") (simp_all add: at_def assms)

lemma run_lower: "run k (map lower s) = run k s"
  by (induction s) simp_all

lemma ends_lower: "ends r (map lower s) i = ends r s i"
proof (induction r arbitrary: i)
  case (Seq a b)
  have "ends b (map lower s) = ends b s" by (rule ext) (rule Seq.IH(2))
  then show ?case by (simp add: Seq.IH(1))
qed (simp_all add: at_lower run_lower drop_map)

lemma test_lower: "test r (map lower s) = test r s"
  by (simp add: test_def ends_lower)

end
