(* ===== verification/Detector.thy ===== *)
theory Detector
  imports Regex
begin

text \<open>
  The on-device scam detector, \<open>packages/client/src/scam/detector.ts\<close>: the weighted patterns of the
  source, character for character, parsed and matched by \<open>Regex\<close>, and \<open>analyze\<close>. Weights and scores are
  in hundredths (0.55 is 55): the double sums of the source are within rounding of the hundredths and no
  reachable sum is 0.50, so comparisons and \<open>toFixed(2)\<close> give the same answers.
\<close>

definition HEURISTIC_MODEL_VERSION :: jstr where
  "HEURISTIC_MODEL_VERSION = js ''heuristic-0''"

definition FLAG_THRESHOLD :: int where "FLAG_THRESHOLD = 50"
definition STRONG :: int where "STRONG = 55"
definition WEAK :: int where "WEAK = 30"
definition AMPLIFIER_BONUS :: int where "AMPLIFIER_BONUS = 15"

type_synonym signal = "scam_category \<times> int \<times> string"

text \<open>An Isabelle string literal cannot hold a backslash: \<open>re\<close> reads a tilde as one. No pattern of the source
  has a tilde.\<close>

definition re :: "string \<Rightarrow> string" where
  "re p = map (\<lambda>c. if c = CHR ''~'' then CHR 0x5C else c) p"

definition SIGNALS :: "signal list" where
  "SIGNALS = [
    (Advance_fee, STRONG, re ''~b(next of kin|beneficiary|inheritance|estate)~b.{0,60}~b(fund|money|million|transfer|claim)~b''),
    (Advance_fee, STRONG, re ''~b(clearance|processing|release|transfer)~s+fee~b''),
    (Advance_fee, WEAK, re ''~b(barrister|late (mr|mrs)|deceased client|unclaimed (fund|deposit))~b''),
    (Investment_fraud, STRONG, re ''~b(guaranteed|guarantee[ds]?)~b.{0,25}~b(returns?|profit|roi)~b''),
    (Investment_fraud, STRONG, re ''~b(double|triple|~d{2,4}~s?%)~b.{0,25}~b(your )?(money|investment|returns?|profit)~b''),
    (Investment_fraud, WEAK, re ''~b(crypto|bitcoin|forex|trading platform)~b.{0,25}~b(opportunity|invest|signals?|profit)~b''),
    (Romance, STRONG, re ''~b(stuck|stranded)~b.{0,30}~b(abroad|overseas|airport|hospital)~b''),
    (Romance, STRONG, re ''~bneed~b.{0,25}~b(money|funds?|help)~b.{0,25}~b(flight|ticket|visa|customs|surgery)~b''),
    (Job_offer, STRONG, re ''~b(registration|training|equipment|starter)~s+fee~b''),
    (Job_offer, WEAK, re ''~b(work from home|part[- ]time)~b.{0,30}~b(earn|~$|per day|daily|weekly)~b''),
    (Job_offer, WEAK, re ''~bno experience (needed|required)~b.{0,30}~b(earn|~$|income)~b''),
    (Impersonation, STRONG, re ''~b(your )?(account|card)~b.{0,25}~b(suspended|locked|compromised|blocked|frozen)~b''),
    (Impersonation, WEAK, re ''~b(microsoft|apple|amazon|irs|hmrc|social security)~b.{0,30}~b(support|refund|verify|agent)~b''),
    (Phishing, STRONG, re ''~b(verify|confirm|update|reactivate)~b.{0,30}~b(account|password|details|identity)~b.{0,30}(https?:~/~/|www~.|bit~.ly|tinyurl)''),
    (Phishing, WEAK, re ''~b(bit~.ly|tinyurl|t~.co)~/~S+''),
    (Phishing, WEAK, re ''~bclick (here|the link)~b.{0,25}~b(verify|login|log in|confirm|claim)~b''),
    (Lottery, STRONG, re ''~b(you(\\'| ha)ve won|congratulations)~b.{0,40}~b(prize|lottery|winner|award|~$?~d)''),
    (Lottery, WEAK, re ''~b(claim|collect)~b.{0,20}~b(your )?(prize|reward|winnings)~b''),
    (Otp_solicitation, STRONG, re ''~b(otp|one[- ]time (code|password|pin)|verification code|security code|2fa code)~b.{0,30}~b(share|send|read|tell|give|forward|what)''),
    (Otp_solicitation, STRONG, re ''~b(share|send|tell|read|forward|give)~b.{0,20}~b(the |your )?(otp|verification code|security code|one[- ]time (code|pin|password)|2fa code|pin|password)~b''),
    (Rental_escrow, STRONG, re ''~b(deposit|wire|western union|money order)~b.{0,30}~b(before|to secure|to reserve|to hold)~b.{0,20}~b(apartment|room|property|rental|keys?)~b''),
    (Rental_escrow, WEAK, re ''~b(landlord|owner|agent)~b.{0,30}~b(abroad|overseas|out of (the )?country)~b'')]"

definition AMPLIFIERS :: "string list" where
  "AMPLIFIERS = [
    re ''~b(urgent(ly)?|immediately|right now|act now|within ~d+ (hours?|minutes?)|before it\\'?s too late)~b'',
    re ''~b(gift card|itunes card|steam card|western union|moneygram|wire transfer|bitcoin|usdt|crypto wallet)~b'',
    re ''~b(don\\'?t tell|keep (this|it) (secret|confidential|between us)|do not share this)~b'']"

definition regex_test :: "string \<Rightarrow> jstr \<Rightarrow> bool" where
  "regex_test p t = (case parse_rx p of Some r \<Rightarrow> test r t | None \<Rightarrow> False)"

definition hits :: "jstr \<Rightarrow> signal list" where
  "hits t = filter (\<lambda>(c, w, p). regex_test p t) SIGNALS"

definition tally :: "(scam_category, int) jsmap \<Rightarrow> signal \<Rightarrow> (scam_category, int) jsmap" where
  "tally m sg = (case sg of (c, w, p) \<Rightarrow>
     map_set c ((case map_of m c of Some x \<Rightarrow> x | None \<Rightarrow> 0) + w) m)"

definition better :: "scam_category option \<times> int \<Rightarrow> scam_category \<times> int \<Rightarrow> scam_category option \<times> int" where
  "better best p = (if snd best < snd p then (Some (fst p), snd p) else best)"

definition amplifiers :: "jstr \<Rightarrow> int" where
  "amplifiers t = int (length (filter (\<lambda>p. regex_test p t) AMPLIFIERS))"

definition empty_verdict :: scam_verdict where
  "empty_verdict = \<lparr>flagged = False, category = None, score = 0, modelVersion = HEURISTIC_MODEL_VERSION\<rparr>"

definition analyze :: "jstr \<Rightarrow> scam_verdict" where
  "analyze t =
    (if t = [] then empty_verdict
     else
       let scores = foldl tally [] (hits t) in
       if scores = [] then empty_verdict
       else
         let best = foldl better (None, 0) scores;
             sc = min 100 (snd best + amplifiers t * AMPLIFIER_BONUS)
         in \<lparr>flagged = FLAG_THRESHOLD \<le> sc, category = fst best, score = sc,
             modelVersion = HEURISTIC_MODEL_VERSION\<rparr>)"

subsection \<open>The patterns\<close>

lemma all_patterns_parse:
  "\<forall>p\<in>set (map (snd \<circ> snd) SIGNALS @ AMPLIFIERS). parse_rx p \<noteq> None"
  by code_simp

lemma regex_test_lower: "regex_test p (map lower t) = regex_test p t"
  by (simp add: regex_test_def test_lower split: option.splits)

lemma signal_weights: "\<forall>h\<in>set SIGNALS. fst (snd h) = STRONG \<or> fst (snd h) = WEAK"
  by (simp add: SIGNALS_def)

lemma hit_weights: "h \<in> set (hits t) \<Longrightarrow> fst (snd h) = STRONG \<or> fst (snd h) = WEAK"
  using signal_weights by (auto simp: hits_def)

subsection \<open>Adding up\<close>

definition weight :: "signal list \<Rightarrow> scam_category \<Rightarrow> int" where
  "weight hs c = sum_list (map (\<lambda>h. fst (snd h)) (filter (\<lambda>h. fst h = c) hs))"

lemma weight_simps [simp]:
  "weight [] c = 0"
  "weight (h # hs) c = (if fst h = c then fst (snd h) else 0) + weight hs c"
  by (simp_all add: weight_def)

lemma weight_append [simp]: "weight (hs @ gs) c = weight hs c + weight gs c"
  by (simp add: weight_def)

lemma weight_none: "c \<notin> fst ` set hs \<Longrightarrow> weight hs c = 0"
  by (induction hs) auto

lemma tally_simps [simp]:
  "tally m (c, w, p) = map_set c ((case map_of m c of Some x \<Rightarrow> x | None \<Rightarrow> 0) + w) m"
  by (simp add: tally_def)

lemma foldl_tally:
  "map_of (foldl tally m hs) c =
     (if c \<in> fst ` set hs then Some ((case map_of m c of Some x \<Rightarrow> x | None \<Rightarrow> 0) + weight hs c) else map_of m c)"
proof (induction hs arbitrary: m)
  case (Cons h hs)
  show ?case
    by (cases h) (auto simp: Cons.IH weight_none image_iff split: option.splits)
qed simp

lemma keys_tally:
  "map fst (foldl tally m hs) = map fst m @ filter (\<lambda>c. c \<notin> fst ` set m) (uniq (map fst hs))"
proof (induction hs arbitrary: m)
  case (Cons h hs)
  obtain c w p where h: "h = (c, w, p)" by (cases h)
  show ?case
    by (auto simp: Cons.IH h map_fst_set keys_map_set intro!: filter_cong)
qed simp

lemma map_ok_tally: "map_ok m \<Longrightarrow> map_ok (foldl tally m hs)"
proof (induction hs arbitrary: m)
  case (Cons h hs)
  then show ?case by (cases h) simp
qed simp

lemma scores_eq: "foldl tally [] hs = map (\<lambda>c. (c, weight hs c)) (uniq (map fst hs))"
proof -
  let ?m = "foldl tally [] hs"
  have keys: "map fst ?m = uniq (map fst hs)" by (simp add: keys_tally)
  have "snd q = weight hs (fst q)" if q: "q \<in> set ?m" for q
  proof -
    have ok: "map_ok ?m" by (rule map_ok_tally) simp
    have "map_of ?m (fst q) = Some (snd q)"
      using q ok by (simp add: map_ok_mem [symmetric])
    then show ?thesis by (simp add: foldl_tally split: if_splits)
  qed
  then have "?m = map (\<lambda>c. (c, weight hs c)) (map fst ?m)"
    by (intro nth_equalityI) (simp_all add: prod_eq_iff)
  then show ?thesis by (simp only: keys)
qed

lemma better_simps [simp]: "better (b, v) p = (if v < snd p then (Some (fst p), snd p) else (b, v))"
  by (simp add: better_def)

lemma best_spec:
  assumes "ps \<noteq> []" "\<forall>p\<in>set ps. 0 < snd p"
  shows "\<exists>pre c v post. ps = pre @ (c, v) # post \<and> foldl better (None, 0) ps = (Some c, v) \<and>
    (\<forall>p\<in>set pre. snd p < v) \<and> (\<forall>p\<in>set post. snd p \<le> v)"
  using assms
proof (induction ps rule: rev_induct)
  case (snoc p ps)
  show ?case
  proof (cases "ps = []")
    case True
    then show ?thesis using snoc.prems
      by (intro exI [of _ "[]"] exI [of _ "fst p"] exI [of _ "snd p"]) simp
  next
    case False
    then obtain pre c v post where ps: "ps = pre @ (c, v) # post"
      and best: "foldl better (None, 0) ps = (Some c, v)"
      and pre: "\<forall>q\<in>set pre. snd q < v" and post: "\<forall>q\<in>set post. snd q \<le> v"
      using snoc.IH snoc.prems by (metis Un_iff set_append)
    show ?thesis
    proof (cases "v < snd p")
      case True
      then have "\<forall>q\<in>set ps. snd q < snd p" using ps pre post by auto
      with True show ?thesis using best
        by (metis (no_types, lifting) better_simps foldl_Cons foldl_Nil foldl_append empty_iff list.set(1) prod.collapse)
    next
      case False
      then show ?thesis using best ps pre post
        by (intro exI [of _ pre] exI [of _ c] exI [of _ v] exI [of _ "post @ [p]"]) auto
    qed
  qed
qed simp

lemma weight_pos: "(\<And>h. h \<in> set hs \<Longrightarrow> 0 < fst (snd h)) \<Longrightarrow> c \<in> fst ` set hs \<Longrightarrow> 0 < weight hs c"
proof (induction hs)
  case (Cons h hs)
  have ge: "0 \<le> weight hs c"
    unfolding weight_def using Cons.prems(1) by (intro sum_list_nonneg) (auto dest!: less_imp_le)
  show ?case
  proof (cases "fst h = c")
    case True
    then show ?thesis using Cons.prems(1) [of h] ge by simp
  next
    case False
    then show ?thesis using Cons by auto
  qed
qed simp

lemma weight_ge: "(\<And>h. h \<in> set hs \<Longrightarrow> b \<le> fst (snd h)) \<Longrightarrow>
    b * int (length (filter (\<lambda>g. fst g = c) hs)) \<le> weight hs c"
proof (induction hs)
  case (Cons h hs)
  then have "b \<le> fst (snd h)" "b * int (length (filter (\<lambda>g. fst g = c) hs)) \<le> weight hs c" by auto
  then show ?case by (simp add: algebra_simps)
qed simp

lemma weight_eq: "(\<And>h. h \<in> set hs \<Longrightarrow> fst (snd h) = b) \<Longrightarrow>
    weight hs c = b * int (length (filter (\<lambda>g. fst g = c) hs))"
proof (induction hs)
  case (Cons h hs)
  then have "fst (snd h) = b" "weight hs c = b * int (length (filter (\<lambda>g. fst g = c) hs))" by auto
  then show ?case by (simp add: algebra_simps)
qed simp

lemma weight_nonneg: "(\<And>h. h \<in> set hs \<Longrightarrow> 0 \<le> fst (snd h)) \<Longrightarrow> 0 \<le> weight hs c"
  by (induction hs) auto

lemma weight_member: "h \<in> set hs \<Longrightarrow> (\<And>g. g \<in> set hs \<Longrightarrow> 0 \<le> fst (snd g)) \<Longrightarrow> fst (snd h) \<le> weight hs (fst h)"
proof (induction hs)
  case (Cons g hs)
  have "0 \<le> weight hs (fst h)" using Cons.prems(2) by (intro weight_nonneg) auto
  then show ?case using Cons.IH Cons.prems by fastforce
qed simp

lemma amplifiers_range: "0 \<le> amplifiers t \<and> amplifiers t \<le> 3"
proof -
  have "length (filter (\<lambda>p. regex_test p t) AMPLIFIERS) \<le> length AMPLIFIERS" by (rule length_filter_le)
  then show ?thesis by (simp add: amplifiers_def AMPLIFIERS_def)
qed

text \<open>What \<open>analyze\<close> returns on a text some pattern matches.\<close>

lemma analyze_hit:
  assumes "t \<noteq> []" "hits t \<noteq> []"
  obtains pre c post where "uniq (map fst (hits t)) = pre @ c # post"
    and "analyze t = \<lparr>flagged = FLAG_THRESHOLD \<le> min 100 (weight (hits t) c + amplifiers t * AMPLIFIER_BONUS),
           category = Some c, score = min 100 (weight (hits t) c + amplifiers t * AMPLIFIER_BONUS),
           modelVersion = HEURISTIC_MODEL_VERSION\<rparr>"
    and "\<forall>d\<in>set pre. weight (hits t) d < weight (hits t) c"
    and "\<forall>d\<in>set post. weight (hits t) d \<le> weight (hits t) c"
    and "0 < weight (hits t) c"
proof -
  let ?cs = "uniq (map fst (hits t))" and ?w = "weight (hits t)"
  let ?ps = "map (\<lambda>c. (c, ?w c)) ?cs"
  have pos: "0 < ?w c" if "c \<in> set ?cs" for c
    using that by (intro weight_pos) (auto dest!: hit_weights simp: STRONG_def WEAK_def)
  have "?ps \<noteq> []" using assms(2) by (cases "hits t") simp_all
  moreover have "\<forall>p\<in>set ?ps. 0 < snd p" using pos by auto
  ultimately obtain pre c v post where ps: "?ps = pre @ (c, v) # post"
    and best: "foldl better (None, 0) ?ps = (Some c, v)"
    and pre: "\<forall>p\<in>set pre. snd p < v" and post: "\<forall>p\<in>set post. snd p \<le> v"
    using best_spec by blast
  from ps obtain cs1 cs2 where cs: "?cs = cs1 @ c # cs2" and v: "v = ?w c"
    and p1: "pre = map (\<lambda>c. (c, ?w c)) cs1" and p2: "post = map (\<lambda>c. (c, ?w c)) cs2"
    by (auto simp: map_eq_append_conv Cons_eq_map_conv)
  show ?thesis
  proof (rule that [OF cs])
    show "analyze t = \<lparr>flagged = FLAG_THRESHOLD \<le> min 100 (?w c + amplifiers t * AMPLIFIER_BONUS),
           category = Some c, score = min 100 (?w c + amplifiers t * AMPLIFIER_BONUS),
           modelVersion = HEURISTIC_MODEL_VERSION\<rparr>"
      using assms(1) \<open>?ps \<noteq> []\<close> best by (simp add: analyze_def scores_eq Let_def v)
    show "\<forall>d\<in>set cs1. ?w d < ?w c" "\<forall>d\<in>set cs2. ?w d \<le> ?w c" using pre post by (auto simp: p1 p2 v)
    show "0 < ?w c" using pos cs by simp
  qed
qed

lemma analyze_miss: "t = [] \<or> hits t = [] \<Longrightarrow> analyze t = empty_verdict"
  by (auto simp: analyze_def)

lemma no_hits_empty: "hits [] = []"
  by code_simp

lemmas verdict_facts = empty_verdict_def FLAG_THRESHOLD_def AMPLIFIER_BONUS_def STRONG_def WEAK_def

subsection \<open>What the detector promises\<close>

text \<open>The verdict is complete and bounded: on any text the score is between 0 and 100 hundredths, the message
  is flagged exactly when the score reaches the threshold, no category is given exactly when no pattern matches
  (and then the score is 0), and the given category has the largest total weight, the first matching one among
  equals.\<close>

theorem analyze_verdict:
  "let v = analyze t; cs = uniq (map fst (hits t)); w = weight (hits t) in
     0 \<le> score v \<and> score v \<le> 100 \<and> (flagged v = (50 \<le> score v)) \<and>
     (category v = None) = (t = [] \<or> hits t = []) \<and>
     (case category v of None \<Rightarrow> score v = 0
      | Some c \<Rightarrow> score v = min 100 (w c + 15 * amplifiers t) \<and>
          find_index (\<lambda>d. list_all (\<lambda>e. w e \<le> w d) cs) cs = find_index (\<lambda>d. d = c) cs)"
proof (cases "t = [] \<or> hits t = []")
  case True
  then show ?thesis by (simp add: analyze_miss verdict_facts)
next
  case False
  then obtain pre c post where cs: "uniq (map fst (hits t)) = pre @ c # post"
    and an: "analyze t = \<lparr>flagged = FLAG_THRESHOLD \<le> min 100 (weight (hits t) c + amplifiers t * AMPLIFIER_BONUS),
           category = Some c, score = min 100 (weight (hits t) c + amplifiers t * AMPLIFIER_BONUS),
           modelVersion = HEURISTIC_MODEL_VERSION\<rparr>"
    and pre: "\<forall>d\<in>set pre. weight (hits t) d < weight (hits t) c"
    and post: "\<forall>d\<in>set post. weight (hits t) d \<le> weight (hits t) c"
    and pos: "0 < weight (hits t) c"
    using analyze_hit by metis
  have first: "find_index P (pre @ c # post) = Some (length pre)" if "\<forall>d\<in>set pre. \<not> P d" "P c" for P
    using that by (induction pre) auto
  have "c \<notin> set pre" using pre by auto
  then have "find_index (\<lambda>d. d = c) (pre @ c # post) = Some (length pre)" by (intro first) auto
  moreover have "find_index (\<lambda>d. list_all (\<lambda>e. weight (hits t) e \<le> weight (hits t) d) (pre @ c # post)) (pre @ c # post) =
      Some (length pre)"
    using pre post by (intro first) (auto simp: list_all_iff not_le intro: less_imp_le)
  ultimately show ?thesis
    using False pos amplifiers_range [of t] by (simp add: an cs verdict_facts mult.commute)
qed

text \<open>A message is flagged exactly when a strong pattern matches, or two weak patterns of one category, or one
  weak pattern together with two amplifiers. So amplifiers never flag alone, and one weak pattern needs company.\<close>

theorem flagged_characterised:
  "flagged (analyze t) =
     (list_ex (\<lambda>h. fst (snd h) = STRONG) (hits t) \<or>
      list_ex (\<lambda>h. 2 \<le> length (filter (\<lambda>g. fst g = fst h) (hits t))) (hits t) \<or>
      hits t \<noteq> [] \<and> 2 \<le> amplifiers t)"
proof (cases "t = [] \<or> hits t = []")
  case True
  then show ?thesis by (auto simp: analyze_miss verdict_facts no_hits_empty)
next
  case False
  then obtain pre c post where cs: "uniq (map fst (hits t)) = pre @ c # post"
    and an: "analyze t = \<lparr>flagged = FLAG_THRESHOLD \<le> min 100 (weight (hits t) c + amplifiers t * AMPLIFIER_BONUS),
           category = Some c, score = min 100 (weight (hits t) c + amplifiers t * AMPLIFIER_BONUS),
           modelVersion = HEURISTIC_MODEL_VERSION\<rparr>"
    and pre: "\<forall>d\<in>set pre. weight (hits t) d < weight (hits t) c"
    and post: "\<forall>d\<in>set post. weight (hits t) d \<le> weight (hits t) c"
    using analyze_hit by metis
  let ?n = "\<lambda>d. length (filter (\<lambda>g. fst g = d) (hits t))"
  have cats: "fst ` set (hits t) = set pre \<union> {c} \<union> set post"
    using arg_cong [OF cs, of set] by simp
  have max: "weight (hits t) (fst h) \<le> weight (hits t) c" if "h \<in> set (hits t)" for h
    using that pre post cats by (metis UnE image_eqI less_imp_le order_refl singletonD)
  obtain h0 where h0: "h0 \<in> set (hits t)" "fst h0 = c" using cats by force
  have n0: "1 \<le> ?n c" using h0 by (metis (mono_tags) filter_empty_conv length_0_conv less_one not_le)
  have low: "30 * int (?n d) \<le> weight (hits t) d" for d
    by (rule weight_ge) (auto dest!: hit_weights simp: verdict_facts)
  have fl: "flagged (analyze t) = (50 \<le> weight (hits t) c + 15 * amplifiers t)"
    by (simp add: an verdict_facts mult.commute)
  show ?thesis
  proof (cases "list_ex (\<lambda>h. fst (snd h) = STRONG) (hits t)")
    case True
    then obtain h where h: "h \<in> set (hits t)" "fst (snd h) = 55" by (auto simp: list_ex_iff verdict_facts)
    have "fst (snd h) \<le> weight (hits t) (fst h)"
      by (rule weight_member) (use h in \<open>auto dest!: hit_weights simp: verdict_facts\<close>)
    then show ?thesis using True fl max [OF h(1)] h(2) amplifiers_range [of t] by simp
  next
    case weak: False
    then have w: "fst (snd h) = 30" if "h \<in> set (hits t)" for h
      using hit_weights [OF that] that by (auto simp: list_ex_iff verdict_facts)
    have eq: "weight (hits t) d = 30 * int (?n d)" for d by (rule weight_eq) (rule w)
    have "(50 \<le> 30 * int (?n c) + 15 * amplifiers t) = (2 \<le> ?n c \<or> 2 \<le> amplifiers t)"
      using n0 amplifiers_range [of t] by linarith
    moreover have "list_ex (\<lambda>h. 2 \<le> length (filter (\<lambda>g. fst g = fst h) (hits t))) (hits t) = (2 \<le> ?n c)"
      using h0 max by (fastforce simp: list_ex_iff eq)
    ultimately show ?thesis using False weak fl by (simp add: eq)
  qed
qed

text \<open>Upper and lower case never change the verdict.\<close>

theorem analyze_ignores_case: "analyze (map lower t) = analyze t"
proof -
  have "hits (map lower t) = hits t" by (simp add: hits_def regex_test_lower)
  moreover have "amplifiers (map lower t) = amplifiers t" by (simp add: amplifiers_def regex_test_lower)
  ultimately show ?thesis by (simp only: analyze_def map_is_Nil_conv)
qed

end
