(* ===== verification/NativeBase64.thy ===== *)
theory NativeBase64
  imports Codec
begin

text \<open>
  The base64 helpers of \<open>apps/mobile/src/media/rnMediaCipher.ts\<close>, written without \<open>atob\<close>/\<open>btoa\<close>: the
  encoder reads three bytes at an index, the decoder shifts six bits at a time into a 32-bit
  accumulator that is never cleared. A character outside the alphabet looks up to \<open>undefined\<close>, which
  the bitwise or turns into 0. Both agree with the standard codec on everything it produces.
\<close>

type_synonym u32b = "32 word"

definition ALPHABET :: jstr where
  "ALPHABET = js ''ABCDEFGHIJKLMNOPQRSTUVWXYZabcdefghijklmnopqrstuvwxyz0123456789+/''"

definition LOOKUP :: "unit16 \<Rightarrow> u32b" where
  "LOOKUP c = (case find_index (\<lambda>d. d = c) ALPHABET of Some i \<Rightarrow> of_nat i | None \<Rightarrow> 0)"

definition alpha :: "u32b \<Rightarrow> unit16" where
  "alpha w = ALPHABET ! unat w"

function rn_enc_at :: "byte list \<Rightarrow> nat \<Rightarrow> jstr" where
  "rn_enc_at bs i =
    (if i < length bs then
       let b0 = ucast (bs ! i);
           b1 = (if i + 1 < length bs then ucast (bs ! (i + 1)) else 0);
           b2 = (if i + 2 < length bs then ucast (bs ! (i + 2)) else 0)
       in [alpha (drop_bit 2 b0), alpha (push_bit 4 (b0 AND 3) OR drop_bit 4 b1),
           (if i + 1 < length bs then alpha (push_bit 2 (b1 AND 15) OR drop_bit 6 b2) else 61),
           (if i + 2 < length bs then alpha (b2 AND 63) else 61)] @ rn_enc_at bs (i + 3)
     else [])"
  by pat_completeness auto
termination
  by (relation "measure (\<lambda>(bs, i). length bs - i)") auto

declare rn_enc_at.simps [simp del]

definition rn_bytes_to_base64 :: "byte list \<Rightarrow> jstr" where
  "rn_bytes_to_base64 bs = rn_enc_at bs 0"

fun rn_dec :: "u32b \<Rightarrow> nat \<Rightarrow> jstr \<Rightarrow> byte list" where
  "rn_dec acc bits [] = []"
| "rn_dec acc bits (c # cs) =
    (let acc1 = push_bit 6 acc OR LOOKUP c; bits1 = bits + 6 in
     if 8 \<le> bits1
     then ucast (signed_drop_bit (bits1 - 8) acc1 AND 0xff) # rn_dec acc1 (bits1 - 8) cs
     else rn_dec acc1 bits1 cs)"

definition rn_base64_to_bytes :: "jstr \<Rightarrow> byte list" where
  "rn_base64_to_bytes b64 = rn_dec 0 0 (strip_eq b64)"

text \<open>The decoder allocates \<open>Math.floor(clean.length * 6 / 8)\<close> bytes and writes exactly that many.\<close>

lemma length_rn_dec: "bits < 8 \<Longrightarrow> length (rn_dec acc bits cs) = (bits + 6 * length cs) div 8"
proof (induction cs arbitrary: acc bits)
  case (Cons c cs)
  show ?case
  proof (cases "8 \<le> bits + 6")
    case True
    then have "bits + 6 * length (c # cs) = (bits - 2 + 6 * length cs) + 8" by simp
    then have "(bits + 6 * length (c # cs)) div 8 = Suc ((bits - 2 + 6 * length cs) div 8)"
      by simp
    then show ?thesis using True Cons by (simp add: Let_def)
  next
    case False
    then show ?thesis using Cons by (simp add: Let_def algebra_simps)
  qed
qed simp

lemma rn_decoded_length: "length (rn_base64_to_bytes b64) = length (strip_eq b64) * 6 div 8"
  by (simp add: rn_base64_to_bytes_def length_rn_dec mult.commute)

subsection \<open>The alphabet\<close>

lemma alphabet_table: "list_all (\<lambda>n. ALPHABET ! n = b64_char n \<and> LOOKUP (b64_char n) = of_nat n) [0..<64]"
  by code_simp

lemma alphabet: "n < 64 \<Longrightarrow> ALPHABET ! n = b64_char n" "n < 64 \<Longrightarrow> LOOKUP (b64_char n) = of_nat n"
  using alphabet_table by (simp_all add: list_all_iff)

lemma unat_byte: "unat (ucast (a :: byte) :: u32b) = unat a" "unat (a :: byte) < 256"
proof -
  have "unat a < 2 ^ LENGTH(8)" by (rule unsigned_less)
  then show "unat a < 256" by simp
  then show "unat (ucast a :: u32b) = unat a"
    by (simp add: unsigned_ucast_eq unsigned_take_bit_eq take_bit_nat_eq_self)
qed

lemma low_masks:
  "(x::u32b) AND 3 = take_bit 2 x" "x AND 15 = take_bit 4 x" "x AND 63 = take_bit 6 x"
  "x AND 255 = take_bit 8 x"
  by (simp_all add: take_bit_eq_mask mask_eq_exp_minus_1)

lemma sextet_words:
  fixes a b c :: byte
  shows "unat (drop_bit 2 (ucast a :: u32b)) = unat a div 4"
    and "unat (push_bit 4 (ucast a AND 3) OR drop_bit 4 (ucast b) :: u32b) = unat a mod 4 * 16 + unat b div 16"
    and "unat (push_bit 2 (ucast b AND 15) OR drop_bit 6 (ucast c) :: u32b) = unat b mod 16 * 4 + unat c div 64"
    and "unat (ucast c AND 63 :: u32b) = unat c mod 64"
proof -
  have d: "unat (drop_bit n (ucast x :: u32b)) = unat x div 2 ^ n" for n and x :: byte
    by (simp only: unat_drop_bit_eq unat_byte(1)) (simp only: drop_bit_eq_div)
  have t: "unat (take_bit n (ucast x :: u32b)) = unat x mod 2 ^ n" for n and x :: byte
    by (simp only: unsigned_take_bit_eq unat_byte(1)) (simp only: take_bit_eq_mod)
  show "unat (drop_bit 2 (ucast a :: u32b)) = unat a div 4" using d [of 2 a] by simp
  show "unat (ucast c AND 63 :: u32b) = unat c mod 64" using t [of 6 c] by (simp add: low_masks)
  have "unat b div 16 < 16" "unat c div 64 < 4" using unat_byte(2) by (auto simp: less_mult_imp_div_less)
  then show "unat (push_bit 4 (ucast a AND 3) OR drop_bit 4 (ucast b) :: u32b) = unat a mod 4 * 16 + unat b div 16"
    "unat (push_bit 2 (ucast b AND 15) OR drop_bit 6 (ucast c) :: u32b) = unat b mod 16 * 4 + unat c div 64"
    using join_bits [of "take_bit 2 (ucast a)" 2 "drop_bit 4 (ucast b)" 4]
      join_bits [of "take_bit 4 (ucast b)" 4 "drop_bit 6 (ucast c)" 2]
      t [of 2 a] t [of 4 b] d [of 4 b] d [of 6 c] by (simp_all add: low_masks)
qed

lemma sextet_bounds:
  fixes a b c :: byte
  shows "unat a div 4 < 64" "unat a mod 4 * 16 + unat b div 16 < 64" "unat b mod 16 * 4 + unat c div 64 < 64"
proof -
  have "unat a < 256" "unat b < 256" "unat c < 256" by (rule unat_byte)+
  then show "unat a div 4 < 64" "unat a mod 4 * 16 + unat b div 16 < 64" "unat b mod 16 * 4 + unat c div 64 < 64"
    by linarith+
qed

lemma alpha_sextets:
  fixes a b c :: byte
  shows "alpha (drop_bit 2 (ucast a)) = b64_char (unat a div 4)"
    and "alpha (push_bit 4 (ucast a AND 3) OR drop_bit 4 (ucast b)) = b64_char (unat a mod 4 * 16 + unat b div 16)"
    and "alpha (push_bit 2 (ucast b AND 15) OR drop_bit 6 (ucast c)) = b64_char (unat b mod 16 * 4 + unat c div 64)"
    and "alpha (ucast c AND 63) = b64_char (unat c mod 64)"
  by (simp_all only: alpha_def sextet_words) (simp_all add: alphabet(1) sextet_bounds)

lemma alpha_last:
  fixes a :: byte
  shows "alpha (push_bit 4 (ucast a AND 3)) = b64_char (unat a mod 4 * 16)"
    and "alpha (push_bit 2 (ucast a AND 15)) = b64_char (unat a mod 16 * 4)"
  using alpha_sextets(2) [of a 0] alpha_sextets(3) [of a 0] by simp_all

subsection \<open>Agreement with the standard codec\<close>

lemma rn_enc_at_eq: "rn_enc_at bs i = b64_enc (map unat (drop i bs))"
proof (induction bs i rule: rn_enc_at.induct)
  case (1 bs i)
  show ?case
  proof (cases "i < length bs")
    case True
    have IH: "rn_enc_at bs (i + 3) = b64_enc (map unat (drop (i + 3) bs))" by (rule 1) (use True in simp_all)
    consider "length bs = i + 1" | "length bs = i + 2" | "i + 3 \<le> length bs" using True by linarith
    then show ?thesis
    proof cases
      case 1
      then have "drop i bs = [bs ! i]" by (simp add: Cons_nth_drop_Suc [symmetric])
      then show ?thesis using 1 by (simp add: rn_enc_at.simps [of bs i] IH alpha_sextets alpha_last Let_def del: push_bit_and)
    next
      case 2
      then have "drop i bs = [bs ! i, bs ! (i + 1)]" by (simp add: Cons_nth_drop_Suc [symmetric])
      then show ?thesis using 2 by (simp add: rn_enc_at.simps [of bs i] IH alpha_sextets alpha_last Let_def del: push_bit_and)
    next
      case 3
      then have "drop i bs = bs ! i # bs ! (i + 1) # bs ! (i + 2) # drop (i + 3) bs"
        by (simp add: Cons_nth_drop_Suc [symmetric] numeral_3_eq_3)
      then show ?thesis using 3 by (simp add: rn_enc_at.simps [of bs i] IH alpha_sextets Let_def del: push_bit_and)
    qed
  next
    case False
    then show ?thesis by (simp add: rn_enc_at.simps [of bs i])
  qed
qed

lemma rn_encoder: "rn_bytes_to_base64 bs = bytes_to_base64 bs"
  by (simp add: rn_bytes_to_base64_def bytes_to_base64_def rn_enc_at_eq)

lemma lookup_alpha: "unat w < 64 \<Longrightarrow> LOOKUP (alpha w) = w"
  by (simp add: alpha_def alphabet)

lemma sextet_word_bounds:
  fixes a b c :: byte
  shows "unat (drop_bit 2 (ucast a :: u32b)) < 64"
    and "unat (push_bit 4 (ucast a AND 3) OR drop_bit 4 (ucast b) :: u32b) < 64"
    and "unat (push_bit 2 (ucast b AND 15) OR drop_bit 6 (ucast c) :: u32b) < 64"
    and "unat (ucast c AND 63 :: u32b) < 64"
  unfolding sextet_words by (rule sextet_bounds)+ simp

lemma byte_eqI:
  fixes x y :: byte
  assumes "bit x 0 = bit y 0" "bit x 1 = bit y 1" "bit x 2 = bit y 2" "bit x 3 = bit y 3"
    and "bit x 4 = bit y 4" "bit x 5 = bit y 5" "bit x 6 = bit y 6" "bit x 7 = bit y 7"
  shows "x = y"
proof (rule bit_word_eqI)
  fix n assume "n < LENGTH(8)"
  then have "n \<in> {0, 1, 2, 3, 4, 5, 6, 7}" by auto
  then show "bit x n = bit y n" using assms by auto
qed

lemma no_bit_8:
  fixes x :: byte
  shows "\<not> bit x 8" "\<not> bit x 9" "\<not> bit x 10" "\<not> bit x 11" "\<not> bit x 12" "\<not> bit x 13"
    "\<not> bit x 14" "\<not> bit x 15"
  using bit_imp_le_length [of x] by fastforce+

text \<open>The three bytes the accumulator yields for four sextets, whatever it held before.\<close>

lemma decoded_bytes:
  fixes a b c :: byte and acc :: u32b
  defines "x0 \<equiv> push_bit 6 acc OR drop_bit 2 (ucast a)"
  defines "x1 \<equiv> push_bit 6 x0 OR (push_bit 4 (ucast a AND 3) OR drop_bit 4 (ucast b))"
  defines "x2 \<equiv> push_bit 6 x1 OR (push_bit 2 (ucast b AND 15) OR drop_bit 6 (ucast c))"
  defines "x3 \<equiv> push_bit 6 x2 OR (ucast c AND 63)"
  shows "(ucast (signed_drop_bit 4 x1 AND 0xff) :: byte) = a"
    and "(ucast (signed_drop_bit 2 x2 AND 0xff) :: byte) = b"
    and "(ucast (signed_drop_bit 0 x3 AND 0xff) :: byte) = c"
  unfolding x0_def x1_def x2_def x3_def low_masks
  by (rule byte_eqI; simp add: bit_simps no_bit_8)+

lemma rn_steps:
  assumes "unat w < 64"
  shows "rn_dec acc 0 (alpha w # cs) = rn_dec (push_bit 6 acc OR w) 6 cs"
    and "rn_dec acc 6 (alpha w # cs) =
      ucast (signed_drop_bit 4 (push_bit 6 acc OR w) AND 0xff) # rn_dec (push_bit 6 acc OR w) 4 cs"
    and "rn_dec acc 4 (alpha w # cs) =
      ucast (signed_drop_bit 2 (push_bit 6 acc OR w) AND 0xff) # rn_dec (push_bit 6 acc OR w) 2 cs"
    and "rn_dec acc 2 (alpha w # cs) =
      ucast (signed_drop_bit 0 (push_bit 6 acc OR w) AND 0xff) # rn_dec (push_bit 6 acc OR w) 0 cs"
  by (simp_all add: lookup_alpha [OF assms] Let_def)

lemma rn_dec_group:
  fixes a b c :: byte
  shows "\<exists>acc'. rn_dec acc 0 (alpha (drop_bit 2 (ucast a)) # alpha (push_bit 4 (ucast a AND 3) OR drop_bit 4 (ucast b)) #
      alpha (push_bit 2 (ucast b AND 15) OR drop_bit 6 (ucast c)) # alpha (ucast c AND 63) # cs) = a # b # c # rn_dec acc' 0 cs"
  and "rn_dec acc 0 [alpha (drop_bit 2 (ucast a)), alpha (push_bit 4 (ucast a AND 3) OR drop_bit 4 (ucast b))] = [a]"
  and "rn_dec acc 0 [alpha (drop_bit 2 (ucast a)), alpha (push_bit 4 (ucast a AND 3) OR drop_bit 4 (ucast b)),
      alpha (push_bit 2 (ucast b AND 15) OR drop_bit 6 (ucast c))] = [a, b]"
  by (simp_all only: rn_steps sextet_word_bounds decoded_bytes rn_dec.simps(1) list.inject simp_thms)
    (rule exI, rule refl)

lemma rn_dec_sextets: "rn_dec acc 0 (map b64_char (sextets (map unat bs))) = bs"
proof (induction "map unat bs" arbitrary: bs acc rule: sextets.induct)
  case 1
  then show ?case by simp
next
  case (2 n)
  then obtain a where bs: "bs = [a]" by auto
  show ?case using rn_dec_group(2) [of acc a 0] unfolding alpha_sextets by (simp add: bs del: rn_dec.simps)
next
  case (3 m n)
  then obtain a b where bs: "bs = [a, b]" by auto
  show ?case using rn_dec_group(3) [of acc a b 0] unfolding alpha_sextets by (simp add: bs del: rn_dec.simps)
next
  case (4 l m n r)
  then obtain a b c t where bs: "bs = a # b # c # t" and r: "r = map unat t" by auto
  obtain acc' where "rn_dec acc 0 (map b64_char (sextets (map unat bs))) =
      a # b # c # rn_dec acc' 0 (map b64_char (sextets (map unat t)))"
    using rn_dec_group(1) [of acc a b c "map b64_char (sextets (map unat t))"] unfolding alpha_sextets
    by (auto simp: bs simp del: rn_dec.simps)
  then show ?case using 4(1) [OF r] by (simp add: bs r del: rn_dec.simps)
qed

lemma strip_encoded: "strip_eq (bytes_to_base64 bs) = map b64_char (sextets (map unat bs))"
proof -
  have "c \<noteq> 61" if mem: "c \<in> set (map b64_char (sextets (map unat bs)))" for c
  proof -
    obtain n where n: "n \<in> set (sextets (map unat bs))" "c = b64_char n" using mem unfolding set_map by blast
    have "n < 64" by (rule sextets_less [OF _ n(1)]) (simp add: unat_byte)
    then show ?thesis using b64_ok [of n] n(2) by (simp add: b64_ok_def Let_def)
  qed
  then have "\<forall>c\<in>set (map b64_char (sextets (map unat bs))). c \<noteq> 61" by blast
  then show ?thesis by (simp only: bytes_to_base64_def b64_enc_sextets dropWhile_padding strip_eq_id)
qed

lemma rn_decoder: "rn_base64_to_bytes (bytes_to_base64 bs) = bs"
  by (simp only: rn_base64_to_bytes_def strip_encoded rn_dec_sextets)

text \<open>The hand-written base64 of the phone agrees with the standard one: the encoder produces the same text
  for any bytes, the decoder is its inverse and, on any base64 text the standard decoder accepts without
  white space, allocates exactly the bytes it writes.\<close>

theorem native_base64_is_base64:
  "rn_bytes_to_base64 bs = bytes_to_base64 bs \<and> rn_base64_to_bytes (rn_bytes_to_base64 bs) = bs \<and>
   base64_to_bytes (rn_bytes_to_base64 bs) = Some (rn_base64_to_bytes (rn_bytes_to_base64 bs)) \<and>
   length (rn_base64_to_bytes t) = length (strip_eq t) * 6 div 8"
  by (simp add: rn_encoder rn_decoder base64_roundtrip rn_decoded_length)

end
