(* ===== verification/Media.thy ===== *)
theory Media
  imports NativeBase64 Conversations Relay Discovery Sha256
begin

text \<open>
  Encrypted attachments: \<open>packages/client/src/media/media.ts\<close> and \<open>service.ts\<close>, and the phone's side
  \<open>apps/mobile/src/media\<close> (\<open>rnMediaCipher.ts\<close>, \<open>mediaService.ts\<close>, \<open>filePicker.ts\<close>, \<open>imagePicker.ts\<close>, \<open>selfTest.ts\<close>).

  The cipher seam \<open>MediaCipher\<close> is a record of functions; its two implementations, over Web Crypto and
  over the native module, are built from parameters for those two libraries. Only \<open>randomBytes\<close> has
  state. \<open>None\<close> is a call that throws. Storage is a \<open>fetch\<close> on a world \<open>'w\<close>.
  Key material is a \<open>media_ref\<close> whose locator is still empty.
\<close>

subsection \<open>The cipher seam\<close>

record 'c media_cipher =
  mc_encrypt :: "jstr \<Rightarrow> jstr \<Rightarrow> byte list \<Rightarrow> byte list option"
  mc_decrypt :: "jstr \<Rightarrow> jstr \<Rightarrow> byte list \<Rightarrow> byte list option"
  mc_random :: "nat \<Rightarrow> 'c \<Rightarrow> 'c \<times> byte list option"
  mc_sha :: "byte list \<Rightarrow> jstr option"

datatype media_error =
    MediaNetwork
  | UploadUrlFailed int
  | DownloadUrlFailed int
  | PutFailed int
  | GetFailed int
  | BadAnswer
  | BadLocator
  | CipherFailed
  | IntegrityFailed

definition encryptMedia :: "'c media_cipher \<Rightarrow> media_plain \<Rightarrow> 'c \<Rightarrow> 'c \<times> (media_error + byte list \<times> media_ref)" where
  "encryptMedia C m c =
    (case mc_random C 32 c of
       (c1, None) \<Rightarrow> (c1, Inl CipherFailed)
     | (c1, Some kb) \<Rightarrow>
         (case mc_random C 12 c1 of
            (c2, None) \<Rightarrow> (c2, Inl CipherFailed)
          | (c2, Some ib) \<Rightarrow>
              (let k = bytes_to_base64 kb; iv = bytes_to_base64 ib in
               (c2, case (mc_encrypt C k iv (pl_bytes m), mc_sha C (pl_bytes m)) of
                  (Some ct, Some dg) \<Rightarrow>
                    Inr (ct, \<lparr>keyB64 = k, ivB64 = iv, mime = pl_mime m, msize = int (length (pl_bytes m)),
                       sha256B64 = dg, mname = (if some_text (pl_name m) then pl_name m else None), locator = []\<rparr>)
                | _ \<Rightarrow> Inl CipherFailed))))"

definition decryptMedia :: "'c media_cipher \<Rightarrow> byte list \<Rightarrow> media_ref \<Rightarrow> media_error + media_plain" where
  "decryptMedia C ct ref =
    (case mc_decrypt C (keyB64 ref) (ivB64 ref) ct of
       None \<Rightarrow> Inl CipherFailed
     | Some bytes \<Rightarrow>
         (case mc_sha C bytes of
            None \<Rightarrow> Inl CipherFailed
          | Some dg \<Rightarrow>
              if dg \<noteq> sha256B64 ref then Inl IntegrityFailed
              else Inr \<lparr>pl_bytes = bytes, pl_mime = mime ref,
                 pl_name = (if some_text (mname ref) then mname ref else None)\<rparr>))"

subsection \<open>Web Crypto\<close>

record 'k subtle =
  sb_import :: "byte list \<Rightarrow> 'k option"
  sb_encrypt :: "byte list \<Rightarrow> 'k \<Rightarrow> byte list \<Rightarrow> byte list option"
  sb_decrypt :: "byte list \<Rightarrow> 'k \<Rightarrow> byte list \<Rightarrow> byte list option"
  sb_digest :: "byte list \<Rightarrow> byte list option"

definition importKey :: "'k subtle \<Rightarrow> jstr \<Rightarrow> 'k option" where
  "importKey S k = Option.bind (base64_to_bytes k) (sb_import S)"

definition web_crypt :: "'k subtle \<Rightarrow> (byte list \<Rightarrow> 'k \<Rightarrow> byte list \<Rightarrow> byte list option) \<Rightarrow>
    jstr \<Rightarrow> jstr \<Rightarrow> byte list \<Rightarrow> byte list option" where
  "web_crypt S f k iv x =
    Option.bind (importKey S k) (\<lambda>key. Option.bind (base64_to_bytes iv) (\<lambda>ivb. f ivb key x))"

definition web_cipher :: "'k subtle \<Rightarrow> (nat \<Rightarrow> 'c \<Rightarrow> 'c \<times> byte list option) \<Rightarrow> 'c media_cipher" where
  "web_cipher S rnd =
    \<lparr>mc_encrypt = web_crypt S (sb_encrypt S), mc_decrypt = web_crypt S (sb_decrypt S), mc_random = rnd,
     mc_sha = (\<lambda>d. map_option bytes_to_base64 (sb_digest S d))\<rparr>"

subsection \<open>The native cipher\<close>

record 'c native_media =
  nm_random :: "nat \<Rightarrow> 'c \<Rightarrow> 'c \<times> jstr option"
  nm_sha256 :: "jstr \<Rightarrow> jstr option"
  nm_encrypt :: "jstr \<Rightarrow> jstr \<Rightarrow> jstr \<Rightarrow> jstr option"
  nm_decrypt :: "jstr \<Rightarrow> jstr \<Rightarrow> jstr \<Rightarrow> jstr option"

definition rn_cipher :: "'c native_media \<Rightarrow> 'c media_cipher" where
  "rn_cipher N =
    \<lparr>mc_encrypt = (\<lambda>k iv p. map_option rn_base64_to_bytes (nm_encrypt N k iv (rn_bytes_to_base64 p))),
     mc_decrypt = (\<lambda>k iv p. map_option rn_base64_to_bytes (nm_decrypt N k iv (rn_bytes_to_base64 p))),
     mc_random = (\<lambda>n c. case nm_random N n c of (c1, r) \<Rightarrow> (c1, map_option rn_base64_to_bytes r)),
     mc_sha = (\<lambda>d. nm_sha256 N (rn_bytes_to_base64 d))\<rparr>"

subsection \<open>The media service\<close>

record media_req =
  mq_method :: jstr
  mq_url :: jstr
  mq_bearer :: "jstr option"
  mq_type :: "jstr option"
  mq_body :: "byte list option"

record media_res =
  ms_status :: int
  ms_bytes :: "byte list"

type_synonym 'w mfetch = "media_req \<Rightarrow> 'w \<Rightarrow> 'w \<times> media_res option"

definition res_ok :: "media_res \<Rightarrow> bool" where
  "res_ok r = (200 \<le> ms_status r \<and> ms_status r \<le> 299)"

record 'w media_service =
  sv_upload :: "'w \<Rightarrow> 'w \<times> (media_error + jstr \<times> jstr)"
  sv_download :: "jstr \<Rightarrow> 'w \<Rightarrow> 'w \<times> (media_error + jstr)"

definition authHeaders :: "jstr option \<Rightarrow> jstr option" where
  "authHeaders tok = (if truthy_str tok then tok else None)"

definition res_json :: "media_res \<Rightarrow> json option" where
  "res_json r = json_parse (utf8_decode (ms_bytes r))"

definition http_uploadUrl :: "'w mfetch \<Rightarrow> jstr \<Rightarrow> jstr option \<Rightarrow> 'w \<Rightarrow> 'w \<times> (media_error + jstr \<times> jstr)" where
  "http_uploadUrl fetch base tok w =
    (case fetch \<lparr>mq_method = js ''POST'', mq_url = base @ js ''/v1/media/upload-url'', mq_bearer = authHeaders tok,
                 mq_type = None, mq_body = None\<rparr> w of
       (w1, None) \<Rightarrow> (w1, Inl MediaNetwork)
     | (w1, Some r) \<Rightarrow>
         if \<not> res_ok r then (w1, Inl (UploadUrlFailed (ms_status r)))
         else (w1, case res_json r of None \<Rightarrow> Inl BadAnswer
               | Some v \<Rightarrow> (case (as_str (field v ''url''), as_str (field v ''locator'')) of
                    (Some u, Some l) \<Rightarrow> Inr (u, l) | _ \<Rightarrow> Inl BadAnswer)))"

definition http_downloadUrl :: "'w mfetch \<Rightarrow> jstr \<Rightarrow> jstr option \<Rightarrow> jstr \<Rightarrow> 'w \<Rightarrow> 'w \<times> (media_error + jstr)" where
  "http_downloadUrl fetch base tok loc w =
    (case encodeURIComponent loc of
       None \<Rightarrow> (w, Inl BadLocator)
     | Some l \<Rightarrow>
         (case fetch \<lparr>mq_method = js ''GET'', mq_url = base @ js ''/v1/media/download-url?locator='' @ l,
                      mq_bearer = authHeaders tok, mq_type = None, mq_body = None\<rparr> w of
            (w1, None) \<Rightarrow> (w1, Inl MediaNetwork)
          | (w1, Some r) \<Rightarrow>
              if \<not> res_ok r then (w1, Inl (DownloadUrlFailed (ms_status r)))
              else (w1, case Option.bind (res_json r) (\<lambda>v. as_str (field v ''url'')) of
                     None \<Rightarrow> Inl BadAnswer | Some u \<Rightarrow> Inr u)))"

definition http_service :: "'w mfetch \<Rightarrow> jstr \<Rightarrow> jstr option \<Rightarrow> 'w media_service" where
  "http_service fetch base tok = \<lparr>sv_upload = http_uploadUrl fetch base tok, sv_download = http_downloadUrl fetch base tok\<rparr>"

definition put_req :: "jstr \<Rightarrow> byte list \<Rightarrow> media_req" where
  "put_req url ct = \<lparr>mq_method = js ''PUT'', mq_url = url, mq_bearer = None,
     mq_type = Some (js ''application/octet-stream''), mq_body = Some ct\<rparr>"

definition get_req :: "jstr \<Rightarrow> media_req" where
  "get_req url = \<lparr>mq_method = js ''GET'', mq_url = url, mq_bearer = None, mq_type = None, mq_body = None\<rparr>"

definition uploadMedia :: "'c media_cipher \<Rightarrow> 'w media_service \<Rightarrow> 'w mfetch \<Rightarrow> media_plain \<Rightarrow> 'c \<Rightarrow> 'w \<Rightarrow>
    'c \<times> 'w \<times> (media_error + media_ref)" where
  "uploadMedia C svc fetch m c w =
    (case encryptMedia C m c of
       (c1, Inl e) \<Rightarrow> (c1, w, Inl e)
     | (c1, Inr (ct, km)) \<Rightarrow>
         (case sv_upload svc w of
            (w1, Inl e) \<Rightarrow> (c1, w1, Inl e)
          | (w1, Inr (url, loc)) \<Rightarrow>
              (case fetch (put_req url ct) w1 of
                 (w2, None) \<Rightarrow> (c1, w2, Inl MediaNetwork)
               | (w2, Some r) \<Rightarrow>
                   (c1, w2, if \<not> res_ok r then Inl (PutFailed (ms_status r)) else Inr (km\<lparr>locator := loc\<rparr>)))))"

definition downloadMedia :: "'c media_cipher \<Rightarrow> 'w media_service \<Rightarrow> 'w mfetch \<Rightarrow> media_ref \<Rightarrow> 'w \<Rightarrow>
    'w \<times> (media_error + media_plain)" where
  "downloadMedia C svc fetch ref w =
    (case sv_download svc (locator ref) w of
       (w1, Inl e) \<Rightarrow> (w1, Inl e)
     | (w1, Inr url) \<Rightarrow>
         (case fetch (get_req url) w1 of
            (w2, None) \<Rightarrow> (w2, Inl MediaNetwork)
          | (w2, Some r) \<Rightarrow>
              (w2, if \<not> res_ok r then Inl (GetFailed (ms_status r)) else decryptMedia C (ms_bytes r) ref)))"

subsection \<open>The phone\<close>

definition uploadImage :: "'c native_media \<Rightarrow> 'w mfetch \<Rightarrow> jstr \<Rightarrow> jstr option \<Rightarrow> media_plain \<Rightarrow> 'c \<Rightarrow> 'w \<Rightarrow>
    'c \<times> 'w \<times> (media_error + media_ref)" where
  "uploadImage N fetch mediaUrl tok m = uploadMedia (rn_cipher N) (http_service fetch mediaUrl tok) fetch m"

definition downloadImage :: "'c native_media \<Rightarrow> 'w mfetch \<Rightarrow> jstr \<Rightarrow> jstr option \<Rightarrow> media_ref \<Rightarrow> 'w \<Rightarrow>
    'w \<times> (media_error + media_plain)" where
  "downloadImage N fetch mediaUrl tok ref = downloadMedia (rn_cipher N) (http_service fetch mediaUrl tok) fetch ref"

text \<open>The pickers and the saver: a missing native method throws, a cancelled chooser is \<open>Some None\<close>.\<close>

record picked =
  pk_data :: jstr
  pk_mime :: jstr
  pk_name :: jstr

record native_files =
  nf_pickImage :: "picked option option"
  nf_pickFile :: "picked option option"
  nf_save :: "(jstr \<Rightarrow> jstr \<Rightarrow> jstr \<Rightarrow> jstr) option"

definition picked_plain :: "picked \<Rightarrow> media_plain" where
  "picked_plain p = \<lparr>pl_bytes = rn_base64_to_bytes (pk_data p), pl_mime = pk_mime p, pl_name = Some (pk_name p)\<rparr>"

definition pickImage :: "native_files option \<Rightarrow> media_plain option option" where
  "pickImage nf = map_option (map_option picked_plain) (Option.bind nf nf_pickImage)"

definition pickFile :: "native_files option \<Rightarrow> media_plain option option" where
  "pickFile nf = map_option (map_option picked_plain) (Option.bind nf nf_pickFile)"

definition saveToDownloads :: "native_files option \<Rightarrow> media_plain \<Rightarrow> jstr option" where
  "saveToDownloads nf m =
    map_option (\<lambda>save. save (rn_bytes_to_base64 (pl_bytes m)) (case pl_name m of Some n \<Rightarrow> n | None \<Rightarrow> js ''file'') (pl_mime m))
      (Option.bind nf nf_save)"

text \<open>\<open>mediaCipherSelfTest\<close>: what it logs.\<close>

datatype self_test = TestSkipped | TestResult bool bool | TestError

definition FIXED_KEY_B64 :: jstr where "FIXED_KEY_B64 = js ''AQEBAQEBAQEBAQEBAQEBAQEBAQEBAQEBAQEBAQEBAQE=''"
definition FIXED_IV_B64 :: jstr where "FIXED_IV_B64 = js ''AgICAgICAgICAgIC''"
definition FIXED_PT :: jstr where "FIXED_PT = js ''hwfa media cipher test''"
definition FIXED_CT_B64 :: jstr where "FIXED_CT_B64 = js ''b6GvKGo6pJm6rZyrNdeq19CVpYqYxYyaK5Drb8Hry73E1q9FB60=''"

definition low_bytes :: "jstr \<Rightarrow> byte list" where
  "low_bytes s = map (\<lambda>c. ucast (c AND 0xff)) s"

definition mediaCipherSelfTest :: "'c native_media option \<Rightarrow> 'c \<Rightarrow> 'c \<times> self_test" where
  "mediaCipherSelfTest native c =
    (case native of None \<Rightarrow> (c, TestSkipped)
     | Some N \<Rightarrow>
         (case mc_random (rn_cipher N) 1024 c of
            (c1, None) \<Rightarrow> (c1, TestError)
          | (c1, Some r) \<Rightarrow>
              (let payload = rn_base64_to_bytes (rn_bytes_to_base64 r) in
               case encryptMedia (rn_cipher N) \<lparr>pl_bytes = payload, pl_mime = js ''application/octet-stream'', pl_name = None\<rparr> c1 of
                 (c2, Inl e) \<Rightarrow> (c2, TestError)
               | (c2, Inr (ct, km)) \<Rightarrow>
                   (c2, case decryptMedia (rn_cipher N) ct (km\<lparr>locator := js ''self-test''\<rparr>) of
                      Inl e \<Rightarrow> TestError
                    | Inr d \<Rightarrow>
                        (case mc_encrypt (rn_cipher N) FIXED_KEY_B64 FIXED_IV_B64 (low_bytes FIXED_PT) of
                           None \<Rightarrow> TestError
                         | Some fct \<Rightarrow> TestResult (pl_bytes d = payload) (rn_bytes_to_base64 fct = FIXED_CT_B64))))))"

subsection \<open>The laws of the cipher\<close>

text \<open>What AES-GCM promises (authenticated decryption undoes encryption); the storage and the native module are
  outside, so their laws are hypotheses of the properties.\<close>

definition undoes :: "'c media_cipher \<Rightarrow> bool" where
  "undoes C = (\<forall>k iv p ct. mc_encrypt C k iv p = Some ct \<longrightarrow> mc_decrypt C k iv ct = Some p)"

definition subtle_law :: "'k subtle \<Rightarrow> bool" where
  "subtle_law S = (\<forall>iv k p ct. sb_encrypt S iv k p = Some ct \<longrightarrow> sb_decrypt S iv k ct = Some p)"

text \<open>The native module is the same cipher and hash on base64 texts.\<close>

definition same_cipher :: "'k subtle \<Rightarrow> 'c native_media \<Rightarrow> bool" where
  "same_cipher S N =
    ((\<forall>k iv p. nm_encrypt N k iv (bytes_to_base64 p) = map_option bytes_to_base64 (web_crypt S (sb_encrypt S) k iv p)) \<and>
     (\<forall>k iv p. nm_decrypt N k iv (bytes_to_base64 p) = map_option bytes_to_base64 (web_crypt S (sb_decrypt S) k iv p)) \<and>
     (\<forall>d. nm_sha256 N (bytes_to_base64 d) = map_option bytes_to_base64 (sb_digest S d)))"

lemma web_undoes: "subtle_law S \<Longrightarrow> undoes (web_cipher S rnd)"
  by (auto simp: undoes_def subtle_law_def web_cipher_def web_crypt_def bind_eq_Some_conv)

lemma native_is_web:
  assumes "same_cipher S N"
  shows "mc_encrypt (rn_cipher N) = mc_encrypt (web_cipher S rnd)"
    and "mc_decrypt (rn_cipher N) = mc_decrypt (web_cipher S rnd)"
    and "mc_sha (rn_cipher N) = mc_sha (web_cipher S rnd)"
  using assms by (auto simp: same_cipher_def rn_cipher_def web_cipher_def rn_encoder rn_decoder fun_eq_iff
      option.map_comp comp_def option.map_ident)

lemma decryptMedia_cong:
  "mc_decrypt C = mc_decrypt D \<Longrightarrow> mc_sha C = mc_sha D \<Longrightarrow> decryptMedia C ct ref = decryptMedia D ct ref"
  by (auto simp: decryptMedia_def split: option.split)

definition delivered :: "media_plain \<Rightarrow> media_plain" where
  "delivered m = m\<lparr>pl_name := (if some_text (pl_name m) then pl_name m else None)\<rparr>"

lemma encryptMedia_facts:
  assumes "encryptMedia C m c = (c1, Inr (ct, km))"
  shows "mc_encrypt C (keyB64 km) (ivB64 km) (pl_bytes m) = Some ct \<and> mc_sha C (pl_bytes m) = Some (sha256B64 km) \<and>
    mime km = pl_mime m \<and> mname km = pl_name (delivered m) \<and> msize km = int (length (pl_bytes m))"
  using assms by (auto simp: encryptMedia_def delivered_def Let_def split: prod.splits option.splits)

lemma some_text_delivered: "(if some_text (pl_name (delivered m)) then pl_name (delivered m) else None) = pl_name (delivered m)"
  by (simp add: delivered_def)

lemma decrypt_encrypted:
  assumes "undoes C" and "encryptMedia C m c = (c1, Inr (ct, km))"
  shows "decryptMedia C ct (km\<lparr>locator := l\<rparr>) = Inr (delivered m)"
proof -
  note f = encryptMedia_facts [OF assms(2)]
  then have "mc_decrypt C (keyB64 km) (ivB64 km) ct = Some (pl_bytes m)" using assms(1) by (simp add: undoes_def)
  then show ?thesis using f some_text_delivered [of m] by (simp add: decryptMedia_def) (simp add: delivered_def)
qed

lemma uploadMedia_facts:
  assumes "uploadMedia C svc fetch m c w = (c1, w1, Inr ref)"
  obtains ct km url r where "encryptMedia C m c = (c1, Inr (ct, km))" "ref = km\<lparr>locator := locator ref\<rparr>"
    "snd (sv_upload svc w) = Inr (url, locator ref)" "fetch (put_req url ct) (fst (sv_upload svc w)) = (w1, Some r)" "res_ok r"
  using assms by (fastforce simp: uploadMedia_def split: prod.splits sum.splits option.splits if_splits)

subsection \<open>What attachments promise\<close>

text \<open>An attachment arrives: if the storage hands back, under the locator of the reference, the bytes that were
  PUT there, downloading with the reference yields the bytes, type and (non-empty) name that were uploaded; and
  those bytes were PUT to the presigned URL the service gave for that locator.\<close>

theorem attachment_roundtrip:
  assumes "undoes C" and "uploadMedia C svc fetch m c w = (c1, w1, Inr ref)"
    and "encryptMedia C m c = (c1, Inr (ct, km))"
    and "sv_download svc (locator ref) v = (v1, Inr url)" and "fetch (get_req url) v1 = (v2, Some res)"
    and "res_ok res" and "ms_bytes res = ct"
  shows "downloadMedia C svc fetch ref v = (v2, Inr (delivered m)) \<and>
    (\<exists>u r. snd (sv_upload svc w) = Inr (u, locator ref) \<and> fetch (put_req u ct) (fst (sv_upload svc w)) = (w1, Some r) \<and> res_ok r)"
proof -
  obtain ct' km' u r where e: "encryptMedia C m c = (c1, Inr (ct', km'))" "ref = km'\<lparr>locator := locator ref\<rparr>"
    and s: "snd (sv_upload svc w) = Inr (u, locator ref)" "fetch (put_req u ct') (fst (sv_upload svc w)) = (w1, Some r)" "res_ok r"
    using uploadMedia_facts [OF assms(2)] .
  have "decryptMedia C ct ref = Inr (delivered m)"
    using decrypt_encrypted [OF assms(1) e(1), of "locator ref"] e assms(3) by simp
  then have "downloadMedia C svc fetch ref v = (v2, Inr (delivered m))"
    using assms(4-7) by (simp add: downloadMedia_def)
  then show ?thesis using s e assms(3) by auto
qed

text \<open>C21: Whatever the storage returns, downloading with a reference never yields other bytes than some whose SHA-256
  is the one the uploader computed over its plaintext, with the uploader's type and name; anything else is an error.
  So with collision resistance the bytes are the uploaded ones.\<close>

theorem tampered_attachment_rejected:
  assumes "uploadMedia C svc fetch m c w = (c1, w1, Inr ref)"
  shows "case downloadMedia C svc' fetch' ref v of
      (_, Inr d) \<Rightarrow> mc_sha C (pl_bytes d) = mc_sha C (pl_bytes m) \<and> mc_sha C (pl_bytes d) \<noteq> None \<and>
        pl_mime d = pl_mime m \<and> pl_name d = pl_name (delivered m)
    | (_, Inl e) \<Rightarrow> True"
proof -
  obtain ct km u r where e: "encryptMedia C m c = (c1, Inr (ct, km))" and ref: "ref = km\<lparr>locator := locator ref\<rparr>"
    using uploadMedia_facts [OF assms] by metis
  have f: "sha256B64 ref = sha256B64 km" "mime ref = mime km" "mname ref = mname km"
    using ref by (metis media_ref.select_convs media_ref.surjective media_ref.update_convs(7))+
  show ?thesis
    using encryptMedia_facts [OF e] f some_text_delivered [of m]
    by (auto simp: downloadMedia_def decryptMedia_def split: prod.split sum.split option.split)
qed

text \<open>The phone and the web read each other's attachments: if the native module is the same AES-GCM and SHA-256
  on base64 texts, what either side encrypts the other decrypts, although the phone uses its own base64.\<close>

theorem ciphers_interoperate:
  assumes "subtle_law S" and "same_cipher S N"
  shows "(\<forall>m c c1 ct km. encryptMedia (rn_cipher N) m c = (c1, Inr (ct, km)) \<longrightarrow>
      decryptMedia (web_cipher S rnd) ct (km\<lparr>locator := l\<rparr>) = Inr (delivered m)) \<and>
    (\<forall>m c c1 ct km. encryptMedia (web_cipher S rnd) m c = (c1, Inr (ct, km)) \<longrightarrow>
      decryptMedia (rn_cipher N) ct (km\<lparr>locator := l\<rparr>) = Inr (delivered m))"
proof -
  note same = native_is_web [OF assms(2), of rnd]
  have web: "undoes (web_cipher S rnd)" by (rule web_undoes [OF assms(1)])
  then have rn: "undoes (rn_cipher N)" by (simp add: undoes_def same)
  have eq: "decryptMedia (rn_cipher N) ct r = decryptMedia (web_cipher S rnd) ct r" for ct r
    by (rule decryptMedia_cong) (simp_all add: same)
  show ?thesis using decrypt_encrypted [OF rn] decrypt_encrypted [OF web] by (metis eq)
qed

text \<open>A concrete cipher and server for the witnesses: bytes are complemented, the store serves any URL.\<close>

definition demo_subtle :: "unit subtle" where
  "demo_subtle = \<lparr>sb_import = (\<lambda>_. Some ()), sb_encrypt = (\<lambda>_ _ p. Some (map not p)),
     sb_decrypt = (\<lambda>_ _ p. Some (map not p)), sb_digest = (\<lambda>d. Some (sha256 d))\<rparr>"

definition demo_random :: "nat \<Rightarrow> unit \<Rightarrow> unit \<times> byte list option" where
  "demo_random n c = (c, Some (replicate n 7))"

definition demo_native :: "unit native_media" where
  "demo_native = \<lparr>nm_random = (\<lambda>n c. (c, Some (bytes_to_base64 (replicate n 7)))),
     nm_sha256 = (\<lambda>t. map_option (\<lambda>d. bytes_to_base64 (sha256 d)) (base64_to_bytes t)),
     nm_encrypt = (\<lambda>k iv t. map_option bytes_to_base64 (Option.bind (base64_to_bytes t) (web_crypt demo_subtle (sb_encrypt demo_subtle) k iv))),
     nm_decrypt = (\<lambda>k iv t. map_option bytes_to_base64 (Option.bind (base64_to_bytes t) (web_crypt demo_subtle (sb_decrypt demo_subtle) k iv)))\<rparr>"

definition demo_store :: "byte list option mfetch" where
  "demo_store rq w = (case mq_body rq of Some b \<Rightarrow> (Some b, Some \<lparr>ms_status = 200, ms_bytes = []\<rparr>)
     | None \<Rightarrow> (w, map_option (\<lambda>b. \<lparr>ms_status = 200, ms_bytes = b\<rparr>) w))"

definition demo_service :: "byte list option media_service" where
  "demo_service = \<lparr>sv_upload = (\<lambda>w. (w, Inr (js ''u'', js ''loc''))), sv_download = (\<lambda>l w. (w, Inr (js ''u'')))\<rparr>"

definition demo_photo :: media_plain where
  "demo_photo = \<lparr>pl_bytes = [1, 2, 3], pl_mime = js ''image/png'', pl_name = None\<rparr>"

lemma demo_laws: "subtle_law demo_subtle" "same_cipher demo_subtle demo_native"
  by (auto simp: subtle_law_def demo_subtle_def same_cipher_def demo_native_def base64_roundtrip web_crypt_def
      importKey_def comp_def)

lemma demo_encrypt: "\<exists>ct km. encryptMedia (web_cipher demo_subtle demo_random) m () = ((), Inr (ct, km))"
  by (simp add: encryptMedia_def demo_random_def web_cipher_def web_crypt_def importKey_def base64_roundtrip
      demo_subtle_def Let_def)

lemma demo_upload:
  assumes "encryptMedia (web_cipher demo_subtle demo_random) m () = ((), Inr (ct, km))"
  shows "uploadMedia (web_cipher demo_subtle demo_random) demo_service demo_store m () w =
    ((), Some ct, Inr (km\<lparr>locator := js ''loc''\<rparr>))"
  by (simp add: uploadMedia_def assms demo_service_def demo_store_def put_req_def res_ok_def)

lemma attachment_roundtrip_witness:
  "\<exists>ref. uploadMedia (web_cipher demo_subtle demo_random) demo_service demo_store demo_photo () None = ((), snd ref, Inr (fst ref)) \<and>
     downloadMedia (web_cipher demo_subtle demo_random) demo_service demo_store (fst ref) (snd ref) = (snd ref, Inr demo_photo)"
proof -
  obtain ct km where e: "encryptMedia (web_cipher demo_subtle demo_random) demo_photo () = ((), Inr (ct, km))"
    using demo_encrypt by blast
  have "downloadMedia (web_cipher demo_subtle demo_random) demo_service demo_store (km\<lparr>locator := js ''loc''\<rparr>) (Some ct) =
      (Some ct, Inr (delivered demo_photo))"
    using attachment_roundtrip [OF web_undoes [OF demo_laws(1)] demo_upload [OF e] e,
        of "Some ct" "Some ct" "js ''u''" "Some ct" "\<lparr>ms_status = 200, ms_bytes = ct\<rparr>"]
    by (simp add: demo_service_def demo_store_def get_req_def res_ok_def)
  then show ?thesis using demo_upload [OF e, of None]
    by (intro exI [of _ "(km\<lparr>locator := js ''loc''\<rparr>, Some ct)"]) (simp add: delivered_def demo_photo_def)
qed

lemma tampered_attachment_rejected_witness:
  "\<exists>ref. case downloadMedia (web_cipher demo_subtle demo_random) demo_service demo_store ref (Some [0]) of
      (_, Inr d) \<Rightarrow> pl_mime d = js ''image/png'' | (_, Inl e) \<Rightarrow> True"
proof -
  obtain ct km where e: "encryptMedia (web_cipher demo_subtle demo_random) demo_photo () = ((), Inr (ct, km))"
    using demo_encrypt by blast
  show ?thesis
    using tampered_attachment_rejected [OF demo_upload [OF e, of None], of demo_service demo_store "Some [0]"]
    by (intro exI [of _ "km\<lparr>locator := js ''loc''\<rparr>"]) (auto simp: demo_photo_def split: prod.split sum.split)
qed

lemma ciphers_interoperate_witness:
  "\<exists>ct km. decryptMedia (rn_cipher demo_native) ct (km\<lparr>locator := []\<rparr>) = Inr demo_photo"
proof -
  obtain ct km where e: "encryptMedia (web_cipher demo_subtle demo_random) demo_photo () = ((), Inr (ct, km))"
    using demo_encrypt by blast
  have "delivered demo_photo = demo_photo" by (simp add: delivered_def demo_photo_def)
  then show ?thesis using ciphers_interoperate [OF demo_laws, of demo_random "[]"] e by metis
qed

end
