(* ===== verification/Reports.thy ===== *)
theory Reports
  imports Wire Sha256
begin

text \<open>
  The false-positive log of the scam detector: \<open>packages/client/src/scam/reports.ts\<close> and the native sink of
  \<open>apps/mobile/src/scam/reporter.ts\<close>.

  The sink (\<open>ReportSink\<close>) is a record of functions on its own state. Both sinks of the sources are here: the
  one in memory, and the one that keeps JSON text in the native store, where a missing or failing native
  module reads as an empty log and drops the write. Each method is the composition of the parts its awaits
  separate, so that \<open>lost_report\<close> can interleave two first reports.
\<close>

subsection \<open>The sinks\<close>

record 'k report_sink =
  sk_load :: "'k \<Rightarrow> fp_report list"
  sk_save :: "fp_report list \<Rightarrow> 'k \<Rightarrow> 'k"

definition memory_sink :: "fp_report list report_sink" where
  "memory_sink = \<lparr>sk_load = (\<lambda>k. k), sk_save = (\<lambda>rs k. rs)\<rparr>"

text \<open>The JSON of a report. A score of \<open>h\<close> hundredths prints as the shortest decimal.\<close>

definition category_name :: "scam_category \<Rightarrow> jstr" where
  "category_name c = (case c of Advance_fee \<Rightarrow> js ''advance_fee'' | Investment_fraud \<Rightarrow> js ''investment_fraud''
     | Romance \<Rightarrow> js ''romance'' | Job_offer \<Rightarrow> js ''job_offer'' | Impersonation \<Rightarrow> js ''impersonation''
     | Phishing \<Rightarrow> js ''phishing'' | Lottery \<Rightarrow> js ''lottery'' | Otp_solicitation \<Rightarrow> js ''otp_solicitation''
     | Deepfake \<Rightarrow> js ''deepfake'' | Rental_escrow \<Rightarrow> js ''rental_escrow'')"

definition all_categories :: "scam_category list" where
  "all_categories = [Advance_fee, Investment_fraud, Romance, Job_offer, Impersonation, Phishing, Lottery,
     Otp_solicitation, Deepfake, Rental_escrow]"

definition category_of_name :: "jstr \<Rightarrow> scam_category option" where
  "category_of_name s = find (\<lambda>c. category_name c = s) all_categories"

definition digit :: "nat \<Rightarrow> unit16" where
  "digit n = of_nat (48 + n)"

definition score_json :: "int \<Rightarrow> json" where
  "score_json h =
    (let q = nat h div 100; r = nat h mod 100 in
     if r = 0 then JInt (int q)
     else JFrac (dec_digits q @ 46 # digit (r div 10) # (if r mod 10 = 0 then [] else [digit (r mod 10)])))"

definition score_of_json :: "json option \<Rightarrow> int option" where
  "score_of_json v =
    (case v of
       Some (JInt i) \<Rightarrow> Some (100 * i)
     | Some (JFrac s) \<Rightarrow>
         (case p_int s of
            Some (d, c # f) \<Rightarrow>
              if length f = 1 then Some (int (digits_val d * 100 + digits_val f * 10))
              else if length f = 2 then Some (int (digits_val d * 100 + digits_val f)) else None
          | _ \<Rightarrow> None)
     | _ \<Rightarrow> None)"

definition verdict_json :: "scam_verdict \<Rightarrow> json" where
  "verdict_json v = JObj [(js ''flagged'', JBool (flagged v)),
     (js ''category'', (case category v of None \<Rightarrow> JNull | Some c \<Rightarrow> JStr (category_name c))),
     (js ''score'', score_json (score v)), (js ''modelVersion'', JStr (modelVersion v))]"

definition report_json :: "fp_report \<Rightarrow> json" where
  "report_json r = JObj [(js ''textHash'', JStr (textHash r)), (js ''verdict'', verdict_json (fp_verdict r)),
     (js ''reportedAt'', JInt (reportedAt r))]"

definition category_of_json :: "json option \<Rightarrow> scam_category option option" where
  "category_of_json v = (case v of Some JNull \<Rightarrow> Some None
     | Some (JStr s) \<Rightarrow> map_option Some (category_of_name s) | _ \<Rightarrow> None)"

definition verdict_of_json :: "json \<Rightarrow> scam_verdict option" where
  "verdict_of_json v =
    (case (as_bool (field v ''flagged''), category_of_json (field v ''category''),
           score_of_json (field v ''score''), as_str (field v ''modelVersion'')) of
       (Some f, Some c, Some s, Some m) \<Rightarrow> Some \<lparr>flagged = f, category = c, score = s, modelVersion = m\<rparr>
     | _ \<Rightarrow> None)"

definition report_of_json :: "json \<Rightarrow> fp_report option" where
  "report_of_json v =
    (case (as_str (field v ''textHash''), Option.bind (field v ''verdict'') verdict_of_json, as_int (field v ''reportedAt'')) of
       (Some h, Some w, Some t) \<Rightarrow> Some \<lparr>textHash = h, fp_verdict = w, reportedAt = t\<rparr>
     | _ \<Rightarrow> None)"

fun reports_of_json :: "json \<Rightarrow> fp_report list option" where
  "reports_of_json (JArr vs) = those (map report_of_json vs)"
| "reports_of_json _ = None"

record report_file =
  rf_works :: bool
  rf_text :: "jstr option"

text \<open>\<open>JSON.parse(json) as FalsePositiveReport[]\<close>: a text that is not a list of reports stands for the array
  nobody can read a report from.\<close>

definition native_sink :: "report_file report_sink" where
  "native_sink =
    \<lparr>sk_load = (\<lambda>k. if \<not> rf_works k then []
         else (case rf_text k of None \<Rightarrow> []
               | Some t \<Rightarrow> (case Option.bind (json_parse t) reports_of_json of None \<Rightarrow> [] | Some rs \<Rightarrow> rs))),
     sk_save = (\<lambda>rs k. if rf_works k then k\<lparr>rf_text := Some (stringify (JArr (map report_json rs)))\<rparr> else k)\<rparr>"

subsection \<open>The reporter\<close>

definition hashText :: "jstr \<Rightarrow> jstr" where
  "hashText t = bytes_to_base64 (sha256 (utf8_encode t))"

record reporter =
  pending :: "fp_report list"
  loaded :: bool

definition fresh_reporter :: reporter where
  "fresh_reporter = \<lparr>pending = [], loaded = False\<rparr>"

text \<open>\<open>ensureLoaded\<close> after its await.\<close>

definition load_done :: "fp_report list \<Rightarrow> reporter \<Rightarrow> reporter" where
  "load_done rs s = s\<lparr>pending := rs, loaded := True\<rparr>"

definition ensureLoaded :: "'k report_sink \<Rightarrow> reporter \<times> 'k \<Rightarrow> reporter \<times> 'k" where
  "ensureLoaded S sk = (if loaded (fst sk) then sk else (load_done (sk_load S (snd sk)) (fst sk), snd sk))"

definition save_pending :: "'k report_sink \<Rightarrow> reporter \<times> 'k \<Rightarrow> reporter \<times> 'k" where
  "save_pending S sk = (fst sk, sk_save S (pending (fst sk)) (snd sk))"

text \<open>\<open>report\<close> after \<open>ensureLoaded\<close>.\<close>

definition push_report :: "'k report_sink \<Rightarrow> jstr \<Rightarrow> scam_verdict \<Rightarrow> int \<Rightarrow> reporter \<times> 'k \<Rightarrow> reporter \<times> 'k" where
  "push_report S t v now sk =
    save_pending S ((fst sk)\<lparr>pending := pending (fst sk) @ [\<lparr>textHash = hashText t, fp_verdict = v, reportedAt = now\<rparr>]\<rparr>, snd sk)"

definition report :: "'k report_sink \<Rightarrow> jstr \<Rightarrow> scam_verdict \<Rightarrow> int \<Rightarrow> reporter \<times> 'k \<Rightarrow> reporter \<times> 'k" where
  "report S t v now sk = push_report S t v now (ensureLoaded S sk)"

definition pendingCount :: "'k report_sink \<Rightarrow> reporter \<times> 'k \<Rightarrow> (reporter \<times> 'k) \<times> nat" where
  "pendingCount S sk = (let sk1 = ensureLoaded S sk in (sk1, length (pending (fst sk1))))"

definition flush :: "'k report_sink \<Rightarrow> reporter \<times> 'k \<Rightarrow> (reporter \<times> 'k) \<times> fp_report list" where
  "flush S sk =
    (let sk1 = ensureLoaded S sk in
     (save_pending S ((fst sk1)\<lparr>pending := []\<rparr>, snd sk1), pending (fst sk1)))"

definition restore :: "'k report_sink \<Rightarrow> fp_report list \<Rightarrow> reporter \<times> 'k \<Rightarrow> reporter \<times> 'k" where
  "restore S batch sk =
    (let sk1 = ensureLoaded S sk in
     save_pending S ((fst sk1)\<lparr>pending := batch @ pending (fst sk1)\<rparr>, snd sk1))"

subsection \<open>The JSON of a report survives\<close>

lemma digit_props:
  assumes "n < 10"
  shows "unat (digit n) = 48 + n" "is_digit (digit n)"
proof -
  show u: "unat (digit n) = 48 + n" unfolding digit_def by (rule unat_digit [OF assms])
  show "is_digit (digit n)" using u assms by (simp add: is_digit_def word_le_nat_alt)
qed

lemma p_int_dot: "p_int (dec_digits n @ 46 # f) = Some (dec_digits n, 46 # f)"
proof -
  have dot: "\<not> is_digit 46" by (simp add: is_digit_def word_le_nat_alt)
  have d: "takeWhile is_digit (dec_digits n @ 46 # f) = dec_digits n" "dropWhile is_digit (dec_digits n @ 46 # f) = 46 # f"
    using dec_digits_digits [of n] dot by (simp_all add: takeWhile_append2 dropWhile_append2 list_all_iff)
  have "\<not> (hd (dec_digits n) = 48 \<and> tl (dec_digits n) \<noteq> [])"
    by (cases "n = 0") (simp_all add: dec_digits_0 dec_digits_lead)
  with d show ?thesis by (auto simp: p_int_def Let_def)
qed

lemma score_roundtrip:
  assumes "0 \<le> h"
  shows "wf_json (score_json h)" and "score_of_json (Some (score_json h)) = Some h"
proof -
  define q where "q = nat h div 100"
  define r where "r = nat h mod 100"
  have h: "h = int (q * 100 + r)" using assms by (simp add: q_def r_def)
  have r: "r div 10 < 10" "r mod 10 < 10" by (simp_all add: r_def)
  note d = digit_props [OF r(1)] digit_props [OF r(2)]
  have j: "score_json h = (if r = 0 then JInt (int q)
      else JFrac (dec_digits q @ 46 # digit (r div 10) # (if r mod 10 = 0 then [] else [digit (r mod 10)])))"
    by (simp add: score_json_def Let_def q_def r_def)
  show "wf_json (score_json h)" by (simp add: j frac_text_def p_int_dot d)
  show "score_of_json (Some (score_json h)) = Some h"
  proof (cases "r = 0")
    case True
    then show ?thesis by (simp add: j score_of_json_def) (simp add: h)
  next
    case False
    have "r mod 10 = 0 \<longrightarrow> int (r div 10) * 10 = int r" by presburger
    then have "score_of_json (Some (score_json h)) = Some (int (q * 100 + (r div 10 * 10 + r mod 10)))"
      using d(1,3) False unfolding j
      by (simp add: score_of_json_def p_int_dot) (simp add: digits_val_def mult_div_mod_eq)
    then show ?thesis by (simp only: div_mult_mod_eq h)
  qed
qed

lemma category_table: "list_all (\<lambda>c. category_of_name (category_name c) = Some c) all_categories"
  by code_simp

lemma category_roundtrip: "category_of_name (category_name c) = Some c"
proof -
  have "c \<in> set all_categories" by (cases c) (simp_all add: all_categories_def)
  then show ?thesis using category_table by (simp add: list_all_iff)
qed

definition fine_report :: "fp_report \<Rightarrow> bool" where
  "fine_report r = (0 \<le> score (fp_verdict r))"

lemma report_roundtrip:
  assumes "fine_report r"
  shows "wf_json (report_json r)" and "report_of_json (report_json r) = Some r"
proof -
  note sc = score_roundtrip [OF assms [unfolded fine_report_def]]
  obtain f c s m where v: "fp_verdict r = \<lparr>flagged = f, category = c, score = s, modelVersion = m\<rparr>"
    by (cases "fp_verdict r") auto
  have s: "score (fp_verdict r) = s" by (simp add: v)
  have "verdict_of_json (verdict_json (fp_verdict r)) = Some (fp_verdict r)"
    using sc(2) unfolding s
    by (simp add: v verdict_json_def verdict_of_json_def category_of_json_def category_roundtrip payload_defs
        split: option.split)
  then show "report_of_json (report_json r) = Some r"
    by (cases r) (simp add: report_json_def report_of_json_def payload_defs)
  show "wf_json (report_json r)"
    using sc(1) unfolding s
    by (simp add: report_json_def verdict_json_def v payload_defs split: option.split)
qed

lemma those_map: "(\<And>x. x \<in> set xs \<Longrightarrow> f (g x) = Some x) \<Longrightarrow> those (map f (map g xs)) = Some xs"
  by (induction xs) auto

lemma file_roundtrip:
  assumes "list_all fine_report rs"
  shows "Option.bind (json_parse (stringify (JArr (map report_json rs)))) reports_of_json = Some rs"
proof -
  have "wf_json (JArr (map report_json rs))" using assms by (auto simp: list_all_iff report_roundtrip)
  moreover have "those (map report_of_json (map report_json rs)) = Some rs"
    by (rule those_map) (use assms in \<open>auto simp: list_all_iff report_roundtrip\<close>)
  ultimately show ?thesis by (simp add: json_roundtrip del: stringify.simps map_map)
qed

subsection \<open>The contract of a sink\<close>

locale report_store =
  fixes S :: "'k report_sink" and ok :: "'k \<Rightarrow> bool" and fine :: "fp_report \<Rightarrow> bool"
  assumes load_save: "ok k \<Longrightarrow> list_all fine rs \<Longrightarrow> sk_load S (sk_save S rs k) = rs"
    and ok_save: "ok k \<Longrightarrow> ok (sk_save S rs k)"
begin

definition synced :: "reporter \<times> 'k \<Rightarrow> bool" where
  "synced sk = (ok (snd sk) \<and> list_all fine (sk_load S (snd sk)) \<and>
     (loaded (fst sk) \<longrightarrow> pending (fst sk) = sk_load S (snd sk)))"

lemma fresh_synced: "ok k \<Longrightarrow> list_all fine (sk_load S k) \<Longrightarrow> synced (fresh_reporter, k)"
  by (simp add: synced_def fresh_reporter_def)

lemma ensure: "synced sk \<Longrightarrow> pending (fst (ensureLoaded S sk)) = sk_load S (snd sk) \<and>
    loaded (fst (ensureLoaded S sk)) \<and> snd (ensureLoaded S sk) = snd sk"
  by (simp add: synced_def ensureLoaded_def load_done_def)

lemma saved:
  assumes "ok k" "list_all fine rs" "pending s = rs"
  shows "synced (save_pending S (s, k)) \<and> sk_load S (snd (save_pending S (s, k))) = rs"
  using assms by (simp add: synced_def save_pending_def load_save ok_save)

lemma report_synced:
  assumes "synced sk" "fine \<lparr>textHash = hashText t, fp_verdict = v, reportedAt = now\<rparr>"
  shows "synced (report S t v now sk) \<and> sk_load S (snd (report S t v now sk)) =
    sk_load S (snd sk) @ [\<lparr>textHash = hashText t, fp_verdict = v, reportedAt = now\<rparr>]"
  unfolding report_def push_report_def
  using ensure [OF assms(1)] assms by (intro saved) (auto simp: synced_def)

lemma flush_synced:
  assumes "synced sk"
  shows "synced (fst (flush S sk)) \<and> sk_load S (snd (fst (flush S sk))) = [] \<and> snd (flush S sk) = sk_load S (snd sk)"
  using ensure [OF assms] assms saved [of "snd sk" "[]"] by (simp add: flush_def Let_def synced_def)

lemma restore_synced:
  assumes "synced sk" "list_all fine b"
  shows "synced (restore S b sk) \<and> sk_load S (snd (restore S b sk)) = b @ sk_load S (snd sk)"
  unfolding restore_def Let_def
  using ensure [OF assms(1)] assms by (intro saved) (auto simp: synced_def)

lemma count: "synced sk \<Longrightarrow> snd (pendingCount S sk) = length (sk_load S (snd sk))"
  by (simp add: pendingCount_def Let_def ensure)

end

interpretation in_memory: report_store memory_sink "\<lambda>_. True" "\<lambda>_. True"
  by unfold_locales (simp_all add: memory_sink_def)

interpretation on_device: report_store native_sink "rf_works :: report_file \<Rightarrow> bool" fine_report
proof unfold_locales
  fix k :: report_file and rs assume "rf_works k" "list_all fine_report rs"
  then show "sk_load native_sink (sk_save native_sink rs k) = rs"
    by (simp add: native_sink_def file_roundtrip del: stringify.simps)
qed (simp add: native_sink_def)

subsection \<open>The log\<close>

datatype report_op =
    ReportOp jstr scam_verdict int
  | FlushOp
  | RestoreOp "fp_report list"
  | RestartOp

text \<open>What the log is: a list of reports in order.\<close>

fun log_step :: "report_op \<Rightarrow> fp_report list \<Rightarrow> fp_report list" where
  "log_step (ReportOp t v now) l = l @ [\<lparr>textHash = hashText t, fp_verdict = v, reportedAt = now\<rparr>]"
| "log_step FlushOp l = []"
| "log_step (RestoreOp b) l = b @ l"
| "log_step RestartOp l = l"

fun reporter_step :: "'k report_sink \<Rightarrow> report_op \<Rightarrow> reporter \<times> 'k \<Rightarrow> reporter \<times> 'k" where
  "reporter_step S (ReportOp t v now) sk = report S t v now sk"
| "reporter_step S FlushOp sk = fst (flush S sk)"
| "reporter_step S (RestoreOp b) sk = restore S b sk"
| "reporter_step S RestartOp sk = (fresh_reporter, snd sk)"

fun fine_op :: "report_op \<Rightarrow> bool" where
  "fine_op (ReportOp t v now) = (0 \<le> score v)"
| "fine_op (RestoreOp b) = list_all fine_report b"
| "fine_op _ = True"

lemma step_refines:
  assumes "on_device.synced sk" "fine_op op"
  shows "on_device.synced (reporter_step native_sink op sk) \<and>
    sk_load native_sink (snd (reporter_step native_sink op sk)) = log_step op (sk_load native_sink (snd sk))"
proof (cases op)
  case (ReportOp t v now)
  then show ?thesis using on_device.report_synced [OF assms(1), of t v now] assms(2) by (simp add: fine_report_def)
next
  case FlushOp
  then show ?thesis using on_device.flush_synced [OF assms(1)] by simp
next
  case (RestoreOp b)
  then show ?thesis using on_device.restore_synced [OF assms(1), of b] assms(2) by simp
next
  case RestartOp
  then show ?thesis using assms(1) on_device.fresh_synced [of "snd sk"] by (simp add: on_device.synced_def)
qed

lemma steps_refine:
  "on_device.synced sk \<Longrightarrow> list_all fine_op ops \<Longrightarrow>
   on_device.synced (fold (reporter_step native_sink) ops sk) \<and>
   sk_load native_sink (snd (fold (reporter_step native_sink) ops sk)) = fold log_step ops (sk_load native_sink (snd sk))"
proof (induction ops arbitrary: sk)
  case (Cons op ops)
  then show ?case using step_refines [OF Cons.prems(1), of op] by simp
qed simp

definition empty_file :: report_file where
  "empty_file = \<lparr>rf_works = True, rf_text = None\<rparr>"

lemma empty_synced: "on_device.synced (fresh_reporter, empty_file)"
  by (rule on_device.fresh_synced) (simp_all add: empty_file_def native_sink_def)

text \<open>C35: The report log is durable: over a working device store, any run of completed reports, flushes, restores and
  app restarts leaves the stored log as the plain list it specifies; the pending count is its length, and a
  flush hands out exactly that list and, when its upload failed, restoring it loses nothing.\<close>

theorem report_log_refines_list:
  assumes "list_all fine_op ops"
  shows "let sk = fold (reporter_step native_sink) ops (fresh_reporter, empty_file); l = fold log_step ops [] in
    sk_load native_sink (snd sk) = l \<and> snd (pendingCount native_sink sk) = length l \<and>
    snd (flush native_sink sk) = l \<and>
    sk_load native_sink (snd (restore native_sink (snd (flush native_sink sk)) (fst (flush native_sink sk)))) = l"
proof -
  let ?sk = "fold (reporter_step native_sink) ops (fresh_reporter, empty_file)"
  have s: "on_device.synced ?sk" "sk_load native_sink (snd ?sk) = fold log_step ops []"
    using steps_refine [OF empty_synced assms] by (simp_all add: empty_file_def native_sink_def)
  note f = on_device.flush_synced [OF s(1)]
  have "list_all fine_report (snd (flush native_sink ?sk))" using f s(1) by (simp add: on_device.synced_def)
  then have "sk_load native_sink (snd (restore native_sink (snd (flush native_sink ?sk)) (fst (flush native_sink ?sk)))) =
      fold log_step ops []"
    using on_device.restore_synced [of "fst (flush native_sink ?sk)"] f s(2) by simp
  then show ?thesis using f s on_device.count [OF s(1)] by (simp add: Let_def)
qed

lemma report_log_refines_list_witness:
  "snd (pendingCount native_sink (reporter_step native_sink RestartOp
     (report native_sink [65] \<lparr>flagged = True, category = Some Phishing, score = 55, modelVersion = []\<rparr> 7 (fresh_reporter, empty_file)))) = 1"
  using report_log_refines_list
    [of "[ReportOp [65] \<lparr>flagged = True, category = Some Phishing, score = 55, modelVersion = []\<rparr> 7, RestartOp]"]
  by (simp add: Let_def)

text \<open>A report never carries the text: what is stored is 44 base64 characters of its SHA-256 for a text of any
  length, and two texts with the same hash leave the same store behind.\<close>

theorem report_hides_text:
  "length (hashText t) = 44 \<and>
   (hashText t = hashText u \<longrightarrow> report S t v now sk = report S u v now sk) \<and>
   base64_to_bytes (hashText t) = Some (sha256 (utf8_encode t))"
proof -
  have "length (b64_enc ns) = 44" if "length ns = 32" for ns
  proof -
    have "(5 + n) div 3 = Suc (Suc (Suc n) div 3)" for n :: nat by presburger
    then have "length (b64_enc ns) = (length ns + 2) div 3 * 4" by (induction ns rule: b64_enc.induct) auto
    with that show ?thesis by simp
  qed
  then show ?thesis
    by (simp add: hashText_def bytes_to_base64_def [symmetric] base64_roundtrip report_def push_report_def)
      (simp add: bytes_to_base64_def length_sha256)
qed

lemma report_hides_text_witness: "length (hashText (js ''read me the code'')) = 44"
  using report_hides_text [of "js ''read me the code''" "js ''read me the code''" memory_sink
      "\<lparr>flagged = True, category = None, score = 55, modelVersion = []\<rparr>" 3 "(fresh_reporter, [])"] by simp

text \<open>Two reports made before the log is loaded can lose one: both read the log, the first is stored, and the second
  reader then replaces the pending list by what it read before.\<close>

theorem first_reports_race:
  "let r = sk_load native_sink empty_file;
       sk1 = push_report native_sink [65] v 1 (load_done r fresh_reporter, empty_file);
       sk2 = push_report native_sink [66] v 2 (load_done r (fst sk1), snd sk1)
   in pending (fst sk2) = [\<lparr>textHash = hashText [66], fp_verdict = v, reportedAt = 2\<rparr>] \<and>
      rf_text (snd sk2) = Some (stringify (JArr [report_json \<lparr>textHash = hashText [66], fp_verdict = v, reportedAt = 2\<rparr>]))"
  by (simp add: Let_def push_report_def load_done_def save_pending_def native_sink_def empty_file_def del: stringify.simps)

end
