(* ===== verification/TextCodec.thy ===== *)
theory TextCodec
  imports Codec
begin

text \<open>
  \<open>TextEncoder\<close> and \<open>TextDecoder\<close> of the standard library, as \<open>packages/crypto/src/session.ts\<close> uses them: the
  encoder writes U+FFFD for a lone surrogate, the decoder is the UTF-8 decoder of the Encoding standard, with its
  replacement characters and the byte order mark it drops. On text without a lone surrogate the encoder is the
  hand-written one of \<open>client.ts\<close>.
\<close>

definition surrogate :: "unit16 \<Rightarrow> bool" where
  "surrogate c = (0xd800 \<le> c \<and> c \<le> 0xdfff)"

fun usv :: "jstr \<Rightarrow> jstr" where
  "usv [] = []"
| "usv (c # cs) =
    (if 0xd800 \<le> c \<and> c \<le> 0xdbff
     then (case cs of [] \<Rightarrow> [0xfffd]
           | l # ls \<Rightarrow> if 0xdc00 \<le> l \<and> l \<le> 0xdfff then c # l # usv ls else 0xfffd # usv cs)
     else (if surrogate c then 0xfffd else c) # usv cs)"

definition text_encode :: "jstr \<Rightarrow> byte list" where
  "text_encode s = utf8_encode (usv s)"

definition code_units :: "nat \<Rightarrow> jstr" where
  "code_units cp = (if cp < 0x10000 then [of_nat cp]
     else [of_nat (0xd800 + (cp - 0x10000) div 0x400), of_nat (0xdc00 + (cp - 0x10000) mod 0x400)])"

text \<open>The decoder: the code point so far, how many bytes are missing, and the range of the next one.\<close>

definition first_byte :: "nat \<Rightarrow> (nat \<times> nat \<times> nat \<times> nat) option" where
  "first_byte b =
    (if 0xc2 \<le> b \<and> b \<le> 0xdf then Some (b mod 32, 1, 0x80, 0xbf)
     else if 0xe0 \<le> b \<and> b \<le> 0xef
       then Some (b mod 16, 2, if b = 0xe0 then 0xa0 else 0x80, if b = 0xed then 0x9f else 0xbf)
     else if 0xf0 \<le> b \<and> b \<le> 0xf4
       then Some (b mod 8, 3, if b = 0xf0 then 0x90 else 0x80, if b = 0xf4 then 0x8f else 0xbf)
     else None)"

function utf8_std :: "(nat \<times> nat \<times> nat \<times> nat) option \<Rightarrow> nat list \<Rightarrow> jstr" where
  "utf8_std None [] = []"
| "utf8_std (Some st) [] = [0xfffd]"
| "utf8_std None (b # bs) =
    (if b < 0x80 then of_nat b # utf8_std None bs
     else (case first_byte b of None \<Rightarrow> 0xfffd # utf8_std None bs | Some st \<Rightarrow> utf8_std (Some st) bs))"
| "utf8_std (Some (cp, need, lo, hi)) (b # bs) =
    (if b < lo \<or> hi < b then 0xfffd # utf8_std None (b # bs)
     else if need \<le> 1 then code_units (cp * 64 + b mod 64) @ utf8_std None bs
     else utf8_std (Some (cp * 64 + b mod 64, need - 1, 0x80, 0xbf)) bs)"
  by pat_completeness auto
termination
  by (relation "measure (\<lambda>(st, bs). 2 * length bs + (if st = None then 0 else 1))") auto

definition text_decode :: "byte list \<Rightarrow> jstr" where
  "text_decode bs =
    (let ns = map unat bs in utf8_std None (if take 3 ns = [0xef, 0xbb, 0xbf] then drop 3 ns else ns))"

subsection \<open>Decoding what was encoded\<close>

lemma usv_wf: "wf16 (usv s)"
proof (induction s rule: usv.induct)
  case (2 c cs)
  have repl: "\<not> (0xd800 \<le> (0xfffd :: unit16) \<and> (0xfffd :: unit16) \<le> 0xdbff)" "\<not> ((0xfffd :: unit16) \<le> 0xdfff)" by simp_all
  show ?case using 2 repl by (auto simp: surrogate_def word_le_nat_alt split: list.splits)
qed simp

lemma usv_id: "wf16 s \<Longrightarrow> usv s = s"
proof (induction s rule: wf16.induct)
  case (2 c cs)
  show ?case
  proof (cases "0xd800 \<le> c \<and> c \<le> 0xdbff")
    case True
    then obtain l ls where cs: "cs = l # ls" and l: "0xdc00 \<le> l \<and> l \<le> 0xdfff" "wf16 ls"
      using 2(3) by (auto split: list.splits)
    have "usv ls = ls" using 2(1) [OF True cs] l by simp
    then show ?thesis using True cs l(1) by simp
  next
    case False
    then have c: "\<not> (0xdc00 \<le> c \<and> c \<le> 0xdfff)" "wf16 cs" using 2(3) by auto
    then have "usv cs = cs" using 2(2) [OF False] by simp
    moreover have "\<not> surrogate c" using False c(1) by (auto simp: surrogate_def word_le_nat_alt)
    ultimately show ?thesis using False by auto
  qed
qed simp

lemma unat_u8: "unat (u8 x) = unat x mod 256"
  unfolding u8_def by (simp add: unsigned_ucast_eq take_bit_eq_mod)

lemma unat_low: "unat ((x :: 32 word) AND 0x3f) = unat x mod 64"
  unfolding masks32 by (simp flip: take_bit_eq_mask add: unsigned_take_bit_eq) (simp add: take_bit_eq_mod)

lemma unat_high: "unat (drop_bit n (x :: 32 word)) = unat x div 2 ^ n"
  by (simp only: unat_drop_bit_eq) (simp only: drop_bit_eq_div)

lemma cont_byte: "unat (u8 (0x80 OR ((x :: 32 word) AND 0x3f))) = 128 + unat x mod 64"
proof -
  have "unat (x AND 0x3f) < 2 ^ 7" by (simp only: unat_low) (simp add: less_le_trans [OF mod_less_divisor])
  then have "unat (push_bit 7 1 OR (x AND 0x3f)) = 128 + unat x mod 64"
    using join_bits [of "1 :: 32 word" 1 "x AND 0x3f" 7] by (simp only: unat_low) simp
  moreover have "128 + unat x mod 64 < 256" using mod_less_divisor [of 64 "unat x"] by linarith
  ultimately show ?thesis by (simp add: unat_u8)
qed

lemma lead_bytes:
  fixes x :: "32 word"
  shows "unat x < 2 ^ 11 \<Longrightarrow> unat (u8 (0xc0 OR drop_bit 6 x)) = 192 + unat x div 64"
    and "unat x < 2 ^ 16 \<Longrightarrow> unat (u8 (0xe0 OR drop_bit 12 x)) = 224 + unat x div 4096"
    and "unat x < 2 ^ 21 \<Longrightarrow> unat (u8 (0xf0 OR drop_bit 18 x)) = 240 + unat x div 262144"
  using lead_byte [of "drop_bit 6 x" 6] lead_byte [of "drop_bit 12 x" 5] lead_byte [of "drop_bit 18 x" 4]
    unat_drop_bit_less [of x 6 5] unat_drop_bit_less [of x 12 4] unat_drop_bit_less [of x 18 3]
  by (simp_all add: unat_u32 unat_high masks32)

lemma add_mods:
  "k < 64 \<Longrightarrow> (128 + k) mod 64 = (k :: nat)" "k < 32 \<Longrightarrow> (192 + k) mod 32 = (k :: nat)"
  "k < 16 \<Longrightarrow> (224 + k) mod 16 = (k :: nat)" "k < 8 \<Longrightarrow> (240 + k) mod 8 = (k :: nat)"
  using mod_mult_self3 [of 2 64 k] mod_mult_self3 [of 6 32 k] mod_mult_self3 [of 14 16 k] mod_mult_self3 [of 30 8 k]
  by simp_all

lemma mod_64: "(n :: nat) mod 64 < 64" "n mod 64 \<le> 63"
  using mod_less_divisor [of 64 n] by linarith+

lemma div_64: "(n :: nat) div 4096 = n div 64 div 64" "n div 262144 = n div 64 div 64 div 64"
  by (simp_all add: div_mult2_eq [symmetric])

declare utf8_std.simps [simp del]

lemma std_ascii: "n < 128 \<Longrightarrow> utf8_std None (n # r) = of_nat n # utf8_std None r"
  by (simp add: utf8_std.simps)

lemma std_first: "128 \<le> b \<Longrightarrow> first_byte b = Some st \<Longrightarrow> utf8_std None (b # bs) = utf8_std (Some st) bs"
  by (simp add: utf8_std.simps)

lemma std_cont:
  assumes "lo \<le> 128 + k" "128 + k \<le> hi" "k < 64" "1 < need"
  shows "utf8_std (Some (cp, need, lo, hi)) ((128 + k) # r) = utf8_std (Some (cp * 64 + k, need - 1, 0x80, 0xbf)) r"
  using assms by (simp add: utf8_std.simps add_mods)

lemma std_last:
  assumes "lo \<le> 128 + k" "128 + k \<le> hi" "k < 64"
  shows "utf8_std (Some (cp, 1, lo, hi)) ((128 + k) # r) = code_units (cp * 64 + k) @ utf8_std None r"
  using assms by (simp add: utf8_std.simps add_mods)

lemma std_two:
  assumes "128 \<le> n" "n < 2048"
  shows "utf8_std None ((192 + n div 64) # (128 + n mod 64) # r) = of_nat n # utf8_std None r"
proof -
  have d: "2 \<le> n div 64" "n div 64 < 32" using assms by auto
  then have "first_byte (192 + n div 64) = Some (n div 64, 1, 128, 191)"
    by (simp add: first_byte_def add_mods)
  then have "utf8_std None ((192 + n div 64) # (128 + n mod 64) # r) = code_units (n div 64 * 64 + n mod 64) @ utf8_std None r"
    using std_first [of "192 + n div 64"] std_last [of 128 "n mod 64" 191 "n div 64" r] mod_64 [of n] by simp
  then show ?thesis using assms(2) by (simp add: code_units_def)
qed

lemma sextet_bounds3:
  fixes a b m n :: nat
  assumes "(a * 64 + b) * 64 + m = n" "m \<le> 63"
  shows "a = 0 \<Longrightarrow> 2048 \<le> n \<Longrightarrow> 32 \<le> b" "a = 13 \<Longrightarrow> 32 \<le> b \<Longrightarrow> 0xd800 \<le> n"
    "a = 13 \<Longrightarrow> b < 64 \<Longrightarrow> n \<le> 0xdfff"
  using assms by simp_all

lemma sextet_bounds4:
  fixes a b c m n :: nat
  assumes "((a * 64 + b) * 64 + c) * 64 + m = n" "m \<le> 63" "c < 64"
  shows "a = 0 \<Longrightarrow> 65536 \<le> n \<Longrightarrow> 16 \<le> b" "a = 4 \<Longrightarrow> n < 0x110000 \<Longrightarrow> b < 16"
  using assms by simp_all

lemma std_three:
  assumes "2048 \<le> n" "n < 65536" "\<not> (0xd800 \<le> n \<and> n \<le> 0xdfff)"
  shows "utf8_std None ((224 + n div 4096) # (128 + n div 64 mod 64) # (128 + n mod 64) # r) = of_nat n # utf8_std None r"
proof -
  define a b where "a = n div 4096" and "b = n div 64 mod 64"
  have a: "a < 16" using assms(2) by (auto simp: a_def)
  have b: "b < 64" by (simp add: b_def)
  have n: "(a * 64 + b) * 64 + n mod 64 = n" unfolding a_def b_def div_64 by (simp only: div_mult_mod_eq)
  have lo: "32 \<le> b" if "a = 0" using sextet_bounds3(1) [OF n mod_64(2)] that assms(1) by blast
  have hi: "b < 32" if "a = 13"
  proof (rule ccontr)
    assume "\<not> b < 32"
    then have "0xd800 \<le> n" "n \<le> 0xdfff" using sextet_bounds3(2,3) [OF n mod_64(2)] that b by simp_all
    then show False using assms(3) by blast
  qed
  have "first_byte (224 + a) = Some (a, 2, if a = 0 then 0xa0 else 0x80, if a = 13 then 0x9f else 0xbf)"
    using a by (simp add: first_byte_def add_mods)
  then have "utf8_std None ((224 + a) # (128 + b) # (128 + n mod 64) # r) =
      utf8_std (Some (a, 2, if a = 0 then 0xa0 else 0x80, if a = 13 then 0x9f else 0xbf)) ((128 + b) # (128 + n mod 64) # r)"
    using a by (intro std_first) auto
  also have "\<dots> = utf8_std (Some (a * 64 + b, 2 - 1, 0x80, 0xbf)) ((128 + n mod 64) # r)"
    by (rule std_cont) (use b lo hi in auto)
  also have "\<dots> = code_units ((a * 64 + b) * 64 + n mod 64) @ utf8_std None r"
    using std_last [of 128 "n mod 64" 191 "a * 64 + b" r] mod_64 [of n] by simp
  finally show ?thesis unfolding n using assms(2) by (simp add: a_def b_def code_units_def)
qed

lemma std_four:
  assumes "65536 \<le> n" "n < 0x110000"
  shows "utf8_std None ((240 + n div 262144) # (128 + n div 4096 mod 64) # (128 + n div 64 mod 64) # (128 + n mod 64) # r) =
    code_units n @ utf8_std None r"
proof -
  define a b c where "a = n div 262144" and "b = n div 4096 mod 64" and "c = n div 64 mod 64"
  have a: "a \<le> 4" using assms(2) by (auto simp: a_def)
  have b: "b < 64" "c < 64" by (simp_all add: b_def c_def)
  have n: "((a * 64 + b) * 64 + c) * 64 + n mod 64 = n" unfolding a_def b_def c_def div_64 by (simp only: div_mult_mod_eq)
  have lo: "16 \<le> b" if "a = 0" using sextet_bounds4(1) [OF n mod_64(2) b(2)] that assms(1) by blast
  have hi: "b < 16" if "a = 4" using sextet_bounds4(2) [OF n mod_64(2) b(2)] that assms(2) by blast
  have "first_byte (240 + a) = Some (a, 3, if a = 0 then 0x90 else 0x80, if a = 4 then 0x8f else 0xbf)"
    using a by (simp add: first_byte_def add_mods)
  then have "utf8_std None ((240 + a) # (128 + b) # (128 + c) # (128 + n mod 64) # r) =
      utf8_std (Some (a, 3, if a = 0 then 0x90 else 0x80, if a = 4 then 0x8f else 0xbf)) ((128 + b) # (128 + c) # (128 + n mod 64) # r)"
    using a by (intro std_first) auto
  also have "\<dots> = utf8_std (Some (a * 64 + b, 3 - 1, 0x80, 0xbf)) ((128 + c) # (128 + n mod 64) # r)"
    by (rule std_cont) (use b lo hi in auto)
  also have "\<dots> = utf8_std (Some ((a * 64 + b) * 64 + c, 3 - 1 - 1, 0x80, 0xbf)) ((128 + n mod 64) # r)"
    by (rule std_cont) (use b in auto)
  also have "\<dots> = code_units (((a * 64 + b) * 64 + c) * 64 + n mod 64) @ utf8_std None r"
    using std_last [of 128 "n mod 64" 191 "(a * 64 + b) * 64 + c" r] mod_64 [of n] by simp
  finally show ?thesis unfolding n by (simp only: a_def b_def c_def)
qed

lemma astral_value:
  fixes h l :: unit16
  assumes "0xd800 \<le> h" "h \<le> 0xdbff" "0xdc00 \<le> l" "l \<le> 0xdfff"
  shows "unat (astral (ucast h) (ucast l)) = 0x10000 + (unat h - 0xd800) * 1024 + (unat l - 0xdc00)"
proof -
  define a b where "a = unat h - 0xd800" and "b = unat l - 0xdc00"
  have ab: "unat h = 0xd800 + a" "a < 1024" "unat l = 0xdc00 + b" "b < 1024"
    using assms by (auto simp: word_le_nat_alt a_def b_def)
  have "(0xd800 + a) mod 1024 = a" "(0xdc00 + b) mod 1024 = b"
    using ab mod_mult_self3 [of 54 1024 a] mod_mult_self3 [of 55 1024 b] by simp_all
  then have m: "unat ((ucast h :: 32 word) AND 0x3ff) = a" "unat ((ucast l :: 32 word) AND 0x3ff) = b"
    by (simp_all only: unat_and_3ff unat_u32 ab)
  have "unat (push_bit 10 ((ucast h :: 32 word) AND 0x3ff)) = a * 1024"
    using ab(2) by (simp only: push_bit_eq_mult unat_word_ariths m) simp
  then show ?thesis
    using ab(2,4) by (simp only: astral_def unat_word_ariths m a_def [symmetric] b_def [symmetric]) simp
qed

lemma astral_units:
  fixes h l :: unit16
  assumes "0xd800 \<le> h" "h \<le> 0xdbff" "0xdc00 \<le> l" "l \<le> 0xdfff"
  shows "code_units (unat (astral (ucast h) (ucast l))) = [h, l]"
    and "65536 \<le> unat (astral (ucast h) (ucast l))" and "unat (astral (ucast h) (ucast l)) < 0x110000"
proof -
  define a b where "a = unat h - 0xd800" and "b = unat l - 0xdc00"
  have ab: "unat h = 0xd800 + a" "a < 1024" "unat l = 0xdc00 + b" "b < 1024"
    using assms by (auto simp: word_le_nat_alt a_def b_def)
  have v: "unat (astral (ucast h) (ucast l)) = 0x10000 + (a * 1024 + b)"
    using astral_value [OF assms] by (simp add: a_def b_def)
  then show "65536 \<le> unat (astral (ucast h) (ucast l))" "unat (astral (ucast h) (ucast l)) < 0x110000"
    using ab(2,4) by linarith+
  have "(a * 1024 + b) div 1024 = a" "(a * 1024 + b) mod 1024 = b" using ab(4) by simp_all
  moreover have "of_nat (unat h) = h" "of_nat (unat l) = l" by simp_all
  ultimately show "code_units (unat (astral (ucast h) (ucast l))) = [h, l]"
    using ab(1,3) unfolding v by (simp add: code_units_def)
qed

lemma std_roundtrip: "wf16 s \<Longrightarrow> utf8_std None (map unat (utf8_encode s)) = s"
proof (induction s rule: wf16.induct)
  case 1 then show ?case by (simp add: utf8_std.simps)
next
  case (2 c cs)
  let ?x = "ucast c :: 32 word"
  have "unat c < 2 ^ LENGTH(16)" by (rule unsigned_less)
  then have c: "unat c < 65536" and x: "unat ?x < 2 ^ 16" by (simp_all add: unat_u32)
  show ?case
  proof (cases "0xd800 \<le> c \<and> c \<le> 0xdbff")
    case True
    with 2 obtain l ls where cs: "cs = l # ls" and l: "0xdc00 \<le> l" "l \<le> 0xdfff" "wf16 ls"
      by (auto split: list.splits)
    have IH: "utf8_std None (map unat (utf8_encode ls)) = ls" using 2 True cs l by simp
    have "\<not> ?x < 0x80" "\<not> ?x < 0x800" "0xd800 \<le> ?x" "?x \<le> 0xdbff" using True
      by (simp_all add: word_less_nat_alt word_le_nat_alt unat_u32)
    note t = this
    let ?cp = "astral ?x (ucast l)"
    note a = astral_units [OF conjunct1 [OF True] conjunct2 [OF True] l(1,2)]
    have "unat ?cp < 2 ^ 21" using a(3) by simp
    note lb = lead_bytes(3) [OF this]
    have "map unat (utf8_encode (c # cs)) = (240 + unat ?cp div 262144) # (128 + unat ?cp div 4096 mod 64) #
        (128 + unat ?cp div 64 mod 64) # (128 + unat ?cp mod 64) # map unat (utf8_encode ls)"
      using t by (simp only: utf8_encode.simps Let_def if_True if_False simp_thms opt0.simps cs list.sel list.map
          lb cont_byte unat_high) simp
    then show ?thesis using std_four [OF a(2,3)] a(1) IH by (simp add: cs)
  next
    case False
    then have t: "\<not> (0xd800 \<le> ?x \<and> ?x \<le> 0xdbff)" "wf16 cs" and nc: "\<not> (0xd800 \<le> unat c \<and> unat c \<le> 0xdfff)"
      using 2 by (auto simp: word_le_nat_alt unat_u32)
    have IH: "utf8_std None (map unat (utf8_encode cs)) = cs" using 2 False by simp
    consider "unat c < 128" | "128 \<le> unat c" "unat c < 2048" | "2048 \<le> unat c" by linarith
    then show ?thesis
    proof cases
      case 1
      then have "map unat (utf8_encode (c # cs)) = unat c # map unat (utf8_encode cs)"
        by (simp add: word_less_nat_alt unat_u32 unat_u8)
      then show ?thesis using std_ascii [OF 1] IH by simp
    next
      case 2
      then have "map unat (utf8_encode (c # cs)) =
          (192 + unat c div 64) # (128 + unat c mod 64) # map unat (utf8_encode cs)"
        using lead_bytes(1) [of ?x] cont_byte [of ?x] by (simp add: word_less_nat_alt unat_u32 Let_def)
      then show ?thesis using std_two [OF 2] IH by simp
    next
      case 3
      then have s: "\<not> ?x < 0x80" "\<not> ?x < 0x800" by (simp_all add: word_less_nat_alt unat_u32)
      have "map unat (utf8_encode (c # cs)) =
          (224 + unat c div 4096) # (128 + unat c div 64 mod 64) # (128 + unat c mod 64) # map unat (utf8_encode cs)"
        using s t(1) by (simp only: utf8_encode.simps Let_def if_False list.map lead_bytes(2) [OF x] cont_byte
            unat_high unat_u32) simp
      then show ?thesis using std_three [OF 3 c nc] IH by simp
    qed
  qed
qed

text \<open>The byte order mark: the decoder drops a leading U+FEFF.\<close>

definition drop_bom :: "jstr \<Rightarrow> jstr" where
  "drop_bom s = (case s of c # cs \<Rightarrow> if c = 0xfeff then cs else s | [] \<Rightarrow> [])"

lemma bom_bytes: "map unat (utf8_encode (0xfeff # cs)) = 0xef # 0xbb # 0xbf # map unat (utf8_encode cs)"
proof -
  have "map unat (utf8_encode [0xfeff]) = [0xef, 0xbb, 0xbf]" by code_simp
  then show ?thesis by (simp add: Let_def)
qed

lemma not_bom: "wf16 s \<Longrightarrow> take 3 (map unat (utf8_encode s)) = [0xef, 0xbb, 0xbf] \<Longrightarrow> \<exists>cs. s = 0xfeff # cs"
proof -
  assume s: "wf16 s" and t: "take 3 (map unat (utf8_encode s)) = [0xef, 0xbb, 0xbf]"
  then have "map unat (utf8_encode s) = 0xef # 0xbb # 0xbf # drop 3 (map unat (utf8_encode s))"
    by (metis append_Cons append_Nil append_take_drop_id)
  moreover have "utf8_std None (0xef # 0xbb # 0xbf # r) = 0xfeff # utf8_std None r" for r
    using std_three [of "0xfeff" r] by simp
  ultimately show ?thesis using std_roundtrip [OF s] by metis
qed

lemma text_roundtrip: "text_decode (text_encode s) = drop_bom (usv s)"
proof -
  let ?b = "map unat (utf8_encode (usv s))"
  note rt = std_roundtrip [OF usv_wf [of s]]
  show ?thesis
  proof (cases "take 3 ?b = [0xef, 0xbb, 0xbf]")
    case True
    then obtain cs where cs: "usv s = 0xfeff # cs" using not_bom [OF usv_wf] by blast
    then have "wf16 cs" using usv_wf [of s] by simp
    then show ?thesis
      using True std_roundtrip [of cs] unfolding text_decode_def text_encode_def Let_def cs bom_bytes
      by (simp add: drop_bom_def)
  next
    case False
    then have "drop_bom (usv s) = usv s"
      using bom_bytes by (auto simp: drop_bom_def split: list.split)
    then show ?thesis using False rt by (simp add: text_decode_def text_encode_def Let_def)
  qed
qed

end
