(* ===== verification/SignalStores.thy ===== *)
theory SignalStores
  imports Wire
begin

text \<open>
  The five in-memory stores of \<open>packages/crypto/src/stores.ts\<close>. An object of libsignal is represented by its
  serialised bytes; \<open>compare\<close> on public keys is 0 exactly on equal bytes. The result \<open>None\<close> of an option-valued
  operation is \<open>null\<close> for \<open>getSession\<close> and \<open>getIdentity\<close>, and a thrown error for the prekey stores.
\<close>

type_synonym signal_bytes = "byte list"

text \<open>\<open>ProtocolAddress\<close> and its key.\<close>

record address =
  addr_name :: jstr
  addr_device :: int

definition addrKey :: "address \<Rightarrow> jstr" where
  "addrKey a = addr_name a @ 46 # int_str (addr_device a)"

datatype identity_change = NewOrUnchanged | ReplacedExisting

record prekey_record =
  pk_id :: int
  pk_public :: signal_bytes
  pk_private :: signal_bytes

record signed_record =
  sg_id :: int
  sg_time :: int
  sg_public :: signal_bytes
  sg_private :: signal_bytes
  sg_signature :: signal_bytes

record signal_stores =
  identityKey :: signal_bytes
  registrationId :: int
  sessions :: "(jstr, signal_bytes) jsmap"
  known :: "(jstr, signal_bytes) jsmap"
  prekeys :: "(int, prekey_record) jsmap"
  signedKeys :: "(int, signed_record) jsmap"
  kyberKeys :: "(int, signed_record) jsmap"
  kyberUsed :: "int list"

definition new_stores :: "signal_bytes \<Rightarrow> int \<Rightarrow> signal_stores" where
  "new_stores key reg = \<lparr>identityKey = key, registrationId = reg, sessions = [], known = [], prekeys = [],
     signedKeys = [], kyberKeys = [], kyberUsed = []\<rparr>"

subsection \<open>Sessions\<close>

definition saveSession :: "address \<Rightarrow> signal_bytes \<Rightarrow> signal_stores \<Rightarrow> signal_stores" where
  "saveSession a r s = s\<lparr>sessions := map_set (addrKey a) r (sessions s)\<rparr>"

definition getSession :: "signal_stores \<Rightarrow> address \<Rightarrow> signal_bytes option" where
  "getSession s a = map_of (sessions s) (addrKey a)"

definition getExistingSessions :: "signal_stores \<Rightarrow> address list \<Rightarrow> signal_bytes list option" where
  "getExistingSessions s as = those (map (getSession s) as)"

definition hasSession :: "signal_stores \<Rightarrow> address \<Rightarrow> bool" where
  "hasSession s a = map_has (sessions s) (addrKey a)"

subsection \<open>Identities\<close>

definition saveIdentity :: "address \<Rightarrow> signal_bytes \<Rightarrow> signal_stores \<Rightarrow> signal_stores \<times> identity_change" where
  "saveIdentity a k s =
    (s\<lparr>known := map_set (addrKey a) k (known s)\<rparr>,
     case map_of (known s) (addrKey a) of
       Some e \<Rightarrow> if e \<noteq> k then ReplacedExisting else NewOrUnchanged
     | None \<Rightarrow> NewOrUnchanged)"

definition isTrustedIdentity :: "address \<Rightarrow> signal_bytes \<Rightarrow> signal_stores \<Rightarrow> bool" where
  "isTrustedIdentity a k s = (case map_of (known s) (addrKey a) of Some e \<Rightarrow> e = k | None \<Rightarrow> True)"

definition getIdentity :: "signal_stores \<Rightarrow> address \<Rightarrow> signal_bytes option" where
  "getIdentity s a = map_of (known s) (addrKey a)"

subsection \<open>Prekeys\<close>

definition savePreKey :: "int \<Rightarrow> prekey_record \<Rightarrow> signal_stores \<Rightarrow> signal_stores" where
  "savePreKey i r s = s\<lparr>prekeys := map_set i r (prekeys s)\<rparr>"

definition getPreKey :: "signal_stores \<Rightarrow> int \<Rightarrow> prekey_record option" where
  "getPreKey s i = map_of (prekeys s) i"

definition removePreKey :: "int \<Rightarrow> signal_stores \<Rightarrow> signal_stores" where
  "removePreKey i s = s\<lparr>prekeys := map_del i (prekeys s)\<rparr>"

definition preKey_count :: "signal_stores \<Rightarrow> nat" where
  "preKey_count s = length (prekeys s)"

definition saveSignedPreKey :: "int \<Rightarrow> signed_record \<Rightarrow> signal_stores \<Rightarrow> signal_stores" where
  "saveSignedPreKey i r s = s\<lparr>signedKeys := map_set i r (signedKeys s)\<rparr>"

definition getSignedPreKey :: "signal_stores \<Rightarrow> int \<Rightarrow> signed_record option" where
  "getSignedPreKey s i = map_of (signedKeys s) i"

definition saveKyberPreKey :: "int \<Rightarrow> signed_record \<Rightarrow> signal_stores \<Rightarrow> signal_stores" where
  "saveKyberPreKey i r s = s\<lparr>kyberKeys := map_set i r (kyberKeys s)\<rparr>"

definition getKyberPreKey :: "signal_stores \<Rightarrow> int \<Rightarrow> signed_record option" where
  "getKyberPreKey s i = map_of (kyberKeys s) i"

definition markKyberPreKeyUsed :: "int \<Rightarrow> signal_stores \<Rightarrow> signal_stores" where
  "markKyberPreKeyUsed i s = s\<lparr>kyberUsed := (if i \<in> set (kyberUsed s) then kyberUsed s else kyberUsed s @ [i])\<rparr>"

definition isUsed :: "signal_stores \<Rightarrow> int \<Rightarrow> bool" where
  "isUsed s i = (i \<in> set (kyberUsed s))"

subsection \<open>Addresses do not collide\<close>

lemma int_str_no_dot: "46 \<notin> set (int_str i)"
proof -
  have "46 \<notin> set (dec_digits n)" for n
    using dec_digits_digits [of n] by (auto simp: list_all_iff is_digit_def word_le_nat_alt)
  then show ?thesis by (simp add: int_str_def)
qed

lemma split_at_last:
  assumes "x \<notin> set ys" "x \<notin> set zs" "as @ x # ys = bs @ x # zs"
  shows "as = bs \<and> ys = zs"
proof -
  have t: "takeWhile (\<lambda>y. y \<noteq> x) (rev (cs @ x # ds)) = rev ds" if "x \<notin> set ds" for cs ds
  proof -
    have "takeWhile (\<lambda>y. y \<noteq> x) (rev ds @ x # rev cs) = rev ds @ takeWhile (\<lambda>y. y \<noteq> x) (x # rev cs)"
      by (rule takeWhile_append2) (use that in auto)
    then show ?thesis by simp
  qed
  have "rev ys = rev zs" using t [OF assms(1), of as] t [OF assms(2), of bs] assms(3) by metis
  then show ?thesis using assms(3) by simp
qed

lemma addrKey_inj: "addrKey a = addrKey b \<longleftrightarrow> a = b"
proof
  assume "addrKey a = addrKey b"
  then have "addr_name a = addr_name b \<and> int_str (addr_device a) = int_str (addr_device b)"
    unfolding addrKey_def by (intro split_at_last [of 46]) (simp_all only: int_str_no_dot not_False_eq_True)
  then have "addr_name a = addr_name b" "addr_device a = addr_device b" using int_str_inj by blast+
  then show "a = b" by (cases a, cases b) simp
qed simp

interpretation signal_sessions: keyed_store getSession saveSession "\<lambda>s. map_ok (sessions s)"
  by unfold_locales (auto simp: getSession_def saveSession_def addrKey_inj)

interpretation signal_identities: keyed_store getIdentity "\<lambda>a k s. fst (saveIdentity a k s)" "\<lambda>s. map_ok (known s)"
  by unfold_locales (auto simp: getIdentity_def saveIdentity_def addrKey_inj)

interpretation signal_prekeys: keyed_store_del getPreKey savePreKey "\<lambda>s. map_ok (prekeys s)" removePreKey
  by unfold_locales (auto simp: getPreKey_def savePreKey_def removePreKey_def)

interpretation signal_signed: keyed_store getSignedPreKey saveSignedPreKey "\<lambda>s. map_ok (signedKeys s)"
  by unfold_locales (auto simp: getSignedPreKey_def saveSignedPreKey_def)

interpretation signal_kyber: keyed_store getKyberPreKey saveKyberPreKey "\<lambda>s. map_ok (kyberKeys s)"
  by unfold_locales (auto simp: getKyberPreKey_def saveKyberPreKey_def)

text \<open>C24: Identities are trusted on first use, per device: before a key is stored for an address any key is trusted;
  afterwards exactly that key is, a different one is reported as a replacement when stored, and nothing done for
  one address changes what another address trusts.\<close>

theorem trust_on_first_use:
  "let s' = fst (saveIdentity a k s) in
     (getIdentity s a = None \<longrightarrow> isTrustedIdentity a j s \<and> snd (saveIdentity a k s) = NewOrUnchanged) \<and>
     (isTrustedIdentity a j s' = (j = k)) \<and> getIdentity s' a = Some k \<and>
     snd (saveIdentity a j s') = (if j = k then NewOrUnchanged else ReplacedExisting) \<and>
     (b \<noteq> a \<longrightarrow> isTrustedIdentity b j s' = isTrustedIdentity b j s \<and> getSession s' b = getSession s b)"
  by (auto simp: Let_def isTrustedIdentity_def getIdentity_def saveIdentity_def getSession_def addrKey_inj)

lemma trust_on_first_use_witness:
  "isTrustedIdentity \<lparr>addr_name = [1], addr_device = 2\<rparr> [7] (new_stores [] 1) \<and>
   isTrustedIdentity \<lparr>addr_name = [1], addr_device = 1\<rparr> [9] (fst (saveIdentity \<lparr>addr_name = [1], addr_device = 2\<rparr> [7] (new_stores [] 1)))"
  using trust_on_first_use [of "\<lparr>addr_name = [1], addr_device = 2\<rparr>" "[7]" "new_stores [] 1" "[7]" "\<lparr>addr_name = [1], addr_device = 1\<rparr>"]
    trust_on_first_use [of "\<lparr>addr_name = [1], addr_device = 2\<rparr>" "[7]" "new_stores [] 1" "[9]" "\<lparr>addr_name = [1], addr_device = 1\<rparr>"]
  by (simp add: Let_def getIdentity_def isTrustedIdentity_def new_stores_def)

end
