(* ===== verification/Providers.thy ===== *)
theory Providers
  imports TextCodec SignalStores NativeBase64 Messaging
begin

text \<open>
  Key generation, sessions and the two crypto providers: \<open>packages/crypto/src/identity.ts\<close> and \<open>session.ts\<close>,
  \<open>packages/client/src/node/provider.ts\<close> and \<open>apps/mobile/src/crypto/rnCryptoProvider.ts\<close>.

  libsignal is a parameter, the record \<open>signal_lib\<close>, with its own state \<open>'r\<close> (randomness); keys and records are
  their serialised bytes. Node's lenient \<open>Buffer.from(s, "base64")\<close> is part of it. \<open>None\<close> is a call that throws.
\<close>

subsection \<open>The library\<close>

record prekey_bundle =
  bn_registration :: int
  bn_device :: int
  bn_oneTime :: "(int \<times> signal_bytes) option"
  bn_signedId :: int
  bn_signedPublic :: signal_bytes
  bn_signedSignature :: signal_bytes
  bn_identity :: signal_bytes
  bn_kyberId :: int
  bn_kyberPublic :: signal_bytes
  bn_kyberSignature :: signal_bytes

record 'r signal_lib =
  lib_identity :: "'r \<Rightarrow> 'r \<times> signal_bytes \<times> signal_bytes"
  lib_private :: "'r \<Rightarrow> 'r \<times> signal_bytes"
  lib_public :: "signal_bytes \<Rightarrow> signal_bytes"
  lib_sign :: "signal_bytes \<Rightarrow> signal_bytes \<Rightarrow> 'r \<Rightarrow> 'r \<times> signal_bytes"
  lib_kem :: "'r \<Rightarrow> 'r \<times> signal_bytes"
  lib_kemPublic :: "signal_bytes \<Rightarrow> signal_bytes"
  lib_random :: "'r \<Rightarrow> 'r \<times> nat"
  lib_unb64 :: "jstr \<Rightarrow> byte list"
  lib_publicOk :: "signal_bytes \<Rightarrow> bool"
  lib_kemOk :: "signal_bytes \<Rightarrow> bool"
  lib_process :: "prekey_bundle \<Rightarrow> address \<Rightarrow> signal_stores \<Rightarrow> 'r \<Rightarrow> 'r \<times> signal_stores \<times> bool"
  lib_encrypt :: "byte list \<Rightarrow> address \<Rightarrow> signal_stores \<Rightarrow> 'r \<Rightarrow> 'r \<times> signal_stores \<times> (ciphertext_type \<times> byte list) option"
  lib_decryptPreKey :: "byte list \<Rightarrow> address \<Rightarrow> signal_stores \<Rightarrow> 'r \<Rightarrow> 'r \<times> signal_stores \<times> byte list option"
  lib_decrypt :: "byte list \<Rightarrow> address \<Rightarrow> signal_stores \<Rightarrow> 'r \<Rightarrow> 'r \<times> signal_stores \<times> byte list option"

subsection \<open>Identity and prekeys\<close>

record published =
  pb_registrationId :: int
  pb_deviceId :: int
  pb_identityKey :: jstr
  pb_signedId :: int
  pb_signedPublic :: jstr
  pb_signedSignature :: jstr
  pb_kyberId :: int
  pb_kyberPublic :: jstr
  pb_kyberSignature :: jstr
  pb_oneTimeId :: "int option"
  pb_oneTimePublic :: "jstr option"

record device_registration =
  dr_registrationId :: int
  dr_deviceId :: int
  dr_identity :: "signal_bytes \<times> signal_bytes"
  dr_stores :: signal_stores
  dr_bundle :: published
  dr_oneTime :: "(int \<times> jstr) list"

definition randomRegistrationId :: "'r signal_lib \<Rightarrow> 'r \<Rightarrow> 'r \<times> int" where
  "randomRegistrationId L r = (case lib_random L r of (r1, n) \<Rightarrow> (r1, 1 + int (n mod 16379)))"

text \<open>The minting loop of \<open>generateRegistration\<close> (from 1) and of \<open>mintOneTimePreKeys\<close>.\<close>

fun mint :: "'r signal_lib \<Rightarrow> nat \<Rightarrow> int \<Rightarrow> signal_stores \<Rightarrow> 'r \<Rightarrow> 'r \<times> signal_stores \<times> (int \<times> jstr) list" where
  "mint L 0 i s r = (r, s, [])"
| "mint L (Suc n) i s r =
    (case lib_private L r of (r1, kp) \<Rightarrow>
       let pub = lib_public L kp;
           s1 = savePreKey i \<lparr>pk_id = i, pk_public = pub, pk_private = kp\<rparr> s
       in case mint L n (i + 1) s1 r1 of (r2, s2, out) \<Rightarrow> (r2, s2, (i, bytes_to_base64 pub) # out))"

definition mintOneTimePreKeys :: "'r signal_lib \<Rightarrow> signal_stores \<Rightarrow> int \<Rightarrow> int \<Rightarrow> 'r \<Rightarrow> 'r \<times> signal_stores \<times> (int \<times> jstr) list" where
  "mintOneTimePreKeys L s cnt startId r = mint L (nat cnt) startId s r"

definition default :: "'a \<Rightarrow> 'a option \<Rightarrow> 'a" where
  "default d v = (case v of Some x \<Rightarrow> x | None \<Rightarrow> d)"

definition generateRegistration :: "'r signal_lib \<Rightarrow> int \<Rightarrow> int option \<Rightarrow> int option \<Rightarrow> int option \<Rightarrow> int option \<Rightarrow> 'r \<Rightarrow>
    'r \<times> device_registration" where
  "generateRegistration L now device cnt signedId kyberId r0 =
    (let deviceId = default 1 device; n = default 10 cnt; sid = default 1 signedId; kid = default 1 kyberId in
     case lib_identity L r0 of (r1, idPriv, idPub) \<Rightarrow>
     case randomRegistrationId L r1 of (r2, reg) \<Rightarrow>
     case lib_private L r2 of (r3, sp) \<Rightarrow>
     case lib_sign L idPriv (lib_public L sp) r3 of (r4, sg) \<Rightarrow>
     case lib_kem L r4 of (r5, kp) \<Rightarrow>
     case lib_sign L idPriv (lib_kemPublic L kp) r5 of (r6, ks) \<Rightarrow>
     (let s0 = new_stores idPriv reg;
          s1 = saveSignedPreKey sid \<lparr>sg_id = sid, sg_time = now, sg_public = lib_public L sp, sg_private = sp, sg_signature = sg\<rparr> s0;
          s2 = saveKyberPreKey kid \<lparr>sg_id = kid, sg_time = now, sg_public = lib_kemPublic L kp, sg_private = kp, sg_signature = ks\<rparr> s1
      in case mint L (nat n) 1 s2 r6 of (r7, s3, keys) \<Rightarrow>
         (r7, \<lparr>dr_registrationId = reg, dr_deviceId = deviceId, dr_identity = (idPriv, idPub), dr_stores = s3,
            dr_bundle = \<lparr>pb_registrationId = reg, pb_deviceId = deviceId, pb_identityKey = bytes_to_base64 idPub,
              pb_signedId = sid, pb_signedPublic = bytes_to_base64 (lib_public L sp), pb_signedSignature = bytes_to_base64 sg,
              pb_kyberId = kid, pb_kyberPublic = bytes_to_base64 (lib_kemPublic L kp), pb_kyberSignature = bytes_to_base64 ks,
              pb_oneTimeId = (case keys of [] \<Rightarrow> None | k # _ \<Rightarrow> Some (fst k)),
              pb_oneTimePublic = (case keys of [] \<Rightarrow> None | k # _ \<Rightarrow> Some (snd k))\<rparr>,
            dr_oneTime = keys\<rparr>)))"

definition toPreKeyBundle :: "'r signal_lib \<Rightarrow> published \<Rightarrow> prekey_bundle option" where
  "toPreKeyBundle L p =
    (let ot = (case (pb_oneTimeId p, pb_oneTimePublic p) of (Some i, Some k) \<Rightarrow> Some (i, lib_unb64 L k) | _ \<Rightarrow> None);
         sp = lib_unb64 L (pb_signedPublic p); ik = lib_unb64 L (pb_identityKey p); kp = lib_unb64 L (pb_kyberPublic p) in
     if (case ot of Some (_, k) \<Rightarrow> lib_publicOk L k | None \<Rightarrow> True) \<and> lib_publicOk L sp \<and> lib_publicOk L ik \<and> lib_kemOk L kp
     then Some \<lparr>bn_registration = pb_registrationId p, bn_device = pb_deviceId p, bn_oneTime = ot, bn_signedId = pb_signedId p,
       bn_signedPublic = sp, bn_signedSignature = lib_unb64 L (pb_signedSignature p), bn_identity = ik,
       bn_kyberId = pb_kyberId p, bn_kyberPublic = kp, bn_kyberSignature = lib_unb64 L (pb_kyberSignature p)\<rparr>
     else None)"

subsection \<open>Sessions\<close>

definition addressFor :: "jstr \<Rightarrow> int \<Rightarrow> address" where
  "addressFor a d = \<lparr>addr_name = a, addr_device = d\<rparr>"

definition establishSession :: "'r signal_lib \<Rightarrow> jstr \<Rightarrow> int \<Rightarrow> published \<Rightarrow> signal_stores \<Rightarrow> 'r \<Rightarrow> 'r \<times> signal_stores \<times> bool" where
  "establishSession L peer dev p s r =
    (case toPreKeyBundle L p of None \<Rightarrow> (r, s, False) | Some b \<Rightarrow> lib_process L b (addressFor peer dev) s r)"

definition encrypt :: "'r signal_lib \<Rightarrow> jstr \<Rightarrow> int \<Rightarrow> jstr \<Rightarrow> signal_stores \<Rightarrow> 'r \<Rightarrow>
    'r \<times> signal_stores \<times> (ciphertext_type \<times> jstr) option" where
  "encrypt L peer dev t s r =
    (case lib_encrypt L (text_encode t) (addressFor peer dev) s r of
       (r1, s1, res) \<Rightarrow> (r1, s1, map_option (\<lambda>(ty, ct). (ty, bytes_to_base64 ct)) res))"

definition decrypt :: "'r signal_lib \<Rightarrow> jstr \<Rightarrow> int \<Rightarrow> ciphertext_type \<times> jstr \<Rightarrow> signal_stores \<Rightarrow> 'r \<Rightarrow>
    'r \<times> signal_stores \<times> jstr option" where
  "decrypt L peer dev m s r =
    (let raw = lib_unb64 L (snd m) in
     case (if fst m = PreKey then lib_decryptPreKey L raw (addressFor peer dev) s r
           else lib_decrypt L raw (addressFor peer dev) s r) of
       (r1, s1, res) \<Rightarrow> (r1, s1, map_option text_decode res))"

subsection \<open>The JSON of a bundle\<close>

definition published_json :: "published \<Rightarrow> (jstr \<times> json) list" where
  "published_json p =
    [(js ''registrationId'', JInt (pb_registrationId p)), (js ''deviceId'', JInt (pb_deviceId p)),
     (js ''identityKeyB64'', JStr (pb_identityKey p)), (js ''signedPreKeyId'', JInt (pb_signedId p)),
     (js ''signedPreKeyPublicB64'', JStr (pb_signedPublic p)), (js ''signedPreKeySignatureB64'', JStr (pb_signedSignature p)),
     (js ''kyberPreKeyId'', JInt (pb_kyberId p)), (js ''kyberPreKeyPublicB64'', JStr (pb_kyberPublic p)),
     (js ''kyberPreKeySignatureB64'', JStr (pb_kyberSignature p)),
     (js ''oneTimePreKeyId'', (case pb_oneTimeId p of None \<Rightarrow> JNull | Some i \<Rightarrow> JInt i)),
     (js ''oneTimePreKeyPublicB64'', (case pb_oneTimePublic p of None \<Rightarrow> JNull | Some k \<Rightarrow> JStr k))]"

definition null_or_int :: "json option \<Rightarrow> int option option" where
  "null_or_int v = (case v of Some JNull \<Rightarrow> Some None | Some (JInt i) \<Rightarrow> Some (Some i) | _ \<Rightarrow> None)"

definition null_or_str :: "json option \<Rightarrow> jstr option option" where
  "null_or_str v = (case v of Some JNull \<Rightarrow> Some None | Some (JStr s) \<Rightarrow> Some (Some s) | _ \<Rightarrow> None)"

definition published_of_json :: "json \<Rightarrow> published option" where
  "published_of_json v =
    (case (as_int (field v ''registrationId''), as_int (field v ''deviceId''), as_str (field v ''identityKeyB64''),
           as_int (field v ''signedPreKeyId''), as_str (field v ''signedPreKeyPublicB64''), as_str (field v ''signedPreKeySignatureB64'')) of
       (Some reg, Some dev, Some ik, Some sid, Some sp, Some ss) \<Rightarrow>
         (case (as_int (field v ''kyberPreKeyId''), as_str (field v ''kyberPreKeyPublicB64''), as_str (field v ''kyberPreKeySignatureB64''),
                null_or_int (field v ''oneTimePreKeyId''), null_or_str (field v ''oneTimePreKeyPublicB64'')) of
            (Some kid, Some kp, Some ks, Some oi, Some op) \<Rightarrow>
              Some \<lparr>pb_registrationId = reg, pb_deviceId = dev, pb_identityKey = ik, pb_signedId = sid, pb_signedPublic = sp,
                pb_signedSignature = ss, pb_kyberId = kid, pb_kyberPublic = kp, pb_kyberSignature = ks, pb_oneTimeId = oi,
                pb_oneTimePublic = op\<rparr>
          | _ \<Rightarrow> None)
     | _ \<Rightarrow> None)"

definition one_time_json :: "int \<times> jstr \<Rightarrow> json" where
  "one_time_json k = JObj [(js ''id'', JInt (fst k)), (js ''publicB64'', JStr (snd k))]"

subsection \<open>The provider on Node\<close>

record 'r node =
  nd_stores :: "signal_stores option"
  nd_high :: int
  nd_identity :: jstr
  nd_lib :: 'r

definition new_node :: "'r \<Rightarrow> 'r node" where
  "new_node r = \<lparr>nd_stores = None, nd_high = 0, nd_identity = [], nd_lib = r\<rparr>"

definition node_generate :: "'r signal_lib \<Rightarrow> int \<Rightarrow> int \<Rightarrow> 'r node \<Rightarrow> 'r node \<times> registration option" where
  "node_generate L now device s =
    (case generateRegistration L now (Some device) None None None (nd_lib s) of (r1, reg) \<Rightarrow>
       (\<lparr>nd_stores = Some (dr_stores reg), nd_high = foldl (\<lambda>m k. max m (fst k)) 0 (dr_oneTime reg),
         nd_identity = pb_identityKey (dr_bundle reg), nd_lib = r1\<rparr>,
        Some \<lparr>r_device = dr_deviceId reg, r_bundle = published_json (dr_bundle reg),
           r_keys = map one_time_json (dr_oneTime reg)\<rparr>))"

definition node_replenish :: "'r signal_lib \<Rightarrow> int \<Rightarrow> 'r node \<Rightarrow> 'r node \<times> json list option" where
  "node_replenish L cnt s =
    (case nd_stores s of None \<Rightarrow> (s, None)
     | Some st \<Rightarrow>
         (case mintOneTimePreKeys L st cnt (nd_high s + 1) (nd_lib s) of (r1, st1, keys) \<Rightarrow>
            (s\<lparr>nd_stores := Some st1, nd_high := nd_high s + cnt, nd_lib := r1\<rparr>, Some (map one_time_json keys))))"

definition with_stores :: "(signal_stores \<Rightarrow> 'r \<Rightarrow> 'r \<times> signal_stores \<times> 'a) \<Rightarrow> 'a \<Rightarrow> 'r node \<Rightarrow> 'r node \<times> 'a" where
  "with_stores f err s =
    (case nd_stores s of None \<Rightarrow> (s, err)
     | Some st \<Rightarrow> (case f st (nd_lib s) of (r1, st1, res) \<Rightarrow> (s\<lparr>nd_stores := Some st1, nd_lib := r1\<rparr>, res)))"

definition node_provider :: "'r signal_lib \<Rightarrow> int \<Rightarrow> 'r node provider" where
  "node_provider L now =
    \<lparr>p_generate = node_generate L now, p_replenish = node_replenish L,
     p_localKey = (\<lambda>s. (s, Some (nd_identity s))),
     p_establish = (\<lambda>peer dev v s. case published_of_json v of None \<Rightarrow> (s, False)
        | Some p \<Rightarrow> with_stores (establishSession L peer dev p) False s),
     p_encrypt = (\<lambda>peer dev t. with_stores (encrypt L peer dev t) None),
     p_decrypt = (\<lambda>peer dev m. with_stores (decrypt L peer dev m) None)\<rparr>"

subsection \<open>The provider on the phone\<close>

record 'c native_crypto =
  nc_generate :: "int \<Rightarrow> int \<Rightarrow> 'c \<Rightarrow> 'c \<times> registration option"
  nc_replenish :: "int \<Rightarrow> 'c \<Rightarrow> 'c \<times> json list option"
  nc_identity :: "'c \<Rightarrow> 'c \<times> jstr option"
  nc_establish :: "jstr \<Rightarrow> int \<Rightarrow> json \<Rightarrow> 'c \<Rightarrow> 'c \<times> bool"
  nc_encrypt :: "jstr \<Rightarrow> int \<Rightarrow> jstr \<Rightarrow> 'c \<Rightarrow> 'c \<times> (ciphertext_type \<times> jstr) option"
  nc_decrypt :: "jstr \<Rightarrow> int \<Rightarrow> int \<Rightarrow> jstr \<Rightarrow> 'c \<Rightarrow> 'c \<times> jstr option"

definition DEFAULT_ONE_TIME_PREKEYS :: int where
  "DEFAULT_ONE_TIME_PREKEYS = 10"

text \<open>The client only ever passes the device id; a missing native module throws from every call.\<close>

definition rn_provider :: "'c native_crypto option \<Rightarrow> 'c provider" where
  "rn_provider native =
    (case native of
       None \<Rightarrow> \<lparr>p_generate = (\<lambda>d c. (c, None)), p_replenish = (\<lambda>n c. (c, None)), p_localKey = (\<lambda>c. (c, None)),
         p_establish = (\<lambda>a d b c. (c, False)), p_encrypt = (\<lambda>a d t c. (c, None)), p_decrypt = (\<lambda>a d m c. (c, None))\<rparr>
     | Some N \<Rightarrow> \<lparr>p_generate = (\<lambda>d. nc_generate N d DEFAULT_ONE_TIME_PREKEYS), p_replenish = nc_replenish N,
         p_localKey = nc_identity N, p_establish = nc_establish N, p_encrypt = nc_encrypt N,
         p_decrypt = (\<lambda>a d m. nc_decrypt N a d (type_code (fst m)) (snd m))\<rparr>)"

subsection \<open>What a registration publishes is what the device keeps\<close>

lemma mint_ids: "mint L n i s r = (r', s', ks) \<Longrightarrow> map fst ks = [i..i + int n - 1]"
proof (induction n arbitrary: i s r r' s' ks)
  case (Suc n)
  obtain r1 kp where p: "lib_private L r = (r1, kp)" by fastforce
  define s1 where "s1 = savePreKey i \<lparr>pk_id = i, pk_public = lib_public L kp, pk_private = kp\<rparr> s"
  obtain r2 s2 ks1 where m: "mint L n (i + 1) s1 r1 = (r2, s2, ks1)" by (metis prod_cases3)
  have "ks = (i, bytes_to_base64 (lib_public L kp)) # ks1"
    using Suc.prems p m by (simp add: Let_def s1_def)
  then show ?case using Suc.IH [OF m] by (simp add: upto_rec1)
qed simp

definition minted :: "'r signal_lib \<Rightarrow> signal_stores \<Rightarrow> int \<times> jstr \<Rightarrow> bool" where
  "minted L s k = (case getPreKey s (fst k) of
     None \<Rightarrow> False
   | Some r \<Rightarrow> pk_id r = fst k \<and> pk_public r = lib_public L (pk_private r) \<and> snd k = bytes_to_base64 (pk_public r))"

lemma mint_stores:
  assumes "mint L n i s r = (r', s', ks)"
  shows "(\<forall>j. j < i \<or> i + int n \<le> j \<longrightarrow> getPreKey s' j = getPreKey s j) \<and> list_all (minted L s') ks \<and>
    signedKeys s' = signedKeys s \<and> kyberKeys s' = kyberKeys s"
  using assms
proof (induction n arbitrary: i s r r' s' ks)
  case (Suc n)
  obtain r1 kp where p: "lib_private L r = (r1, kp)" by fastforce
  define rec where "rec = \<lparr>pk_id = i, pk_public = lib_public L kp, pk_private = kp\<rparr>"
  obtain r2 s2 ks1 where m: "mint L n (i + 1) (savePreKey i rec s) r1 = (r2, s2, ks1)" by (metis prod_cases3)
  have eqs: "ks = (i, bytes_to_base64 (lib_public L kp)) # ks1" "s' = s2"
    using Suc.prems p m by (simp_all add: Let_def rec_def)
  note IH = Suc.IH [OF m]
  have "getPreKey s2 i = Some rec" using IH by (simp add: getPreKey_def savePreKey_def)
  then have "minted L s' (i, bytes_to_base64 (lib_public L kp))" by (simp add: minted_def eqs rec_def)
  then show ?case using IH by (auto simp: eqs getPreKey_def savePreKey_def)
qed simp

definition published_ok :: "'r signal_lib \<Rightarrow> device_registration \<Rightarrow> bool" where
  "published_ok L g =
    (let p = dr_bundle g; s = dr_stores g in
     1 \<le> pb_registrationId p \<and> pb_registrationId p < 2 ^ 14 \<and> pb_registrationId p = registrationId s \<and>
     identityKey s = fst (dr_identity g) \<and> pb_identityKey p = bytes_to_base64 (snd (dr_identity g)) \<and>
     list_all (minted L s) (dr_oneTime g) \<and>
     (case dr_oneTime g of [] \<Rightarrow> pb_oneTimeId p = None \<and> pb_oneTimePublic p = None
      | k # _ \<Rightarrow> pb_oneTimeId p = Some (fst k) \<and> pb_oneTimePublic p = Some (snd k)) \<and>
     (case getSignedPreKey s (pb_signedId p) of None \<Rightarrow> False
      | Some k \<Rightarrow> sg_id k = pb_signedId p \<and> sg_public k = lib_public L (sg_private k) \<and>
          pb_signedPublic p = bytes_to_base64 (sg_public k) \<and> pb_signedSignature p = bytes_to_base64 (sg_signature k)) \<and>
     (case getKyberPreKey s (pb_kyberId p) of None \<Rightarrow> False
      | Some k \<Rightarrow> sg_id k = pb_kyberId p \<and> sg_public k = lib_kemPublic L (sg_private k) \<and>
          pb_kyberPublic p = bytes_to_base64 (sg_public k) \<and> pb_kyberSignature p = bytes_to_base64 (sg_signature k)))"

lemma mint_frame:
  "mint L n i s r = (r', s', ks) \<Longrightarrow> registrationId s' = registrationId s \<and> identityKey s' = identityKey s"
  by (induction n arbitrary: i s r r' s' ks) (auto simp: Let_def savePreKey_def split: prod.splits)

lemma pub_consistent:
  "published_ok L (snd (generateRegistration L now dev cnt sid kid r)) \<and>
   map fst (dr_oneTime (snd (generateRegistration L now dev cnt sid kid r))) = [1..max 0 (default 10 cnt)]"
proof -
  obtain r1 a b where 1: "lib_identity L r = (r1, a, b)" by (metis prod_cases3)
  obtain r2 g where 2: "randomRegistrationId L r1 = (r2, g)" by fastforce
  obtain r3 sp where 3: "lib_private L r2 = (r3, sp)" by fastforce
  obtain r4 sg where 4: "lib_sign L a (lib_public L sp) r3 = (r4, sg)" by fastforce
  obtain r5 kp where 5: "lib_kem L r4 = (r5, kp)" by fastforce
  obtain r6 ks where 6: "lib_sign L a (lib_kemPublic L kp) r5 = (r6, ks)" by fastforce
  define s2 where "s2 = saveKyberPreKey (default 1 kid)
      \<lparr>sg_id = default 1 kid, sg_time = now, sg_public = lib_kemPublic L kp, sg_private = kp, sg_signature = ks\<rparr>
    (saveSignedPreKey (default 1 sid)
      \<lparr>sg_id = default 1 sid, sg_time = now, sg_public = lib_public L sp, sg_private = sp, sg_signature = sg\<rparr> (new_stores a g))"
  obtain r7 s3 keys where 7: "mint L (nat (default 10 cnt)) 1 s2 r6 = (r7, s3, keys)" by (metis prod_cases3)
  have ids: "map fst keys = [1..max 0 (default 10 cnt)]" using mint_ids [OF 7] by simp
  have g: "1 \<le> g \<and> g < 2 ^ 14"
  proof -
    obtain q n where n: "lib_random L r1 = (q, n)" by fastforce
    have "n mod 16379 < 16379" by simp
    with 2 n show ?thesis by (auto simp: randomRegistrationId_def)
  qed
  have st: "getSignedPreKey s3 (default 1 sid) = getSignedPreKey s2 (default 1 sid)"
    "getKyberPreKey s3 (default 1 kid) = getKyberPreKey s2 (default 1 kid)"
    using mint_stores [OF 7] by (simp_all add: getSignedPreKey_def getKyberPreKey_def)
  have fr: "registrationId s3 = g" "identityKey s3 = a"
    using mint_frame [OF 7] by (simp_all add: s2_def saveKyberPreKey_def saveSignedPreKey_def new_stores_def)
  show ?thesis
    using mint_stores [OF 7] ids g
    by (simp add: generateRegistration_def Let_def 1 2 3 4 5 6 7 [unfolded s2_def] published_ok_def st fr)
      (simp add: s2_def getSignedPreKey_def getKyberPreKey_def saveKyberPreKey_def saveSignedPreKey_def split: list.split)
qed

text \<open>C22: Everything a new device publishes is backed by what it stores: its registration id fits libsignal's 14 bits,
  the signed, the post-quantum and every one-time prekey it uploads have their record in the stores under the
  published id with the published public half and signature, the bundle carries the first key of the pool, and the
  pool's ids are 1 to the number asked for (10 by default).\<close>

theorem registration_is_consistent:
  "published_ok L (snd (generateRegistration L now dev cnt sid kid r)) \<and>
   map fst (dr_oneTime (snd (generateRegistration L now dev cnt sid kid r))) = [1..max 0 (default 10 cnt)]"
  by (rule pub_consistent)

text \<open>A published bundle that comes back from the server unchanged opens to the registering device's own public
  keys, and to the one-time key whose private half is in its store.\<close>

theorem published_bundle_opens:
  assumes b64: "\<And>bs. lib_unb64 L (bytes_to_base64 bs) = bs"
    and ok: "\<And>k. lib_publicOk L k" "\<And>k. lib_kemOk L k"
  shows "let g = snd (generateRegistration L now dev cnt sid kid r); s = dr_stores g in
    \<exists>b. toPreKeyBundle L (dr_bundle g) = Some b \<and> bn_identity b = snd (dr_identity g) \<and>
      map_option (\<lambda>k. (sg_public k, sg_signature k)) (getSignedPreKey s (bn_signedId b)) = Some (bn_signedPublic b, bn_signedSignature b) \<and>
      map_option (\<lambda>k. (sg_public k, sg_signature k)) (getKyberPreKey s (bn_kyberId b)) = Some (bn_kyberPublic b, bn_kyberSignature b) \<and>
      (case bn_oneTime b of None \<Rightarrow> dr_oneTime g = []
       | Some (i, k) \<Rightarrow> map_option pk_public (getPreKey s i) = Some k)"
proof -
  define g where "g = snd (generateRegistration L now dev cnt sid kid r)"
  have p: "published_ok L g" using pub_consistent [of L now dev cnt sid kid r] by (simp add: g_def)
  show ?thesis unfolding g_def [symmetric] using p
    by (cases "dr_oneTime g") (auto simp: published_ok_def toPreKeyBundle_def Let_def b64 ok minted_def split: option.splits)
qed

text \<open>A bundle survives the JSON of the discovery server.\<close>

theorem bundle_json_roundtrip: "published_of_json (JObj (published_json p)) = Some p"
  by (simp add: published_of_json_def published_json_def payload_defs null_or_int_def null_or_str_def split: option.splits)

subsection \<open>Prekey ids over the life of a Node provider\<close>

datatype node_op =
    Replenish int
  | Establish jstr int json
  | EncryptFor jstr int jstr
  | DecryptFrom jstr int "ciphertext_type \<times> jstr"

definition key_ids :: "json list \<Rightarrow> int option list" where
  "key_ids = map (\<lambda>k. as_int (field k ''id''))"

fun node_step :: "'r signal_lib \<Rightarrow> int \<Rightarrow> 'r node \<Rightarrow> node_op \<Rightarrow> 'r node \<times> int option list" where
  "node_step L now s (Replenish n) =
    (case p_replenish (node_provider L now) n s of (s1, ks) \<Rightarrow> (s1, case ks of None \<Rightarrow> [] | Some vs \<Rightarrow> key_ids vs))"
| "node_step L now s (Establish p d b) = (fst (p_establish (node_provider L now) p d b s), [])"
| "node_step L now s (EncryptFor p d t) = (fst (p_encrypt (node_provider L now) p d t s), [])"
| "node_step L now s (DecryptFrom p d m) = (fst (p_decrypt (node_provider L now) p d m s), [])"

fun node_run :: "'r signal_lib \<Rightarrow> int \<Rightarrow> 'r node \<Rightarrow> node_op list \<Rightarrow> 'r node \<times> int option list" where
  "node_run L now s [] = (s, [])"
| "node_run L now s (x # xs) =
    (case node_step L now s x of (s1, a) \<Rightarrow> case node_run L now s1 xs of (s2, b) \<Rightarrow> (s2, a @ b))"

fun sensible :: "node_op \<Rightarrow> bool" where
  "sensible (Replenish n) = (0 \<le> n)"
| "sensible _ = True"

lemma upto_join: "a \<le> b \<Longrightarrow> b \<le> c \<Longrightarrow> [a + 1..b] @ [b + 1..c] = [a + 1..c :: int]"
  by (cases "a = b") (simp_all add: upto_split2 [of "a + 1" b c])

lemma key_ids_mint: "key_ids (map one_time_json ks) = map (Some \<circ> fst) ks"
  by (simp add: key_ids_def one_time_json_def payload_defs)

lemma with_stores_high: "nd_high (fst (with_stores f e s)) = nd_high s"
  by (simp add: with_stores_def split: option.split prod.split)

lemma with_stores_some: "nd_stores s = Some y \<Longrightarrow> \<exists>z. nd_stores (fst (with_stores f e s)) = Some z"
  by (simp add: with_stores_def split: option.split prod.split)

lemma node_step_ids:
  assumes "node_step L now s x = (s1, ids)" "sensible x" "nd_stores s \<noteq> None" "0 \<le> nd_high s"
  shows "ids = map Some [nd_high s + 1..nd_high s1] \<and> nd_high s \<le> nd_high s1 \<and> nd_stores s1 \<noteq> None"
proof (cases x)
  case (Replenish n)
  obtain st where st: "nd_stores s = Some st" using assms(3) by auto
  obtain r1 s2 ks where m: "mint L (nat n) (nd_high s + 1) st (nd_lib s) = (r1, s2, ks)" by (metis prod_cases3)
  then show ?thesis using assms mint_ids [OF m]
    by (auto simp: Replenish node_provider_def node_replenish_def st mintOneTimePreKeys_def key_ids_mint simp flip: map_map)
qed (use assms in \<open>auto simp: node_provider_def with_stores_high with_stores_some split: option.splits\<close>)

lemma node_run_ids:
  assumes "node_run L now s xs = (s1, ids)" "list_all sensible xs" "nd_stores s \<noteq> None" "0 \<le> nd_high s"
  shows "ids = map Some [nd_high s + 1..nd_high s1] \<and> nd_high s \<le> nd_high s1"
  using assms
proof (induction xs arbitrary: s s1 ids)
  case (Cons x xs)
  obtain s2 a where a: "node_step L now s x = (s2, a)" by fastforce
  obtain s3 b where b: "node_run L now s2 xs = (s3, b)" by fastforce
  have A: "a = map Some [nd_high s + 1..nd_high s2] \<and> nd_high s \<le> nd_high s2 \<and> nd_stores s2 \<noteq> None"
    using node_step_ids [OF a] Cons.prems by simp
  have B: "b = map Some [nd_high s2 + 1..nd_high s3] \<and> nd_high s2 \<le> nd_high s3"
    using Cons.IH [OF b] Cons.prems A by simp
  have "ids = a @ b" "s1 = s3" using Cons.prems a b by simp_all
  then show ?case using A B by (simp add: upto_join flip: map_append)
qed simp

lemma first_pool_high: "foldl max 0 [1..10] = (10 :: int)"
  by code_simp

lemma node_generate_pool:
  assumes "node_generate L now dev s0 = (s, Some g)"
  shows "nd_high s = 10 \<and> nd_stores s \<noteq> None \<and> key_ids (r_keys g) = map Some [1..10]"
proof -
  obtain r1 d where d: "generateRegistration L now (Some dev) None None None (nd_lib s0) = (r1, d)" by fastforce
  have ids: "map fst (dr_oneTime d) = [1..10]"
    using pub_consistent [of L now "Some dev" None None None "nd_lib s0"] by (simp add: d default_def)
  have fm: "foldl (\<lambda>m k. max m (fst k)) 0 (dr_oneTime d) = 10"
    using first_pool_high by (simp only: ids [symmetric] foldl_map)
  have s: "nd_high s = 10" "nd_stores s \<noteq> None" "r_keys g = map one_time_json (dr_oneTime d)"
    using assms fm by (auto simp: node_generate_def d)
  have "key_ids (r_keys g) = map Some [1..10]" by (simp only: s key_ids_mint ids [symmetric] map_map)
  then show ?thesis using s by simp
qed

text \<open>C23: However a device goes on to replenish, encrypt, decrypt and start sessions after it registered, the one-time
  prekey ids it publishes are 1, 2, 3 and so on: no id is ever used for two keys.\<close>

theorem one_time_ids_never_collide:
  assumes "node_generate L now dev s0 = (s, Some g)" "list_all sensible xs" "node_run L now s xs = (s1, ids)"
  shows "key_ids (r_keys g) @ ids = map Some [1..nd_high s1]"
  using node_generate_pool [OF assms(1)] node_run_ids [OF assms(3,2)] upto_join [of 0 10 "nd_high s1"]
  by (simp flip: map_append)

subsection \<open>Text through a session\<close>

text \<open>When the receiving device's ratchet recovers the bytes that the sender's ratchet was given, the text that was
  typed comes out of \<open>decrypt\<close>, for either kind of ciphertext: lone surrogates have become replacement characters and
  a leading byte order mark is lost, nothing else changes.\<close>

theorem message_text_roundtrip:
  assumes b64: "\<And>bs. lib_unb64 L (bytes_to_base64 bs) = bs"
    and enc: "lib_encrypt L (text_encode t) (addressFor peer dev) st r = (r1, st1, Some (ty, ct))"
    and dec: "(if ty = PreKey then lib_decryptPreKey L else lib_decrypt L) ct (addressFor me mine) st' r' =
      (r2, st2, Some (text_encode t))"
  shows "encrypt L peer dev t st r = (r1, st1, Some (ty, bytes_to_base64 ct)) \<and>
    decrypt L me mine (ty, bytes_to_base64 ct) st' r' = (r2, st2, Some (drop_bom (usv t)))"
  using dec by (simp add: encrypt_def decrypt_def enc b64 text_roundtrip split: if_splits)

subsection \<open>The hypotheses can be met\<close>

text \<open>A library whose keys are counters and whose ciphertext is the plaintext; its Base64 is the one of
  \<open>NativeBase64\<close>.\<close>

definition key_of :: "nat \<Rightarrow> signal_bytes" where
  "key_of n = replicate n 1"

definition toy_lib :: "nat signal_lib" where
  "toy_lib = \<lparr>lib_identity = (\<lambda>r. (Suc r, key_of r, 2 # key_of r)), lib_private = (\<lambda>r. (Suc r, key_of r)), lib_public = (#) 2,
     lib_sign = (\<lambda>k m r. (r, k @ m)), lib_kem = (\<lambda>r. (Suc r, key_of r)), lib_kemPublic = (#) 3, lib_random = (\<lambda>r. (Suc r, r)),
     lib_unb64 = rn_base64_to_bytes, lib_publicOk = (\<lambda>k. True), lib_kemOk = (\<lambda>k. True),
     lib_process = (\<lambda>b a s r. (r, s, True)), lib_encrypt = (\<lambda>t a s r. (r, s, Some (Whisper, t))),
     lib_decryptPreKey = (\<lambda>c a s r. (r, s, None)), lib_decrypt = (\<lambda>c a s r. (r, s, Some c))\<rparr>"

lemma published_bundle_opens_witness:
  "toPreKeyBundle toy_lib (dr_bundle (snd (generateRegistration toy_lib 5 None (Some 2) None None 0))) \<noteq> None"
proof -
  have "let g = snd (generateRegistration toy_lib 5 None (Some 2) None None 0) in
      \<exists>b. toPreKeyBundle toy_lib (dr_bundle g) = Some b"
    using published_bundle_opens [of toy_lib 5 None "Some 2" None None 0] rn_decoder by (fastforce simp: Let_def toy_lib_def)
  then show ?thesis by (simp add: Let_def)
qed

lemma one_time_ids_never_collide_witness:
  "(case node_generate toy_lib 5 1 (new_node 0) of (s, g) \<Rightarrow>
      key_ids (r_keys (the g)) @ snd (node_run toy_lib 5 s [Replenish 2, EncryptFor [1] 1 [65], Replenish 1])) = map Some [1..13]"
proof -
  obtain s g where g: "node_generate toy_lib 5 1 (new_node 0) = (s, Some g)"
    by (cases "generateRegistration toy_lib 5 (Some 1) None None None (nd_lib (new_node 0))") (simp add: node_generate_def)
  obtain s1 ids where r: "node_run toy_lib 5 s [Replenish 2, EncryptFor [1] 1 [65], Replenish 1] = (s1, ids)" by fastforce
  obtain st where "nd_high s = 10" "nd_stores s = Some st" using node_generate_pool [OF g] by auto
  then have high: "nd_high s1 = 13" using r
    by (auto simp: node_provider_def node_replenish_def with_stores_def split: prod.splits option.splits)
  show ?thesis using one_time_ids_never_collide [OF g _ r] by (simp add: g r high del: node_run.simps)
qed

lemma message_text_roundtrip_witness:
  "snd (snd (decrypt toy_lib [2] 1 (Whisper, bytes_to_base64 (text_encode [0xfeff, 65])) (new_stores [] 1) 0)) = Some [65]"
  using message_text_roundtrip [of toy_lib "[0xfeff, 65]" "[3]" 1 "new_stores [] 1" 0 0 "new_stores [] 1" Whisper "text_encode [0xfeff, 65]"
      "[2]" 1 "new_stores [] 1" 0 0 "new_stores [] 1"] rn_decoder
  by (simp add: toy_lib_def drop_bom_def surrogate_def)

end
