(* ===== verification/Contacts.thy ===== *)
theory Contacts
  imports MessagingProps Conversations
begin

text \<open>
  Finding people: \<open>apps/mobile/src/contacts/normalize.ts\<close> and \<open>deviceContacts.ts\<close>, and the handlers of
  \<open>screens/ContactsScreen.tsx\<close> that search a number and scan the address book.

  The permission dialog and the native address book are arguments; \<open>localeCompare\<close> of two names is the argument
  \<open>collate\<close> (true when the first is not after the second).
\<close>

subsection \<open>Phone numbers\<close>

text \<open>\<open>String.prototype.trim\<close>.\<close>

definition js_ws :: "unit16 \<Rightarrow> bool" where
  "js_ws c = (9 \<le> c \<and> c \<le> 13 \<or> c = 32 \<or> c = 0xa0 \<or> c = 0x1680 \<or> 0x2000 \<le> c \<and> c \<le> 0x200a \<or>
     c = 0x2028 \<or> c = 0x2029 \<or> c = 0x202f \<or> c = 0x205f \<or> c = 0x3000 \<or> c = 0xfeff)"

definition js_trim :: "jstr \<Rightarrow> jstr" where
  "js_trim s = rev (dropWhile js_ws (rev (dropWhile js_ws s)))"

definition KNOWN_CALLING_CODES :: "jstr list" where
  "KNOWN_CALLING_CODES = map js [''234'', ''254'', ''233'', ''256'', ''255'', ''250'', ''260'', ''263'', ''27'', ''212'', ''20'',
     ''251'', ''225'', ''221'', ''44'', ''1'', ''91'', ''971'', ''966'']"

definition starts :: "jstr \<Rightarrow> jstr \<Rightarrow> bool" where
  "starts p s = (take (length p) s = p)"

definition callingCodeOf :: "jstr \<Rightarrow> jstr option" where
  "callingCodeOf e164 =
    (let digits = filter is_digit e164; byLength = sort_desc (\<lambda>c. int (length c)) KNOWN_CALLING_CODES in
     List.find (\<lambda>code. starts code digits) byLength)"

text \<open>The characters that \<open>/[^\d+]/g\<close> keeps.\<close>

definition dialled :: "unit16 \<Rightarrow> bool" where
  "dialled c = (is_digit c \<or> c = 43)"

definition normalizeE164 :: "jstr \<Rightarrow> jstr option \<Rightarrow> jstr option" where
  "normalizeE164 raw cc =
    (if raw = [] then None
     else
       let s = filter dialled (js_trim raw);
           code = (case cc of None \<Rightarrow> [] | Some c \<Rightarrow> c);
           t = (if starts [43] s then 43 # filter is_digit (drop 1 s)
                else if starts [48, 48] s then 43 # drop 2 s
                else if starts [48] s \<and> code \<noteq> [] then 43 # code @ drop 1 s
                else if code \<noteq> [] then 43 # code @ s
                else 43 # s)
       in if length (drop 1 t) < 7 \<or> 15 < length (drop 1 t) then None else Some t)"

subsection \<open>The address book\<close>

record device_contact =
  dc_name :: jstr
  dc_number :: jstr

record contacts_device =
  cd_android :: bool
  cd_already :: bool
  cd_granted :: bool
  cd_native :: "device_contact list option option"

text \<open>\<open>cd_native\<close>: \<open>None\<close> without the module; \<open>Some None\<close> when its call rejects.\<close>

definition hasContacts :: "contacts_device \<Rightarrow> bool" where
  "hasContacts d = (cd_native d \<noteq> None)"

definition ensureContactsPermission :: "contacts_device \<Rightarrow> bool" where
  "ensureContactsPermission d = (if \<not> cd_android d then False else if cd_already d then True else cd_granted d)"

definition readDeviceContacts :: "contacts_device \<Rightarrow> device_contact list option" where
  "readDeviceContacts d =
    (case cd_native d of None \<Rightarrow> None
     | Some book \<Rightarrow> if \<not> ensureContactsPermission d then Some [] else book)"

subsection \<open>The screen\<close>

record match_row =
  mr_user :: jstr
  mr_phone :: jstr
  mr_name :: jstr

definition default_code :: "jstr option \<Rightarrow> jstr option" where
  "default_code own = (case own of None \<Rightarrow> None | Some p \<Rightarrow> if p = [] then None else callingCodeOf p)"

fun name_by_number :: "jstr option \<Rightarrow> device_contact list \<Rightarrow> (jstr, jstr) jsmap \<Rightarrow> (jstr, jstr) jsmap" where
  "name_by_number own [] m = m"
| "name_by_number own (c # cs) m =
    (case normalizeE164 (dc_number c) (default_code own) of
       None \<Rightarrow> name_by_number own cs m
     | Some e \<Rightarrow>
         if Some e = own then name_by_number own cs m
         else name_by_number own cs
           (if map_has m e then m else map_set e (if dc_name c \<noteq> [] then dc_name c else e) m))"

fun insert_row :: "(jstr \<Rightarrow> jstr \<Rightarrow> bool) \<Rightarrow> match_row \<Rightarrow> match_row list \<Rightarrow> match_row list" where
  "insert_row collate r [] = [r]"
| "insert_row collate r (x # xs) =
    (if collate (mr_name r) (mr_name x) then r # x # xs else x # insert_row collate r xs)"

definition sort_rows :: "(jstr \<Rightarrow> jstr \<Rightarrow> bool) \<Rightarrow> match_row list \<Rightarrow> match_row list" where
  "sort_rows collate rows = foldr (insert_row collate) rows []"

datatype scan_result =
    NoContacts
  | NoNumbers
  | Rows "match_row list"
  | ScanFailed

definition handleScan :: "'w fetch \<Rightarrow> (jstr \<Rightarrow> jstr \<Rightarrow> bool) \<Rightarrow> contacts_device \<Rightarrow> jstr option \<Rightarrow> 'c messenger \<Rightarrow> 'w \<Rightarrow>
    'c messenger \<times> 'w \<times> scan_result" where
  "handleScan fetch collate dev own s w =
    (case readDeviceContacts dev of None \<Rightarrow> (s, w, ScanFailed)
     | Some contacts \<Rightarrow>
         if contacts = [] then (s, w, NoContacts)
         else (let m = name_by_number own contacts []; numbers = map fst m in
           if numbers = [] then (s, w, NoNumbers)
           else (case discoverContacts fetch numbers s w of
               (s1, w1, Inl e) \<Rightarrow> (s1, w1, ScanFailed)
             | (s1, w1, Inr found) \<Rightarrow>
                 (s1, w1, Rows (sort_rows collate (map (\<lambda>f. \<lparr>mr_user = snd f, mr_phone = fst f,
                    mr_name = (case map_of m (fst f) of Some n \<Rightarrow> n | None \<Rightarrow> fst f)\<rparr>) found))))))"

text \<open>The result is the chat to open, \<open>Inr None\<close> when the number has no account.\<close>

definition handleFind :: "'w fetch \<Rightarrow> jstr \<Rightarrow> conv_store \<Rightarrow> 'c messenger \<Rightarrow> 'w \<Rightarrow>
    'c messenger \<times> 'w \<times> conv_store \<times> conv_effect list \<times> (client_error + (jstr \<times> jstr) option)" where
  "handleFind fetch phone cs s w =
    (case findContact fetch (js_trim phone) s w of
       (s1, w1, Inl e) \<Rightarrow> (s1, w1, cs, [], Inl e)
     | (s1, w1, Inr None) \<Rightarrow> (s1, w1, cs, [], Inr None)
     | (s1, w1, Inr (Some peer)) \<Rightarrow>
         if peer = [] then (s1, w1, cs, [], Inr None)
         else (case ensurePeer peer (Some (js_trim phone)) cs of
             (cs1, effs) \<Rightarrow> (s1, w1, cs1, effs, Inr (Some (peer, js_trim phone)))))"

subsection \<open>Calling codes\<close>

lemma digit_not_plus: "is_digit c \<Longrightarrow> c \<noteq> 43"
  by (auto simp: is_digit_def word_le_nat_alt)

lemma codes_independent:
  "list_all (\<lambda>a. list_all (\<lambda>b. starts a b \<longrightarrow> a = b) KNOWN_CALLING_CODES) KNOWN_CALLING_CODES"
  by code_simp

lemma starts_linear: "starts a s \<Longrightarrow> starts b s \<Longrightarrow> length a \<le> length b \<Longrightarrow> starts a b"
  unfolding starts_def by (metis min.absorb1 take_take)

lemma code_unique:
  assumes "a \<in> set KNOWN_CALLING_CODES" "b \<in> set KNOWN_CALLING_CODES" "starts a s" "starts b s"
  shows "a = b"
proof (cases "length a \<le> length b")
  case True
  then show ?thesis using starts_linear [OF assms(3,4)] codes_independent assms(1,2) by (auto simp: list_all_iff)
next
  case False
  then show ?thesis using starts_linear [OF assms(4,3)] codes_independent assms(1,2) by (auto simp: list_all_iff)
qed

lemma find_in: "List.find P xs = Some x \<Longrightarrow> x \<in> set xs \<and> P x"
  by (auto simp: find_Some_iff)

lemma callingCode_known:
  "callingCodeOf e = Some c \<Longrightarrow> c \<in> set KNOWN_CALLING_CODES \<and> starts c (filter is_digit e)"
  unfolding callingCodeOf_def Let_def by (drule find_in) simp

text \<open>The calling code found for a number is the known code its digits begin with, whatever the order in which
  the codes are tried: no known code begins another one.\<close>

theorem callingCodeOf_spec:
  "callingCodeOf e = Some c \<longleftrightarrow> c \<in> set KNOWN_CALLING_CODES \<and> starts c (filter is_digit e)"
proof
  assume c: "c \<in> set KNOWN_CALLING_CODES \<and> starts c (filter is_digit e)"
  then have "callingCodeOf e \<noteq> None"
    unfolding callingCodeOf_def Let_def by (metis find_None_iff set_sort_desc)
  then obtain d where d: "callingCodeOf e = Some d" by blast
  then show "callingCodeOf e = Some c" using code_unique c callingCode_known by metis
qed (rule callingCode_known)

subsection \<open>Normal forms\<close>

lemma filter_dropWhile: "(\<And>c. Q c \<Longrightarrow> \<not> P c) \<Longrightarrow> filter P (dropWhile Q s) = filter P s"
  by (induction s) auto

lemma filter_trim: "filter dialled (js_trim s) = filter dialled s"
proof -
  have q: "\<not> dialled c" if "js_ws c" for c
    using that by (auto simp: js_ws_def dialled_def is_digit_def word_le_nat_alt)
  have "filter dialled (js_trim s) = rev (filter dialled (dropWhile js_ws (rev (dropWhile js_ws s))))"
    by (simp add: js_trim_def rev_filter)
  also have "\<dots> = filter dialled s" using q by (simp add: filter_dropWhile rev_filter)
  finally show ?thesis .
qed

text \<open>However a contact's number is written in the address book - with spaces, dashes, brackets or dots, in
  international form with + or 00, or in national form with or without the trunk 0 - it normalises to the same
  E.164 number, the one its owner registered, or to nothing when it cannot be a number.\<close>

theorem phone_forms_agree:
  assumes "list_all is_digit (cc @ ds)" "cc \<noteq> []" "ds \<noteq> []" "hd ds \<noteq> 48"
    and "filter dialled raw \<in> {43 # cc @ ds, 48 # 48 # cc @ ds, 48 # ds, ds}"
  shows "normalizeE164 raw (Some cc) =
    (if length cc + length ds < 7 \<or> 15 < length cc + length ds then None else Some (43 # cc @ ds))"
proof -
  obtain d r where d: "ds = d # r" using assms(3) by (cases ds) auto
  have f: "filter is_digit (cc @ ds) = cc @ ds" using assms(1) by (simp add: list_all_iff)
  have p: "d \<noteq> 43" "d \<noteq> 48" using assms(1,4) d digit_not_plus by auto
  have n: "raw \<noteq> []" using assms(5) d by auto
  show ?thesis using assms(2,5) p n f
    by (auto simp: normalizeE164_def filter_trim Let_def starts_def d)
qed

lemma phone_forms_agree_witness:
  "normalizeE164 (js '' (0801) 234-5678'') (Some (js ''234'')) = Some (js ''+2348012345678'')"
proof -
  have "list_all is_digit (js ''234'' @ js ''8012345678'')" "js ''234'' \<noteq> []" "js ''8012345678'' \<noteq> []" "hd (js ''8012345678'') \<noteq> 48"
    "filter dialled (js '' (0801) 234-5678'') \<in>
      {43 # js ''234'' @ js ''8012345678'', 48 # 48 # js ''234'' @ js ''8012345678'', 48 # js ''8012345678'', js ''8012345678''}"
    "43 # js ''234'' @ js ''8012345678'' = js ''+2348012345678''"
    by code_simp+
  then show ?thesis using phone_forms_agree [of "js ''234''" "js ''8012345678''" "js '' (0801) 234-5678''"] by simp
qed

text \<open>Not every result is a number: a plus sign inside an entry that starts with 00 or with the national prefix
  survives normalisation, although everything but digits is meant to be dropped after the first character.\<close>

theorem inner_plus_survives:
  "normalizeE164 (js ''00+2348012345'') None = Some (js ''++2348012345'') \<and>
   normalizeE164 (js ''0801+2345678'') (Some (js ''234'')) = Some (js ''+234801+2345678'')"
  by code_simp

subsection \<open>Scanning the address book\<close>

text \<open>The numbers a scan asks about: each normalised entry once, the user's own left out.\<close>

definition book_numbers :: "jstr option \<Rightarrow> device_contact list \<Rightarrow> jstr set" where
  "book_numbers own cs = {e. Some e \<noteq> own \<and> (\<exists>c\<in>set cs. normalizeE164 (dc_number c) (default_code own) = Some e)}"

definition listed_name :: "jstr option \<Rightarrow> device_contact list \<Rightarrow> jstr \<Rightarrow> jstr" where
  "listed_name own cs e =
    (case List.find (\<lambda>c. normalizeE164 (dc_number c) (default_code own) = Some e) cs of
       Some c \<Rightarrow> if dc_name c \<noteq> [] then dc_name c else e
     | None \<Rightarrow> e)"

lemma book_Cons:
  "e \<in> book_numbers own (c # cs) \<longleftrightarrow>
     (Some e \<noteq> own \<and> normalizeE164 (dc_number c) (default_code own) = Some e) \<or> e \<in> book_numbers own cs"
  by (auto simp: book_numbers_def)

lemma listed_Cons:
  "listed_name own (c # cs) e =
    (if normalizeE164 (dc_number c) (default_code own) = Some e then if dc_name c \<noteq> [] then dc_name c else e
     else listed_name own cs e)"
  by (simp add: listed_name_def)

lemma name_by_number_of:
  "map_of (name_by_number own cs m) e =
    (case map_of m e of Some n \<Rightarrow> Some n
     | None \<Rightarrow> if e \<in> book_numbers own cs then Some (listed_name own cs e) else None)"
proof (induction cs arbitrary: m)
  case (Cons c cs)
  show ?case
  proof (cases "normalizeE164 (dc_number c) (default_code own)")
    case None
    then show ?thesis by (cases "map_of m e") (simp_all add: Cons.IH book_Cons listed_Cons)
  next
    case (Some x)
    define m' where "m' = (if Some x = own \<or> map_has m x then m else map_set x (if dc_name c \<noteq> [] then dc_name c else x) m)"
    have step: "name_by_number own (c # cs) m = name_by_number own cs m'"
      unfolding name_by_number.simps Some option.case m'_def by (cases "Some x = own") simp_all
    have m': "map_of m' e = (if e = x \<and> Some x \<noteq> own \<and> map_of m x = None
        then Some (if dc_name c \<noteq> [] then dc_name c else x) else map_of m e)"
      by (simp add: m'_def map_has_def)
    show ?thesis
    proof (cases "e = x \<and> Some x \<noteq> own")
      case True
      then show ?thesis unfolding step Cons.IH m' by (cases "map_of m e") (simp_all add: book_Cons listed_Cons Some)
    next
      case False
      then have "e \<in> book_numbers own (c # cs) \<longleftrightarrow> e \<in> book_numbers own cs"
        "e \<in> book_numbers own cs \<Longrightarrow> listed_name own (c # cs) e = listed_name own cs e"
        by (auto simp: book_Cons listed_Cons Some book_numbers_def)
      then show ?thesis unfolding step Cons.IH m' using False by (cases "map_of m e") auto
    qed
  qed
qed (simp add: book_numbers_def split: option.split)

lemma book_keys: "set (map fst (name_by_number own cs [])) = book_numbers own cs"
  using name_by_number_of [of own cs "[]"] by (auto simp: dom_map_of_conv_image_fst [symmetric] dom_def)

lemma set_insert_row: "set (insert_row collate r xs) = insert r (set xs)"
  by (induction xs) auto

lemma set_sort_rows [simp]: "set (sort_rows collate rows) = set rows"
  unfolding sort_rows_def by (induction rows) (simp_all add: set_insert_row)

lemma normalized_nonempty: "normalizeE164 raw cc = Some e \<Longrightarrow> e \<noteq> []"
  by (auto simp: normalizeE164_def Let_def split: if_splits)


text \<open>A phone with one contact, and a server that knows her number.\<close>

definition ada :: jstr where
  "ada = js ''+2348012345678''"

definition ada_phone :: contacts_device where
  "ada_phone = \<lparr>cd_android = True, cd_already = False, cd_granted = True,
     cd_native = Some (Some [\<lparr>dc_name = [65], dc_number = js ''+234 801 234 5678''\<rparr>])\<rparr>"

definition book_answer :: json where
  "book_answer = JObj [(js ''saltB64'', JStr []),
     (js ''matches'', JArr [JObj [(js ''phoneHashB64'', JStr (the (hashPhone [] ada))), (js ''userId'', JStr [7])]])]"

definition book_server :: "unit fetch" where
  "book_server r w = (w, Some \<lparr>rs_status = 200, rs_text = stringify book_answer\<rparr>)"

lemma book_request: "request book_server meth p body au d w = (d, w, Inr book_answer)"
proof -
  have "wf_json book_answer" by (simp add: book_answer_def)
  then show ?thesis by (simp add: request_def book_server_def finish_def is_ok_def json_roundtrip del: stringify.simps)
qed


end
