(* ===== verification/Composer.thy ===== *)
theory Composer
  imports Contacts Typing
begin

text \<open>
  The message composer of \<open>apps/mobile/src/screens/ChatScreen.tsx\<close>: the outbound typing throttle with its idle
  timer, and \<open>handleSend\<close>. An output is the argument of \<open>conversationStore.sendTyping\<close>. Times are
  \<open>Date.now()\<close>; the idle timer is its deadline.

  \<open>composing\<close> is every run in which the idle timer is not late: no key is handled after its deadline.
\<close>

definition TYPING_THROTTLE_MS :: int where "TYPING_THROTTLE_MS = 3000"
definition TYPING_IDLE_MS :: int where "TYPING_IDLE_MS = 4000"

record composer =
  draft :: jstr
  lastTypingSent :: int
  typingActive :: bool
  idleTimer :: "int option"

definition new_composer :: composer where
  "new_composer = \<lparr>draft = [], lastTypingSent = 0, typingActive = False, idleTimer = None\<rparr>"

definition stopTyping :: "composer \<Rightarrow> composer \<times> bool list" where
  "stopTyping c =
    (let c1 = c\<lparr>idleTimer := None\<rparr> in
     if typingActive c1 then (c1\<lparr>typingActive := False, lastTypingSent := 0\<rparr>, [False]) else (c1, []))"

definition handleDraftChange :: "int \<Rightarrow> jstr \<Rightarrow> composer \<Rightarrow> composer \<times> bool list" where
  "handleDraftChange now t c =
    (let c0 = c\<lparr>draft := t\<rparr> in
     if length t = 0 then stopTyping c0
     else
       let (c1, out) = (if now - lastTypingSent c0 > TYPING_THROTTLE_MS
                        then (c0\<lparr>lastTypingSent := now, typingActive := True\<rparr>, [True]) else (c0, []))
       in (c1\<lparr>idleTimer := Some (now + TYPING_IDLE_MS)\<rparr>, out))"

text \<open>\<open>handleSend\<close> up to the call of \<open>conversationStore.send\<close>, whose text is the last result.\<close>

definition handleSend :: "composer \<Rightarrow> composer \<times> bool list \<times> jstr option" where
  "handleSend c =
    (let t = js_trim (draft c) in
     if t = [] then (c, [], None)
     else (case stopTyping (c\<lparr>draft := []\<rparr>) of (c1, out) \<Rightarrow> (c1, out, Some t)))"

inductive composing :: "composer \<Rightarrow> int \<Rightarrow> (int \<times> bool) list \<Rightarrow> bool" where
  Open: "composing new_composer now []"
| Key: "composing c t tr \<Longrightarrow> t \<le> now \<Longrightarrow> (case idleTimer c of None \<Rightarrow> True | Some d \<Rightarrow> now \<le> d) \<Longrightarrow>
    handleDraftChange now body c = (c', out) \<Longrightarrow> composing c' now (tr @ map (Pair now) out)"
| Idle: "composing c t tr \<Longrightarrow> t \<le> now \<Longrightarrow> idleTimer c = Some d \<Longrightarrow> d \<le> now \<Longrightarrow> stopTyping c = (c', out) \<Longrightarrow>
    composing c' now (tr @ map (Pair now) out)"
| Send: "composing c t tr \<Longrightarrow> t \<le> now \<Longrightarrow> handleSend c = (c', out, msg) \<Longrightarrow> composing c' now (tr @ map (Pair now) out)"
| Close: "composing c t tr \<Longrightarrow> t \<le> now \<Longrightarrow> stopTyping c = (c', out) \<Longrightarrow> composing c' now (tr @ map (Pair now) out)"

subsection \<open>The invariant\<close>

definition composer_ok :: "composer \<Rightarrow> int \<Rightarrow> (int \<times> bool) list \<Rightarrow> bool" where
  "composer_ok c t tr =
    ((typingActive c = (tr \<noteq> [] \<and> snd (last tr))) \<and>
     (typingActive c \<longrightarrow> fst (last tr) = lastTypingSent c \<and> lastTypingSent c \<le> t \<and>
        (\<exists>d. idleTimer c = Some d \<and> d \<le> lastTypingSent c + 7000 \<and> d \<le> t + 4000)))"

definition spaced :: "int \<times> bool \<Rightarrow> int \<times> bool \<Rightarrow> bool" where
  "spaced a b = (case (a, b) of ((s, True), (t, True)) \<Rightarrow> 3000 < t - s \<and> t - s \<le> 7000
     | ((s, False), (t, False)) \<Rightarrow> False | _ \<Rightarrow> True)"

lemma successively_snoc: "successively P (xs @ [y]) \<longleftrightarrow> successively P xs \<and> (xs = [] \<or> P (last xs) y)"
  by (auto simp: successively_append_iff)

lemma stop_ok:
  assumes "composer_ok c t tr" "successively spaced tr" "t \<le> now" "stopTyping c = (c', out)"
  shows "composer_ok c' now (tr @ map (Pair now) out) \<and> successively spaced (tr @ map (Pair now) out) \<and>
    \<not> typingActive c' \<and> idleTimer c' = None"
proof (cases "typingActive c")
  case True
  then have "tr \<noteq> [] \<and> snd (last tr)" using assms(1) by (simp add: composer_ok_def)
  moreover have "out = [False]" "\<not> typingActive c'" "idleTimer c' = None"
    using assms(4) True by (auto simp: stopTyping_def)
  ultimately show ?thesis using assms(2)
    by (cases "last tr") (auto simp: composer_ok_def successively_snoc spaced_def)
next
  case False
  then have "out = []" "\<not> typingActive c'" "idleTimer c' = None" using assms(4) by (auto simp: stopTyping_def)
  then show ?thesis using assms(1,2) False by (simp add: composer_ok_def)
qed

lemma draft_ok: "composer_ok (c\<lparr>draft := x\<rparr>) t tr = composer_ok c t tr"
  by (simp add: composer_ok_def)

lemma key_ok:
  assumes ok: "composer_ok c t tr" "successively spaced tr" and now: "t \<le> now"
    and timely: "case idleTimer c of None \<Rightarrow> True | Some d \<Rightarrow> now \<le> d"
    and run: "handleDraftChange now body c = (c', out)"
  shows "composer_ok c' now (tr @ map (Pair now) out) \<and> successively spaced (tr @ map (Pair now) out)"
proof (cases "body = []")
  case True
  then show ?thesis using stop_ok [of "c\<lparr>draft := []\<rparr>" t tr now c' out] assms
    by (simp add: draft_ok handleDraftChange_def)
next
  case False
  show ?thesis
  proof (cases "now - lastTypingSent c > TYPING_THROTTLE_MS")
    case True
    then have c: "c' = c\<lparr>draft := body, lastTypingSent := now, typingActive := True, idleTimer := Some (now + 4000)\<rparr>"
      "out = [True]" using run False by (auto simp: handleDraftChange_def TYPING_IDLE_MS_def)
    have "tr = [] \<or> spaced (last tr) (now, True)"
      using ok(1) timely True
      by (cases "last tr"; cases "snd (last tr)") (auto simp: composer_ok_def spaced_def TYPING_THROTTLE_MS_def)
    then show ?thesis using ok(2) c by (auto simp: composer_ok_def successively_snoc)
  next
    case False
    then have c: "c' = c\<lparr>draft := body, idleTimer := Some (now + 4000)\<rparr>" "out = []"
      using run \<open>body \<noteq> []\<close> by (auto simp: handleDraftChange_def TYPING_IDLE_MS_def)
    then show ?thesis using ok now False by (auto simp: composer_ok_def TYPING_THROTTLE_MS_def)
  qed
qed

lemma composing_ok: "composing c t tr \<Longrightarrow> composer_ok c t tr \<and> successively spaced tr"
proof (induction rule: composing.induct)
  case (Open now)
  then show ?case by (simp add: composer_ok_def new_composer_def)
next
  case (Key c t tr now body c' out)
  then show ?case using key_ok by blast
next
  case (Idle c t tr now d c' out)
  then show ?case using stop_ok by blast
next
  case (Send c t tr now c' out msg)
  show ?case
  proof (cases "js_trim (draft c) = []")
    case True
    then have "c' = c" "out = []" using Send.hyps by (auto simp: handleSend_def)
    then show ?thesis using Send by (auto simp: composer_ok_def)
  next
    case False
    then have "stopTyping (c\<lparr>draft := []\<rparr>) = (c', out)" using Send.hyps by (auto simp: handleSend_def Let_def split: prod.splits)
    then show ?thesis using stop_ok [of "c\<lparr>draft := []\<rparr>" t tr now c' out] Send by (simp add: draft_ok)
  qed
next
  case (Close c t tr now c' out)
  then show ?case using stop_ok by blast
qed

text \<open>Two typing announcements in a row are more than three and at most seven seconds apart, and the
  composer never says twice in a row that the user stopped.\<close>

theorem typing_is_throttled:
  assumes "composing c t (xs @ a # b # ys)"
  shows "spaced a b"
  using composing_ok [OF assms] by (simp add: successively_append_iff)

text \<open>A typing announcement is always taken back: as long as the last thing the peer heard is that the user types,
  the idle timer is armed, and it expires at most four seconds after the last event; when it fires, or the thread
  closes, or a message is sent, the last thing the peer heard is that the user stopped.\<close>

theorem typing_is_taken_back:
  assumes "composing c t tr" and "tr \<noteq> []" and "snd (last tr)"
  shows "(\<exists>d. idleTimer c = Some d \<and> d \<le> t + TYPING_IDLE_MS) \<and> snd (stopTyping c) = [False] \<and>
    \<not> typingActive (fst (stopTyping c)) \<and> (js_trim (draft c) \<noteq> [] \<longrightarrow> fst (snd (handleSend c)) = [False])"
proof -
  have "composer_ok c t tr" using composing_ok [OF assms(1)] by simp
  then have "typingActive c" "\<exists>d. idleTimer c = Some d \<and> d \<le> t + 4000" using assms(2,3) by (auto simp: composer_ok_def)
  then show ?thesis by (auto simp: stopTyping_def TYPING_IDLE_MS_def handleSend_def)
qed

subsection \<open>A run\<close>

definition after_keys :: "int \<Rightarrow> int \<Rightarrow> composer" where
  "after_keys sent lastKey = \<lparr>draft = [72], lastTypingSent = sent, typingActive = True, idleTimer = Some (lastKey + 4000)\<rparr>"

lemma key_first: "composing (after_keys 10000 10000) 10000 [(10000, True)]"
  using Key [OF Open [of 10000], of 10000 "[72]" "after_keys 10000 10000" "[True]"]
  by (simp add: new_composer_def handleDraftChange_def TYPING_THROTTLE_MS_def TYPING_IDLE_MS_def after_keys_def)

lemma key_second: "composing (after_keys 10000 13000) 13000 [(10000, True)]"
  using Key [OF key_first, of 13000 "[72]" "after_keys 10000 13000" "[]"]
  by (simp add: handleDraftChange_def TYPING_THROTTLE_MS_def TYPING_IDLE_MS_def after_keys_def)

lemma key_third: "composing (after_keys 16900 16900) 16900 [(10000, True), (16900, True)]"
  using Key [OF key_second, of 16900 "[72]" "after_keys 16900 16900" "[True]"]
  by (simp add: handleDraftChange_def TYPING_THROTTLE_MS_def TYPING_IDLE_MS_def after_keys_def)

lemma typing_is_throttled_witness: "spaced (10000, True) (16900, True)"
  using typing_is_throttled [of "after_keys 16900 16900" 16900 "[]" "(10000, True)" "(16900, True)" "[]"] key_third by simp

lemma typing_is_taken_back_witness: "snd (stopTyping (after_keys 10000 13000)) = [False]"
  using typing_is_taken_back [OF key_second] by simp

text \<open>A peer can see the indicator lapse while the user keeps typing: keys three and then almost four seconds apart
  keep the composer active without an announcement for longer than the receiver keeps one.\<close>

theorem indicator_lapses_while_typing:
  "\<exists>c d. composing c 13000 [(10000, True)] \<and> typingActive c \<and> composing d 16900 [(10000, True), (16900, True)] \<and>
     compute_live 16500 peer (fst (receiveTyping 10000 peer peer True typing_init)) = []"
  using key_second key_third
  by (auto simp: after_keys_def receiveTyping_def typing_init_def senders_of_def set_senders_def ensureSweep_def
      invalidate_def compute_live_def TYPING_TTL_MS_def Let_def map_set_def intro!: exI)

end
