(* ===== verification/AppFlow.thy ===== *)
theory AppFlow
  imports Contacts Connection SafetyNumber
begin

text \<open>
  The app around the client: \<open>apps/mobile/App.tsx\<close> (launch and navigation), \<open>client/hwfaClient.ts\<close> (resuming a saved
  account), \<open>push/push.ts\<close> and \<open>push/setup.ts\<close>, \<open>config.ts\<close>, and the handlers of \<open>OnboardingScreen\<close>, \<open>SettingsScreen\<close>,
  \<open>SafetyNumberScreen\<close> and \<open>NewGroupScreen\<close>.

  The native account store is the pair of functions \<open>save\<close> and \<open>load\<close> on its own state. The client's socket
  (\<open>Connection\<close>) and its other state (\<open>Messaging\<close>) are passed side by side.
\<close>

subsection \<open>Configuration\<close>

definition HOST :: "bool \<Rightarrow> jstr" where
  "HOST android = (if android then js ''10.0.2.2'' else js ''localhost'')"

definition config_discoveryUrl :: "bool \<Rightarrow> jstr" where
  "config_discoveryUrl android = js ''http://'' @ HOST android @ js '':'' @ int_str 8091"

definition config_relayUrl :: "bool \<Rightarrow> jstr" where
  "config_relayUrl android = js ''ws://'' @ HOST android @ js '':'' @ int_str 8190 @ js ''/v1/relay''"

definition config_mediaUrl :: "bool \<Rightarrow> jstr" where
  "config_mediaUrl android = js ''http://'' @ HOST android @ js '':'' @ int_str 8092"

subsection \<open>The saved account\<close>

record saved_account =
  sa_account :: jstr
  sa_device :: int
  sa_phone :: jstr
  sa_token :: jstr
  sa_refresh :: jstr

definition restore_tokens :: "saved_account \<Rightarrow> disc \<Rightarrow> disc" where
  "restore_tokens a d =
    (if sa_token a \<noteq> [] \<and> sa_refresh a \<noteq> [] then setTokens (sa_token a) (sa_refresh a) d
     else if sa_token a \<noteq> [] then setToken (sa_token a) d else d)"

text \<open>\<open>tryResume\<close> up to the await of the relay; it resolves to the account, or rejects as the connection does.\<close>

definition tryResume :: "saved_account option \<Rightarrow> 'c messenger \<Rightarrow> conn \<Rightarrow> 'c messenger \<times> conn \<times> conn_effect list \<times> jstr option" where
  "tryResume acc s n =
    (case acc of None \<Rightarrow> (s, n, [], None)
     | Some a \<Rightarrow>
         (let s1 = resume (sa_account a) (sa_device a) (s\<lparr>disc := restore_tokens a (disc s)\<rparr>);
              (n1, es) = login (sa_account a) n
          in (s1, n1, es, Some (sa_account a))))"

definition or_blank :: "jstr option \<Rightarrow> jstr" where
  "or_blank v = (case v of None \<Rightarrow> [] | Some x \<Rightarrow> x)"

subsection \<open>Onboarding\<close>

text \<open>\<open>handleVerify\<close> and \<open>handleLink\<close> with a relay that connects; the result is the argument of \<open>onOnboarded\<close>.\<close>

definition handleVerify :: "'w fetch \<Rightarrow> (jstr \<Rightarrow> jstr \<Rightarrow> jstr \<Rightarrow> jstr \<Rightarrow> 'n \<Rightarrow> 'n option) \<Rightarrow> jstr \<Rightarrow> jstr \<Rightarrow>
    'c messenger \<Rightarrow> 'w \<Rightarrow> 'n \<Rightarrow> 'c messenger \<times> 'w \<times> 'n \<times> jstr option" where
  "handleVerify fetch save phone code s w n =
    (case confirmOtp fetch (js_trim code) s w of
       (s1, w1, Inl e) \<Rightarrow> (s1, w1, n, None)
     | (s1, w1, Inr u) \<Rightarrow>
         (case save u (js_trim phone) (or_blank (token (disc s1))) (or_blank (refresh_token (disc s1))) n of
            None \<Rightarrow> (s1, w1, n, None) | Some n1 \<Rightarrow> (s1, w1, n1, Some u)))"

definition handleLink :: "'w fetch \<Rightarrow> 'c provider \<Rightarrow> (jstr \<Rightarrow> jstr \<Rightarrow> jstr \<Rightarrow> jstr \<Rightarrow> 'n \<Rightarrow> 'n option) \<Rightarrow> jstr \<Rightarrow>
    'c messenger \<Rightarrow> 'w \<Rightarrow> 'n \<Rightarrow> 'c messenger \<times> 'w \<times> 'n \<times> jstr option" where
  "handleLink fetch prov save code s w n =
    (case linkWithCode fetch prov (js_trim code) s w of
       (s1, w1, Inl e) \<Rightarrow> (s1, w1, n, None)
     | (s1, w1, Inr (u, a)) \<Rightarrow>
         (case save u [] (or_blank (token (disc s1))) (or_blank (refresh_token (disc s1))) n of
            None \<Rightarrow> (s1, w1, n, None) | Some n1 \<Rightarrow> (s1, w1, n1, Some u)))"

datatype phase = PhonePhase | CodePhase | LinkPhase

record onboarding =
  ob_phase :: phase
  ob_code :: jstr
  ob_devHint :: bool
  ob_error :: bool

definition handleRequestCode :: "'w fetch \<Rightarrow> 'c provider \<Rightarrow> jstr \<Rightarrow> onboarding \<Rightarrow> 'c messenger \<Rightarrow> 'w \<Rightarrow>
    'c messenger \<times> 'w \<times> onboarding" where
  "handleRequestCode fetch prov phone ob s w =
    (let ob0 = ob\<lparr>ob_error := False\<rparr> in
     case requestOtp fetch prov (js_trim phone) s w of
       (s1, w1, Inl e) \<Rightarrow> (s1, w1, ob0\<lparr>ob_error := True\<rparr>)
     | (s1, w1, Inr res) \<Rightarrow>
         (s1, w1, (case reg_devOtp res of
            Some c \<Rightarrow> if c \<noteq> [] then ob0\<lparr>ob_code := c, ob_devHint := True\<rparr> else ob0\<lparr>ob_devHint := False\<rparr>
          | None \<Rightarrow> ob0\<lparr>ob_devHint := False\<rparr>)\<lparr>ob_phase := CodePhase\<rparr>))"

definition handleEditNumber :: "onboarding \<Rightarrow> onboarding" where
  "handleEditNumber ob = ob\<lparr>ob_phase := PhonePhase, ob_code := [], ob_devHint := False, ob_error := False\<rparr>"

subsection \<open>Push\<close>

record push_device =
  pd_android :: bool
  pd_version :: "nat option"
  pd_prompt :: "bool option"
  pd_fcm :: "jstr option option"

text \<open>\<open>pd_prompt\<close>: \<open>None\<close> when the request throws. \<open>pd_fcm\<close>: \<open>None\<close> without the module, \<open>Some None\<close> when \<open>getToken\<close> throws.\<close>

definition requestNotificationPermission :: "push_device \<Rightarrow> bool" where
  "requestNotificationPermission d =
    (if \<not> pd_android d then True
     else if (case pd_version d of Some v \<Rightarrow> v < 33 | None \<Rightarrow> False) then True
     else (case pd_prompt d of Some granted \<Rightarrow> granted | None \<Rightarrow> False))"

definition getFcmToken :: "push_device \<Rightarrow> jstr option" where
  "getFcmToken d = (case pd_fcm d of None \<Rightarrow> None | Some t \<Rightarrow> t)"

text \<open>\<open>initPush\<close>: the flag \<open>started\<close>, the connection, and whether the event handlers were subscribed.\<close>

definition initPush :: "push_device \<Rightarrow> bool \<Rightarrow> conn \<Rightarrow> bool \<times> conn \<times> conn_effect list \<times> bool" where
  "initPush d on n =
    (if on then (True, n, [], False)
     else (let (n1, es) = (case getFcmToken d of
               Some t \<Rightarrow> if t \<noteq> [] then registerPushToken t n else (n, []) | None \<Rightarrow> (n, []))
           in (True, n1, es, True)))"

definition push_wake :: "conn \<Rightarrow> conn \<times> conn_effect list" where
  "push_wake n = connectRelay n"

definition push_token_refresh :: "jstr \<Rightarrow> conn \<Rightarrow> conn \<times> conn_effect list" where
  "push_token_refresh t n = registerPushToken t n"

subsection \<open>The safety number screen\<close>

datatype safety_view = SendFirst | Number jstr | SafetyError

definition showSafety :: "jstr option \<Rightarrow> jstr \<Rightarrow> 'c messenger \<Rightarrow> conv_store \<Rightarrow>
    'c messenger \<times> conv_store \<times> conv_effect list \<times> safety_view" where
  "showSafety local peer s cs =
    (case local of None \<Rightarrow> (s, cs, [], SafetyError)
     | Some own \<Rightarrow>
         (let key = (case peerIdentityKey peer s of Some k \<Rightarrow> Some k
                     | None \<Rightarrow> Option.bind (conv_of cs peer) peerIdentityB64);
              theirs = or_blank key;
              (s1, cs1, es) = (if theirs \<noteq> []
                then (case setPeerIdentity peer theirs cs of (c1, e1) \<Rightarrow> (setPeerIdentityKey peer theirs s, c1, e1))
                else (s, cs, []))
          in (s1, cs1, es,
              if own = [] \<or> theirs = [] then SendFirst
              else (case safetyNumber own theirs of None \<Rightarrow> SafetyError | Some n \<Rightarrow> Number n))))"

subsection \<open>New groups\<close>

definition toggle_member :: "jstr \<Rightarrow> jstr list \<Rightarrow> jstr list" where
  "toggle_member p sel = (if p \<in> set sel then removeAll p sel else sel @ [p])"

definition create_group :: "nat \<Rightarrow> jstr \<Rightarrow> jstr \<Rightarrow> jstr list \<Rightarrow> conv_store \<Rightarrow> (conv_store \<times> conv_effect list \<times> jstr) option" where
  "create_group now rnd name sel cs =
    (if length sel = 0 then None
     else Some (createGroup now rnd (let t = js_trim name in if t \<noteq> [] then t else js ''New group'') sel cs))"

subsection \<open>Launch and navigation\<close>

datatype screen =
    Splash | Welcome | Onboarding | Home | ContactsScreen | Settings | Starred | NewGroup | LinkDevice | Devices
  | Safety jstr "jstr option"
  | Chat jstr "jstr option"

record app =
  ap_user :: "jstr option"
  ap_screen :: screen
  ap_convs :: conv_store
  ap_finds :: nat
  ap_leaving :: nat

definition app_init :: app where
  "app_init = \<lparr>ap_user = None, ap_screen = Splash, ap_convs = init_store, ap_finds = 0, ap_leaving = 0\<rparr>"

definition goto :: "screen \<Rightarrow> app \<Rightarrow> app" where
  "goto v a = a\<lparr>ap_screen := v\<rparr>"

text \<open>\<open>Promise.all([tryResume(), minSplash])\<close> has settled: \<open>None\<close> when it rejected.\<close>

definition launched :: "jstr option option \<Rightarrow> app \<Rightarrow> app \<times> conv_effect list" where
  "launched res a =
    (case res of
       Some (Some u) \<Rightarrow>
         if u \<noteq> [] then (case start (ap_convs a) of (cs, es) \<Rightarrow> (goto Home (a\<lparr>ap_user := Some u, ap_convs := cs\<rparr>), es))
         else (goto Welcome a, [])
     | _ \<Rightarrow> (goto Welcome a, []))"

definition onOnboarded :: "jstr \<Rightarrow> app \<Rightarrow> app \<times> conv_effect list" where
  "onOnboarded u a = (case start (ap_convs a) of (cs, es) \<Rightarrow> (goto Home (a\<lparr>ap_user := Some u, ap_convs := cs\<rparr>), es))"

definition onSignedOut :: "app \<Rightarrow> app" where
  "onSignedOut a = goto Welcome (a\<lparr>ap_user := None\<rparr>)"

definition openChat :: "jstr \<Rightarrow> jstr \<Rightarrow> app \<Rightarrow> app \<times> conv_effect list" where
  "openChat peer phone a =
    (case ensurePeer peer (Some phone) (ap_convs a) of (cs, es) \<Rightarrow> (goto (Chat peer (Some phone)) (a\<lparr>ap_convs := cs\<rparr>), es))"

text \<open>\<open>signOut\<close> and \<open>deleteAccount\<close> (once the server agreed) up to the await of the native reset.\<close>

definition signOut :: "app \<Rightarrow> conn \<Rightarrow> app \<times> conv_effect list \<times> conn \<times> conn_effect list" where
  "signOut a n =
    (case close_client n of (n1, ne) \<Rightarrow> case reset (ap_convs a) of (cs, es) \<Rightarrow>
       (a\<lparr>ap_convs := cs, ap_leaving := Suc (ap_leaving a)\<rparr>, es, n1, ne))"

definition settings_deleteAccount :: "'w fetch \<Rightarrow> app \<Rightarrow> 'c messenger \<Rightarrow> conn \<Rightarrow> 'w \<Rightarrow>
    app \<times> conv_effect list \<times> 'c messenger \<times> conn \<times> conn_effect list \<times> 'w" where
  "settings_deleteAccount fetch a s n w =
    (case client_deleteAccount fetch s w of
       (s1, w1, Inl e) \<Rightarrow> (a, [], s1, n, [], w1)
     | (s1, w1, Inr _) \<Rightarrow>
         (case account_deleted n of (n1, ne) \<Rightarrow> case reset (ap_convs a) of (cs, es) \<Rightarrow>
            (a\<lparr>ap_convs := cs, ap_leaving := Suc (ap_leaving a)\<rparr>, es, s1, n1, ne, w1)))"

text \<open>Where the buttons of a screen lead; \<open>Chat\<close> and \<open>Safety\<close> are rendered without an account, the others are not.\<close>

fun exits :: "screen \<Rightarrow> screen \<Rightarrow> bool" where
  "exits Home v = (v \<in> {ContactsScreen, Settings, Starred, NewGroup} \<or> (\<exists>p ph. v = Chat p ph))"
| "exits NewGroup v = (v = Home \<or> (\<exists>g. v = Chat g None))"
| "exits Settings v = (v \<in> {Home, LinkDevice, Devices})"
| "exits LinkDevice v = (v = Settings)"
| "exits Devices v = (v = Settings)"
| "exits Starred v = (v = Home \<or> (\<exists>p ph. v = Chat p ph))"
| "exits ContactsScreen v = (v = Home)"
| "exits (Chat p ph) v = (v = Home \<or> v = Safety p ph)"
| "exits (Safety p ph) v = (v = Chat p ph)"
| "exits _ v = False"

fun guarded :: "screen \<Rightarrow> bool" where
  "guarded (Chat p ph) = False"
| "guarded (Safety p ph) = False"
| "guarded Splash = False"
| "guarded Welcome = False"
| "guarded Onboarding = False"
| "guarded _ = True"

definition shown :: "app \<Rightarrow> screen option" where
  "shown a = (if guarded (ap_screen a) \<and> \<not> truthy_str (ap_user a) then None else Some (ap_screen a))"

text \<open>Runs of the app. With \<open>late\<close>, a search started on the contacts screen may answer after the user has left it.\<close>

inductive app_run :: "bool \<Rightarrow> app \<Rightarrow> bool" for late where
  Init: "app_run late app_init"
| Launch: "app_run late a \<Longrightarrow> ap_screen a = Splash \<Longrightarrow> app_run late (fst (launched res a))"
| Agree: "app_run late a \<Longrightarrow> ap_screen a = Welcome \<Longrightarrow> app_run late (goto Onboarding a)"
| Onboard: "app_run late a \<Longrightarrow> ap_screen a = Onboarding \<Longrightarrow> u \<noteq> [] \<Longrightarrow> app_run late (fst (onOnboarded u a))"
| Tap: "app_run late a \<Longrightarrow> shown a = Some v \<Longrightarrow> exits v v' \<Longrightarrow> app_run late (goto v' a)"
| FindStart: "app_run late a \<Longrightarrow> shown a = Some ContactsScreen \<Longrightarrow> app_run late (a\<lparr>ap_finds := Suc (ap_finds a)\<rparr>)"
| FindNothing: "app_run late a \<Longrightarrow> 0 < ap_finds a \<Longrightarrow> app_run late (a\<lparr>ap_finds := ap_finds a - 1\<rparr>)"
| FindDone: "app_run late a \<Longrightarrow> 0 < ap_finds a \<Longrightarrow> late \<or> ap_screen a = ContactsScreen \<Longrightarrow>
    app_run late (fst (openChat peer phone (a\<lparr>ap_finds := ap_finds a - 1\<rparr>)))"
| OpenMatch: "app_run late a \<Longrightarrow> shown a = Some ContactsScreen \<Longrightarrow> app_run late (fst (openChat peer phone a))"
| SignOut: "app_run late a \<Longrightarrow> shown a = Some Settings \<Longrightarrow> app_run late (fst (signOut a n))"
| SignedOut: "app_run late a \<Longrightarrow> 0 < ap_leaving a \<Longrightarrow> app_run late (onSignedOut (a\<lparr>ap_leaving := ap_leaving a - 1\<rparr>))"

definition needs_account :: "screen \<Rightarrow> bool" where
  "needs_account v = (v \<notin> {Splash, Welcome, Onboarding})"

lemma exits_need: "exits v v' \<Longrightarrow> needs_account v \<and> needs_account v'"
  by (cases v) (auto simp: needs_account_def)

lemma shown_user: "shown a = Some v \<Longrightarrow> ap_screen a = v"
  by (simp add: shown_def split: if_splits)

lemma run_account: "app_run late a \<Longrightarrow> \<not> late \<Longrightarrow> needs_account (ap_screen a) \<longrightarrow> truthy_str (ap_user a)"
proof (induction rule: app_run.induct)
  case (Launch a res)
  then show ?case by (auto simp: launched_def goto_def needs_account_def split: option.split prod.split)
next
  case (Onboard a u)
  then show ?case by (simp add: onOnboarded_def goto_def split: prod.split)
next
  case (Tap a v v')
  then show ?case using exits_need shown_user by (fastforce simp: goto_def)
next
  case (FindDone a peer phone)
  then show ?case by (auto simp: openChat_def goto_def needs_account_def split: prod.split)
next
  case (OpenMatch a peer phone)
  then have "ap_screen a = ContactsScreen" using shown_user by blast
  then show ?case using OpenMatch by (auto simp: openChat_def goto_def needs_account_def split: prod.split)
next
  case (SignOut a n)
  then show ?case by (simp add: signOut_def split: prod.split)
qed (auto simp: app_init_def goto_def needs_account_def onSignedOut_def)

text \<open>C38: While no search outlives its screen, every screen behind the welcome page is shown with an account only.\<close>

theorem screens_need_account:
  "app_run False a \<Longrightarrow> ap_screen a \<notin> {Splash, Welcome, Onboarding} \<Longrightarrow> truthy_str (ap_user a) \<and> shown a = Some (ap_screen a)"
  using run_account [of False a] by (simp add: needs_account_def shown_def)

definition demo_home :: app where
  "demo_home = fst (launched (Some (Some [7])) app_init)"

lemma demo_home: "app_run late demo_home" "shown demo_home = Some Home" "ap_user demo_home = Some [7]" "ap_leaving demo_home = 0"
    "ap_finds demo_home = 0" "ap_screen demo_home = Home"
  using Launch [OF Init, of late "Some (Some [7])"]
  by (simp_all add: demo_home_def launched_def app_init_def goto_def shown_def start_def init_store_def)

lemma screens_need_account_witness: "shown demo_home = Some Home"
  using screens_need_account [OF demo_home(1)] demo_home(6) by simp

text \<open>A search that answers after the user signed out opens a chat without an account: the chat screen is one of the
  two that are rendered without checking for one.\<close>

theorem late_find_opens_chat:
  "\<exists>a. app_run True a \<and> ap_user a = None \<and> shown a = Some (Chat peer (Some phone))"
proof -
  define a1 where "a1 = (goto ContactsScreen demo_home)\<lparr>ap_finds := 1\<rparr>"
  have s0: "shown (goto ContactsScreen demo_home) = Some ContactsScreen" using demo_home(3) by (simp add: shown_def goto_def)
  have r1: "app_run True a1"
    using FindStart [OF Tap [OF demo_home(1,2), of ContactsScreen] s0] demo_home(5) by (simp add: a1_def goto_def)
  have "shown a1 = Some ContactsScreen" using demo_home(3) by (simp add: shown_def a1_def goto_def)
  then have r2: "app_run True (goto Settings (goto Home a1))"
    using Tap [OF Tap [OF r1, of ContactsScreen Home], of Home Settings] demo_home(3) by (simp add: shown_def goto_def a1_def)
  define a2 where "a2 = fst (signOut (goto Settings (goto Home a1)) conn_init)"
  have "shown (goto Settings (goto Home a1)) = Some Settings" using demo_home(3) by (simp add: shown_def goto_def a1_def)
  then have r3: "app_run True a2" unfolding a2_def by (rule SignOut [OF r2])
  have a2: "ap_leaving a2 = 1" "ap_finds a2 = 1" using demo_home(4) by (simp_all add: a2_def signOut_def goto_def a1_def split: prod.split)
  define a3 where "a3 = onSignedOut (a2\<lparr>ap_leaving := 0\<rparr>)"
  have r4: "app_run True a3" using SignedOut [OF r3] a2 by (simp add: a3_def)
  have "ap_user a3 = None" "ap_finds a3 = 1" using a2 by (simp_all add: a3_def onSignedOut_def goto_def)
  then show ?thesis using FindDone [OF r4, of peer phone]
    by (intro exI [of _ "fst (openChat peer phone (a3\<lparr>ap_finds := ap_finds a3 - 1\<rparr>))"])
      (simp add: openChat_def goto_def shown_def split: prod.split)
qed

text \<open>Launched without a network, an app with a saved account lands on the welcome page as if there were none: the
  relay refuses, resuming rejects, and the inbox is never started - while the client itself keeps the account and
  has armed its reconnection timer.\<close>

theorem offline_launch_shows_welcome:
  assumes "tryResume (Some acc) s conn_init = (s1, n1, es, res)"
    and "access_ready True n1 = (n2, es2)" and "connect_rejected 0 n2 = (n3, es3)"
  shows "Fails \<in> set es3 \<and> account n3 = Some (sa_account acc) \<and> reconnectTimer n3 \<and> userId s1 = Some (sa_account acc) \<and>
    ap_screen (fst (launched None app_init)) = Welcome \<and> ap_user (fst (launched None app_init)) = None \<and>
    \<not> started (ap_convs (fst (launched None app_init)))"
proof -
  have n1: "n1 = conn_init\<lparr>account := Some (sa_account acc), waiting_access := 1\<rparr>" and s1: "userId s1 = Some (sa_account acc)"
    using assms(1) by (auto simp: tryResume_def login_def connectRelay_def conn_init_def resume_def Let_def)
  have n2: "n2 = n1\<lparr>waiting_access := 0, relay := Some 0, socks := [SkConnecting], waiting_connect := [0], connState := Connecting\<rparr>"
    using assms(2) by (auto simp: n1 access_ready_def conn_init_def setConnectionState_def Let_def)
  show ?thesis using assms(3) s1
    by (auto simp: n2 n1 connect_rejected_def setConnectionState_def scheduleReconnect_def conn_init_def Let_def
        launched_def app_init_def goto_def init_store_def split: prod.splits if_splits)
qed

definition demo_account :: saved_account where
  "demo_account = \<lparr>sa_account = [7], sa_device = 1, sa_phone = [], sa_token = [65], sa_refresh = [66]\<rparr>"

lemma offline_launch_shows_welcome_witness:
  "reconnectTimer (fst (connect_rejected 0 (fst (access_ready True (fst (snd (tryResume (Some demo_account) demo_messenger conn_init)))))))"
proof -
  let ?t = "tryResume (Some demo_account) demo_messenger conn_init"
  let ?n2 = "access_ready True (fst (snd ?t))"
  have "?t = (fst ?t, fst (snd ?t), fst (snd (snd ?t)), snd (snd (snd ?t)))" "?n2 = (fst ?n2, snd ?n2)"
    "connect_rejected 0 (fst ?n2) = (fst (connect_rejected 0 (fst ?n2)), snd (connect_rejected 0 (fst ?n2)))" by simp_all
  from offline_launch_shows_welcome [OF this] show ?thesis by simp
qed

subsection \<open>Coming back\<close>


subsection \<open>Safety numbers on both screens\<close>

definition known_key :: "jstr \<Rightarrow> 'c messenger \<Rightarrow> conv_store \<Rightarrow> jstr option" where
  "known_key peer s cs =
    (case peerIdentityKey peer s of Some k \<Rightarrow> Some k | None \<Rightarrow> Option.bind (conv_of cs peer) peerIdentityB64)"

lemma showSafety_known:
  assumes "known_key peer s cs = Some k" "k \<noteq> []" "own \<noteq> []" "safetyNumber own k = Some n"
  shows "showSafety (Some own) peer s cs =
    (setPeerIdentityKey peer k s, fst (setPeerIdentity peer k cs), snd (setPeerIdentity peer k cs), Number n)"
  using assms unfolding showSafety_def known_key_def [symmetric] by (simp add: or_blank_def Let_def split: prod.split)

lemma setPeerIdentity_key: "conv_of (fst (setPeerIdentity b k cs)) b = Some c \<Longrightarrow> peerIdentityB64 c = Some k"
  by (auto simp: setPeerIdentity_def publish_def put_def conv_of_def schedulePersist_def rebuild_def emit_def Let_def
      split: option.splits if_splits prod.splits)

text \<open>When each of two users has the other's real identity key - fetched this session, or remembered in the thread -
  and both keys are valid, both screens show one and the same number, and each screen has made its client and its
  thread agree on the key it used.\<close>

theorem same_number_on_both_screens:
  assumes "known_key b s cs = Some kb" "known_key a s' cs' = Some ka"
    and keys: "ka \<noteq> []" "kb \<noteq> []" "base64_to_bytes ka \<noteq> None" "base64_to_bytes kb \<noteq> None"
  shows "\<exists>n. snd (snd (snd (showSafety (Some ka) b s cs))) = Number n \<and> snd (snd (snd (showSafety (Some kb) a s' cs'))) = Number n \<and>
    peerIdentityKey b (fst (showSafety (Some ka) b s cs)) = Some kb \<and>
    (\<forall>c. conv_of (fst (snd (showSafety (Some ka) b s cs))) b = Some c \<longrightarrow> peerIdentityB64 c = Some kb)"
proof -
  obtain n where n: "safetyNumber ka kb = Some n" using keys by (auto simp: safetyNumber_def)
  have comm: "safetyNumber kb ka = Some n" using n by (auto simp: safetyNumber_def number_of_commute split: option.splits)
  show ?thesis
    using showSafety_known [OF assms(1) keys(2,1) n] showSafety_known [OF assms(2) keys(1,2) comm] setPeerIdentity_key [of b kb cs]
    by (auto simp: peerIdentityKey_def setPeerIdentityKey_def)
qed

lemma same_number_on_both_screens_witness:
  "\<exists>n. snd (snd (snd (showSafety (Some (bytes_to_base64 [1])) [2] (setPeerIdentityKey [2] (bytes_to_base64 [9]) demo_messenger) init_store))) = Number n"
proof -
  have k: "known_key [2] (setPeerIdentityKey [2] (bytes_to_base64 [9]) demo_messenger) init_store = Some (bytes_to_base64 [9])"
    "known_key [1] (setPeerIdentityKey [1] (bytes_to_base64 [1]) demo_messenger) init_store = Some (bytes_to_base64 [1])"
    by (simp_all add: known_key_def peerIdentityKey_def setPeerIdentityKey_def)
  have "bytes_to_base64 [1] \<noteq> []" "bytes_to_base64 [9] \<noteq> []" by (simp_all add: bytes_to_base64_def)
  from same_number_on_both_screens [OF k this] show ?thesis by (auto simp: base64_roundtrip)
qed

text \<open>A server that accepts every code, and a store of one account.\<close>

definition verify_server :: "unit fetch" where
  "verify_server r w = (w, Some \<lparr>rs_status = 200,
     rs_text = stringify (JObj [(js ''verified'', JBool True), (js ''token'', JStr [65]), (js ''refreshToken'', JStr [66])])\<rparr>)"

definition one_account :: "jstr \<Rightarrow> jstr \<Rightarrow> jstr \<Rightarrow> jstr \<Rightarrow> saved_account option \<Rightarrow> saved_account option option" where
  "one_account u p t r n = Some (Some \<lparr>sa_account = u, sa_device = 1, sa_phone = p, sa_token = t, sa_refresh = r\<rparr>)"


end
