(* ===== verification/Identity.thy ===== *)
theory Identity
  imports Providers MessagingProps AppFlow
begin

text \<open>
  This device's own identity key. \<open>crypto_provider\<close> is the contract \<open>HwfaClient\<close> has with its \<open>CryptoProvider\<close>
  (\<open>packages/client/src/crypto-provider.ts\<close>): nothing but a registration changes the key that \<open>localIdentityKey\<close>
  returns. Its lemmas say that no operation of the client but those that register does; it is interpreted on the
  provider of \<open>node-provider.ts\<close> and on the bridge of \<open>RNCryptoProvider.ts\<close> without a native module.

  \<open>client_run\<close> is any use of the client between two registrations.
\<close>

locale crypto_provider =
  fixes prov :: "'c provider" and ident :: "'c \<Rightarrow> jstr option"
  assumes key: "snd (p_localKey prov c) = ident c"
    and keeps: "ident (fst (p_localKey prov c)) = ident c" "ident (fst (p_replenish prov n c)) = ident c"
      "ident (fst (p_establish prov peer dev v c)) = ident c" "ident (fst (p_encrypt prov peer dev t c)) = ident c"
      "ident (fst (p_decrypt prov peer dev m c)) = ident c"
begin

lemma keeps_pair:
  "p_replenish prov n c = (c', r1) \<Longrightarrow> ident c' = ident c" "p_establish prov peer dev v c = (c', r2) \<Longrightarrow> ident c' = ident c"
  "p_encrypt prov peer dev t c = (c', r3) \<Longrightarrow> ident c' = ident c" "p_decrypt prov peer dev m c = (c', r4) \<Longrightarrow> ident c' = ident c"
  using keeps by (metis fst_conv)+

lemma ensureSession_ident: "ensureSession fetch prov d s w = (s', w', r) \<Longrightarrow> ident (crypto s') = ident (crypto s)"
  by (auto simp: ensureSession_def dest: keeps_pair split: option.splits prod.splits sum.splits if_splits bool.splits)

lemma send_one_ident: "send_one fetch prov alive now p tx ref d s w = (s', w', ms) \<Longrightarrow> ident (crypto s') = ident (crypto s)"
  by (auto simp: send_one_def dest!: keeps_pair(3) ensureSession_ident split: option.splits prod.splits if_splits)

lemma send_all_ident: "send_all fetch prov alive now p tx ref ds s w = (s', w', ms) \<Longrightarrow> ident (crypto s') = ident (crypto s)"
proof (induction ds arbitrary: s w s' w' ms)
  case (Cons d ds)
  obtain s1 w1 m1 where "send_one fetch prov alive now p tx ref d s w = (s1, w1, m1)" by (metis prod_cases3)
  moreover obtain s2 w2 m2 where "send_all fetch prov alive now p tx ref ds s1 w1 = (s2, w2, m2)" by (metis prod_cases3)
  ultimately show ?case using Cons.prems Cons.IH send_one_ident by (metis prod.inject send_all.simps(2) case_prod_conv)
qed simp

lemma sendText_ident: "sendText fetch prov alive now rnd p tx ref s w = (s', w', ms, r) \<Longrightarrow> ident (crypto s') = ident (crypto s)"
  by (auto simp: sendText_def Let_def dest!: send_all_ident devicesForPeer_frame split: if_splits prod.splits)

lemma deliver_ident: "ident (crypto (fst (handleDeliver prov analyze now env s))) = ident (crypto s)"
  by (auto simp: handleDeliver_def dest: keeps_pair split: prod.split option.split)

lemma maintain_ident: "ident (crypto (fst (maintainPreKeys fetch prov s w))) = ident (crypto s)"
  by (auto simp: maintainPreKeys_def dest: keeps_pair split: prod.split option.split sum.split)

end

subsection \<open>The two providers\<close>

definition node_key :: "'r node \<Rightarrow> jstr option" where
  "node_key s = Some (nd_identity s)"

lemma with_stores_key: "nd_identity (fst (with_stores f e s)) = nd_identity s"
  by (simp add: with_stores_def split: option.split prod.split)

interpretation node: crypto_provider "node_provider L now" node_key
  by unfold_locales
    (auto simp: node_provider_def node_key_def with_stores_key node_replenish_def split: option.split prod.split)

interpretation no_native: crypto_provider "rn_provider None" "\<lambda>c. None"
  by unfold_locales (simp_all add: rn_provider_def)

subsection \<open>The client between registrations\<close>

inductive client_run :: "'w fetch \<Rightarrow> 'c provider \<Rightarrow> 'c messenger \<Rightarrow> 'c messenger \<Rightarrow> bool" for fetch prov s where
  Here: "client_run fetch prov s s"
| Text: "client_run fetch prov s t \<Longrightarrow> sendText fetch prov alive now rnd p tx ref t w = (u, w', ms, r) \<Longrightarrow> client_run fetch prov s u"
| Deliver: "client_run fetch prov s t \<Longrightarrow> client_run fetch prov s (fst (handleDeliver prov analyze at env t))"
| Ack: "client_run fetch prov s t \<Longrightarrow> client_run fetch prov s (fst (handleAck ref env t))"
| PreKeys: "client_run fetch prov s t \<Longrightarrow> client_run fetch prov s (fst (maintainPreKeys fetch prov t w))"
| PeerKey: "client_run fetch prov s t \<Longrightarrow> client_run fetch prov s (setPeerIdentityKey p k t)"
| Find: "client_run fetch prov s t \<Longrightarrow> client_run fetch prov s (fst (findContact fetch phone t w))"
| Scan: "client_run fetch prov s t \<Longrightarrow> client_run fetch prov s (fst (discoverContacts fetch phones t w))"
| LinkCode: "client_run fetch prov s t \<Longrightarrow> client_run fetch prov s (fst (createLinkCode fetch t w))"
| Confirm: "client_run fetch prov s t \<Longrightarrow> client_run fetch prov s (fst (confirmOtp fetch code t w))"
| Resume: "client_run fetch prov s t \<Longrightarrow> client_run fetch prov s (resume a dev t)"
| Delete: "client_run fetch prov s t \<Longrightarrow> client_run fetch prov s (fst (client_deleteAccount fetch t w))"

lemma discovery_keeps_crypto:
  "crypto (fst (handleAck ref env s)) = crypto s" "crypto (setPeerIdentityKey p k s) = crypto s"
  "crypto (fst (findContact fetch phone s w)) = crypto s" "crypto (fst (discoverContacts fetch phones s w)) = crypto s"
  "crypto (fst (createLinkCode fetch s w)) = crypto s" "crypto (fst (confirmOtp fetch code s w)) = crypto s"
  "crypto (resume a dev s) = crypto s" "crypto (fst (client_deleteAccount fetch s w)) = crypto s"
  by (simp_all add: handleAck_def setPeerIdentityKey_def findContact_def discoverContacts_def createLinkCode_def
      confirmOtp_def resume_def client_deleteAccount_def split: prod.split option.split sum.split)

context crypto_provider
begin

lemma run_ident: "client_run fetch prov s t \<Longrightarrow> ident (crypto t) = ident (crypto s)"
proof (induction rule: client_run.induct)
  case (Text t alive now rnd p tx ref w u w' ms r)
  then show ?case using sendText_ident by metis
qed (simp_all add: deliver_ident maintain_ident discovery_keeps_crypto)

lemma run_key: "client_run fetch prov s t \<Longrightarrow> snd (p_localKey prov (crypto t)) = snd (p_localKey prov (crypto s))"
  using run_ident by (simp add: key)

end

text \<open>C25: Between two registrations a device's identity key never changes: whatever is sent, received, established, looked up
  or replenished, the key that goes into the safety numbers is the one it was.\<close>

theorem identity_key_is_stable:
  assumes "client_run fetch (node_provider L now) s t"
  shows "snd (p_localKey (node_provider L now) (crypto t)) = snd (p_localKey (node_provider L now) (crypto s))"
  using assms by (rule node.run_key)

definition ana :: "nat node messenger" where
  "ana = \<lparr>disc = demo_disc, crypto = fst (node_generate toy_lib 0 1 (new_node 0)), connected = True, userId = Some [1],
     pendingUserId = None, deviceId = 1, my_relayUrl = [], peerDevice = [([2], 1)], peerIdentity = [([2], [65])], peerDevices = [],
     refToEnvelope = [], envelopeToRef = []\<rparr>"

lemma identity_key_is_stable_witness:
  "snd (p_localKey (node_provider toy_lib 0) (crypto (fst (maintainPreKeys bundle_server (node_provider toy_lib 0) ana ())))) =
     snd (p_localKey (node_provider toy_lib 0) (crypto ana))"
  by (rule identity_key_is_stable [OF client_run.PreKeys [OF client_run.Here]])

text \<open>The number is not tied to the session: with a session of any key, a peer whose identity key this client does not
  hold yet gets the key of the bundle the server answers with, and nothing compares the two.\<close>

theorem session_key_not_checked:
  assumes "map_of (peerDevice s) peer = Some dev" "\<not> map_has (peerIdentity s) peer"
    and "fetchBundle fetch peer (disc s) w = (d, w', Inr v)" "bundle_of v = Some (n, k)"
  shows "\<exists>s'. ensureSession fetch prov peer s w = (s', w', Some dev) \<and> crypto s' = crypto s \<and> peerIdentityKey peer s' = Some k"
  using assms by (simp add: ensureSession_def peerIdentityKey_def)

lemma session_key_not_checked_witness:
  "\<exists>s' w'. ensureSession bundle_server (node_provider toy_lib 0) [2] (ana\<lparr>peerIdentity := []\<rparr>) () = (s', w', Some 1) \<and>
     peerIdentityKey [2] s' \<noteq> None"
proof -
  obtain d v n k where f: "fetchBundle bundle_server [2] (disc ana) () = (d, (), Inr v)" "bundle_of v = Some (n, k)"
    by (auto simp: ana_def fetchBundle_def bundle_of_def payload_defs bundle_server_request split: option.split)
  show ?thesis
    using session_key_not_checked [of "ana\<lparr>peerIdentity := []\<rparr>" "[2]" 1 bundle_server "()" d "()" v n k] f
    by (fastforce simp: ana_def map_has_def)
qed

end
