(* ===== verification/WireTypes.thy ===== *)
theory WireTypes
  imports Relay Messaging
begin

text \<open>
  The TypeScript interfaces of what goes over the wire, as types that a JSON value can be checked against: the frames of
  \<open>packages/models/src/envelope.ts\<close> and the bodies of \<open>typing/wire.ts\<close>, \<open>group/wire.ts\<close>, \<open>call/wire.ts\<close>,
  \<open>store/statuses.ts\<close> and \<open>media/media.ts\<close>. The compiler checks the code against them but \<open>JSON.parse\<close> does not; here
  every frame the client sends, and every body it puts into one, is shown to have its type after it is parsed again.

  \<open>has_type t v\<close>: the object has every required property, and every property it has is declared and has its type.
\<close>

datatype ts =
    TString | TNumber | TBoolean | TNull
  | TLit json
  | TArray ts
  | TUnion "ts list"
  | TObject "(jstr \<times> bool \<times> ts) list"

fun has_type :: "ts \<Rightarrow> json \<Rightarrow> bool" where
  "has_type TString v = (case v of JStr _ \<Rightarrow> True | _ \<Rightarrow> False)"
| "has_type TNumber v = (case v of JInt _ \<Rightarrow> True | JFrac _ \<Rightarrow> True | _ \<Rightarrow> False)"
| "has_type TBoolean v = (case v of JBool _ \<Rightarrow> True | _ \<Rightarrow> False)"
| "has_type TNull v = (v = JNull)"
| "has_type (TLit w) v = (v = w)"
| "has_type (TArray t) v = (case v of JArr vs \<Rightarrow> list_all (has_type t) vs | _ \<Rightarrow> False)"
| "has_type (TUnion ts) v = list_ex (\<lambda>t. has_type t v) ts"
| "has_type (TObject fs) v =
    (case v of JObj kvs \<Rightarrow>
       list_all (\<lambda>f. case map_of kvs (fst f) of None \<Rightarrow> \<not> fst (snd f) | Some w \<Rightarrow> has_type (snd (snd f)) w) fs \<and>
       set (map fst kvs) \<subseteq> set (map fst fs)
     | _ \<Rightarrow> False)"

definition req :: "string \<Rightarrow> ts \<Rightarrow> jstr \<times> bool \<times> ts" where
  "req k t = (js k, True, t)"

definition opt :: "string \<Rightarrow> ts \<Rightarrow> jstr \<times> bool \<times> ts" where
  "opt k t = (js k, False, t)"

definition lit :: "string \<Rightarrow> ts" where
  "lit s = TLit (JStr (js s))"

subsection \<open>\<open>envelope.ts\<close>\<close>

definition CiphertextType :: ts where
  "CiphertextType = TUnion [TLit (JInt 3), TLit (JInt 2)]"

definition Envelope_fields :: "(jstr \<times> bool \<times> ts) list" where
  "Envelope_fields =
    [req ''recipientId'' TString, req ''recipientDevice'' TNumber, req ''senderId'' TString, req ''senderDevice'' TNumber,
     req ''type'' CiphertextType, req ''ciphertext'' TString, req ''timestamp'' TNumber]"

definition Envelope :: ts where
  "Envelope = TObject (req ''id'' TString # Envelope_fields)"

definition SendEnvelopeRequest :: ts where
  "SendEnvelopeRequest = TObject
    [req ''kind'' (lit ''send''), req ''envelope'' (TObject Envelope_fields), opt ''clientRef'' TString]"

definition DeliverEnvelopeMessage :: ts where
  "DeliverEnvelopeMessage = TObject [req ''kind'' (lit ''deliver''), req ''envelope'' Envelope]"

definition EnvelopeAckMessage :: ts where
  "EnvelopeAckMessage = TObject
    [req ''kind'' (lit ''ack''), req ''envelopeId'' TString, req ''acceptedAt'' TNumber, opt ''clientRef'' TString]"

definition delivered_or_read :: ts where
  "delivered_or_read = TUnion [lit ''delivered'', lit ''read'']"

definition DeliveryReceiptMessage :: ts where
  "DeliveryReceiptMessage = TObject
    [req ''kind'' (lit ''receipt''), req ''envelopeId'' TString, req ''status'' delivered_or_read,
     req ''targetId'' TString, req ''targetDevice'' TNumber]"

definition MessageStatusMessage :: ts where
  "MessageStatusMessage = TObject [req ''kind'' (lit ''status''), req ''envelopeId'' TString, req ''status'' delivered_or_read]"

definition RegisterPushMessage :: ts where
  "RegisterPushMessage = TObject [req ''kind'' (lit ''register-push''), req ''token'' TString]"

definition RelayMessage :: ts where
  "RelayMessage = TUnion [SendEnvelopeRequest, DeliverEnvelopeMessage, EnvelopeAckMessage, DeliveryReceiptMessage,
     MessageStatusMessage, RegisterPushMessage]"

subsection \<open>Bodies\<close>

definition TypingPayload :: ts where
  "TypingPayload = TObject [req ''typing'' TBoolean, opt ''gid'' TString]"

definition GroupPayload :: ts where
  "GroupPayload = TObject [req ''gid'' TString, req ''name'' TString, req ''members'' (TArray TString), req ''text'' TString]"

definition StatusPayload :: ts where
  "StatusPayload = TObject [req ''id'' TString, req ''text'' TString, req ''at'' TNumber, req ''expiresAt'' TNumber]"

definition CallSignalType :: ts where
  "CallSignalType = TUnion [lit ''ring'', lit ''accept'', lit ''decline'', lit ''ice'', lit ''hangup'']"

definition IceCandidate :: ts where
  "IceCandidate = TObject [req ''candidate'' TString, opt ''sdpMid'' (TUnion [TString, TNull]),
     opt ''sdpMLineIndex'' (TUnion [TNumber, TNull])]"

definition CallSignal :: ts where
  "CallSignal = TObject
    [req ''type'' CallSignalType, req ''callId'' TString, opt ''video'' TBoolean,
     opt ''sdp'' (TObject [req ''type'' TString, req ''sdp'' TString]),
     opt ''candidate'' IceCandidate]"

definition MediaReference :: ts where
  "MediaReference = TObject
    [req ''keyB64'' TString, req ''ivB64'' TString, req ''mime'' TString, req ''size'' TNumber, req ''sha256B64'' TString,
     opt ''name'' TString, req ''locator'' TString]"

lemmas frame_types = SendEnvelopeRequest_def DeliverEnvelopeMessage_def EnvelopeAckMessage_def DeliveryReceiptMessage_def
  MessageStatusMessage_def RegisterPushMessage_def Envelope_def Envelope_fields_def CiphertextType_def delivered_or_read_def

lemmas body_types = TypingPayload_def GroupPayload_def StatusPayload_def CallSignal_def CallSignalType_def MediaReference_def

lemmas type_words = req_def opt_def lit_def opt_prop_def kind_prop_def null_or_def js_Cons of_char_def

subsection \<open>What the client sends\<close>

lemma type_of_type: "has_type CiphertextType (JInt (type_code t))"
  by (cases t) (simp_all add: CiphertextType_def)

lemma send_typed: "env_id e = None \<Longrightarrow> has_type SendEnvelopeRequest (relay_json (SendEnvelope e ref))"
  using type_of_type [of "env_type e"]
  by (cases ref) (simp_all add: SendEnvelopeRequest_def Envelope_fields_def env_json_def type_words del: has_type.simps(7))

lemma receipt_typed: "st \<in> {Delivered, Read} \<Longrightarrow> has_type DeliveryReceiptMessage (relay_json (DeliveryReceipt i st u d))"
  by (auto simp: frame_types type_words)

lemma push_typed: "has_type RegisterPushMessage (relay_json (RegisterPush t))"
  by (simp add: frame_types type_words)

text \<open>The frames the client makes.\<close>

inductive client_frame :: "'w fetch \<Rightarrow> 'c provider \<Rightarrow> relay_message \<Rightarrow> bool" for fetch prov where
  SentText: "sendText fetch prov alive now rnd peer txt ref s w = (s', w', ms, r) \<Longrightarrow> m \<in> set ms \<Longrightarrow> client_frame fetch prov m"
| ReadReceipt: "m \<in> set (sendReadReceipt peer env (s :: 'c messenger)) \<Longrightarrow> client_frame fetch prov m"
| DeliveredReceipt: "client_frame fetch prov (delivered_receipt e)"
| Push: "client_frame fetch prov (RegisterPush t)"

lemma sent_text_frame:
  assumes "sendText fetch prov alive now rnd peer txt ref s w = (s', w', ms, r)" "m \<in> set ms"
  shows "\<exists>e r. m = SendEnvelope e r \<and> env_id e = None"
proof (cases "userId s")
  case None
  then show ?thesis using assms by (simp add: sendText_def)
next
  case (Some me)
  obtain s1 w1 ds where d: "devicesForPeer fetch (int now) peer s w = (s1, w1, ds)" by (metis prod_cases3)
  then have "userId s1 = Some me" using devicesForPeer_frame [OF d] Some by simp
  from send_all_env [OF _ this] show ?thesis
    using assms Some d by (fastforce simp: sendText_def Let_def split: if_splits prod.splits)
qed

lemma union_member: "t \<in> set ts \<Longrightarrow> has_type t v \<Longrightarrow> has_type (TUnion ts) v"
  by (auto simp: list_ex_iff)

lemma frame_typed: "client_frame fetch prov m \<Longrightarrow> has_type RelayMessage (relay_json m)"
proof (induction rule: client_frame.induct)
  case (SentText alive now rnd peer tx ref s w s' w' ms r m)
  from sent_text_frame [OF SentText] obtain e c where m: "m = SendEnvelope e c" "env_id e = None" by blast
  show ?case unfolding m(1) RelayMessage_def by (rule union_member [OF _ send_typed [OF m(2)]]) simp
next
  case (ReadReceipt m peer env s)
  then have "\<exists>i u d. m = DeliveryReceipt i Read u d" by (auto simp: sendReadReceipt_def split: if_splits)
  then obtain i u d where m: "m = DeliveryReceipt i Read u d" by blast
  have "has_type DeliveryReceiptMessage (relay_json m)" unfolding m by (rule receipt_typed) simp
  then show ?case unfolding RelayMessage_def by (intro union_member) simp_all
next
  case (DeliveredReceipt e)
  have "has_type DeliveryReceiptMessage (relay_json (delivered_receipt e))"
    unfolding delivered_receipt_def by (rule receipt_typed) simp
  then show ?case unfolding RelayMessage_def by (intro union_member) simp_all
next
  case (Push t)
  then show ?case unfolding RelayMessage_def by (intro union_member [OF _ push_typed]) simp
qed

text \<open>C27: Every frame the client puts on the socket - the envelopes of a text, read and delivered receipts, the push token -
  parses, at the other end, to a value of the declared type \<open>RelayMessage\<close>: all required properties, each of its type,
  and no undeclared one; in particular an outgoing envelope carries no id.\<close>

theorem frames_are_well_typed:
  assumes "client_frame fetch prov m"
  shows "\<exists>v. json_parse (stringify (relay_json m)) = Some v \<and> has_type RelayMessage v"
  using frame_typed [OF assms] relay_parse by blast

lemma frames_are_well_typed_witness:
  "\<exists>v. json_parse (stringify (relay_json (RegisterPush (js ''tok'')))) = Some v \<and> has_type RelayMessage v"
  by (rule frames_are_well_typed [OF client_frame.Push [where fetch = bundle_server and prov = demo_provider]])

lemma IceCandidated: "has_type IceCandidate (ice_json i)"
  by (cases "sdpMid i"; cases "sdpMLineIndex i") (simp_all add: IceCandidate_def ice_json_def type_words)

lemma signal_typed: "has_type CallSignalType (JStr (signal_name k))"
  by (cases k) (simp_all add: CallSignalType_def type_words)

lemma call_typed: "has_type CallSignal (call_json c)"
  using IceCandidated signal_typed [of "sig_type c"]
  by (cases "sig_video c"; cases "sig_sdp c"; cases "sig_ice c")
    (simp_all add: CallSignal_def call_json_def sdp_json_def type_words)

text \<open>The same holds of every body inside an envelope: what is built for a typing signal, a group message, a status, a call
  signal or an attachment parses to a value of the declared payload type.\<close>

theorem bodies_are_well_typed:
  "(\<exists>v. parseTypingBody (buildTypingBody t) = Some v \<and> has_type TypingPayload v) \<and>
   (\<exists>v. parseGroupBody (buildGroupBody g) = Some v \<and> has_type GroupPayload v) \<and>
   (\<exists>v. parseStatusBody (buildStatusBody s) = Some v \<and> has_type StatusPayload v) \<and>
   (\<exists>v. parseCallBody (buildCallBody c) = Some v \<and> has_type CallSignal v) \<and>
   (\<exists>v. parseMediaBody (buildMediaBody r l) = Some v \<and> has_type MediaReference v)"
proof -
  have "has_type TypingPayload (typing_json t)"
    by (cases "typing_gid t") (simp_all add: typing_json_def body_types type_words)
  moreover have "has_type GroupPayload (group_json g)"
    by (simp add: group_json_def body_types type_words list_all_iff)
  moreover have "has_type StatusPayload (status_json s)"
    by (simp add: status_json_def body_types type_words)
  moreover have "has_type CallSignal (call_json c)"
    by (rule call_typed)
  moreover have "has_type MediaReference (media_json (r\<lparr>locator := l\<rparr>))"
    by (cases "mname r") (simp_all add: media_json_def body_types type_words)
  ultimately show ?thesis by (simp only: parse_build) simp
qed

end
