(* ===== verification/Ui.thy ===== *)
theory Ui
  imports Prelude
begin

text \<open>
  What a screen renders: the element tree of its JSX.

  \<^item> \<open>elem\<close> has the React Native components the screens use. A component keeps the names of its styles (the
    conditional ones among them), its text, and what its handlers do: an action, of the type \<open>'a\<close> the screen
    declares. A handler is \<open>None\<close> when the prop is absent.
  \<^item> \<open>onlyif\<close> is JSX's \<open>cond && element\<close>.
  \<^item> \<open>labels\<close> is every piece of text on the screen, \<open>taps\<close> and \<open>long_presses\<close> what the user can trigger: a component
    with \<open>disabled\<close> triggers nothing.
  \<^item> \<open>keys_ok\<close>: the rows of every list have different keys, as React requires of them.
\<close>

named_theorems ui_defs \<open>definitions of the rendered components\<close>

datatype 'a elem =
    Str jstr
  | Text "string list" "'a elem list"
  | View "string list" "'a elem list"
  | Touch "string list" bool "'a option" "'a option" "'a elem list"
  | FlatList "(jstr \<times> 'a elem) list"
  | Field jstr "nat option" "'a option"
  | Img jstr
  | Spinner

type_synonym 'a jsx = "'a elem list"

definition onlyif :: "bool \<Rightarrow> 'a list \<Rightarrow> 'a list" where
  "onlyif b xs = (if b then xs else [])"

lemma onlyif_simps [simp]: "onlyif True xs = xs" "onlyif False xs = []" "onlyif b [] = []"
  by (simp_all add: onlyif_def)

lemma set_onlyif [simp]: "set (onlyif b xs) = (if b then set xs else {})"
  by (simp add: onlyif_def)

lemma map_onlyif [simp]: "map f (onlyif b xs) = onlyif b (map f xs)"
  by (simp add: onlyif_def)

definition button :: "string \<Rightarrow> 'a \<Rightarrow> 'a jsx \<Rightarrow> 'a elem" where
  "button sty a cs = Touch [sty] False (Some a) None cs"

definition say :: "string \<Rightarrow> jstr \<Rightarrow> 'a elem" where
  "say sty t = Text [sty] [Str t]"

fun str_of :: "'a elem \<Rightarrow> jstr" where
  "str_of (Str s) = s"
| "str_of (Text _ cs) = concat (map str_of cs)"
| "str_of _ = []"

fun labels :: "'a elem \<Rightarrow> jstr list" where
  "labels (Str s) = []"
| "labels (Text sty cs) = [concat (map str_of cs)]"
| "labels (View _ cs) = concat (map labels cs)"
| "labels (Touch _ _ _ _ cs) = concat (map labels cs)"
| "labels (FlatList rs) = concat (map (\<lambda>r. labels (snd r)) rs)"
| "labels (Field v n a) = [v]"
| "labels (Img u) = []"
| "labels Spinner = []"

fun taps :: "'a elem \<Rightarrow> 'a list" where
  "taps (View _ cs) = concat (map taps cs)"
| "taps (Touch _ off p l cs) = (if off then [] else case p of None \<Rightarrow> [] | Some a \<Rightarrow> [a]) @ concat (map taps cs)"
| "taps (FlatList rs) = concat (map (\<lambda>r. taps (snd r)) rs)"
| "taps (Str _) = []"
| "taps (Text _ _) = []"
| "taps (Field _ _ _) = []"
| "taps (Img _) = []"
| "taps Spinner = []"

fun long_presses :: "'a elem \<Rightarrow> 'a list" where
  "long_presses (View _ cs) = concat (map long_presses cs)"
| "long_presses (Touch _ off p l cs) = (if off then [] else case l of None \<Rightarrow> [] | Some a \<Rightarrow> [a]) @ concat (map long_presses cs)"
| "long_presses (FlatList rs) = concat (map (\<lambda>r. long_presses (snd r)) rs)"
| "long_presses (Str _) = []"
| "long_presses (Text _ _) = []"
| "long_presses (Field _ _ _) = []"
| "long_presses (Img _) = []"
| "long_presses Spinner = []"

fun keys_ok :: "'a elem \<Rightarrow> bool" where
  "keys_ok (View _ cs) = list_all keys_ok cs"
| "keys_ok (Touch _ _ _ _ cs) = list_all keys_ok cs"
| "keys_ok (FlatList rs) = (distinct (map fst rs) \<and> list_all (\<lambda>r. keys_ok (snd r)) rs)"
| "keys_ok _ = True"

lemma say_simps [simp]:
  "labels (say sty t) = [t]" "taps (say sty t) = []" "long_presses (say sty t) = []" "keys_ok (say sty t)"
  by (simp_all add: say_def)

lemma button_simps [simp]:
  "labels (button sty a cs) = concat (map labels cs)" "taps (button sty a cs) = a # concat (map taps cs)"
  "long_presses (button sty a cs) = concat (map long_presses cs)" "keys_ok (button sty a cs) = list_all keys_ok cs"
  by (simp_all add: button_def)

lemma concat_onlyif [simp]: "concat (onlyif b xs) = (if b then concat xs else [])"
  by (simp add: onlyif_def)

lemma list_all_onlyif [simp]: "list_all P (onlyif b xs) = (b \<longrightarrow> list_all P xs)"
  by (simp add: onlyif_def)

subsection \<open>Glyphs\<close>

definition ELLIPSIS :: jstr where "ELLIPSIS = [0x2026]"
definition CHEVRON :: jstr where "CHEVRON = [0x203A]"
definition BACK :: jstr where "BACK = [0x2039]"
definition WARN :: jstr where "WARN = [0x26A0, 0xFE0F]"
definition CAMERA :: jstr where "CAMERA = [0xD83D, 0xDCF7]"
definition CLIP :: jstr where "CLIP = [0xD83D, 0xDCCE]"
definition PHONE :: jstr where "PHONE = [0xD83D, 0xDCDE]"
definition VIDEO :: jstr where "VIDEO = [0xD83C, 0xDFA5]"
definition TICK :: jstr where "TICK = [0x2713]"
definition CROSS :: jstr where "CROSS = [0x2715]"
definition STAR :: jstr where "STAR = [0x2605]"
definition DASH :: jstr where "DASH = [0x2014]"
definition DOT :: jstr where "DOT = [0xB7]"

text \<open>\<open>`${id.slice(0, n)}...`\<close>, the screens' short form of an account id.\<close>

definition short_id :: "nat \<Rightarrow> jstr \<Rightarrow> jstr" where
  "short_id n i = take n i @ ELLIPSIS"

text \<open>\<open>s.slice(-2)\<close> and the initials of an avatar: \<open>s.replace(/[^0-9a-zA-Z]/g, '').slice(-2).toUpperCase() || '#'\<close>.\<close>

definition last_two :: "jstr \<Rightarrow> jstr" where
  "last_two s = drop (length s - 2) s"

definition alnum :: "unit16 \<Rightarrow> bool" where
  "alnum c = (48 \<le> c \<and> c \<le> 57 \<or> 97 \<le> c \<and> c \<le> 122 \<or> 65 \<le> c \<and> c \<le> 90)"

definition ascii_upper :: "unit16 \<Rightarrow> unit16" where
  "ascii_upper c = (if 97 \<le> c \<and> c \<le> 122 then c - 32 else c)"

definition initials :: "jstr \<Rightarrow> jstr" where
  "initials s = (let t = map ascii_upper (last_two (filter alnum s)) in if t \<noteq> [] then t else js ''#'')"

lemma length_last_two: "length (last_two s) \<le> 2"
  by (simp add: last_two_def)

lemma upper_alnum: "alnum c \<Longrightarrow> 48 \<le> ascii_upper c \<and> ascii_upper c \<le> 90"
  by (auto simp: alnum_def ascii_upper_def) uint_arith+

lemma initials_shape: "initials s \<noteq> [] \<and> length (initials s) \<le> 2 \<and> (\<forall>c\<in>set (initials s). c = 35 \<or> 48 \<le> c \<and> c \<le> 90)"
proof -
  have "set (last_two (filter alnum s)) \<subseteq> Collect alnum"
    by (auto simp: last_two_def dest: in_set_dropD)
  then show ?thesis using length_last_two [of "filter alnum s"] upper_alnum
    by (auto simp: initials_def Let_def js_def)
qed

end
