(* ===== verification/Formatting.thy ===== *)
theory Formatting
  imports Ui Json
begin

text \<open>
  The formatted values of the screens: \<open>apps/mobile/src/util/time.ts\<close>, the byte sizes of \<open>ChatScreen.tsx\<close> and the call
  timer of \<open>CallScreen.tsx\<close>.

  A time is a number of milliseconds. \<open>Date\<close> in local time is ECMAScript's calendar (\<open>Day\<close>, \<open>YearFromTime\<close>,
  \<open>MonthFromTime\<close>, \<open>DateFromTime\<close>) at \<open>t + tz t\<close>; the offset \<open>tz\<close> of the device's zone is a parameter. A size is a
  whole number of bytes; dividing by 1024 is exact, so the loop's \<open>n\<close> is \<open>b / 1024^i\<close>.
\<close>

subsection \<open>\<open>Date\<close>\<close>

definition DayFromYear :: "int \<Rightarrow> int" where
  "DayFromYear y = 365 * (y - 1970) + (y - 1969) div 4 - (y - 1901) div 100 + (y - 1601) div 400"

definition YearFromDay :: "int \<Rightarrow> int" where
  "YearFromDay d = (let y = 1970 + (400 * d) div 146097 in
     if d < DayFromYear y then y - 1 else if DayFromYear (y + 1) \<le> d then y + 1 else y)"

definition month_starts :: "int \<Rightarrow> int list" where
  "month_starts leap = [0, 31, 59 + leap, 90 + leap, 120 + leap, 151 + leap, 181 + leap, 212 + leap, 243 + leap,
     273 + leap, 304 + leap, 334 + leap]"

definition month_date :: "int \<Rightarrow> nat \<times> int" where
  "month_date d =
    (let y = YearFromDay d; n = d - DayFromYear y; ms = month_starts (DayFromYear (y + 1) - DayFromYear y - 365);
         m = length (takeWhile (\<lambda>s. s \<le> n) ms) - 1 in (m, n - ms ! m + 1))"

definition local_day :: "(int \<Rightarrow> int) \<Rightarrow> int \<Rightarrow> int" where
  "local_day tz t = (t + tz t) div 86400000"

definition getHours :: "(int \<Rightarrow> int) \<Rightarrow> int \<Rightarrow> int" where
  "getHours tz t = ((t + tz t) div 3600000) mod 24"

definition getMinutes :: "(int \<Rightarrow> int) \<Rightarrow> int \<Rightarrow> int" where
  "getMinutes tz t = ((t + tz t) div 60000) mod 60"

definition getMonth :: "(int \<Rightarrow> int) \<Rightarrow> int \<Rightarrow> int" where
  "getMonth tz t = int (fst (month_date (local_day tz t)))"

definition getDate :: "(int \<Rightarrow> int) \<Rightarrow> int \<Rightarrow> int" where
  "getDate tz t = snd (month_date (local_day tz t))"

subsection \<open>\<open>util/time.ts\<close>\<close>

definition two_digits :: "int \<Rightarrow> jstr" where
  "two_digits n = pad_start 2 48 (int_str n)"

definition formatClock :: "(int \<Rightarrow> int) \<Rightarrow> int \<Rightarrow> jstr" where
  "formatClock tz ts = two_digits (getHours tz ts) @ js '':'' @ two_digits (getMinutes tz ts)"

definition formatRelative :: "(int \<Rightarrow> int) \<Rightarrow> int \<Rightarrow> int \<Rightarrow> jstr" where
  "formatRelative tz ts now =
    (if ts = 0 then []
     else
       let diff = now - ts; minute = 60000; hour = 60 * minute; day = 24 * hour in
       if diff < minute then js ''now''
       else if diff < hour then int_str (diff div minute) @ js ''m''
       else if diff < day \<and> getDate tz ts = getDate tz now then formatClock tz ts
       else if diff < 7 * day then int_str (if diff div day \<noteq> 0 then diff div day else 1) @ js ''d''
       else int_str (getMonth tz ts + 1) @ js ''/'' @ int_str (getDate tz ts))"

subsection \<open>\<open>formatSize\<close> and \<open>useCallTimer\<close>\<close>

function size_unit :: "int \<Rightarrow> nat \<Rightarrow> nat" where
  "size_unit b i = (if 1024 * 1024 ^ i \<le> b \<and> i < 3 then size_unit b (Suc i) else i)"
  by pat_completeness auto
termination by (relation "measure (\<lambda>(b, i). 3 - i)") auto

declare size_unit.simps [simp del]

definition units :: "jstr list" where
  "units = [js ''B'', js ''KB'', js ''MB'', js ''GB'']"

text \<open>\<open>Math.round\<close> and \<open>toFixed(1)\<close> of \<open>b / u\<close>: both round halves up.\<close>

definition round_div :: "int \<Rightarrow> int \<Rightarrow> int" where
  "round_div b u = (2 * b + u) div (2 * u)"

definition fixed1 :: "int \<Rightarrow> int \<Rightarrow> jstr" where
  "fixed1 b u = (let q = round_div (10 * b) u in int_str (q div 10) @ js ''.'' @ int_str (q mod 10))"

definition formatSize :: "int option \<Rightarrow> jstr" where
  "formatSize bytes =
    (case bytes of None \<Rightarrow> []
     | Some b \<Rightarrow>
         if b \<le> 0 then []
         else (let i = size_unit b 0; u = 1024 ^ i in
               (if 10 * u \<le> b \<or> i = 0 then int_str (round_div b u) else fixed1 b u) @ js '' '' @ units ! i))"

definition useCallTimer :: "int option \<Rightarrow> int \<Rightarrow> jstr" where
  "useCallTimer startedAt now =
    (case startedAt of None \<Rightarrow> []
     | Some a \<Rightarrow>
         if a = 0 then []
         else (let s = max 0 ((now - a) div 1000) in two_digits (s div 60) @ js '':'' @ two_digits (s mod 60)))"

subsection \<open>The calendar\<close>

lemma div_step: "0 < n \<Longrightarrow> (k + 1) div n = k div n + (if n dvd k + 1 then 1 else 0)" for k n :: int
proof -
  assume n: "0 < n"
  define q r where "q = k div n" and "r = k mod n"
  have k: "k = n * q + r" "0 \<le> r" "r < n" using n by (simp_all add: q_def r_def)
  show ?thesis
  proof (cases "r + 1 = n")
    case True
    then have "k + 1 = n * (q + 1)" using k by (simp add: algebra_simps)
    then show ?thesis using n by (simp add: q_def)
  next
    case False
    then have "k + 1 = n * q + (r + 1)" "0 \<le> r + 1" "r + 1 < n" using k by simp_all
    then have "(k + 1) div n = q" "(k + 1) mod n = r + 1" using int_div_pos_eq int_mod_pos_eq by blast+
    then show ?thesis using k(2) by (simp add: q_def dvd_eq_mod_eq_0)
  qed
qed

lemma year_length: "DayFromYear (y + 1) - DayFromYear y \<in> {365, 366}"
proof -
  have s: "(y - 1968) div 4 = (y - 1969) div 4 + (if 4 dvd y - 1968 then 1 else 0)"
    "(y - 1900) div 100 = (y - 1901) div 100 + (if 100 dvd y - 1900 then 1 else 0)"
    "(y - 1600) div 400 = (y - 1601) div 400 + (if 400 dvd y - 1600 then 1 else 0)"
    using div_step [of 4 "y - 1969"] div_step [of 100 "y - 1901"] div_step [of 400 "y - 1601"]
    by (simp_all add: algebra_simps)
  have "400 dvd y - 1600 \<Longrightarrow> 100 dvd y - 1900" "100 dvd y - 1900 \<Longrightarrow> 4 dvd y - 1968" by presburger+
  then show ?thesis by (auto simp: DayFromYear_def s)
qed

lemma day_from_year_bounds:
  "146097 * k - 506 \<le> 400 * DayFromYear (1970 + k) \<and> 400 * DayFromYear (1970 + k) \<le> 146097 * k + 589"
proof -
  have "k + 1 = (k + 1) div 4 * 4 + (k + 1) mod 4" "k + 69 = (k + 69) div 100 * 100 + (k + 69) mod 100"
    "k + 369 = (k + 369) div 400 * 400 + (k + 369) mod 400" by (simp_all only: div_mult_mod_eq)
  moreover have "0 \<le> (k + 1) mod 4" "(k + 1) mod 4 \<le> 3" "0 \<le> (k + 69) mod 100" "(k + 69) mod 100 \<le> 99"
    "0 \<le> (k + 369) mod 400" "(k + 369) mod 400 \<le> 399"
    using pos_mod_bound [of 4 "k + 1"] pos_mod_bound [of 100 "k + 69"] pos_mod_bound [of 400 "k + 369"] by simp_all
  moreover have "DayFromYear (1970 + k) = 365 * k + (k + 1) div 4 - (k + 69) div 100 + (k + 369) div 400"
    by (simp add: DayFromYear_def algebra_simps)
  ultimately show ?thesis by linarith
qed

lemma year_of_day: "DayFromYear (YearFromDay d) \<le> d \<and> d < DayFromYear (YearFromDay d + 1)"
proof -
  define k where "k = (400 * d) div 146097"
  have k: "146097 * k \<le> 400 * d" "400 * d < 146097 * (k + 1)"
    using div_mult_mod_eq [of "400 * d" 146097] pos_mod_bound [of 146097 "400 * d"] pos_mod_sign [of 146097 "400 * d"]
    unfolding k_def [symmetric] by (simp_all add: algebra_simps)
  have "400 * DayFromYear (1970 + (k - 1)) \<le> 146097 * (k - 1) + 589" "146097 * (k + 2) - 506 \<le> 400 * DayFromYear (1970 + (k + 2))"
    using day_from_year_bounds [of "k - 1"] day_from_year_bounds [of "k + 2"] by simp_all
  moreover have "1970 + (k - 1) = 1970 + k - 1" "1970 + (k + 2) = (1970 + k + 1) + 1" by simp_all
  ultimately have "DayFromYear (1970 + k - 1) \<le> d" "d < DayFromYear ((1970 + k + 1) + 1)" using k by simp_all
  moreover have "YearFromDay d = (if d < DayFromYear (1970 + k) then 1970 + k - 1
      else if DayFromYear (1970 + k + 1) \<le> d then 1970 + k + 1 else 1970 + k)"
    by (simp only: YearFromDay_def k_def Let_def)
  ultimately show ?thesis by (auto simp only: diff_add_cancel not_less not_le split: if_split)
qed

text \<open>Every day has a month and a date in it.\<close>

lemma month_date_range: "fst (month_date d) < 12 \<and> 1 \<le> snd (month_date d) \<and> snd (month_date d) \<le> 31"
proof -
  define n where "n = d - DayFromYear (YearFromDay d)"
  define l where "l = DayFromYear (YearFromDay d + 1) - DayFromYear (YearFromDay d) - 365"
  have l: "l = 0 \<or> l = 1" using year_length [of "YearFromDay d"] by (auto simp: l_def)
  have n: "0 \<le> n" "n < 365 + l" using year_of_day [of d] by (auto simp: n_def l_def)
  have "month_date d = (let m = length (takeWhile (\<lambda>s. s \<le> n) (month_starts l)) - 1 in (m, n - month_starts l ! m + 1))"
    by (simp add: month_date_def n_def l_def Let_def)
  then show ?thesis using l n by (auto simp: month_starts_def Let_def)
qed

subsection \<open>How long the stamps are\<close>

lemma two_digits_length: "0 \<le> n \<Longrightarrow> n < 100 \<Longrightarrow> length (two_digits n) = 2"
  by (simp add: two_digits_def pad_start_def int_str_def dec_digits.simps)

lemma int_str_length: "0 \<le> n \<Longrightarrow> n < 100 \<Longrightarrow> 1 \<le> length (int_str n) \<and> length (int_str n) \<le> 2"
  by (simp add: int_str_def dec_digits.simps)

lemma clock_length: "length (formatClock tz ts) = 5"
  by (simp add: formatClock_def getHours_def getMinutes_def two_digits_length)

text \<open>The stamp of a row of the chat list, the call list or the updates is never empty and at most five characters
  long, whatever the two clocks and the zone say; a message of the future reads "now".\<close>

theorem relative_stamp_fits:
  assumes "ts \<noteq> 0"
  shows "1 \<le> length (formatRelative tz ts now) \<and> length (formatRelative tz ts now) \<le> 5"
proof -
  define d where "d = now - ts"
  have m: "1 \<le> getMonth tz ts + 1" "getMonth tz ts + 1 < 100" "1 \<le> getDate tz ts" "getDate tz ts < 100"
    using month_date_range [of "local_day tz ts"] by (simp_all add: getMonth_def getDate_def)
  have q: "60000 \<le> d \<Longrightarrow> d < 3600000 \<Longrightarrow> 0 \<le> d div 60000 \<and> d div 60000 < 100"
    "60000 \<le> d \<Longrightarrow> d < 604800000 \<Longrightarrow> 0 \<le> d div 86400000 \<and> d div 86400000 < 100" by auto
  have r: "formatRelative tz ts now =
    (if d < 60000 then js ''now'' else if d < 3600000 then int_str (d div 60000) @ js ''m''
     else if d < 86400000 \<and> getDate tz ts = getDate tz now then formatClock tz ts
     else if d < 604800000 then int_str (if d div 86400000 \<noteq> 0 then d div 86400000 else 1) @ js ''d''
     else int_str (getMonth tz ts + 1) @ js ''/'' @ int_str (getDate tz ts))"
    using assms by (simp add: formatRelative_def Let_def d_def)
  show ?thesis unfolding r
    using q int_str_length [of "d div 60000"] int_str_length [of "d div 86400000"] int_str_length [of 1]
      int_str_length [OF _ m(2)] int_str_length [OF _ m(4)] m(1,3) clock_length [of tz ts]
    by (auto simp del: length_greater_0_conv)
qed

lemma relative_stamp_fits_witness:
  "formatRelative (\<lambda>t. 0) 951782400000 1700000000000 = js ''2/29'' \<and>
   length (formatRelative (\<lambda>t. 0) 951782400000 1700000000000) \<le> 5"
  using relative_stamp_fits [of 951782400000 "\<lambda>t. 0" 1700000000000] by code_simp

subsection \<open>Sizes\<close>

lemma size_unit_le: "i \<le> 3 \<Longrightarrow> i \<le> size_unit b i \<and> size_unit b i \<le> 3"
proof (induction b i rule: size_unit.induct)
  case (1 b i)
  then show ?case by (subst (1 2) size_unit.simps) auto
qed

lemma size_unit_range:
  "1024 ^ i \<le> b \<Longrightarrow> 1024 ^ size_unit b i \<le> b \<and> (size_unit b i < 3 \<longrightarrow> b < 1024 * 1024 ^ size_unit b i)"
proof (induction b i rule: size_unit.induct)
  case (1 b i)
  then show ?case by (subst (1 2 3) size_unit.simps) (auto simp: not_le)
qed

lemma round_div_close: "0 < u \<Longrightarrow> \<bar>2 * (round_div b u * u - b)\<bar> \<le> u"
proof -
  assume u: "0 < u"
  then have "2 * b + u = 2 * u * round_div b u + (2 * b + u) mod (2 * u)" "0 \<le> (2 * b + u) mod (2 * u)" "(2 * b + u) mod (2 * u) < 2 * u"
    by (simp_all add: round_div_def)
  then show ?thesis by (simp add: algebra_simps abs_le_iff)
qed

text \<open>The size under a file is the file's size in the largest of the four units it fills, off by at most half of the
  last digit shown: half a unit from ten units on and for bytes, a twentieth of one below.\<close>

theorem size_is_close:
  assumes "0 < b"
  shows "\<exists>i q. i < 4 \<and> 1024 ^ i \<le> b \<and> (i < 3 \<longrightarrow> b < 1024 * 1024 ^ i) \<and>
    (if 10 * 1024 ^ i \<le> b \<or> i = 0
     then formatSize (Some b) = int_str q @ js '' '' @ units ! i \<and> \<bar>2 * (q * 1024 ^ i - b)\<bar> \<le> 1024 ^ i
     else formatSize (Some b) = int_str (q div 10) @ js ''.'' @ int_str (q mod 10) @ js '' '' @ units ! i \<and>
       \<bar>2 * (q * 1024 ^ i - 10 * b)\<bar> \<le> 1024 ^ i)"
proof -
  let ?i = "size_unit b 0"
  let ?u = "1024 ^ ?i :: int"
  have r: "?i < 4" "?u \<le> b" "?i < 3 \<longrightarrow> b < 1024 * ?u"
    using size_unit_le [of 0 b] size_unit_range [of 0 b] assms by auto
  have c: "\<bar>2 * (round_div b ?u * ?u - b)\<bar> \<le> ?u" "\<bar>2 * (round_div (10 * b) ?u * ?u - 10 * b)\<bar> \<le> ?u"
    by (rule round_div_close, simp)+
  show ?thesis
  proof (cases "10 * ?u \<le> b \<or> ?i = 0")
    case True
    then show ?thesis using r c(1) assms
      by (intro exI [of _ ?i] exI [of _ "round_div b ?u"]) (simp add: formatSize_def Let_def)
  next
    case False
    then show ?thesis using r c(2) assms
      by (intro exI [of _ ?i] exI [of _ "round_div (10 * b) ?u"]) (simp add: formatSize_def fixed1_def Let_def)
  qed
qed

lemma size_is_close_witness:
  "formatSize (Some 2516582) = js ''2.4 MB'' \<and> (\<exists>i. i < (4::nat) \<and> 1024 ^ i \<le> (2516582::int))"
proof (rule conjI)
  have "(0::int) < 2516582" by simp
  from size_is_close [OF this] show "\<exists>i. i < (4::nat) \<and> 1024 ^ i \<le> (2516582::int)" by blast
qed code_simp

end
