(* ===== verification/History.thy ===== *)
theory History
  imports ConvProps "HOL-Library.Sublist"
begin

text \<open>
  What a run of the conversation store does to the threads it already has: nothing is lost, reordered or rewritten.

  \<open>message_view\<close> is the interface of a view of a message that the bookkeeping on it (ticks, receipts, attachments, stars)
  does not change. The locale's lemmas say that a step only extends every thread's list of views. Its two
  interpretations are \<open>core\<close>, what the user wrote or read, and \<open>warned\<close>, which adds the state of the scam warning.
\<close>

definition kept :: "(chat_message \<Rightarrow> 'v) \<Rightarrow> conv_store \<Rightarrow> conv_store \<Rightarrow> bool" where
  "kept g s s' = (\<forall>p c. conv_of s p = Some c \<longrightarrow>
     (\<exists>c'. conv_of s' p = Some c' \<and> prefix (map g (messages c)) (map g (messages c'))))"

lemma kept_refl [simp]: "kept g s s"
  by (simp add: kept_def)

lemma kept_trans: "kept g s t \<Longrightarrow> kept g t u \<Longrightarrow> kept g s u"
  unfolding kept_def by (meson prefix_order.trans)

lemma kept_publish [simp]: "kept g s (fst (publish t)) = kept g s t"
  by (simp add: kept_def)

lemma kept_ext [simp]:
  "kept g s (t\<lparr>counter := n\<rparr>) = kept g s t" "kept g s (t\<lparr>started := b\<rparr>) = kept g s t"
  "kept g s (t\<lparr>saveTimer := b\<rparr>) = kept g s t"
  by (simp_all add: kept_def)

lemma kept_put:
  assumes "kept g s t" and "\<And>c0. conv_of t p = Some c0 \<Longrightarrow> prefix (map g (messages c0)) (map g (messages c))"
  shows "kept g s (put p c t)"
  using assms(1) unfolding kept_def
proof (intro allI impI)
  fix q c0
  assume all: "\<forall>p c. conv_of s p = Some c \<longrightarrow> (\<exists>c'. conv_of t p = Some c' \<and> prefix (map g (messages c)) (map g (messages c')))"
    and "conv_of s q = Some c0"
  then obtain c' where c': "conv_of t q = Some c'" "prefix (map g (messages c0)) (map g (messages c'))" by blast
  then show "\<exists>c'. conv_of (put p c t) q = Some c' \<and> prefix (map g (messages c0)) (map g (messages c'))"
    using assms(2) [of c'] by (auto intro: prefix_order.trans)
qed

lemma kept_ensure [simp]: "kept g s (fst (ensure p s))"
  by (auto simp: ensure_def split: option.split intro!: kept_put)

lemma kept_append: "conv_of t p = Some c0 \<Longrightarrow> messages c = messages c0 \<Longrightarrow> kept g s t \<Longrightarrow> kept g s (fst (append_msg p c m a t))"
  by (auto simp: append_msg_def intro!: kept_put)

lemma kept_map_msg: "(\<And>m. g (f m) = g m) \<Longrightarrow> kept g s (fst (map_msg p mid f s))"
  by (auto simp: map_msg_def comp_def if_distrib [of g] cong: if_cong split: option.split intro!: kept_put)

lemma kept_splice: "g x = g (ms ! i) \<Longrightarrow> i < length ms \<Longrightarrow> map g (splice_at i x ms) = map g ms"
  by (simp add: splice_at_update map_update list_update_same_conv)

lemma kept_patch: "(\<And>m. g (f m) = g m) \<Longrightarrow> kept g s (fst (patch p mid f s))"
  by (auto simp: patch_def kept_splice dest!: find_index_SomeD split: option.split intro!: kept_put)

subsection \<open>The interface\<close>

locale message_view =
  fixes view :: "chat_message \<Rightarrow> 'v"
  assumes view_status: "view (m\<lparr>status := t\<rparr>) = view m"
    and view_receipt: "view (m\<lparr>readSent := b\<rparr>) = view m"
    and view_star: "view (m\<lparr>starred := b\<rparr>) = view m"
    and view_media: "view (m\<lparr>media := r\<rparr>) = view m"
    and view_state: "view (m\<lparr>mediaState := z\<rparr>) = view m"
    and view_uri: "view (m\<lparr>mediaUri := u\<rparr>) = view m"
    and view_saved: "view (m\<lparr>mediaSaved := b\<rparr>) = view m"
begin

lemmas view_laws = view_status view_receipt view_star view_media view_state view_uri view_saved

lemma view_mark: "view (mark_msg m) = view m" and view_strip: "view (strip_media m) = view m"
  by (simp_all add: mark_msg_def strip_media_def view_laws)

lemma kept_send: "kept view s (fst (send me now p body s))"
  by (auto simp: send_def sendGroup_def make_def Let_def case_prod_beta split: option.split intro!: kept_append)

lemma kept_sendMedia: "kept view s (fst (sendMedia now p d s))"
  by (auto simp: sendMedia_def make_def Let_def case_prod_beta intro!: kept_append)

lemma kept_loadMedia: "kept view s (fst (loadMedia p mid r s))"
  by (simp add: loadMedia_def case_prod_beta kept_patch view_laws)

lemma kept_load_all: "kept view s (fst (load_all p ms t))" if "kept view s t"
  using that
proof (induction ms arbitrary: t)
  case (Cons m ms)
  then have "kept view s (fst (load_all p ms (fst (loadMedia p i r t))))" for i r
    using kept_trans [OF Cons.prems kept_loadMedia] by blast
  with Cons show ?case by (auto simp: case_prod_beta Let_def split: option.split)
qed simp

lemma kept_status: "kept view s (fst (status_loop ref t m s))" if "set m \<subseteq> set (convs s)" "map_ok (convs s)"
  using that
proof (induction m)
  case (Cons pc m)
  obtain p c where pc: "pc = (p, c)" by (cases pc)
  have c: "conv_of s p = Some c" using Cons.prems by (auto simp: pc conv_of_def map_ok_mem [symmetric])
  have "kept view s (put p (c\<lparr>messages := splice_at i ((messages c ! i)\<lparr>status := Some t\<rparr>) (messages c)\<rparr>) s)"
    if "find_index (\<lambda>m. clientRef m = Some ref) (messages c) = Some i" for i
    using find_index_SomeD [OF that] c by (intro kept_put) (simp_all add: kept_splice view_laws)
  then show ?case using Cons by (auto simp: pc split: option.split simp del: find_index_None)
qed simp

lemma kept_receive:
  assumes "receive me p body a env v s = Some r"
  shows "kept view s (fst r)"
proof -
  have pay: "Q r" if "on_payload j sh skip k = Some r" "Q skip" "\<And>x. Q (k x)" for j sh skip k and Q :: "_ \<Rightarrow> bool"
    using that by (auto simp: on_payload_def split: option.splits if_splits)
  have t: "kept view s (fst (receive_text p body a env v s))"
    by (auto simp: receive_text_def make_defs Let_def case_prod_beta split: option.split intro!: kept_append)
  have m: "kept view s (fst (receive_media p r a env s))" for r
    by (auto simp: receive_media_def make_defs Let_def case_prod_beta intro!: kept_append kept_trans [OF _ kept_loadMedia])
  have e: "kept view s (fst (ensureGroup me g s))" for g
    by (auto simp: ensureGroup_def Let_def case_prod_beta intro!: kept_put)
  have g: "kept view s (fst (receive_group me p g a env v s))" for g
    using e by (auto simp: receive_group_def make_defs Let_def case_prod_beta split: option.split intro!: kept_append)
  from assms show ?thesis unfolding receive_def
    by (auto split: if_splits elim!: pay [of _ _ _ _ "\<lambda>r. kept view s (fst r)"] simp: t m g)
qed

text \<open>Signing out aside, a step other than a dismissal extends every thread's views.\<close>

lemma step_kept:
  assumes "conv_step me s s'" "map_ok (convs s)"
  shows "kept view s s' \<or> s' = fst (reset s) \<or> (\<exists>p mid. s' = fst (dismissScamWarning p mid s))"
  using assms(1)
proof (cases rule: conv_step.cases)
  case (CreateGroup now rnd name ms)
  then show ?thesis by (auto simp: createGroup_def Let_def case_prod_beta intro!: kept_put)
next
  case (EnsurePeer p ph)
  then show ?thesis by (auto simp: ensurePeer_def Let_def case_prod_beta intro!: kept_put)
next
  case (MarkRead p)
  then show ?thesis
    by (auto simp: markRead_def Let_def case_prod_beta view_mark comp_def split: option.split intro!: kept_put)
next
  case (Loaded p mid res)
  then show ?thesis by (auto simp: loadMedia_done_def view_laws split: option.split intro!: kept_patch)
next
  case (Save decode p mid)
  then show ?thesis
    by (auto simp: saveMedia_def case_prod_beta Let_def kept_loadMedia split: option.split)
qed (auto simp: start_def setPeerIdentity_def kept_send kept_sendMedia sendTyping_def sendMedia_uploaded_def
    sendMedia_failed_def saveMedia_done_def case_prod_beta kept_loadMedia loadPendingMedia_def kept_load_all
    downloadMedia_def applyStatus_def kept_status [OF subset_refl assms(2)] toggleStar_def view_laws persist_tick_def
    kept_receive Let_def
    split: option.split intro!: kept_put kept_map_msg kept_patch)

lemma restart_kept:
  "store_inv s \<Longrightarrow> kept view s (fst (hydrate (Some (to_persist s)) (fst (start init_store))))"
  by (simp add: kept_def conv_of_restored restored_def view_strip comp_def)

end

subsection \<open>What the user wrote and read\<close>

definition core :: "chat_message \<Rightarrow> jstr \<times> jstr \<times> bool \<times> int \<times> jstr option \<times> scam_verdict option" where
  "core m = (m_id m, m_text m, mine m, m_at m, m_sender m, verdict m)"

interpretation hist: message_view core
  by unfold_locales (simp_all add: core_def)

definition warned :: "chat_message \<Rightarrow> (jstr \<times> jstr \<times> bool \<times> int \<times> jstr option \<times> scam_verdict option) \<times> bool" where
  "warned m = (core m, dismissed m)"

interpretation warn: message_view warned
  by unfold_locales (simp_all add: warned_def core_def)

text \<open>Any use of the store and any number of restarts, without signing out.\<close>

inductive history_run :: "conv_store \<Rightarrow> conv_store \<Rightarrow> bool" for s where
  Here: "history_run s s"
| Step: "history_run s t \<Longrightarrow> conv_step me t u \<Longrightarrow> u \<noteq> fst (reset t) \<Longrightarrow> history_run s u"
| Restart: "history_run s t \<Longrightarrow> history_run s (fst (hydrate (Some (to_persist t)) (fst (start init_store))))"

lemma run_reach: "history_run s t \<Longrightarrow> conv_reach s \<Longrightarrow> conv_reach t"
  by (induction rule: history_run.induct) (auto intro: conv_reach.intros)

lemma dismiss_core: "kept core s (fst (dismissScamWarning p mid s))"
  by (simp add: dismissScamWarning_def kept_map_msg core_def)

lemma core_step: "conv_step me s s' \<Longrightarrow> store_inv s \<Longrightarrow> s' \<noteq> fst (reset s) \<Longrightarrow> kept core s s'"
  using hist.step_kept [of me s s'] store_invD(1) [of s] dismiss_core by blast

lemma run_kept: "history_run s t \<Longrightarrow> conv_reach s \<Longrightarrow> kept core s t"
proof (induction rule: history_run.induct)
  case (Step t me u)
  then have "kept core t u" using core_step reach_inv run_reach by blast
  with Step show ?case using kept_trans by blast
next
  case (Restart t)
  then have "kept core t (fst (hydrate (Some (to_persist t)) (fst (start init_store))))"
    using hist.restart_kept reach_inv run_reach by blast
  with Restart show ?case using kept_trans by blast
qed simp


text \<open>A scam warning goes away in one way only. After any step on the store the flagged message is still there with
  its verdict and still not dismissed, unless the step was this message's own dismissal or the sign-out.\<close>

theorem warning_stays:
  assumes reach: "conv_reach s" and step: "conv_step me s s'" and c: "conv_of s p = Some c" and m: "m \<in> set (messages c)"
    and flagged: "verdict m = Some v" "\<not> dismissed m"
    and keep: "s' \<noteq> fst (reset s)" "s' \<noteq> fst (dismissScamWarning p (m_id m) s)"
  shows "\<exists>c' m'. conv_of s' p = Some c' \<and> m' \<in> set (messages c') \<and> m_id m' = m_id m \<and> m_text m' = m_text m \<and>
    mine m' = mine m \<and> verdict m' = Some v \<and> \<not> dismissed m'"
proof -
  have "kept warned s s' \<or> (\<exists>q mid. s' = fst (dismissScamWarning q mid s))"
    using warn.step_kept [OF step] store_invD(1) [OF reach_inv [OF reach]] keep(1) by blast
  then have "\<exists>c' m'. conv_of s' p = Some c' \<and> m' \<in> set (messages c') \<and> warned m' = warned m"
  proof (elim disjE exE)
    assume "kept warned s s'"
    then obtain c' where c': "conv_of s' p = Some c'" "prefix (map warned (messages c)) (map warned (messages c'))"
      using c by (auto simp: kept_def)
    then have "warned m \<in> set (map warned (messages c'))" using m set_mono_prefix by fastforce
    then show ?thesis using c'(1) by auto
  next
    fix q mid assume s': "s' = fst (dismissScamWarning q mid s)"
    show ?thesis
    proof (cases "q = p")
      case True
      then have "mid \<noteq> m_id m" using s' keep(2) by blast
      then show ?thesis using s' True c m by (force simp: dismissScamWarning_def map_msg_def)
    next
      case False
      then show ?thesis using s' c m by (auto simp: dismissScamWarning_def map_msg_def split: option.split)
    qed
  qed
  then show ?thesis using flagged by (force simp: warned_def core_def)
qed

subsection \<open>Witnesses\<close>

definition demo_verdict :: scam_verdict where
  "demo_verdict = \<lparr>flagged = True, category = None, score = 60, modelVersion = []\<rparr>"

definition demo_flagged :: conv_store where
  "demo_flagged = fst (receive_text (js ''bob'') (js ''yo'') 9 None (Some demo_verdict) init_store)"

lemma demo_flagged_step: "conv_step None init_store demo_flagged"
proof -
  have k: "body_kind (js ''yo'') = KText"
    by (simp add: body_kind_def is_body_defs marker_chars js_Cons of_char_def)
  show ?thesis unfolding demo_flagged_def using conv_step.Receive [OF receive_KText [OF k]] by blast
qed

lemma demo_flagged_reach: "conv_reach demo_flagged"
  by (rule conv_reach.Step [OF conv_reach.Init demo_flagged_step])

definition demo_warning :: chat_message where
  "demo_warning = (snd (make (js ''yo'') False 9 init_store))\<lparr>verdict := Some demo_verdict\<rparr>"

lemma demo_flagged_conv: "conv_of demo_flagged (js ''bob'') =
    Some ((empty_conv (js ''bob''))\<lparr>messages := [demo_warning], unread := 1, lastAt := 9\<rparr>)"
  by (simp add: demo_flagged_def receive_text_def ensure_def init_store_def conv_of_def put_def make_defs Let_def
      append_msg_def empty_conv_def demo_warning_def)

lemma demo_warning_fields: "m_id demo_warning = msg_id 0" "verdict demo_warning = Some demo_verdict" "\<not> dismissed demo_warning"
    "\<not> mine demo_warning" "m_text demo_warning = js ''yo''"
  by (simp_all add: demo_warning_def make_def init_store_def)


lemma warning_stays_witness:
  "\<exists>c' m'. conv_of (fst (markRead (js ''bob'') demo_flagged)) (js ''bob'') = Some c' \<and> m' \<in> set (messages c') \<and> \<not> dismissed m'"
proof -
  let ?s = "fst (markRead (js ''bob'') demo_flagged)"
  have c: "\<exists>c. conv_of ?s (js ''bob'') = Some c \<and> list_all (\<lambda>m. \<not> dismissed m) (messages c)"
    using demo_warning_fields by (simp add: markRead_def demo_flagged_conv Let_def case_prod_beta mark_msg_def)
  have "conv_of (fst (reset demo_flagged)) (js ''bob'') = None"
    by (simp add: reset_def Let_def case_prod_beta conv_of_def)
  then have r: "?s \<noteq> fst (reset demo_flagged)" using c by (metis option.distinct(1))
  have "\<exists>c. conv_of (fst (dismissScamWarning (js ''bob'') (m_id demo_warning) demo_flagged)) (js ''bob'') = Some c \<and>
      \<not> list_all (\<lambda>m. \<not> dismissed m) (messages c)"
    by (simp add: dismissScamWarning_def map_msg_def demo_flagged_conv)
  then have d: "?s \<noteq> fst (dismissScamWarning (js ''bob'') (m_id demo_warning) demo_flagged)"
    using c by (metis option.inject)
  show ?thesis
    using warning_stays [OF demo_flagged_reach conv_step.MarkRead demo_flagged_conv _ demo_warning_fields(2,3) r d] by auto
qed

end
