(* ===== verification/ChatView.thy ===== *)
theory ChatView
  imports Composer Reports Formatting History
begin

text \<open>
  What \<open>apps/mobile/src/screens/ChatScreen.tsx\<close> shows of the conversation store and what its controls do to it: the
  bubbles, their ticks and attachments, the scam warning above a flagged message, the header and the composer row.

  \<open>chat_action\<close> names the handlers; the ones that act on the store are \<open>chat_perform\<close>, and the composer's are those of
  \<open>Composer\<close>. The main results: in every reachable store the warning of a message is on the screen exactly while the
  message is flagged, inbound and not dismissed, and it leaves the screen by its own dismissal only.
\<close>

datatype chat_action =
    GoBack | Verify | StartCall bool
  | DismissWarning jstr | ReportWarning jstr
  | Star jstr | Retry | SaveFileOf jstr
  | AttachImage | AttachFile | EditDraft | SendDraft

subsection \<open>A bubble\<close>

definition StatusTicks :: "message_status option \<Rightarrow> chat_action jsx" where
  "StatusTicks st =
    (case st of None \<Rightarrow> []
     | Some t \<Rightarrow>
         if t = Sending then [say ''tick'' [0xD83D, 0xDD53]]
         else (let read = (t = Read); glyph = (if t = Sent then TICK else TICK @ TICK) in
               [Text ([''tick''] @ onlyif read [''tickRead'']) [Str glyph]]))"

definition isAttachment :: "chat_message \<Rightarrow> bool" where
  "isAttachment m = (media m \<noteq> None \<or> some_text (mediaUri m) \<or> some_text (mediaMime m))"

definition ImageBubble :: "chat_message \<Rightarrow> chat_action elem" where
  "ImageBubble m =
    (if some_text (mediaUri m) then Img (the (mediaUri m))
     else if mediaState m = Some Failed then
       button ''imagePlaceholder'' Retry [say ''imageNote'' (js ''Couldn't load photo''), say ''imageRetry'' (js ''Tap to retry'')]
     else View [''imagePlaceholder''] [Spinner, say ''imageNote'' (js ''Loading photo'' @ ELLIPSIS)])"

definition file_subtitle :: "chat_message \<Rightarrow> jstr" where
  "file_subtitle m =
    (if mediaState m = Some Failed then js ''Couldn't load '' @ DASH @ js '' tap to retry''
     else if mediaSaved m then js ''Saved to Downloads''
     else if mediaState m = Some Loading then js ''Saving'' @ ELLIPSIS
     else (let t = formatSize (or_else (map_option msize (media m)) (mediaSize m)) in
           if t \<noteq> [] then t else js ''Tap to save''))"

definition FileBubble :: "chat_message \<Rightarrow> chat_action elem" where
  "FileBubble m =
    (let name = (case or_else (Option.bind (media m) mname) (mediaName m) of Some n \<Rightarrow> n | None \<Rightarrow> js ''File'');
         loading = (mediaState m = Some Loading) in
     Touch [''fileChip''] loading (Some (SaveFileOf (m_id m))) None
       ([say ''fileIcon'' (if mediaSaved m then TICK else CLIP),
         View [''fileMeta''] [say ''fileName'' name, say ''fileSub'' (file_subtitle m)]] @
        onlyif loading [Spinner]))"

definition ascii_lower :: "unit16 \<Rightarrow> unit16" where
  "ascii_lower c = (if 65 \<le> c \<and> c \<le> 90 then c + 32 else c)"

definition warning_label :: "chat_message \<Rightarrow> jstr" where
  "warning_label m =
    (case Option.bind (verdict m) category of Some k \<Rightarrow> map ascii_lower (category_label k) | None \<Rightarrow> js ''a known scam'')"

definition ScamWarning :: "chat_message \<Rightarrow> chat_action elem" where
  "ScamWarning m =
    View [''warning'']
      [View [''warningHeader'']
         [say ''warningTitle'' (WARN @ js ''  Scam pattern detected''),
          button ''press'' (DismissWarning (m_id m)) [say ''warningDismiss'' CROSS]],
       say ''warningBody'' (js ''This message matches patterns common in '' @ warning_label m @
         js ''. Do not send money or share personal information or codes.''),
       button ''press'' (ReportWarning (m_id m)) [say ''warningReport'' (js ''Not a scam? Report'')]]"

definition shows_warning :: "chat_message \<Rightarrow> bool" where
  "shows_warning m = (\<not> mine m \<and> (case verdict m of Some v \<Rightarrow> flagged v | None \<Rightarrow> False) \<and> \<not> dismissed m)"

definition message_row :: "(int \<Rightarrow> int) \<Rightarrow> bool \<Rightarrow> chat_message \<Rightarrow> chat_action elem" where
  "message_row tz in_group m =
    View [''messageRow'']
      (onlyif (shows_warning m) [ScamWarning m] @
       [Touch ([''bubble'', if mine m then ''out'' else ''in''] @ onlyif (isAttachment m) [''mediaBubble'']) False
          None (Some (Star (m_id m)))
          (onlyif (in_group \<and> \<not> mine m \<and> some_text (m_sender m)) [say ''sender'' (short_id 8 (the (m_sender m)))] @
           [if isAttachment m then (if isImageMime (mediaMime m) then ImageBubble m else FileBubble m)
            else say ''bubbleText'' (m_text m)] @
           [View [''meta'']
              (onlyif (starred m) [say ''star'' STAR] @
               [say ''time'' (formatClock tz (m_at m))] @
               (if mine m then StatusTicks (status m) else []))])])"

subsection \<open>The screen\<close>

datatype chat_props = ChatProps
  (cp_peer: jstr) (cp_phone: "jstr option") (cp_verify: bool) (cp_typing: "jstr list")
  (cp_draft: jstr) (cp_error: "jstr option") (cp_tz: "int \<Rightarrow> int")

definition peer_label :: "jstr option \<Rightarrow> jstr \<Rightarrow> jstr" where
  "peer_label phone peer = (case phone of Some p \<Rightarrow> p | None \<Rightarrow> short_id 8 peer)"

definition chat_group :: "chat_props \<Rightarrow> conv_store \<Rightarrow> group_info option" where
  "chat_group pr s = Option.bind (find (\<lambda>c. peerUserId c = cp_peer pr) (getConversations s)) group"

definition headerTitle :: "chat_props \<Rightarrow> group_info option \<Rightarrow> jstr" where
  "headerTitle pr g = (case g of Some i \<Rightarrow> g_name i | None \<Rightarrow> peer_label (cp_phone pr) (cp_peer pr))"

definition headerSub :: "chat_props \<Rightarrow> group_info option \<Rightarrow> jstr" where
  "headerSub pr g =
    (case cp_typing pr of
       u # us \<Rightarrow> (case g of Some i \<Rightarrow> take 8 u @ ELLIPSIS @ js '' is typing'' @ ELLIPSIS | None \<Rightarrow> js ''typing'' @ ELLIPSIS)
     | [] \<Rightarrow> (case g of Some i \<Rightarrow> int_str (int (length (g_members i)) + 1) @ js '' members'' | None \<Rightarrow> short_id 8 (cp_peer pr)))"

definition chat_header :: "chat_props \<Rightarrow> group_info option \<Rightarrow> chat_action elem" where
  "chat_header pr g =
    View [''header'']
      ([button ''press'' GoBack [say ''back'' BACK],
        View [''headerText'']
          [say ''peer'' (headerTitle pr g),
           Text ([''peerId''] @ onlyif (cp_typing pr \<noteq> []) [''typing'']) [Str (headerSub pr g)]]] @
       onlyif (g = None)
         [View [''callButtons'']
            (onlyif (cp_verify pr) [button ''press'' Verify [say ''callGlyph'' [0xD83D, 0xDEE1]]] @
             [button ''press'' (StartCall False) [say ''callGlyph'' PHONE],
              button ''press'' (StartCall True) [say ''callGlyph'' VIDEO]])])"

definition composer_row :: "jstr \<Rightarrow> chat_action elem" where
  "composer_row d =
    View [''composer'']
      [button ''attachButton'' AttachImage [say ''attachIcon'' [0xD83D, 0xDDBC]],
       button ''attachButton'' AttachFile [say ''attachIcon'' CLIP],
       Field d None (Some EditDraft),
       button ''sendButton'' SendDraft [say ''sendText'' (js ''Send'')]]"

definition ChatScreen :: "chat_props \<Rightarrow> conv_store \<Rightarrow> chat_action elem" where
  "ChatScreen pr s =
    (let g = chat_group pr s in
     View [''container'']
       ([chat_header pr g,
         FlatList (map (\<lambda>m. (m_id m, message_row (cp_tz pr) (g \<noteq> None) m)) (getMessages s (cp_peer pr)))] @
        onlyif (some_text (cp_error pr)) [say ''error'' (the (cp_error pr))] @
        [composer_row (cp_draft pr)]))"

subsection \<open>What the controls do\<close>

text \<open>The attachment handlers go on when their picker has answered (an error, \<open>None\<close> when it was cancelled) and return
  the error line with the store; \<open>handleSaveFile\<close> runs up to its first await. A later rejection of \<open>sendMedia\<close> or
  \<open>saveMedia\<close> goes to the error line alone. \<open>report\<close> runs beside the dismissal.\<close>

definition handleAttach :: "nat \<Rightarrow> chat_props \<Rightarrow> jstr + media_plain option \<Rightarrow> conv_store \<Rightarrow>
    conv_store \<times> conv_effect list \<times> jstr option" where
  "handleAttach now pr picked s =
    (case picked of Inl e \<Rightarrow> (s, [], Some e) | Inr None \<Rightarrow> (s, [], None)
     | Inr (Some d) \<Rightarrow> (case sendMedia now (cp_peer pr) d s of (s1, es) \<Rightarrow> (s1, es, None)))"

definition handleAttachFile :: "nat \<Rightarrow> chat_props \<Rightarrow> jstr + media_plain option \<Rightarrow> conv_store \<Rightarrow>
    conv_store \<times> conv_effect list \<times> jstr option" where
  "handleAttachFile now pr picked s =
    (case picked of Inl e \<Rightarrow> (s, [], Some e) | Inr None \<Rightarrow> (s, [], None)
     | Inr (Some d) \<Rightarrow> (case sendMedia now (cp_peer pr) d s of (s1, es) \<Rightarrow> (s1, es, None)))"

definition handleSaveFile :: "(jstr \<Rightarrow> byte list) \<Rightarrow> chat_props \<Rightarrow> jstr \<Rightarrow> conv_store \<Rightarrow>
    conv_store \<times> conv_effect list \<times> jstr option" where
  "handleSaveFile decode pr i s =
    (case saveMedia decode (cp_peer pr) i s of (s1, r, es) \<Rightarrow>
       (s1, es, if r = NoData then Some (js ''attachment has no data'') else None))"

text \<open>The handlers of a row, on the store.\<close>

definition chat_perform :: "(jstr \<Rightarrow> byte list) \<Rightarrow> chat_props \<Rightarrow> chat_action \<Rightarrow> conv_store \<Rightarrow> conv_store \<times> conv_effect list" where
  "chat_perform decode pr a s =
    (case a of
       DismissWarning i \<Rightarrow> dismissScamWarning (cp_peer pr) i s
     | ReportWarning i \<Rightarrow> dismissScamWarning (cp_peer pr) i s
     | Star i \<Rightarrow> toggleStar (cp_peer pr) i s
     | Retry \<Rightarrow> loadPendingMedia (cp_peer pr) s
     | SaveFileOf i \<Rightarrow> (case handleSaveFile decode pr i s of (s1, es, _) \<Rightarrow> (s1, es))
     | _ \<Rightarrow> (s, []))"

definition onReport :: "'k report_sink \<Rightarrow> int \<Rightarrow> chat_message \<Rightarrow> reporter \<times> 'k \<Rightarrow> reporter \<times> 'k" where
  "onReport S now m k = (case verdict m of Some v \<Rightarrow> report S (m_text m) v now k | None \<Rightarrow> k)"

subsection \<open>What is on the screen\<close>

lemmas chat_defs = message_row_def ScamWarning_def ImageBubble_def FileBubble_def StatusTicks_def

lemma ticks_taps [simp]: "t \<in> set (StatusTicks st) \<Longrightarrow> taps t = []" "concat (map taps (StatusTicks st)) = []"
  by (cases st; force simp: StatusTicks_def Let_def split: if_splits)+

lemma row_taps: "set (taps (message_row tz g m)) =
    (if shows_warning m then {DismissWarning (m_id m), ReportWarning (m_id m)} else {}) \<union>
    (if isAttachment m \<and> isImageMime (mediaMime m)
     then (if \<not> some_text (mediaUri m) \<and> mediaState m = Some Failed then {Retry} else {})
     else if isAttachment m \<and> mediaState m \<noteq> Some Loading then {SaveFileOf (m_id m)} else {})"
  by (cases "mine m") (auto simp: message_row_def ScamWarning_def ImageBubble_def FileBubble_def Let_def dest: ticks_taps(1))

lemma header_taps: "set (taps (chat_header pr g)) \<subseteq> {GoBack, Verify, StartCall False, StartCall True}"
  by (auto simp: chat_header_def)

lemma composer_taps: "set (taps (composer_row d)) = {AttachImage, AttachFile, SendDraft}"
  by (auto simp: composer_row_def)

lemma screen_taps: "set (taps (ChatScreen pr s)) =
    set (taps (chat_header pr (chat_group pr s))) \<union> {AttachImage, AttachFile, SendDraft} \<union>
    (\<Union>m\<in>set (getMessages s (cp_peer pr)). set (taps (message_row (cp_tz pr) (chat_group pr s \<noteq> None) m)))"
  using composer_taps [of "cp_draft pr"] by (auto simp: ChatScreen_def Let_def)

lemma warning_taps:
  "DismissWarning i \<in> set (taps (ChatScreen pr s)) \<longleftrightarrow> (\<exists>m\<in>set (getMessages s (cp_peer pr)). m_id m = i \<and> shows_warning m)"
  using header_taps [of pr "chat_group pr s"] by (force simp: screen_taps row_taps split: if_splits)

lemma message_of: "m \<in> set (getMessages s p) \<longleftrightarrow> (\<exists>c. conv_of s p = Some c \<and> m \<in> set (messages c))"
  by (cases "conv_of s p") (auto simp: getMessages_def)

text \<open>C9: A warning on the screen stays on it: after any step on the store its message still offers the dismissal, unless
  the step was that message's own dismissal or the sign-out.\<close>

theorem warning_shown_until_dismissed:
  assumes "conv_reach s" and "conv_step me s s'" and shown: "DismissWarning i \<in> set (taps (ChatScreen pr s))"
    and "s' \<noteq> fst (reset s)" and "s' \<noteq> fst (dismissScamWarning (cp_peer pr) i s)"
  shows "DismissWarning i \<in> set (taps (ChatScreen pr s'))"
proof -
  obtain m c v where c: "conv_of s (cp_peer pr) = Some c" and m: "m \<in> set (messages c)" "m_id m = i" "\<not> mine m"
    and v: "verdict m = Some v" "flagged v" "\<not> dismissed m"
    using shown by (auto simp: warning_taps message_of shows_warning_def split: option.splits)
  have "s' \<noteq> fst (dismissScamWarning (cp_peer pr) (m_id m) s)" using assms(5) m(2) by simp
  from warning_stays [OF assms(1,2) c m(1) v(1,3) assms(4) this]
  obtain c' m' where "conv_of s' (cp_peer pr) = Some c'" "m' \<in> set (messages c')" "m_id m' = m_id m" "mine m' = mine m"
    "verdict m' = Some v" "\<not> dismissed m'" by blast
  then show ?thesis using m v(2) by (auto simp: warning_taps message_of shows_warning_def intro!: bexI [of _ m'])
qed

lemma dismissing_clears:
  "DismissWarning j \<in> set (taps (ChatScreen pr (fst (chat_perform decode pr (DismissWarning i) s)))) \<longleftrightarrow>
     j \<noteq> i \<and> DismissWarning j \<in> set (taps (ChatScreen pr s))"
proof -
  have "getMessages (fst (chat_perform decode pr (DismissWarning i) s)) (cp_peer pr) =
      map (\<lambda>m. if m_id m = i then m\<lparr>dismissed := True\<rparr> else m) (getMessages s (cp_peer pr))"
    by (simp add: chat_perform_def dismissScamWarning_def map_msg_def getMessages_def split: option.split)
  then show ?thesis by (auto simp: warning_taps shows_warning_def)
qed

text \<open>Dismissing a warning, or reporting it as no scam, takes exactly that warning off the screen.\<close>

theorem dismissing_clears_one_warning:
  assumes "a = DismissWarning i \<or> a = ReportWarning i"
  shows "DismissWarning j \<in> set (taps (ChatScreen pr (fst (chat_perform decode pr a s)))) \<longleftrightarrow>
     j \<noteq> i \<and> DismissWarning j \<in> set (taps (ChatScreen pr s))"
  using assms dismissing_clears by (auto simp: chat_perform_def)

lemma warned_message:
  assumes "conv_reach s" "history_run s s'" "conv_of s p = Some c" "m \<in> set (messages c)"
  shows "\<exists>m'\<in>set (getMessages s' p). core m' = core m"
proof -
  obtain c' where c': "conv_of s' p = Some c'" "prefix (map core (messages c)) (map core (messages c'))"
    using run_kept [OF assms(2,1)] assms(3) by (auto simp: kept_def)
  then have "core m \<in> core ` set (messages c')" using assms(4) set_mono_prefix by fastforce
  then show ?thesis using c'(1) by (auto simp: message_of)
qed


lemma find_append: "find P (xs @ ys) = (case find P xs of None \<Rightarrow> find P ys | Some x \<Rightarrow> Some x)"
  by (induction xs) auto

lemma row_keys: "keys_ok (message_row tz g m)"
  by (auto simp: message_row_def ScamWarning_def ImageBubble_def FileBubble_def StatusTicks_def Let_def split: option.split)

lemma chat_keys:
  assumes "store_inv s"
  shows "keys_ok (ChatScreen pr s)"
proof -
  have "distinct (map m_id (getMessages s (cp_peer pr)))"
    using store_invD(2) [OF assms] by (auto simp: getMessages_def conv_ok_def split: option.split)
  then show ?thesis
    by (simp add: ChatScreen_def Let_def chat_header_def composer_row_def row_keys list_all_iff comp_def)
qed

text \<open>A file whose upload failed says "tap to retry" and can be tapped, but the tap does nothing at all: it asks the
  store to save an attachment that never got a reference.\<close>

theorem failed_upload_cannot_be_retried:
  assumes inv: "conv_reach s" and d: "\<not> isImageMime (Some (pl_mime d))" "pl_mime d \<noteq> []"
    and up: "sendMedia now (cp_peer pr) d s = (s1, es)"
  defines "s2 \<equiv> fst (sendMedia_failed (cp_peer pr) (msg_id (counter s)) s1)"
  shows "SaveFileOf (msg_id (counter s)) \<in> set (taps (ChatScreen pr s2)) \<and>
    (\<exists>m\<in>set (getMessages s2 (cp_peer pr)). m_id m = msg_id (counter s) \<and>
       file_subtitle m = js ''Couldn't load '' @ DASH @ js '' tap to retry'') \<and>
    chat_perform decode pr (SaveFileOf (msg_id (counter s))) s2 = (s2, [])"
proof -
  let ?p = "cp_peer pr" and ?i = "msg_id (counter s)"
  define m where "m = (snd (Conversations.make (mediaLabel (Some (pl_mime d)) (pl_name d)) True (int now) s))
      \<lparr>clientRef := Some (client_ref (Suc (counter s)) now), status := Some Sending, mediaMime := Some (pl_mime d),
        mediaName := pl_name d, mediaSize := Some (int (length (pl_bytes d)))\<rparr>"
  obtain c where c: "conv_of s1 ?p = Some c" "messages c = getMessages s ?p @ [m]"
    using up d(1) by (auto simp: sendMedia_def Conversations.make_def Let_def case_prod_beta append_msg_def m_def getMessages_def
        ensure_value empty_conv_def split: option.split)
  have s1: "store_inv s1" using reach_inv [OF conv_reach.Step [OF inv conv_step.SendMedia]] up by (metis fst_conv)
  have m: "m_id m = ?i" "media m = None" "mediaMime m = Some (pl_mime d)" "mediaUri m = None" by (simp_all add: m_def Conversations.make_def)
  have "x \<in> set (getMessages s ?p) \<Longrightarrow> m_id x \<noteq> ?i" for x
    using conv_ok_ids [OF store_invD(2) [OF reach_inv [OF inv]]] by (fastforce simp: message_of ids_def)
  then have old: "map (\<lambda>x. if m_id x = ?i then x\<lparr>mediaState := Some Failed\<rparr> else x) (getMessages s ?p) = getMessages s ?p"
    "find (\<lambda>x. m_id x = ?i) (getMessages s ?p) = None"
    by (auto simp: find_None_iff intro: map_idI)
  let ?m = "m\<lparr>mediaState := Some Failed\<rparr>"
  have c2: "conv_of s2 ?p = Some (c\<lparr>messages := getMessages s ?p @ [?m]\<rparr>)"
    using c m(1) old(1) by (simp add: s2_def sendMedia_failed_def patch_map [OF s1] map_msg_def ids_def)
  have mem: "?m \<in> set (getMessages s2 ?p)" using c2 by (simp add: getMessages_def)
  have "find_msg s2 ?p ?i = Some ?m" using c2 old(2) m(1) by (simp add: find_msg_def find_append)
  then have "chat_perform decode pr (SaveFileOf ?i) s2 = (s2, [])" using m(2) by (simp add: chat_perform_def handleSaveFile_def saveMedia_def)
  moreover have "SaveFileOf ?i \<in> set (taps (message_row tz g ?m))" for tz g
    using m d by (simp add: row_taps isAttachment_def)
  then have "SaveFileOf ?i \<in> set (taps (ChatScreen pr s2))" using mem unfolding screen_taps by blast
  moreover have "file_subtitle ?m = js ''Couldn't load '' @ DASH @ js '' tap to retry''" by (simp add: file_subtitle_def)
  ultimately show ?thesis using mem m(1) by (intro conjI bexI [of _ ?m]) simp_all
qed

subsection \<open>Witnesses\<close>

definition demo_chat :: chat_props where
  "demo_chat = ChatProps (js ''bob'') None True [] [] None (\<lambda>t. 0)"

lemma demo_warning_shown: "DismissWarning (msg_id 0) \<in> set (taps (ChatScreen demo_chat demo_flagged))"
  using demo_warning_fields
  by (simp add: warning_taps demo_chat_def message_of demo_flagged_conv shows_warning_def demo_verdict_def)

lemma warning_shown_until_dismissed_witness:
  "DismissWarning (msg_id 0) \<in> set (taps (ChatScreen demo_chat (fst (start demo_flagged))))"
proof -
  let ?s = "fst (start demo_flagged)"
  have s: "conv_of ?s = conv_of demo_flagged" by (simp add: start_def)
  have "conv_of (fst (reset demo_flagged)) (js ''bob'') = None"
    by (simp add: reset_def Let_def case_prod_beta conv_of_def)
  then have r: "?s \<noteq> fst (reset demo_flagged)" using demo_flagged_conv by (metis s option.distinct(1))
  have "DismissWarning (msg_id 0) \<in> set (taps (ChatScreen demo_chat ?s))"
    using demo_warning_shown by (simp add: warning_taps getMessages_def s)
  moreover have "DismissWarning (msg_id 0) \<notin>
      set (taps (ChatScreen demo_chat (fst (chat_perform (\<lambda>_. []) demo_chat (DismissWarning (msg_id 0)) demo_flagged))))"
    by (simp add: dismissing_clears)
  ultimately have d: "?s \<noteq> fst (dismissScamWarning (cp_peer demo_chat) (msg_id 0) demo_flagged)"
    by (auto simp: chat_perform_def)
  show ?thesis
    by (rule warning_shown_until_dismissed [OF demo_flagged_reach conv_step.Start demo_warning_shown r d])
qed

lemma dismissing_clears_one_warning_witness:
  "DismissWarning (msg_id 0) \<notin>
    set (taps (ChatScreen demo_chat (fst (chat_perform (\<lambda>_. []) demo_chat (ReportWarning (msg_id 0)) demo_flagged))))"
  using dismissing_clears_one_warning [of "ReportWarning (msg_id 0)" "msg_id 0"] by blast


definition demo_file :: media_plain where
  "demo_file = \<lparr>pl_bytes = [1, 2], pl_mime = js ''a/b'', pl_name = None\<rparr>"

lemma failed_upload_cannot_be_retried_witness:
  "SaveFileOf (msg_id 0) \<in> set (taps (ChatScreen demo_chat
     (fst (sendMedia_failed (js ''bob'') (msg_id 0) (fst (sendMedia 5 (js ''bob'') demo_file init_store))))))"
proof -
  have d: "\<not> isImageMime (Some (pl_mime demo_file))" "pl_mime demo_file \<noteq> []"
    by (simp_all add: demo_file_def isImageMime_def starts_with_def js_Cons of_char_def)
  have p: "cp_peer demo_chat = js ''bob''" "counter init_store = 0" by (simp_all add: demo_chat_def init_store_def)
  have up: "sendMedia 5 (cp_peer demo_chat) demo_file init_store =
    (fst (sendMedia 5 (js ''bob'') demo_file init_store), snd (sendMedia 5 (js ''bob'') demo_file init_store))" by (simp add: p)
  from failed_upload_cannot_be_retried [OF conv_reach.Init d up, of "\<lambda>_. []"] show ?thesis by (simp add: p)
qed

end
