(* ===== verification/HomeView.thy ===== *)
theory HomeView
  imports ChatView Statuses Calls Connection
begin

text \<open>
  \<open>apps/mobile/src/screens/HomeScreen.tsx\<close>: the top bar with its status pill, the four tabs, the quick menu and the
  bottom navigation, over the conversation store, the status store, the call log and the client's connection state.
  \<open>store/connection.ts\<close> is the bridge that carries that state to the screen.

  An action inside the quick menu is \<open>InMenu a\<close>: it closes the menu first. \<open>upper\<close> is \<open>toUpperCase\<close> where it is applied
  to arbitrary text. \<open>now\<close> is the time of the render; \<open>UpdatesTab\<close> filters by the time at which its list last changed.
\<close>

subsection \<open>\<open>store/connection.ts\<close>\<close>

record conn_bridge =
  cb_state :: conn_state
  cb_bound :: bool

definition bridge_init :: conn_bridge where
  "bridge_init = \<lparr>cb_state = Offline, cb_bound = False\<rparr>"

definition bridge_hear :: "conn_bridge \<Rightarrow> conn_effect \<Rightarrow> conn_bridge" where
  "bridge_hear b e = (case e of StateChange st \<Rightarrow> (if cb_bound b then b\<lparr>cb_state := st\<rparr> else b) | _ \<Rightarrow> b)"

definition bridge_bind :: "conn \<Rightarrow> conn_bridge \<Rightarrow> conn_bridge" where
  "bridge_bind c b =
    (if cb_bound b then b else foldl bridge_hear (b\<lparr>cb_bound := True\<rparr>) (onConnectionChange c))"

definition useConnectionState :: "conn_bridge \<Rightarrow> conn_state" where
  "useConnectionState b = cb_state b"

subsection \<open>Actions and state\<close>

datatype tab = ChatsTab | UpdatesTab | DiscoverTab | CallsTab

datatype home_action =
    OnNewChat | OnOpenChat jstr "jstr option" | OnSettings | OnStarred | OnNewGroup | OnInvite
  | OnMenu | OnCloseMenu | OnTab tab | OnShare | OnEditStatus | OnRedial jstr "jstr option" bool
  | InMenu home_action

record home =
  h_tab :: tab
  h_menu :: bool
  h_draft :: jstr
  h_busy :: bool
  h_note :: "jstr option"

definition home_init :: home where
  "home_init = \<lparr>h_tab = ChatsTab, h_menu = False, h_draft = [], h_busy = False, h_note = None\<rparr>"

text \<open>The screen's own part of a tap.\<close>

definition home_tap :: "home_action \<Rightarrow> home \<Rightarrow> home" where
  "home_tap a h =
    (case a of OnTab t \<Rightarrow> h\<lparr>h_tab := t\<rparr> | OnMenu \<Rightarrow> h\<lparr>h_menu := True\<rparr> | OnCloseMenu \<Rightarrow> h\<lparr>h_menu := False\<rparr>
     | InMenu b \<Rightarrow> h\<lparr>h_menu := False\<rparr> | _ \<Rightarrow> h)"

subsection \<open>Top bar, navigation and menu\<close>

definition STATUS_META :: "conn_state \<Rightarrow> jstr \<times> string" where
  "STATUS_META c =
    (if c = Connection.Connected then (js ''peer-to-peer'', ''neon'')
     else if c = Connection.Connecting then (js ''connecting'' @ ELLIPSIS, ''warning'')
     else (js ''offline'', ''textDim''))"

definition status_dot :: "conn_state \<Rightarrow> home_action elem" where
  "status_dot c = View ([''statusDot'', snd (STATUS_META c)] @ onlyif (c \<noteq> Connection.Connected) [''statusDotDim'']) []"

definition TopBar :: "conn_state \<Rightarrow> home_action elem" where
  "TopBar c =
    View [''topBar'']
      [View [''brandRow'']
         [say ''brand'' (js ''Hwfa''), View [''statusPill''] [status_dot c, say ''statusText'' (fst (STATUS_META c))]],
       button ''menuButton'' OnMenu [say ''menuDots'' [0x22EE]]]"

definition TABS :: "(tab \<times> jstr \<times> jstr) list" where
  "TABS = [(ChatsTab, js ''Chats'', [0xD83D, 0xDCAC]), (UpdatesTab, js ''Updates'', [0xD83D, 0xDCE1]),
     (DiscoverTab, js ''Discover'', [0xD83E, 0xDDED]), (CallsTab, js ''Calls'', PHONE)]"

definition BottomNav :: "tab \<Rightarrow> home_action elem" where
  "BottomNav cur =
    View [''nav'']
      (map (\<lambda>(k, label, icon). let active = (k = cur) in
         button ''navItem'' (OnTab k)
           [View ([''navIndicator''] @ onlyif active [''navIndicatorActive'']) [],
            Text ([''navIcon''] @ onlyif active [''navIconActive'']) [Str icon],
            Text ([''navLabel''] @ onlyif active [''navLabelActive'']) [Str label]]) TABS)"

definition menu_items :: "(jstr \<times> jstr \<times> home_action) list" where
  "menu_items =
    [(js ''New chat'', [0x270F, 0xFE0F], OnNewChat), (js ''New group'', [0xD83D, 0xDC65], OnNewGroup),
     (js ''Starred messages'', [0x2B50], OnStarred), (js ''Settings'', [0x2699, 0xFE0F], OnSettings),
     (js ''Invite a friend'', [0xD83D, 0xDD17], OnInvite)]"

definition QuickMenu :: "bool \<Rightarrow> jstr \<Rightarrow> home_action jsx" where
  "QuickMenu visible me =
    onlyif visible
      [button ''backdrop'' OnCloseMenu
         [View [''menu'']
            ([View [''menuHeader'']
                [View [''avatar''] [say ''avatarText'' (js ''H'')],
                 View [''menuHeaderText''] [say ''menuName'' (js ''You''), say ''menuId'' (short_id 10 me)]],
              View [''menuDivider''] []] @
             map (\<lambda>(label, icon, a). button ''menuItem'' (InMenu a) [say ''menuItemIcon'' icon, say ''menuItemText'' label])
               menu_items)]]"

definition EmptyTab :: "jstr \<Rightarrow> jstr \<Rightarrow> jstr \<Rightarrow> (jstr \<times> home_action) option \<Rightarrow> home_action elem" where
  "EmptyTab icon title hint act =
    View [''empty'']
      ([View [''emptyBadge''] [say ''emptyIcon'' icon], say ''emptyTitle'' title, say ''emptyHint'' hint] @
       (case act of None \<Rightarrow> [] | Some (l, a) \<Rightarrow> [button ''emptyAction'' a [say ''emptyActionText'' l]]))"

subsection \<open>The chats tab\<close>

definition convTitle :: "conversation \<Rightarrow> jstr" where
  "convTitle c = peer_label (peerPhone c) (peerUserId c)"

definition convPreview :: "conversation \<Rightarrow> jstr" where
  "convPreview c =
    (case messages c of [] \<Rightarrow> js ''No messages yet''
     | _ \<Rightarrow> (let l = last (messages c) in (if mine l then js ''You: '' else []) @ m_text l))"

definition hasScam :: "conversation \<Rightarrow> bool" where
  "hasScam c = list_ex (\<lambda>m. (case verdict m of Some v \<Rightarrow> flagged v | None \<Rightarrow> False) \<and> \<not> dismissed m) (messages c)"

definition conv_row :: "(int \<Rightarrow> int) \<Rightarrow> int \<Rightarrow> conversation \<Rightarrow> home_action elem" where
  "conv_row tz now c =
    button ''row'' (OnOpenChat (peerUserId c) (peerPhone c))
      [View [''rowAvatar''] [say ''rowAvatarText'' (initials (convTitle c))],
       View [''rowText'']
         [Text [''rowTitle''] (onlyif (hasScam c) [say ''scamFlag'' (WARN @ js '' '')] @ [Str (convTitle c)]),
          say ''rowPreview'' (convPreview c)],
       View [''rowMeta'']
         (onlyif (0 < lastAt c) [say ''rowTime'' (formatRelative tz (lastAt c) now)] @
          onlyif (0 < unread c) [View [''badge''] [say ''badgeText'' (int_str (unread c))]])]"

definition chats_tab :: "(int \<Rightarrow> int) \<Rightarrow> int \<Rightarrow> conversation list \<Rightarrow> home_action elem" where
  "chats_tab tz now cs =
    (if length cs = 0 then
       EmptyTab [0xD83D, 0xDD12] (js ''No conversations yet'')
         (js ''Start an end-to-end encrypted chat '' @ DASH @ js '' tap '' @ [0xFF0B] @ js '' or find someone by number.'')
         (Some (js ''New chat'', OnNewChat))
     else FlatList (map (\<lambda>c. (peerUserId c, conv_row tz now c)) cs))"

subsection \<open>Discover\<close>

definition relayLabel :: "conn_state \<Rightarrow> jstr" where
  "relayLabel c =
    (if c = Connection.Connected then js ''Connected to the Hwfa relay''
     else if c = Connection.Connecting then js ''Connecting to the Hwfa relay'' @ ELLIPSIS
     else js ''Offline '' @ DASH @ js '' reconnecting'' @ ELLIPSIS)"

definition discover_tab :: "conn_state \<Rightarrow> home_action elem" where
  "discover_tab c =
    View [''discover'']
      [button ''discoverCard'' OnNewChat
         [say ''discoverCardIcon'' [0xD83D, 0xDD0E],
          View [''discoverCardText'']
            [say ''discoverCardTitle'' (js ''Find someone''),
             say ''discoverCardHint'' (js ''Look up a contact by phone number.'')],
          say ''discoverChevron'' CHEVRON],
       View [''networkBox'']
         [say ''networkTitle'' (js ''Your network''),
          View [''networkStat''] [status_dot c, Text [''networkStatText'', snd (STATUS_META c)] [Str (relayLabel c)]],
          say ''networkHint'' (js ''Nearby-peer and direct node discovery arrive in a later phase.'')]]"

subsection \<open>Updates\<close>

definition active_statuses :: "int \<Rightarrow> status_store \<Rightarrow> status_item list" where
  "active_statuses now items = filter (\<lambda>s. now < expiresAt s) items"

definition status_row :: "(jstr \<Rightarrow> jstr) \<Rightarrow> (int \<Rightarrow> int) \<Rightarrow> int \<Rightarrow> status_item \<Rightarrow> home_action elem" where
  "status_row upper tz now s =
    View [''statusRow'']
      [View [''statusRing'']
         [say ''statusRingText''
            (if st_mine s then js ''You''
             else upper (last_two (case fromPhone s of Some p \<Rightarrow> p | None \<Rightarrow> fromUserId s)))],
       View [''statusCard'']
         [View [''statusHead'']
            [say ''statusName'' (if st_mine s then js ''My update'' else peer_label (fromPhone s) (fromUserId s)),
             say ''statusTime'' (formatRelative tz (st_at s) now)],
          say ''statusBody'' (st_text s)]]"

definition share_off :: "home \<Rightarrow> bool" where
  "share_off h = (js_trim (h_draft h) = [] \<or> h_busy h)"

definition updates_tab :: "(jstr \<Rightarrow> jstr) \<Rightarrow> (int \<Rightarrow> int) \<Rightarrow> int \<Rightarrow> home \<Rightarrow> status_item list \<Rightarrow> home_action elem" where
  "updates_tab upper tz now h active =
    View [''updates'']
      ([View [''composer'']
          [Field (h_draft h) (Some 280) (Some OnEditStatus),
           Touch ([''shareBtn''] @ onlyif (share_off h) [''shareBtnOff'']) (share_off h) (Some OnShare) None
             [say ''shareBtnText'' (js ''Share'')]]] @
       onlyif (some_text (h_note h)) [say ''updatesNote'' (the (h_note h))] @
       [if length active = 0 then
          EmptyTab [0xD83D, 0xDCE1] (js ''No updates yet'')
            (js ''Share an ephemeral, end-to-end encrypted update '' @ DASH @
              js '' it reaches your contacts and disappears after 24 hours.'') None
        else FlatList (map (\<lambda>s. (st_id s, status_row upper tz now s)) active)])"

text \<open>\<open>share\<close> up to the await of \<open>postStatus\<close>, and after it (\<open>None\<close>: it threw).\<close>

definition share_start :: "nat \<Rightarrow> jstr \<Rightarrow> conv_store \<Rightarrow> status_store \<Rightarrow> home \<Rightarrow>
    home \<times> status_store \<times> (jstr \<times> jstr) list" where
  "share_start now rnd cs items h =
    (let t = js_trim (h_draft h) in
     if t = [] \<or> h_busy h then (h, items, [])
     else (h\<lparr>h_busy := True, h_note := None, h_draft := []\<rparr>,
       postStatus now rnd t (map peerUserId (getConversations cs)) items))"

definition share_done :: "nat option \<Rightarrow> home \<Rightarrow> home" where
  "share_done res h =
    h\<lparr>h_busy := False,
      h_note := Some (case res of None \<Rightarrow> js ''Could not share status''
        | Some n \<Rightarrow> if 0 < n then js ''Shared with '' @ dec_digits n @ js '' contact'' @ (if n = 1 then [] else js ''s'')
                    else js ''Shared'')\<rparr>"

subsection \<open>Calls\<close>

definition outcome_str :: "call_outcome \<Rightarrow> jstr" where
  "outcome_str r = (case r of Completed \<Rightarrow> js ''completed'' | Missed \<Rightarrow> js ''missed'' | Declined \<Rightarrow> js ''declined''
     | CallFailed \<Rightarrow> js ''failed'')"

definition call_row :: "(int \<Rightarrow> int) \<Rightarrow> int \<Rightarrow> call_log_entry \<Rightarrow> home_action elem" where
  "call_row tz now e =
    (let missed = (l_outcome e = Missed \<or> l_outcome e = Declined);
         arrow = (if l_dir e = DirOut then [0x2197] else [0x2199]);
         glyph = (if l_video e then VIDEO else PHONE) in
     View [''row'']
       [View [''rowAvatar''] [say ''rowAvatarText'' glyph],
        View [''rowText'']
          [say ''rowTitle'' (peer_label (l_name e) (l_peer e)),
           Text ([''rowPreview''] @ onlyif missed [''danger''])
             [Str (arrow @ js '' '' @ outcome_str (l_outcome e) @ js '' '' @ DOT @ js '' '' @ formatRelative tz (l_at e) now)]],
        button ''press'' (OnRedial (l_peer e) (l_name e) (l_video e)) [say ''redial'' glyph]])"

definition calls_tab :: "(int \<Rightarrow> int) \<Rightarrow> int \<Rightarrow> call_log_entry list \<Rightarrow> home_action elem" where
  "calls_tab tz now log =
    (if length log = 0 then
       EmptyTab PHONE (js ''No calls yet'')
         (js ''Start an encrypted voice or video call from any chat '' @ DASH @ js '' tap '' @ PHONE @ js '' or '' @ VIDEO @
           js '' in the conversation header.'') None
     else FlatList (map (\<lambda>e. (l_call e, call_row tz now e)) log))"

subsection \<open>The screen\<close>

definition HomeScreen :: "(jstr \<Rightarrow> jstr) \<Rightarrow> (int \<Rightarrow> int) \<Rightarrow> int \<Rightarrow> jstr \<Rightarrow> home \<Rightarrow> conn_bridge \<Rightarrow> conversation list \<Rightarrow>
    status_item list \<Rightarrow> call_log_entry list \<Rightarrow> home_action elem" where
  "HomeScreen upper tz now me h b cs active log =
    View [''container'']
      ([TopBar (useConnectionState b),
        View [''body'']
          (onlyif (h_tab h = ChatsTab) [chats_tab tz now cs] @
           onlyif (h_tab h = UpdatesTab) [updates_tab upper tz now h active] @
           onlyif (h_tab h = DiscoverTab) [discover_tab (useConnectionState b)] @
           onlyif (h_tab h = CallsTab) [calls_tab tz now log]),
        button ''fab'' OnNewChat [say ''fabIcon'' [0xFF0B]],
        BottomNav (h_tab h)] @
       QuickMenu (h_menu h) me)"

subsection \<open>The pill tells the truth\<close>

text \<open>The client and the bridge together: a screen subscribes at some time, and the client's listeners hear what it does.\<close>

inductive bridged :: "bool \<Rightarrow> conn \<Rightarrow> conn_bridge \<Rightarrow> bool" for healthy where
  Init: "bridged healthy conn_init bridge_init"
| Subscribe: "bridged healthy c b \<Longrightarrow> bridged healthy c (bridge_bind c b)"
| Client: "bridged healthy c b \<Longrightarrow> conn_step healthy c es c' \<Longrightarrow> bridged healthy c' (foldl bridge_hear b es)"

lemma hear_bound [simp]: "cb_bound (bridge_hear b e) = cb_bound b"
  by (simp add: bridge_hear_def split: conn_effect.split)

lemma fold_bound: "cb_bound (foldl bridge_hear b es) = cb_bound b"
  by (induction es arbitrary: b) simp_all

lemma hear_simps [simp]:
  "cb_bound b \<Longrightarrow> cb_state (bridge_hear b (StateChange st)) = st"
  "(\<And>st. e \<noteq> StateChange st) \<Longrightarrow> bridge_hear b e = b"
  by (auto simp: bridge_hear_def split: conn_effect.split)

lemma step_heard:
  assumes "conn_step healthy c es c'" "cb_bound b" "cb_state b = connState c"
  shows "cb_state (foldl bridge_hear b es) = connState c'"
  using assms(1)
proof (cases rule: conn_step.cases)
  case (Resolved i)
  then show ?thesis using assms(2,3)
    by (auto simp: connect_resolved_def setConnectionState_def Let_def case_prod_beta split: if_splits option.splits)
qed (use assms(2,3) in \<open>auto simp: conn_op_defs Let_def case_prod_beta split: if_splits option.split\<close>)

lemma bridged_state: "bridged healthy c b \<Longrightarrow> cb_bound b \<longrightarrow> cb_state b = connState c"
proof (induction rule: bridged.induct)
  case (Subscribe c b)
  then show ?case by (auto simp: bridge_bind_def onConnectionChange_def)
next
  case (Client c b es c')
  then show ?case using step_heard fold_bound by metis
qed (simp add: bridge_init_def)

text \<open>Whatever the sockets, timers and calls of the client do, the status pill and the relay line of the Discover tab
  show the client's own connection state: "peer-to-peer" and "Connected" exactly while it is connected.\<close>

theorem pill_shows_client_state:
  assumes "bridged healthy c b" and "cb_bound b"
  shows "labels (TopBar (useConnectionState b)) ! 1 = fst (STATUS_META (connState c)) \<and>
    (labels (TopBar (useConnectionState b)) ! 1 = js ''peer-to-peer'' \<longleftrightarrow> connState c = Connection.Connected) \<and>
    relayLabel (useConnectionState b) \<in> set (labels (discover_tab (useConnectionState b))) \<and>
    (relayLabel (useConnectionState b) = js ''Connected to the Hwfa relay'' \<longleftrightarrow> connState c = Connection.Connected)"
proof -
  have b: "useConnectionState b = connState c" using bridged_state [OF assms(1)] assms(2) by (simp add: useConnectionState_def)
  show ?thesis unfolding b
    by (cases "connState c") (auto simp: TopBar_def STATUS_META_def status_dot_def relayLabel_def discover_tab_def js_Cons of_char_def)
qed

subsection \<open>The flag in the list and the warning in the thread\<close>

lemma verdict_inbound: "store_inv s \<Longrightarrow> conv_of s p = Some c \<Longrightarrow> m \<in> set (messages c) \<Longrightarrow> mine m \<Longrightarrow> verdict m = None"
  using store_invD(2) by (fastforce simp: conv_ok_def msg_ok_def)

lemma row_title: "labels (conv_row tz now c) ! 1 = (if hasScam c then WARN @ js '' '' else []) @ convTitle c"
  by (simp add: conv_row_def say_def)

text \<open>The list and the thread agree on scams: in every reachable store the row of a thread carries the warning sign
  exactly when opening the thread shows a warning.\<close>

theorem list_flag_iff_thread_warning:
  assumes "conv_reach s" and "conv_of s (cp_peer pr) = Some c"
  shows "labels (conv_row tz now c) ! 1 =
    (if \<exists>i. DismissWarning i \<in> set (taps (ChatScreen pr s)) then WARN @ js '' '' else []) @ convTitle c"
proof -
  have "hasScam c \<longleftrightarrow> (\<exists>m\<in>set (messages c). shows_warning m)"
    using verdict_inbound [OF reach_inv [OF assms(1)] assms(2)]
    by (auto simp: hasScam_def list_ex_iff shows_warning_def split: option.splits)
  moreover have "(\<exists>i. DismissWarning i \<in> set (taps (ChatScreen pr s))) \<longleftrightarrow> (\<exists>m\<in>set (messages c). shows_warning m)"
    unfolding warning_taps using assms(2) by (auto simp: getMessages_def)
  ultimately show ?thesis unfolding row_title by simp
qed

lemma list_flag_iff_thread_warning_witness:
  "labels (conv_row (\<lambda>t. 0) 9 ((empty_conv (js ''bob''))\<lparr>messages := [demo_warning], unread := 1, lastAt := 9\<rparr>)) ! 1 =
    WARN @ js '' '' @ js ''bob'' @ ELLIPSIS"
proof -
  have c: "conv_of demo_flagged (cp_peer demo_chat) =
      Some ((empty_conv (js ''bob''))\<lparr>messages := [demo_warning], unread := 1, lastAt := 9\<rparr>)"
    by (simp add: demo_chat_def demo_flagged_conv)
  show ?thesis
    using list_flag_iff_thread_warning [OF demo_flagged_reach c] demo_warning_shown
    by (auto simp: convTitle_def peer_label_def empty_conv_def short_id_def)
qed

lemma pill_shows_client_state_witness:
  "labels (TopBar (useConnectionState (bridge_bind (fst (access_ready True (fst (login [1] conn_init))))
     bridge_init))) ! 1 = js ''connecting'' @ ELLIPSIS"
proof -
  let ?c = "fst (access_ready True (fst (login [1] conn_init)))"
  let ?es = "snd (login [1] conn_init)" and ?fs = "snd (access_ready True (fst (login [1] conn_init)))"
  have "bridged True (fst (login [1] conn_init)) (foldl bridge_hear bridge_init ?es)"
    by (rule bridged.Client [OF bridged.Init conn_step.Login]) simp
  then have "bridged True ?c (foldl bridge_hear (foldl bridge_hear bridge_init ?es) ?fs)"
    by (rule bridged.Client [OF _ conn_step.AccessReady]) (simp_all add: conn_op_defs conn_init_def)
  moreover have "foldl bridge_hear (foldl bridge_hear bridge_init ?es) ?fs = bridge_init"
    by (simp add: conn_op_defs conn_init_def bridge_init_def Let_def bridge_hear_def)
  ultimately have "bridged True ?c (bridge_bind ?c bridge_init)" using bridged.Subscribe by metis
  moreover have "cb_bound (bridge_bind ?c bridge_init)" "connState ?c = Connection.Connecting"
    by (simp_all add: bridge_bind_def bridge_init_def fold_bound conn_op_defs conn_init_def Let_def)
  ultimately show ?thesis using pill_shows_client_state [of True ?c "bridge_bind ?c bridge_init"]
    by (simp add: STATUS_META_def)
qed

subsection \<open>Groups in the list\<close>

text \<open>A new group's row is titled with the start of its random id, although the thread it opens is headed with the name
  the user gave it.\<close>

theorem group_row_hides_name:
  assumes reach: "conv_reach s" and new: "conv_of s g = None" and g: "g = newGroupId now rnd"
    and s': "createGroup now rnd name ms s = (s', es, g)" and p: "cp_peer pr = g"
  shows "\<exists>c\<in>set (getConversations s'). peerUserId c = g \<and> convTitle c = short_id 8 g \<and>
    headerTitle pr (chat_group pr s') = name"
proof -
  define c where "c = (empty_conv g)\<lparr>group := Some \<lparr>g_name = name, g_members = ms\<rparr>, lastAt := int now\<rparr>"
  define u where "u = put g c (fst (ensure g s))"
  have s'u: "s' = fst (publish u)"
    using s' new by (simp add: createGroup_def Let_def case_prod_beta g [symmetric] ensure_value u_def c_def)
  have r: "conv_reach s'" using conv_reach.Step [OF reach conv_step.CreateGroup, of now rnd name ms] s' by simp
  have cs: "getConversations s' = map snd (sort_desc (\<lambda>p. lastAt (snd p)) (convs s'))"
    using getConversations_publish [of u] store_invD(1) [OF reach_inv [OF r]] by (simp add: s'u)
  have conv: "conv_of s' g = Some c" by (simp add: s'u u_def)
  then have "(g, c) \<in> set (convs s')" by (simp add: conv_of_def map_of_SomeD)
  then have mem: "c \<in> set (getConversations s')" unfolding cs by force
  have "d = c" if d: "d \<in> set (getConversations s')" "peerUserId d = g" for d
  proof -
    obtain q where q: "q \<in> set (convs s')" "d = snd q" using d(1) unfolding cs by auto
    then have k: "(fst q, d) \<in> set (convs s')" by simp
    then have "fst q = g" using store_keys [OF reach_inv [OF r] k] d(2) by simp
    then have "conv_of s' g = Some d" using k store_invD(1) [OF reach_inv [OF r]] by (simp add: conv_of_def map_ok_mem)
    then show ?thesis using conv by simp
  qed
  moreover have pc: "peerUserId c = g" by (simp add: c_def empty_conv_def)
  ultimately have "find (\<lambda>c. peerUserId c = g) (getConversations s') = Some c"
    using mem by (metis (mono_tags, lifting) find_None_iff find_Some_iff nth_mem option.exhaust)
  then have "chat_group pr s' = Some \<lparr>g_name = name, g_members = ms\<rparr>" by (simp add: chat_group_def p c_def)
  moreover have "convTitle c = short_id 8 g" by (simp add: convTitle_def peer_label_def c_def empty_conv_def)
  ultimately show ?thesis using mem pc by (auto simp: headerTitle_def)
qed

text \<open>An update goes to every row of the list, group rows included: the group's id is addressed as if it were an account.\<close>

theorem update_is_sent_to_group_id:
  assumes "c \<in> set (getConversations cs)" and "group c = Some g" and "js_trim (h_draft h) \<noteq> []" and "\<not> h_busy h"
  shows "\<exists>body. (peerUserId c, body) \<in> set (snd (snd (share_start now rnd cs items h)))"
  using assms by (auto simp: share_start_def postStatus_def Let_def)

subsection \<open>An update lives for a day\<close>

lemma upsert_mem: "x \<in> set (upsert now i items) \<longleftrightarrow>
    (x = i \<and> now < expiresAt i) \<or> (x \<in> set items \<and> st_id x \<noteq> st_id i \<and> now < expiresAt x)"
  by (auto simp: upsert_def Let_def)

text \<open>What the user shares is in the Updates tab at once and for exactly a day: the tab that is filtered at time \<open>t\<close>
  shows the trimmed text before 24 hours have passed and the item is gone from then on.\<close>

theorem own_update_shown_for_a_day:
  assumes "js_trim (h_draft h) \<noteq> []" and "\<not> h_busy h" and "share_start now rnd cs items h = (h', items', sends)"
  shows "if t < int now + 24 * 60 * 60 * 1000
    then js_trim (h_draft h) \<in> set (labels (updates_tab upper tz k h' (active_statuses t items')))
    else (\<forall>s\<in>set (active_statuses t items'). st_id s \<noteq> fresh_id (js ''s-'') now rnd)"
proof -
  define i where "i = status_item_of (post_payload now rnd (js_trim (h_draft h))) (js ''me'') None True"
  have i: "st_id i = fresh_id (js ''s-'') now rnd" "st_text i = js_trim (h_draft h)" "expiresAt i = int now + 24 * 60 * 60 * 1000"
    by (simp_all add: i_def status_item_of_def post_payload_def STATUS_TTL_MS_def status_payload.defs)
  have items': "items' = upsert (int now) i items"
    using assms by (auto simp: share_start_def postStatus_def addOwn_def i_def Let_def)
  show ?thesis
  proof (cases "t < int now + 24 * 60 * 60 * 1000")
    case True
    then have "i \<in> set (active_statuses t items')" using i by (simp add: active_statuses_def items' upsert_mem)
    then show ?thesis using True i(2)
      by (auto simp: updates_tab_def status_row_def intro!: bexI [of _ i])
  next
    case False
    then show ?thesis using i by (auto simp: active_statuses_def items' upsert_mem)
  qed
qed

lemma own_update_shown_for_a_day_witness:
  "js ''hi'' \<in> set (labels (updates_tab (\<lambda>x. x) (\<lambda>t. 0) 7
     (fst (share_start 5 [] init_store [] (home_init\<lparr>h_draft := js ''hi''\<rparr>)))
     (active_statuses 7 (fst (snd (share_start 5 [] init_store [] (home_init\<lparr>h_draft := js ''hi''\<rparr>)))))))"
proof -
  let ?h = "home_init\<lparr>h_draft := js ''hi''\<rparr>"
  have t: "js_trim (h_draft ?h) = js ''hi''" by code_simp
  then have t1: "js_trim (h_draft ?h) \<noteq> []" by (simp add: js_def)
  have "share_start 5 [] init_store [] ?h = (fst (share_start 5 [] init_store [] ?h),
      fst (snd (share_start 5 [] init_store [] ?h)), snd (snd (share_start 5 [] init_store [] ?h)))" by simp
  from own_update_shown_for_a_day [OF t1 _ this, of 7 "\<lambda>x. x" "\<lambda>t. 0" 7] t show ?thesis
    by (simp add: home_init_def)
qed

lemma update_is_sent_to_group_id_witness:
  "\<exists>body. (js ''gid'', body) \<in> set (snd (snd (share_start 5 []
     (fst (publish (put (js ''gid'') ((empty_conv (js ''gid''))\<lparr>group := Some \<lparr>g_name = [], g_members = []\<rparr>\<rparr>) init_store))) []
     (home_init\<lparr>h_draft := js ''hi''\<rparr>))))"
proof -
  let ?c = "(empty_conv (js ''gid''))\<lparr>group := Some \<lparr>g_name = [], g_members = []\<rparr>\<rparr>"
  let ?u = "put (js ''gid'') ?c init_store"
  have "?c \<in> set (getConversations (fst (publish ?u)))"
    by (subst getConversations_publish) (simp_all add: init_store_def)
  moreover have "js_trim (h_draft (home_init\<lparr>h_draft := js ''hi''\<rparr>)) = js ''hi''" by code_simp
  then have "js_trim (h_draft (home_init\<lparr>h_draft := js ''hi''\<rparr>)) \<noteq> []" by (simp add: js_def)
  ultimately show ?thesis
    using update_is_sent_to_group_id [of ?c "fst (publish ?u)" "\<lparr>g_name = [], g_members = []\<rparr>" "home_init\<lparr>h_draft := js ''hi''\<rparr>" 5 "[]" "[]"]
    by (simp add: home_init_def empty_conv_def)
qed

end
