(* ===== verification/ListViews.thy ===== *)
theory ListViews
  imports HomeView AppFlow
begin

text \<open>
  The screens that list threads and contacts: \<open>StarredScreen.tsx\<close>, \<open>NewGroupScreen.tsx\<close> and \<open>ContactsScreen.tsx\<close> of
  \<open>apps/mobile/src/screens\<close>. Their handlers are in \<open>AppFlow\<close> and \<open>Contacts\<close>; here is what they show, and that the stars
  listed are the store's.
\<close>

datatype list_action =
    LBack | LOpenChat jstr "jstr option" | LToggle jstr | LCreate | LEditName
  | LFind | LScan | LOpenMatch jstr jstr | LEditPhone

subsection \<open>\<open>StarredScreen\<close>\<close>

type_synonym starred_message = "chat_message \<times> jstr \<times> jstr option"

definition starred_of :: "conversation list \<Rightarrow> starred_message list" where
  "starred_of cs = sort_desc (\<lambda>e. m_at (fst e))
     (concat (map (\<lambda>c. map (\<lambda>m. (m, peerUserId c, peerPhone c)) (filter starred (messages c))) cs))"

definition starred_row :: "(int \<Rightarrow> int) \<Rightarrow> int \<Rightarrow> starred_message \<Rightarrow> list_action elem" where
  "starred_row tz now e =
    (case e of (m, peer, phone) \<Rightarrow>
       let name = peer_label phone peer; body = (if media m \<noteq> None then CAMERA @ js '' Photo'' else m_text m) in
       button ''row'' (LOpenChat peer phone)
         [View [''rowHead'']
            [Text [''rowName''] [Str (if mine m then js ''You '' @ [0x2192] @ js '' '' else []), Str name],
             say ''rowTime'' (formatRelative tz (m_at m) now)],
          say ''rowBody'' body])"

definition StarredScreen :: "(int \<Rightarrow> int) \<Rightarrow> int \<Rightarrow> conversation list \<Rightarrow> list_action elem" where
  "StarredScreen tz now cs =
    (let st = starred_of cs in
     View [''container'']
       [View [''header''] [button ''press'' LBack [say ''back'' BACK], say ''title'' (js ''Starred messages'')],
        if length st = 0 then
          View [''empty'']
            [say ''emptyStar'' STAR, say ''emptyTitle'' (js ''No starred messages''),
             say ''emptyHint'' (js ''Long-press any message in a chat to star it for quick access here.'')]
        else FlatList (map (\<lambda>e. (fst (snd e) @ js '':'' @ m_id (fst e), starred_row tz now e)) st)])"

subsection \<open>\<open>NewGroupScreen\<close>\<close>

definition group_peers :: "conversation list \<Rightarrow> conversation list" where
  "group_peers cs = filter (\<lambda>c. group c = None) cs"

definition peer_row :: "jstr list \<Rightarrow> conversation \<Rightarrow> list_action elem" where
  "peer_row sel c =
    (let label = peer_label (peerPhone c) (peerUserId c); chosen = (peerUserId c \<in> set sel) in
     button ''row'' (LToggle (peerUserId c))
       [View [''avatar''] [say ''avatarText'' (initials label)], say ''rowLabel'' label,
        View ([''check''] @ onlyif chosen [''checkOn'']) (onlyif chosen [say ''checkMark'' TICK])])"

definition NewGroupScreen :: "jstr \<Rightarrow> jstr list \<Rightarrow> conversation list \<Rightarrow> list_action elem" where
  "NewGroupScreen name sel cs =
    (let peers = group_peers cs; canCreate = (length sel > 0) in
     View [''container'']
       [View [''header'']
          [button ''press'' LBack [say ''back'' BACK], say ''title'' (js ''New group''),
           Touch [] (\<not> canCreate) (Some LCreate) None
             [Text ([''create''] @ onlyif (\<not> canCreate) [''createOff'']) [Str (js ''Create'')]]],
        Field name None (Some LEditName),
        say ''sectionLabel''
          (js ''Members '' @ (if length sel > 0 then js ''('' @ dec_digits (length sel) @ js '')'' else [])),
        if length peers = 0 then
          View [''empty'']
            [say ''emptyText'' (js ''No contacts yet''),
             say ''emptyHint'' (js ''Start a 1:1 chat first, then you can add people to a group.'')]
        else FlatList (map (\<lambda>c. (peerUserId c, peer_row sel c)) peers)])"

subsection \<open>\<open>ContactsScreen\<close>\<close>

datatype contacts_state = ContactsState
  (ct_phone: jstr) (ct_busy: bool) (ct_status: "jstr option") (ct_scanning: bool)
  (ct_matches: "match_row list option") (ct_note: "jstr option")

definition match_elem :: "(jstr \<Rightarrow> jstr) \<Rightarrow> match_row \<Rightarrow> list_action elem" where
  "match_elem upper r =
    button ''row'' (LOpenMatch (mr_user r) (mr_phone r))
      [View [''avatar''] [say ''avatarText'' (upper (take 2 (mr_name r)))],
       View [''rowText''] [say ''rowName'' (mr_name r), say ''rowNumber'' (mr_phone r)],
       say ''rowChevron'' CHEVRON]"

definition ContactsPage :: "(jstr \<Rightarrow> jstr) \<Rightarrow> jstr \<Rightarrow> contacts_device \<Rightarrow> contacts_state \<Rightarrow> list_action elem" where
  "ContactsPage upper me dev st =
    View [''container'']
      ([View [''topBar''] [button ''press'' LBack [say ''back'' BACK], say ''heading'' (js ''New chat'')],
        say ''you'' (js ''You are '' @ short_id 8 me),
        say ''label'' (js ''Contact's phone number''),
        Field (ct_phone st) None (Some LEditPhone),
        Touch ([''button''] @ onlyif (ct_busy st) [''buttonDisabled'']) (ct_busy st) (Some LFind) None
          [if ct_busy st then Spinner else say ''buttonText'' (js ''Find & message'')]] @
       onlyif (some_text (ct_status st)) [say ''status'' (the (ct_status st))] @
       onlyif (hasContacts dev)
         ([View [''divider''] [], say ''label'' (js ''Or find people you already know''),
           Touch ([''buttonAlt''] @ onlyif (ct_scanning st) [''buttonDisabled'']) (ct_scanning st) (Some LScan) None
             [if ct_scanning st then Spinner else say ''buttonAltText'' (js ''Find contacts on Hwfa'')]] @
          onlyif (some_text (ct_note st)) [say ''status'' (the (ct_note st))] @
          (case ct_matches st of
             Some rs \<Rightarrow> onlyif (length rs > 0) [FlatList (map (\<lambda>r. (mr_user r, match_elem upper r)) rs)]
           | None \<Rightarrow> [])))"

text \<open>What a finished scan puts on the screen; \<open>failed\<close> is the text of the exception and \<open>n\<close> the count of numbers.\<close>

definition scan_shown :: "jstr \<Rightarrow> nat \<Rightarrow> scan_result \<Rightarrow> contacts_state \<Rightarrow> contacts_state" where
  "scan_shown failed n r st =
    (let show = (\<lambda>ms note. ContactsState (ct_phone st) (ct_busy st) (ct_status st) False ms note) in
     case r of
       NoContacts \<Rightarrow> show None (Some (js ''No contacts to scan (permission denied or address book empty).''))
     | NoNumbers \<Rightarrow> show None (Some (js ''No valid phone numbers found in your contacts.''))
     | ScanFailed \<Rightarrow> show None (Some failed)
     | Rows rs \<Rightarrow> show (Some rs)
         (if length rs = 0 then Some (js ''Scanned '' @ dec_digits n @ js '' contacts '' @ DASH @ js '' none are on Hwfa yet.'')
          else None))"

subsection \<open>The stars\<close>

lemma mset_concat_map_cong: "mset xs = mset ys \<Longrightarrow> mset (concat (map f xs)) = mset (concat (map f ys))"
proof -
  have c: "mset (concat (map f zs)) = \<Sum>\<^sub># (image_mset (\<lambda>z. mset (f z)) (mset zs))" for zs
    by (induction zs) auto
  assume "mset xs = mset ys"
  then show ?thesis by (simp only: c)
qed

text \<open>The starred screen, which collects the stars from the list of threads it is given, shows exactly the messages that
  the store itself lists as starred, newest first.\<close>

theorem starred_screen_is_getStarred:
  assumes "conv_reach s"
  shows "mset (starred_of (getConversations (fst (publish s)))) = mset (getStarred s) \<and>
    sorted_wrt (\<lambda>a b. m_at (fst b) \<le> m_at (fst a)) (starred_of (getConversations (fst (publish s))))"
proof -
  have "mset (getConversations (fst (publish s))) = mset (map snd (convs s))"
    using list_is_complete_and_sorted [OF assms] by blast
  from mset_concat_map_cong [OF this, of "\<lambda>c. map (\<lambda>m. (m, peerUserId c, peerPhone c)) (filter starred (messages c))"]
  show ?thesis by (simp add: starred_of_def getStarred_def comp_def sorted_sort_desc)
qed

lemma starred_screen_is_getStarred_witness:
  "mset (starred_of (getConversations (fst (publish demo)))) = mset (getStarred demo)"
  using starred_screen_is_getStarred [OF demo_reach] by blast

text \<open>Every starred attachment is captioned as a photo, a document too.\<close>

theorem starred_file_is_called_photo:
  assumes "media m = Some r"
  shows "CAMERA @ js '' Photo'' \<in> set (labels (starred_row tz now (m, peer, phone)))"
  using assms by (simp add: starred_row_def Let_def)

subsection \<open>Choosing members\<close>

text \<open>A run of taps on the rows of the screen.\<close>

fun tap_rows :: "jstr list \<Rightarrow> jstr list \<Rightarrow> jstr list" where
  "tap_rows [] sel = sel"
| "tap_rows (p # ps) sel = tap_rows ps (toggle_member p sel)"

lemma toggle_distinct: "distinct sel \<Longrightarrow> distinct (toggle_member p sel)"
  by (simp add: toggle_member_def distinct_removeAll)

lemma toggle_set: "set (toggle_member p sel) = (if p \<in> set sel then set sel - {p} else insert p (set sel))"
  by (auto simp: toggle_member_def)

lemma tap_rows_set: "distinct sel \<Longrightarrow> distinct (tap_rows ps sel) \<and>
    (x \<in> set (tap_rows ps sel) \<longleftrightarrow> (if odd (count_list ps x) then x \<notin> set sel else x \<in> set sel))"
  by (induction ps arbitrary: sel) (auto simp: toggle_distinct toggle_set)

lemma group_taps: "LToggle p \<in> set (taps (NewGroupScreen name sel cs)) \<longleftrightarrow> (\<exists>c\<in>set cs. group c = None \<and> peerUserId c = p)"
  by (auto simp: NewGroupScreen_def peer_row_def group_peers_def Let_def filter_empty_conv)

text \<open>Whatever rows the user taps, and however often, the group that is created has as its members exactly the 1:1 peers
  whose rows were tapped an odd number of times, each once, and is not created when there is none.\<close>

theorem chosen_members:
  assumes "\<forall>p\<in>set ps. LToggle p \<in> set (taps (NewGroupScreen name [] cs))"
  shows "case create_group now rnd name (tap_rows ps []) s of
      None \<Rightarrow> \<forall>p. even (count_list ps p)
    | Some (s', es, g) \<Rightarrow> (\<exists>c i. conv_of s' g = Some c \<and> group c = Some i \<and> distinct (g_members i) \<and>
        (\<forall>p. p \<in> set (g_members i) \<longleftrightarrow> odd (count_list ps p)) \<and>
        (\<forall>p\<in>set (g_members i). \<exists>d\<in>set cs. group d = None \<and> peerUserId d = p))"
proof -
  have ch: "distinct (tap_rows ps [])" "p \<in> set (tap_rows ps []) \<longleftrightarrow> odd (count_list ps p)" for p
    using tap_rows_set [of "[]" ps p] by auto
  show ?thesis
  proof (cases "tap_rows ps [] = []")
    case True
    then show ?thesis using ch(2) by (simp add: create_group_def)
  next
    case False
    have "\<exists>d\<in>set cs. group d = None \<and> peerUserId d = p" if p: "p \<in> set (tap_rows ps [])" for p
    proof -
      have "p \<in> set ps" using p ch(2) [of p] count_notin [of p ps] by fastforce
      then show ?thesis using assms group_taps [of p name "[]" cs] by blast
    qed
    then show ?thesis using False ch
      by (auto simp: create_group_def createGroup_def Let_def case_prod_beta)
  qed
qed

lemma chosen_members_witness:
  "create_group 5 [] [] (tap_rows [js ''bob'', js ''eve'', js ''eve''] []) init_store \<noteq> None \<and>
   odd (count_list [js ''bob'', js ''eve'', js ''eve''] (js ''bob''))"
proof -
  let ?ps = "[js ''bob'', js ''eve'', js ''eve'']" and ?cs = "[empty_conv (js ''bob''), empty_conv (js ''eve'')]"
  have "\<forall>p\<in>set ?ps. LToggle p \<in> set (taps (NewGroupScreen [] [] ?cs))"
    by (simp add: group_taps empty_conv_def)
  note m = chosen_members [OF this, where now = 5 and rnd = "[]" and s = init_store]
  have o: "odd (count_list ?ps (js ''bob''))" by (simp add: js_Cons of_char_def)
  moreover have "create_group 5 [] [] (tap_rows ?ps []) init_store \<noteq> None"
  proof
    assume "create_group 5 [] [] (tap_rows ?ps []) init_store = None"
    with m have "\<forall>p. even (count_list ?ps p)" by (simp only: option.case simp_thms)
    with o show False by blast
  qed
  ultimately show ?thesis by blast
qed

end
