(* ===== verification/AccountViews.thy ===== *)
theory AccountViews
  imports HomeView AppFlow
begin

text \<open>
  The account screens of \<open>apps/mobile/src/screens\<close>: \<open>SplashScreen.tsx\<close>, \<open>WelcomeScreen.tsx\<close>, \<open>OnboardingScreen.tsx\<close>,
  \<open>SettingsScreen.tsx\<close>, \<open>LinkDeviceScreen.tsx\<close>, \<open>LinkedDevicesScreen.tsx\<close> and \<open>SafetyNumberScreen.tsx\<close>: what they
  show, and the handlers of the device screens (the others' are in \<open>AppFlow\<close>).

  \<open>dialog\<close> is the alert a tap opens, its buttons with what they do. \<open>describe\<close> is the text of an error, \<open>enc\<close> is
  \<open>encodeURIComponent\<close>.
\<close>

datatype account_action =
    ABack | AAgree | ARequestCode | AVerify | ALink | AEdit | AToLink | AToPhone | AEditNumber
  | ALinkDevice | ALinkedDevices | ANotifications | AConfirmSignOut | AConfirmDelete | AConfirmRevoke jstr
  | ASignOut | ADelete | ARevoke jstr | AGenerate

definition dialog :: "account_action \<Rightarrow> (jstr \<times> account_action option) list" where
  "dialog a =
    (case a of
       AConfirmSignOut \<Rightarrow> [(js ''Cancel'', None), (js ''Sign out'', Some ASignOut)]
     | AConfirmDelete \<Rightarrow> [(js ''Cancel'', None), (js ''Delete account'', Some ADelete)]
     | AConfirmRevoke u \<Rightarrow> [(js ''Cancel'', None), (js ''Revoke'', Some (ARevoke u))]
     | _ \<Rightarrow> [])"

definition back_bar :: "string \<Rightarrow> string \<Rightarrow> jstr \<Rightarrow> account_action elem" where
  "back_bar bar sty title = View [bar] [button ''press'' ABack [say ''back'' BACK], say sty title]"

subsection \<open>Splash and welcome\<close>

definition SplashScreen :: "account_action elem" where
  "SplashScreen = View [''container'']
     [View [''mark''] [say ''markText'' (js ''H'')], say ''logo'' (js ''Hwfa''), say ''tagline'' (js ''Private by design'')]"

definition Feature :: "jstr \<Rightarrow> jstr \<Rightarrow> jstr \<Rightarrow> account_action elem" where
  "Feature icon title body =
    View [''feature'']
      [say ''featureIcon'' icon, View [''featureText''] [say ''featureTitle'' title, say ''featureBody'' body]]"

definition WelcomeScreen :: "account_action elem" where
  "WelcomeScreen = View [''container'']
     [View [''hero'']
        [View [''mark''] [say ''markText'' (js ''H'')], say ''title'' (js ''Welcome to Hwfa''),
         say ''subtitle'' (js ''Encrypted messaging with on-device scam detection.'')],
      View [''features'']
        [Feature [0xD83D, 0xDD12] (js ''End-to-end encrypted'')
           (js ''Messages and photos are encrypted on your device. No one in between can read them.''),
         Feature [0xD83D, 0xDEE1, 0xFE0F] (js ''On-device scam detection'')
           (js ''Suspicious messages are flagged locally '' @ DASH @ js '' the check never leaves your phone.''),
         Feature [0xD83D, 0xDD75, 0xFE0F] (js ''Minimal by design'')
           (js ''The server only ever sees ciphertext, and your number is stored only as a salted hash.'')],
      View [''footer'']
        [say ''legal'' (js ''By tapping '' @ [0x201C] @ js ''Agree & continue'' @ [0x201D] @
           js '' you accept the Terms of Service and Privacy Policy.''),
         button ''button'' AAgree [say ''buttonText'' (js ''Agree & continue'')]]]"

subsection \<open>Onboarding\<close>

datatype onboarding_texts = OnboardingTexts
  (ot_phone: jstr) (ot_link: jstr) (ot_hint: "jstr option") (ot_busy: bool) (ot_error: "jstr option")

definition busy_button :: "bool \<Rightarrow> account_action \<Rightarrow> jstr \<Rightarrow> account_action elem" where
  "busy_button busy a label =
    Touch ([''button''] @ onlyif busy [''buttonDisabled'']) busy (Some a) None
      [if busy then Spinner else say ''buttonText'' label]"

definition plain_button :: "bool \<Rightarrow> account_action \<Rightarrow> jstr \<Rightarrow> account_action elem" where
  "plain_button busy a label = Touch [] busy (Some a) None [say ''secondary'' label]"

definition OnboardingScreen :: "onboarding \<Rightarrow> onboarding_texts \<Rightarrow> account_action elem" where
  "OnboardingScreen ob t =
    View [''container'']
      ([say ''logo'' (js ''Hwfa''), say ''tagline'' (js ''Encrypted messaging with on-device scam detection.'')] @
       (case ob_phase ob of
          PhonePhase \<Rightarrow>
            [say ''label'' (js ''Your phone number''), Field (ot_phone t) None (Some AEdit),
             busy_button (ot_busy t) ARequestCode (js ''Send code''),
             plain_button (ot_busy t) AToLink (js ''Link to an existing account'')]
        | LinkPhase \<Rightarrow>
            [say ''label'' (js ''Paste the code from your other device''), Field (ot_link t) None (Some AEdit),
             busy_button (ot_busy t) ALink (js ''Link device''),
             plain_button (ot_busy t) AToPhone (js ''Use a phone number instead'')]
        | CodePhase \<Rightarrow>
            [say ''label'' (js ''Enter the 6-digit code sent to '' @ js_trim (ot_phone t)),
             Field (ob_code ob) (Some 6) (Some AEdit)] @
            onlyif (some_text (ot_hint t)) [say ''devHint'' (the (ot_hint t))] @
            [busy_button (ot_busy t) AVerify (js ''Verify''),
             plain_button (ot_busy t) AEditNumber (js ''Change number'')]) @
       onlyif (some_text (ot_error t)) [say ''error'' (the (ot_error t))])"

text \<open>The two buttons that only change the phase.\<close>

definition onboarding_tap :: "account_action \<Rightarrow> onboarding \<Rightarrow> onboarding" where
  "onboarding_tap a ob =
    (case a of AToLink \<Rightarrow> ob\<lparr>ob_phase := LinkPhase, ob_error := False\<rparr>
     | AToPhone \<Rightarrow> ob\<lparr>ob_phase := PhonePhase, ob_error := False\<rparr>
     | AEditNumber \<Rightarrow> handleEditNumber ob | _ \<Rightarrow> ob)"

subsection \<open>Settings\<close>

definition Section :: "jstr \<Rightarrow> account_action jsx \<Rightarrow> account_action elem" where
  "Section title cs = View [''section''] [say ''sectionTitle'' title, View [''card''] cs]"

definition Row :: "jstr \<Rightarrow> jstr option \<Rightarrow> account_action option \<Rightarrow> bool \<Rightarrow> account_action elem" where
  "Row label v p danger =
    Touch [''row''] (p = None) p None
      ([Text ([''rowLabel''] @ onlyif danger [''rowDanger'']) [Str label]] @
       (case v of None \<Rightarrow> [] | Some x \<Rightarrow> [say ''rowValue'' x]))"

datatype notif = NotifUnknown | NotifGranted | NotifDenied

definition enableNotifications :: "push_device \<Rightarrow> notif" where
  "enableNotifications d = (if requestNotificationPermission d then NotifGranted else NotifDenied)"

definition loaded_phone :: "saved_account option option \<Rightarrow> jstr option" where
  "loaded_phone res = (case res of Some (Some a) \<Rightarrow> Some (sa_phone a) | _ \<Rightarrow> None)"

definition SettingsScreen :: "jstr \<Rightarrow> jstr option \<Rightarrow> notif \<Rightarrow> conn_state \<Rightarrow> account_action elem" where
  "SettingsScreen me phone notif conn =
    View [''container'']
      [back_bar ''header'' ''title'' (js ''Settings''),
       View [''body'']
         [View [''profile'']
            [View [''avatar''] [say ''avatarText'' (js ''H'')],
             say ''profileName'' (case phone of Some p \<Rightarrow> p | None \<Rightarrow> js ''You''), say ''profileId'' me],
          Section (js ''Account'')
            (onlyif (some_text phone) [Row (js ''Phone'') phone None False] @
             [Row (js ''Account ID'') (Some (short_id 12 me)) None False,
              Row (js ''Relay'') (Some (if conn = Connection.Connected then js ''Connected''
                else if conn = Connection.Connecting then js ''Connecting'' @ ELLIPSIS else js ''Offline'')) None False]),
          Section (js ''Devices'')
            [Row (js ''Link a device'') (Some CHEVRON) (Some ALinkDevice) False,
             Row (js ''Linked devices'') (Some CHEVRON) (Some ALinkedDevices) False],
          Section (js ''Notifications'')
            [Row (js ''Push notifications'') (Some (case notif of NotifGranted \<Rightarrow> js ''Enabled'' | NotifDenied \<Rightarrow> js ''Denied''
                | NotifUnknown \<Rightarrow> js ''Enable'')) (Some ANotifications) False],
          Section (js ''Privacy & security'')
            [Row (js ''End-to-end encryption'') (Some (js ''On'')) None False,
             Row (js ''On-device scam detection'') (Some (js ''On'')) None False],
          Section (js ''About'')
            [Row (js ''Version'') (Some (js ''0.0.1'')) None False, Row (js ''Backend'') (Some (js ''ciphertext-only'')) None False],
          Section (js ''Danger zone'')
            [Row (js ''Sign out & erase this device'') None (Some AConfirmSignOut) True,
             Row (js ''Delete my account'') None (Some AConfirmDelete) True],
          say ''footer'' (js ''Hwfa stores only ciphertext on the server; your phone number is kept as a salted hash. Keys never leave this device.'')]]"

subsection \<open>Linking a device\<close>

datatype link_screen = LinkScreen (lk_code: "jstr option") (lk_error: "jstr option") (lk_busy: bool)

text \<open>\<open>generate\<close> up to its await, and after it.\<close>

definition generate_start :: "link_screen \<Rightarrow> link_screen" where
  "generate_start l = LinkScreen (lk_code l) None True"

definition generate :: "'w fetch \<Rightarrow> (client_error \<Rightarrow> jstr) \<Rightarrow> link_screen \<Rightarrow> 'c messenger \<Rightarrow> 'w \<Rightarrow>
    link_screen \<times> 'c messenger \<times> 'w" where
  "generate fetch describe l s w =
    (case createLinkCode fetch s w of
       (s1, w1, Inl e) \<Rightarrow> (LinkScreen (lk_code l) (Some (describe e)) False, s1, w1)
     | (s1, w1, Inr c) \<Rightarrow> (LinkScreen (Some c) None False, s1, w1))"

definition LinkDeviceScreen :: "link_screen \<Rightarrow> account_action elem" where
  "LinkDeviceScreen l =
    View [''container'']
      ([back_bar ''topBar'' ''heading'' (js ''Link a device''),
        say ''intro'' (js ''On your other device, choose '' @ [0x201C] @ js ''Link to an existing account'' @ [0x201D] @
          js '' and enter this code. It expires in a few minutes.'')] @
       (if lk_busy l \<and> \<not> some_text (lk_code l) then [Spinner]
        else if some_text (lk_code l) then
          [Field (the (lk_code l)) None None, say ''hint'' (js ''Long-press the code to copy it.''),
           Touch [''refresh''] (lk_busy l) (Some AGenerate) None [say ''refreshText'' (js ''Generate a new code'')]]
        else []) @
       onlyif (some_text (lk_error l)) [say ''error'' (the (lk_error l))])"

subsection \<open>Linked devices\<close>

datatype devices_screen = DevicesScreen
  (ds_devices: "device_info list option") (ds_error: "jstr option") (ds_busy: "jstr option")

definition load_devices :: "'w fetch \<Rightarrow> (disc_error \<Rightarrow> jstr) \<Rightarrow> devices_screen \<Rightarrow> disc \<Rightarrow> 'w \<Rightarrow> devices_screen \<times> disc \<times> 'w" where
  "load_devices fetch describe ds d w =
    (case listMyDevices fetch d w of
       (d1, w1, Inl e) \<Rightarrow> (DevicesScreen (ds_devices ds) (Some (describe e)) (ds_busy ds), d1, w1)
     | (d1, w1, Inr l) \<Rightarrow> (DevicesScreen (Some l) None (ds_busy ds), d1, w1))"

definition revoke_start :: "jstr \<Rightarrow> devices_screen \<Rightarrow> devices_screen" where
  "revoke_start u ds = DevicesScreen (ds_devices ds) None (Some u)"

definition revoke :: "'w fetch \<Rightarrow> (disc_error \<Rightarrow> jstr) \<Rightarrow> (jstr \<Rightarrow> jstr) \<Rightarrow> jstr \<Rightarrow> devices_screen \<Rightarrow> disc \<Rightarrow> 'w \<Rightarrow>
    devices_screen \<times> disc \<times> 'w" where
  "revoke fetch describe enc u ds d w =
    (let (ds1, d1, w1) =
       (case removeDevice fetch (enc u) d w of
          (w1, Some e) \<Rightarrow> (DevicesScreen (ds_devices ds) (Some (describe e)) (ds_busy ds), d, w1)
        | (w1, None) \<Rightarrow> load_devices fetch describe ds d w1)
     in (DevicesScreen (ds_devices ds1) (ds_error ds1) None, d1, w1))"

definition device_row :: "jstr \<Rightarrow> jstr option \<Rightarrow> device_info \<Rightarrow> account_action elem" where
  "device_row me busy d =
    View [''row'']
      [View [''rowText'']
         [Text [''rowName''] [Str (if di_primary d then js ''Primary device'' else js ''Linked device''),
            Str (if di_user d = me then js '' (this device)'' else [])],
          say ''rowId'' (short_id 8 (di_user d) @ js '' '' @ DOT @ js '' device '' @ int_str (di_device d))],
       if di_primary d then say ''primaryTag'' (js ''primary'')
       else if busy = Some (di_user d) then Spinner
       else button ''press'' (AConfirmRevoke (di_user d)) [say ''revoke'' (js ''Revoke'')]]"

definition LinkedDevicesScreen :: "jstr \<Rightarrow> devices_screen \<Rightarrow> account_action elem" where
  "LinkedDevicesScreen me ds =
    View [''container'']
      ([back_bar ''topBar'' ''heading'' (js ''Linked devices''),
        if ds_devices ds = None \<and> \<not> some_text (ds_error ds) then Spinner
        else (let l = (case ds_devices ds of Some l \<Rightarrow> l | None \<Rightarrow> []) in
              if l = [] then View [''list''] (onlyif (\<not> some_text (ds_error ds)) [say ''empty'' (js ''No devices found.'')])
              else FlatList (map (\<lambda>d. (di_user d, device_row me (ds_busy ds) d)) l))] @
       onlyif (some_text (ds_error ds)) [say ''error'' (the (ds_error ds))])"

subsection \<open>The safety number\<close>

fun split_spaces :: "jstr \<Rightarrow> jstr list" where
  "split_spaces [] = [[]]"
| "split_spaces (c # s) = (if c = 32 then [] # split_spaces s
     else (case split_spaces s of g # gs \<Rightarrow> (c # g) # gs | [] \<Rightarrow> [[c]]))"

text \<open>\<open>view\<close> is \<open>None\<close> while the number is computed; \<open>failed\<close> is the text of an exception.\<close>

definition SafetyNumberScreen :: "jstr \<Rightarrow> jstr option \<Rightarrow> jstr \<Rightarrow> safety_view option \<Rightarrow> account_action elem" where
  "SafetyNumberScreen peer phone failed view =
    View [''container'']
      ([back_bar ''topBar'' ''heading'' (js ''Verify safety number''),
        say ''peer'' (js ''with '' @ peer_label phone peer)] @
       (case view of
          Some (Number n) \<Rightarrow>
            if n \<noteq> [] then
              [View [''numberBox''] [View [''grid''] (map (say ''group'') (split_spaces n))],
               say ''explain'' (js ''Compare this number with your contact through another channel (in person or a call). If both devices show the same number, your conversation is end-to-end encrypted with no one in between.'')]
            else [say ''explain'' (js ''Computing'' @ ELLIPSIS)]
        | None \<Rightarrow> [say ''explain'' (js ''Computing'' @ ELLIPSIS)]
        | Some SendFirst \<Rightarrow> [say ''explain'' (js ''Send a message to this contact first, then come back to verify.'')]
        | Some SafetyError \<Rightarrow> [say ''explain'' failed]))"

subsection \<open>What can be destroyed from a screen\<close>

lemma dialog_acts: "Some b \<in> snd ` set (dialog a) \<longleftrightarrow>
    a = AConfirmSignOut \<and> b = ASignOut \<or> a = AConfirmDelete \<and> b = ADelete \<or> (\<exists>u. a = AConfirmRevoke u \<and> b = ARevoke u)"
  by (cases a) (auto simp: dialog_def)

lemma device_taps: "set (taps (device_row me busy d)) =
    (if di_primary d \<or> busy = Some (di_user d) then {} else {AConfirmRevoke (di_user d)})"
  by (auto simp: device_row_def)

lemma back_taps [simp]: "set (taps (back_bar b s t)) = {ABack}"
  by (auto simp: back_bar_def)

lemma devices_taps: "set (taps (LinkedDevicesScreen me ds)) = {ABack} \<union>
    (\<Union>d\<in>set (case ds_devices ds of Some l \<Rightarrow> l | None \<Rightarrow> []). set (taps (device_row me (ds_busy ds) d)))"
  by (cases "ds_devices ds") (auto simp: LinkedDevicesScreen_def Let_def)

text \<open>The devices a user can revoke are exactly the linked ones on the list that are not being revoked already: no sequence
  of taps revokes the primary device, and none revokes without the confirmation.\<close>

theorem revocable_devices:
  "(\<exists>a\<in>set (taps (LinkedDevicesScreen me ds)). a = ARevoke u \<or> Some (ARevoke u) \<in> snd ` set (dialog a)) \<longleftrightarrow>
    (\<exists>l d. ds_devices ds = Some l \<and> d \<in> set l \<and> di_user d = u \<and> \<not> di_primary d \<and> ds_busy ds \<noteq> Some u)"
  unfolding devices_taps device_taps dialog_acts by (cases "ds_devices ds") (auto split: if_splits)

text \<open>Signing out and deleting the account are behind a confirmation, and the settings do nothing else of the kind.\<close>

lemma row_tap [simp]: "set (taps (Row l v p d)) = set_option p"
  by (cases p; cases v) (auto simp: Row_def)

lemma settings_taps: "set (taps (SettingsScreen me phone notif conn)) =
    {ABack, ALinkDevice, ALinkedDevices, ANotifications, AConfirmSignOut, AConfirmDelete}"
  by (auto simp: SettingsScreen_def Section_def)

text \<open>A revocation that the server accepts ends with the list the server gives afterwards; one that fails leaves the list
  as it was and says why. Either way no device is left marked as being revoked.\<close>

theorem revoke_outcome:
  assumes "revoke fetch describe enc u (revoke_start u ds) d w = (ds', d', w')"
  shows "ds_busy ds' = None \<and>
    (case removeDevice fetch (enc u) d w of
       (w1, Some e) \<Rightarrow> ds_devices ds' = ds_devices ds \<and> ds_error ds' = Some (describe e)
     | (w1, None) \<Rightarrow>
         (case listMyDevices fetch d w1 of
            (d2, w2, Inl e) \<Rightarrow> ds_devices ds' = ds_devices ds \<and> ds_error ds' = Some (describe e)
          | (d2, w2, Inr l) \<Rightarrow> ds_devices ds' = Some l \<and> ds_error ds' = None))"
  using assms by (auto simp: revoke_def revoke_start_def load_devices_def Let_def split: prod.splits option.splits sum.splits)

subsection \<open>The grid of a safety number\<close>

lemma split_nonempty [simp]: "split_spaces s \<noteq> []"
  by (induction s) (auto split: list.split)

lemma split_append: "32 \<notin> set g \<Longrightarrow> split_spaces (g @ 32 # s) = g # split_spaces s"
  by (induction g) auto

lemma split_one: "32 \<notin> set g \<Longrightarrow> split_spaces g = [g]"
  by (induction g) auto

lemma split_join: "(\<forall>g\<in>set gs. 32 \<notin> set g) \<Longrightarrow> gs \<noteq> [] \<Longrightarrow> split_spaces (join_with [32] gs) = gs"
proof (induction gs)
  case (Cons g gs)
  then show ?case by (cases gs) (simp_all add: split_append split_one)
qed simp

lemma number_groups:
  assumes "safetyNumber a b = Some n"
  obtains gs where "n = join_with [32] gs" "length gs = 12" "\<forall>g\<in>set gs. length g = 5 \<and> (\<forall>c\<in>set g. is_digit c)"
proof -
  obtain x y where "n = number_of x y" using assms by (auto simp: safetyNumber_def split: option.splits)
  then obtain lo hi where "n = join_with [32] (map (digit_group (stretch lo hi)) [0..<GROUPS])"
    by (cases "compare_bytes x y \<le> 0") (auto simp: number_of_def Let_def js_def of_char_def)
  then show ?thesis using that [of "map (digit_group (stretch lo hi)) [0..<GROUPS]"] digit_group_shape
    by (auto simp: GROUPS_def)
qed

text \<open>The screen shows a safety number as a grid of exactly twelve cells of five decimal digits each, which read in order,
  with single spaces, are the number that was computed.\<close>

theorem safety_screen_shows_twelve_groups:
  assumes "safetyNumber own theirs = Some n"
  shows "\<exists>gs. labels (SafetyNumberScreen peer phone failed (Some (Number n))) =
      [BACK, js ''Verify safety number'', js ''with '' @ peer_label phone peer] @ gs @
      [last (labels (SafetyNumberScreen peer phone failed (Some (Number n))))] \<and>
    length gs = 12 \<and> list_all (\<lambda>g. length g = 5 \<and> list_all is_digit g) gs \<and> join_with [32] gs = n"
proof -
  obtain gs where n: "n = join_with [32] gs" "length gs = 12" "\<forall>g\<in>set gs. length g = 5 \<and> (\<forall>c\<in>set g. is_digit c)"
    using number_groups [OF assms] .
  have "\<not> is_digit 32" by (simp add: is_digit_def)
  then have "\<forall>g\<in>set gs. 32 \<notin> set g" using n(3) by blast
  then have s: "split_spaces n = gs" unfolding n(1) by (rule split_join) (use n(2) in auto)
  have "gs \<noteq> [[]]" using n(2) by auto
  then have "n \<noteq> []" using s by auto
  then show ?thesis using n s
    by (intro exI [of _ gs]) (simp add: SafetyNumberScreen_def back_bar_def list_all_iff comp_def)
qed

lemma safety_screen_shows_twelve_groups_witness:
  "\<exists>n gs. safetyNumber [] [] = Some n \<and> length gs = (12::nat) \<and> join_with [32] gs = n"
proof -
  have e: "base64_to_bytes [] = Some []" using base64_roundtrip [of "[]"] by (simp add: bytes_to_base64_def)
  then obtain n where n: "safetyNumber [] [] = Some n" by (simp add: safetyNumber_def)
  from safety_screen_shows_twelve_groups [OF n] n show ?thesis by blast
qed

end
