(* ===== verification/CallView.thy ===== *)
theory CallView
  imports Calls Formatting
begin

text \<open>
  The call overlay, \<open>apps/mobile/src/screens/CallScreen.tsx\<close>, over the call manager: what it shows in each state of a
  call and what its buttons do. \<open>upper\<close> is \<open>toUpperCase\<close>; an \<open>RTCView\<close> is an \<open>Img\<close> of its stream.
\<close>

datatype call_action = TapDecline | TapAccept | TapMute | TapFlip | TapCamera | TapEnd

definition RoundButton :: "jstr \<Rightarrow> jstr \<Rightarrow> string option \<Rightarrow> bool \<Rightarrow> call_action \<Rightarrow> call_action elem" where
  "RoundButton label glyph tint active a =
    button ''ctrl'' a
      [View ([''ctrlCircle''] @ (case tint of None \<Rightarrow> [] | Some t \<Rightarrow> [t]) @ onlyif active [''ctrlActive'']) [say ''ctrlGlyph'' glyph],
       say ''ctrlLabel'' label]"

definition NO_PHONE :: jstr where "NO_PHONE = [0xD83D, 0xDCF5]"

definition call_name :: "call_ui \<Rightarrow> jstr" where
  "call_name u =
    (case u_name u of Some n \<Rightarrow> n
     | None \<Rightarrow> if nonempty (u_peer u) then short_id 8 (the (u_peer u)) else js ''Unknown'')"

definition call_status_line :: "call_ui \<Rightarrow> int \<Rightarrow> jstr" where
  "call_status_line u now =
    (case u_status u of
       Incoming \<Rightarrow> js ''Incoming '' @ (if u_video u then js ''video '' else []) @ js ''call'' @ ELLIPSIS
     | Outgoing \<Rightarrow> js ''Calling'' @ ELLIPSIS
     | Active \<Rightarrow> (let t = useCallTimer (u_startedAt u) now in if t \<noteq> [] then t else js ''Connected'')
     | _ \<Rightarrow> (case u_reason u of Some r \<Rightarrow> r | None \<Rightarrow> js ''Call ended''))"

definition call_controls :: "call_ui \<Rightarrow> call_action jsx" where
  "call_controls u =
    (case u_status u of
       Incoming \<Rightarrow>
         [View [''row'']
            [RoundButton (js ''Decline'') CROSS (Some ''danger'') False TapDecline,
             RoundButton (js ''Accept'') TICK (Some ''accent'') False TapAccept]]
     | Active \<Rightarrow>
         [View [''row'']
            ([RoundButton (if u_muted u then js ''Unmute'' else js ''Mute'')
                (if u_muted u then [0xD83D, 0xDD07] else [0xD83C, 0xDF99]) None (u_muted u) TapMute] @
             onlyif (u_video u) [RoundButton (js ''Flip'') [0xD83D, 0xDD04] None False TapFlip] @
             onlyif (u_video u)
               [RoundButton (if u_cameraOff u then js ''Cam on'' else js ''Cam off'') CAMERA None (u_cameraOff u) TapCamera] @
             [RoundButton (js ''End'') NO_PHONE (Some ''danger'') False TapEnd])]
     | Outgoing \<Rightarrow> [View [''row''] [RoundButton (js ''Cancel'') NO_PHONE (Some ''danger'') False TapEnd]]
     | _ \<Rightarrow> [])"

definition CallOverlay :: "(jstr \<Rightarrow> jstr) \<Rightarrow> int \<Rightarrow> call_ui \<Rightarrow> call_action jsx" where
  "CallOverlay upper now u =
    (if u_status u = Idle then []
     else
       let name = call_name u; showVideo = (u_video u \<and> u_status u = Active) in
       [View [''root'']
          ([if showVideo \<and> nonempty (u_remote u) then Img (the (u_remote u))
            else View [''avatarWrap''] [View [''avatar''] [say ''avatarText'' (upper (last_two name))]]] @
           onlyif (showVideo \<and> nonempty (u_local u) \<and> \<not> u_cameraOff u) [Img (the (u_local u))] @
           [View [''header''] [say ''name'' name, say ''status'' (call_status_line u now)],
            View [''controls''] (call_controls u)])])"

definition call_perform :: "int \<Rightarrow> call_action \<Rightarrow> call_sys \<Rightarrow> call_sys \<times> call_effect list" where
  "call_perform now a s =
    (case a of TapDecline \<Rightarrow> decline_call now s | TapAccept \<Rightarrow> accept_call s | TapMute \<Rightarrow> (toggleMute s, [])
     | TapFlip \<Rightarrow> (s, switchCamera s) | TapCamera \<Rightarrow> (toggleCamera s, []) | TapEnd \<Rightarrow> hangup_call now s)"

definition overlay_taps :: "(jstr \<Rightarrow> jstr) \<Rightarrow> int \<Rightarrow> call_ui \<Rightarrow> call_action list" where
  "overlay_taps upper now u = concat (map taps (CallOverlay upper now u))"

lemma overlay_taps_eq: "overlay_taps upper now u =
    (case u_status u of Incoming \<Rightarrow> [TapDecline, TapAccept]
     | Active \<Rightarrow> [TapMute] @ onlyif (u_video u) [TapFlip, TapCamera] @ [TapEnd]
     | Outgoing \<Rightarrow> [TapEnd] | _ \<Rightarrow> [])"
  by (cases "u_status u"; cases "u_video u") (auto simp: overlay_taps_def CallOverlay_def call_controls_def RoundButton_def Let_def)

text \<open>While a call rings, is being dialled or runs, the overlay offers one button that ends it, and that button always
  works: whatever state the engine is in, it releases the connection, the microphone and the ids and shows the ended
  card; and when there is a call with a peer it tells the peer and adds one entry to the call log.\<close>

theorem overlay_can_end_call:
  assumes "u_status (ui s) \<in> {Incoming, Outgoing, Active}"
  shows "\<exists>a. filter (\<lambda>b. b \<in> {TapDecline, TapEnd}) (overlay_taps upper t (ui s)) = [a] \<and>
    (let (s', es) = call_perform now a s in
      u_status (ui s') = Ended \<and> pc s' = None \<and> local_media s' = None \<and> callId s' = None \<and> peerId s' = None \<and>
      overlay_taps upper t' (ui s') = [] \<and>
      (nonempty (callId s) \<and> nonempty (peerId s) \<longrightarrow>
        (\<exists>k. k \<in> {Decline, Hangup} \<and> SendSignal (the (peerId s)) (buildCallBody (mk_signal k (the (callId s)))) \<in> set es) \<and>
        (\<exists>e. call_log s' = take 100 (e # call_log s) \<and> l_call e = the (callId s) \<and> l_peer e = the (peerId s) \<and> l_at e = now)))"
proof -
  have f: "u_status (ui (fst (finish_call now oc r s))) = Ended \<and> pc (fst (finish_call now oc r s)) = None \<and>
      local_media (fst (finish_call now oc r s)) = None \<and> callId (fst (finish_call now oc r s)) = None \<and>
      peerId (fst (finish_call now oc r s)) = None \<and> overlay_taps upper t' (ui (fst (finish_call now oc r s))) = [] \<and>
      (nonempty (callId s) \<and> nonempty (peerId s) \<longrightarrow>
        (\<exists>e. call_log (fst (finish_call now oc r s)) = take 100 (e # call_log s) \<and> l_call e = the (callId s) \<and>
           l_peer e = the (peerId s) \<and> l_at e = now))" for oc r
    by (simp add: finish_call_def Let_def set_ui_def addLog_def overlay_taps_eq)
  have g: "nonempty (callId s) \<and> nonempty (peerId s) \<Longrightarrow>
      SendSignal (the (peerId s)) (buildCallBody (mk_signal k (the (callId s)))) \<in> set (signal_to_peer s (mk_signal k (the (callId s))))" for k
    by (auto simp: nonempty_def signal_to_peer_def sendTo_def split: option.splits)
  have d: "let (s', es) = decline_call now s in es = (if nonempty (callId s) \<and> nonempty (peerId s)
      then signal_to_peer s (mk_signal Decline (the (callId s))) else []) @ snd (finish_call now Declined (js ''Declined'') s) \<and>
      s' = fst (finish_call now Declined (js ''Declined'') s)"
    by (simp add: decline_call_def Let_def case_prod_beta)
  have h: "let (s', es) = hangup_call now s in es = (if nonempty (callId s) \<and> nonempty (peerId s)
      then signal_to_peer s (mk_signal Hangup (the (callId s))) else []) @
        snd (finish_call now (if answered s then Completed else Missed) (js ''Call ended'') s) \<and>
      s' = fst (finish_call now (if answered s then Completed else Missed) (js ''Call ended'') s)"
    by (simp add: hangup_call_def Let_def case_prod_beta)
  show ?thesis
  proof (cases "u_status (ui s) = Incoming")
    case True
    then show ?thesis using d f [of Declined "js ''Declined''"] g [of Decline]
      by (intro exI [of _ TapDecline]) (auto simp: overlay_taps_eq call_perform_def Let_def case_prod_beta)
  next
    case False
    then show ?thesis using assms h f [of "if answered s then Completed else Missed" "js ''Call ended''"] g [of Hangup]
      by (intro exI [of _ TapEnd]) (auto simp: overlay_taps_eq call_perform_def Let_def case_prod_beta)
  qed
qed

lemma overlay_can_end_call_witness:
  "TapEnd \<in> set (overlay_taps (\<lambda>x. x) 0 (ui dialing)) \<and> pc (fst (call_perform 9 TapEnd dialing)) = None"
proof -
  have d: "u_status (ui dialing) = Outgoing" by (simp add: dialing_def start_permitted_def Let_def set_ui_def)
  then have "u_status (ui dialing) \<in> {Incoming, Outgoing, Active}" by simp
  from overlay_can_end_call [OF this, of "\<lambda>x. x" 0 9 0] show ?thesis
    using d by (auto simp: overlay_taps_eq Let_def case_prod_beta split: if_splits)
qed

text \<open>The ended card goes away by itself: as long as it is shown, a reset timer is armed, and when it fires the overlay
  is empty.\<close>

lemma finish_resets: "0 < resets (fst (finish_call now oc r s))"
  by (simp add: finish_call_def Let_def set_ui_def)

lemma decline_resets: "0 < resets (fst (decline_call now s))" "0 < resets (fst (hangup_call now s))"
  by (simp_all add: decline_call_def hangup_call_def Let_def case_prod_beta finish_resets)

lemma step_ended:
  assumes "call_step s s'" "u_status (ui s) = Ended \<longrightarrow> 0 < resets s"
  shows "u_status (ui s') = Ended \<longrightarrow> 0 < resets s'"
  using assms(1)
proof (cases rule: call_step.cases)
  case (Signal u now sig)
  then show ?thesis using assms(2)
    by (cases "sig_type sig") (auto simp: onSignal_def set_ui_def go_active_def finish_resets Let_def split: option.split)
next
  case (AcceptPermitted now ok)
  then show ?thesis using assms(2) by (auto simp: accept_permitted_def decline_resets)
next
  case (ConnState now st)
  then show ?thesis using assms(2) by (auto simp: on_connectionstate_def finish_resets)
qed (use assms(2) in \<open>auto simp: start_permitted_def start_media_def accept_media_def attach_def accepted_applied_def
    accept_remote_def accept_send_def decline_resets toggleMute_def toggleCamera_def on_track_def reset_fires_def
    go_active_def drainIce_def mark_remote_def set_ui_def Let_def case_prod_beta IDLE_def split: option.split\<close>)

lemma ended_armed: "call_reach s \<Longrightarrow> u_status (ui s) = Ended \<longrightarrow> 0 < resets s"
proof (induction rule: call_reach.induct)
  case Init
  then show ?case by (simp add: call_init_def IDLE_def)
next
  case (Step s s')
  then show ?case using step_ended by blast
qed

text \<open>The overlay never stays: over any run of the call manager, while the overlay shows anything there is either a button
  that ends the call or, on the ended card, an armed reset timer, and when that fires the overlay is empty.\<close>

theorem overlay_never_stuck:
  assumes "call_reach s" and "CallOverlay upper now (ui s) \<noteq> []"
  shows "(\<exists>a\<in>set (overlay_taps upper now (ui s)). u_status (ui (fst (call_perform t a s))) = Ended) \<or>
    0 < resets s \<and> call_step s (reset_fires s) \<and> CallOverlay upper now (ui (reset_fires s)) = []"
proof (cases "u_status (ui s) = Ended")
  case True
  then show ?thesis using ended_armed [OF assms(1)] call_step.ResetFires [of s]
    by (simp add: reset_fires_def CallOverlay_def IDLE_def)
next
  case False
  then have "u_status (ui s) \<in> {Incoming, Outgoing, Active}" using assms(2)
    by (cases "u_status (ui s)") (auto simp: CallOverlay_def)
  then show ?thesis
    by (cases "u_status (ui s)")
      (auto simp: overlay_taps_eq call_perform_def decline_call_def hangup_call_def finish_call_def set_ui_def Let_def case_prod_beta)
qed

lemma overlay_never_stuck_witness:
  "0 < resets (fst (hangup_call 9 (fst (onSignal 1 [7] (mk_signal Ring [8]) call_init))))"
proof -
  let ?s = "fst (onSignal 1 [7] (mk_signal Ring [8]) call_init)"
  let ?t = "fst (hangup_call 9 ?s)"
  have "call_reach ?s" by (rule call_reach.Step [OF call_reach.Init call_step.Signal]) simp
  then have r: "call_reach ?t" by (rule call_reach.Step [OF _ call_step.HangupCall])
  have e: "u_status (ui ?t) = Ended" by (simp add: hangup_call_def finish_call_def Let_def set_ui_def case_prod_beta)
  then have "CallOverlay (\<lambda>x. x) 0 (ui ?t) \<noteq> []" by (simp add: CallOverlay_def Let_def)
  from overlay_never_stuck [OF r this, of 0] e show ?thesis by (simp add: overlay_taps_eq)
qed

text \<open>A ring does not clear the name of the call before: if it arrives while the ended card is up, the overlay announces the
  new caller under the old peer's name.\<close>

theorem ring_shows_previous_name:
  assumes "callId s = None" and "pc s = None" and "u_name (ui s) = Some n" and "sig_type sig = Ring"
  shows "u_status (ui (fst (onSignal now from sig s))) = Incoming \<and> peerId (fst (onSignal now from sig s)) = Some from \<and>
    call_name (ui (fst (onSignal now from sig s))) = n"
  using assms by (simp add: onSignal_def nonempty_def set_ui_def call_name_def Let_def)

end
