(* ===== verification/AppView.thy ===== *)
theory AppView
  imports ListViews AccountViews CallView
begin

text \<open>
  The whole app on the screen: \<open>App\<close> of \<open>apps/mobile/App.tsx\<close> renders the screen of the navigation state (\<open>AppFlow\<close>) and
  hands it the callbacks that lead to the next one, with the call overlay above. \<open>app_tap\<close> is those callbacks. The navigation model of \<open>AppFlow\<close>,
  \<open>exits\<close>, is shown to be exactly what the rendered buttons do.

  \<open>inputs\<close> is what the screens read from the stores and keep in their own state.
\<close>

datatype app_action = HomeAct home_action | ChatAct chat_action | ListAct list_action | AccountAct account_action
  | CallAct call_action

record inputs =
  in_upper :: "jstr \<Rightarrow> jstr"
  in_tz :: "int \<Rightarrow> int"
  in_now :: int
  in_home :: home
  in_bridge :: conn_bridge
  in_store :: conv_store
  in_updates :: "status_item list"
  in_log :: "call_log_entry list"
  in_typing :: "jstr list"
  in_draft :: jstr
  in_error :: "jstr option"
  in_name :: jstr
  in_selected :: "jstr list"
  in_device :: contacts_device
  in_contacts :: contacts_state
  in_onboarding :: onboarding
  in_texts :: onboarding_texts
  in_phone :: "jstr option"
  in_notif :: notif
  in_link :: link_screen
  in_devices :: devices_screen
  in_number :: "safety_view option"
  in_call :: call_ui

text \<open>The body of \<open>App\<close> for each screen; the user id is the one the screens behind the welcome page are given.\<close>

fun render :: "inputs \<Rightarrow> jstr \<Rightarrow> screen \<Rightarrow> app_action elem" where
  "render i u Splash = map_elem AccountAct SplashScreen"
| "render i u Welcome = map_elem AccountAct WelcomeScreen"
| "render i u Onboarding = map_elem AccountAct (OnboardingScreen (in_onboarding i) (in_texts i))"
| "render i u Home = map_elem HomeAct (HomeScreen (in_upper i) (in_tz i) (in_now i) u (in_home i) (in_bridge i)
     (getConversations (in_store i)) (in_updates i) (in_log i))"
| "render i u NewGroup = map_elem ListAct (NewGroupScreen (in_name i) (in_selected i) (getConversations (in_store i)))"
| "render i u Settings = map_elem AccountAct (SettingsScreen u (in_phone i) (in_notif i) (useConnectionState (in_bridge i)))"
| "render i u LinkDevice = map_elem AccountAct (LinkDeviceScreen (in_link i))"
| "render i u Devices = map_elem AccountAct (LinkedDevicesScreen u (in_devices i))"
| "render i u Starred = map_elem ListAct (StarredScreen (in_tz i) (in_now i) (getConversations (in_store i)))"
| "render i u ContactsScreen = map_elem ListAct (ContactsPage (in_upper i) u (in_device i) (in_contacts i))"
| "render i u (Chat p ph) = map_elem ChatAct
     (ChatScreen (ChatProps p ph True (in_typing i) (in_draft i) (in_error i) (in_tz i)) (in_store i))"
| "render i u (Safety p ph) = map_elem AccountAct (SafetyNumberScreen p ph [] (in_number i))"

definition App :: "inputs \<Rightarrow> app \<Rightarrow> app_action jsx" where
  "App i a =
    (case shown a of None \<Rightarrow> [] | Some v \<Rightarrow> [render i (or_blank (ap_user a)) v]) @
    map (map_elem CallAct) (CallOverlay (in_upper i) (in_now i) (in_call i))"

fun home_nav :: "home_action \<Rightarrow> screen option" where
  "home_nav OnNewChat = Some ContactsScreen"
| "home_nav (OnOpenChat p ph) = Some (Chat p ph)"
| "home_nav OnSettings = Some Settings"
| "home_nav OnStarred = Some Starred"
| "home_nav OnNewGroup = Some NewGroup"
| "home_nav (InMenu a) = home_nav a"
| "home_nav _ = None"

text \<open>The callbacks \<open>App\<close> passes; \<open>g\<close> is the id that \<open>createGroup\<close> returns. What a tap does besides navigating is in the
  screens' own theories.\<close>

fun app_tap :: "jstr \<Rightarrow> app_action \<Rightarrow> screen \<Rightarrow> screen option" where
  "app_tap g (HomeAct a) v = home_nav a"
| "app_tap g (ChatAct a) (Chat p ph) = (case a of GoBack \<Rightarrow> Some Home | Verify \<Rightarrow> Some (Safety p ph) | _ \<Rightarrow> None)"
| "app_tap g (ListAct LBack) v = Some Home"
| "app_tap g (ListAct (LOpenChat p ph)) v = Some (Chat p ph)"
| "app_tap g (ListAct (LOpenMatch u p)) v = Some (Chat u (Some p))"
| "app_tap g (ListAct LCreate) v = Some (Chat g None)"
| "app_tap g (AccountAct AAgree) v = Some Onboarding"
| "app_tap g (AccountAct ALinkDevice) v = Some LinkDevice"
| "app_tap g (AccountAct ALinkedDevices) v = Some Devices"
| "app_tap g (AccountAct ABack) Settings = Some Home"
| "app_tap g (AccountAct ABack) LinkDevice = Some Settings"
| "app_tap g (AccountAct ABack) Devices = Some Settings"
| "app_tap g (AccountAct ABack) (Safety p ph) = Some (Chat p ph)"
| "app_tap _ _ _ = None"

lemma taps_map: "taps (map_elem f e) = map f (taps e)"
proof (induction e)
  case (View sty cs)
  then show ?case by (induction cs) auto
next
  case (Touch sty off p l cs)
  then show ?case by (induction cs) (auto split: option.split)
next
  case (FlatList rs)
  then show ?case by (induction rs) (auto simp: snds.simps)
qed simp_all

subsection \<open>The buttons of each screen\<close>

lemma splash_taps: "taps SplashScreen = []"
  by (simp add: SplashScreen_def)

lemma welcome_taps: "taps WelcomeScreen = [AAgree]"
  by (simp add: WelcomeScreen_def Feature_def)

lemma onboarding_taps: "set (taps (OnboardingScreen ob t)) \<subseteq> {ARequestCode, AToLink, ALink, AToPhone, AVerify, AEditNumber}"
  by (cases "ob_phase ob") (auto simp: OnboardingScreen_def busy_button_def plain_button_def)

lemma link_taps: "ABack \<in> set (taps (LinkDeviceScreen l))" "set (taps (LinkDeviceScreen l)) \<subseteq> {ABack, AGenerate}"
  by (auto simp: LinkDeviceScreen_def split: if_splits)

lemma safety_taps: "set (taps (SafetyNumberScreen p ph f v)) = {ABack}"
  by (auto simp: SafetyNumberScreen_def comp_def split: option.split safety_view.split)

lemma starred_row_taps: "taps (starred_row tz now e) = [LOpenChat (fst (snd e)) (snd (snd e))]"
  by (cases e) (simp add: starred_row_def Let_def)

lemma starred_taps: "x \<in> set (taps (StarredScreen tz now cs)) \<longleftrightarrow>
    x = LBack \<or> (\<exists>c\<in>set cs. \<exists>m\<in>set (messages c). starred m \<and> x = LOpenChat (peerUserId c) (peerPhone c))"
proof -
  have m: "set (starred_of cs) = (\<Union>c\<in>set cs. (\<lambda>m. (m, peerUserId c, peerPhone c)) ` {m \<in> set (messages c). starred m})"
    by (auto simp: starred_of_def)
  have "set (taps (StarredScreen tz now cs)) = {LBack} \<union> (\<lambda>e. LOpenChat (fst (snd e)) (snd (snd e))) ` set (starred_of cs)"
    by (auto simp: StarredScreen_def Let_def starred_row_taps comp_def)
  then show ?thesis unfolding m by (simp add: image_UN image_image) blast
qed

lemma newgroup_taps: "LBack \<in> set (taps (NewGroupScreen n sel cs))"
    "LCreate \<in> set (taps (NewGroupScreen n sel cs)) \<longleftrightarrow> sel \<noteq> []"
    "x \<in> set (taps (NewGroupScreen n sel cs)) \<Longrightarrow> x = LBack \<or> x = LCreate \<or> (\<exists>p. x = LToggle p)"
  by (auto simp: NewGroupScreen_def peer_row_def Let_def split: if_splits)

lemma contacts_taps: "LBack \<in> set (taps (ContactsPage up me dev st))"
    "hasContacts dev \<Longrightarrow> ct_matches st = Some (r # rs) \<Longrightarrow>
      LOpenMatch (mr_user r) (mr_phone r) \<in> set (taps (ContactsPage up me dev st))"
    "x \<in> set (taps (ContactsPage up me dev st)) \<Longrightarrow> x \<in> {LBack, LFind, LScan} \<or> (\<exists>u p. x = LOpenMatch u p)"
  by (auto simp: ContactsPage_def match_elem_def split: if_splits option.splits)

lemma home_taps: "OnNewChat \<in> set (taps (HomeScreen up tz now me h b cs st log))"
    "h_menu h \<Longrightarrow> a \<in> {OnNewChat, OnNewGroup, OnStarred, OnSettings, OnInvite} \<Longrightarrow>
      InMenu a \<in> set (taps (HomeScreen up tz now me h b cs st log))"
    "h_tab h = ChatsTab \<Longrightarrow> c \<in> set cs \<Longrightarrow> OnOpenChat (peerUserId c) (peerPhone c) \<in> set (taps (HomeScreen up tz now me h b cs st log))"
  by (auto simp: HomeScreen_def QuickMenu_def menu_items_def chats_tab_def conv_row_def)

lemma chat_taps: "GoBack \<in> set (taps (ChatScreen pr s))"
    "cp_verify pr \<Longrightarrow> chat_group pr s = None \<Longrightarrow> Verify \<in> set (taps (ChatScreen pr s))"
  by (auto simp: screen_taps chat_header_def)

lemma home_nav_exits: "home_nav a = Some v \<Longrightarrow> exits Home v"
  by (induction a rule: home_nav.induct) auto

text \<open>The steps of the navigation model: a way out, the consent, and a found contact.\<close>

definition way :: "screen \<Rightarrow> screen \<Rightarrow> bool" where
  "way v v' = (exits v v' \<or> v = Welcome \<and> v' = Onboarding \<or> v = ContactsScreen \<and> (\<exists>p ph. v' = Chat p (Some ph)))"

lemma render_taps: "x \<in> set (taps (render i u v)) \<Longrightarrow> app_tap g x v = Some v' \<Longrightarrow>
    exits v v' \<or> v = Welcome \<and> v' = Onboarding \<or> v = ContactsScreen \<and> (\<exists>p ph. v' = Chat p (Some ph))"
proof (cases v)
  case Onboarding
  then show "x \<in> set (taps (render i u v)) \<Longrightarrow> app_tap g x v = Some v' \<Longrightarrow> ?thesis"
    using onboarding_taps [of "in_onboarding i" "in_texts i"] by (auto simp: taps_map)
next
  case Home
  then show "x \<in> set (taps (render i u v)) \<Longrightarrow> app_tap g x v = Some v' \<Longrightarrow> ?thesis"
    using home_nav_exits by (auto simp: taps_map simp del: exits.simps)
next
  case NewGroup
  then show "x \<in> set (taps (render i u v)) \<Longrightarrow> app_tap g x v = Some v' \<Longrightarrow> ?thesis"
    by (auto simp: taps_map dest!: newgroup_taps(3))
next
  case LinkDevice
  then show "x \<in> set (taps (render i u v)) \<Longrightarrow> app_tap g x v = Some v' \<Longrightarrow> ?thesis"
    using link_taps(2) [of "in_link i"] by (auto simp: taps_map)
next
  case Devices
  then show "x \<in> set (taps (render i u v)) \<Longrightarrow> app_tap g x v = Some v' \<Longrightarrow> ?thesis"
    by (auto simp: taps_map devices_taps device_taps split: if_splits)
next
  case ContactsScreen
  then show "x \<in> set (taps (render i u v)) \<Longrightarrow> app_tap g x v = Some v' \<Longrightarrow> ?thesis"
    by (auto simp: taps_map dest!: contacts_taps(3))
next
  case (Chat p ph)
  then show "x \<in> set (taps (render i u v)) \<Longrightarrow> app_tap g x v = Some v' \<Longrightarrow> ?thesis"
    by (auto simp: taps_map split: chat_action.splits)
next
  case (Safety p ph)
  then show "x \<in> set (taps (render i u v)) \<Longrightarrow> app_tap g x v = Some v' \<Longrightarrow> ?thesis"
    by (auto simp: taps_map safety_taps)
qed (auto simp: taps_map splash_taps welcome_taps settings_taps starred_taps)

definition no_inputs :: inputs where
  "no_inputs = \<lparr>in_upper = (\<lambda>x. x), in_tz = (\<lambda>_. 0), in_now = 0, in_home = home_init, in_bridge = bridge_init,
     in_store = init_store, in_updates = [], in_log = [], in_typing = [], in_draft = [], in_error = None, in_name = [],
     in_selected = [], in_device = \<lparr>cd_android = False, cd_already = False, cd_granted = False, cd_native = None\<rparr>,
     in_contacts = ContactsState [] False None False None None,
     in_onboarding = \<lparr>ob_phase = PhonePhase, ob_code = [], ob_devHint = False, ob_error = False\<rparr>,
     in_texts = OnboardingTexts [] [] None False None, in_phone = None, in_notif = NotifUnknown,
     in_link = LinkScreen None None False, in_devices = DevicesScreen None None None, in_number = None,
     in_call = IDLE\<rparr>"

subsection \<open>Navigation is the buttons\<close>

lemma chat_no_group: "chat_group pr init_store = None"
  by (simp add: chat_group_def getConversations_def init_store_def map_filter_simps)

definition star_store :: "jstr \<Rightarrow> jstr option \<Rightarrow> conv_store" where
  "star_store p ph = fst (publish (put p ((empty_conv p)\<lparr>peerPhone := ph,
     messages := [(snd (Conversations.make [] True 0 init_store))\<lparr>starred := True\<rparr>]\<rparr>) init_store))"

lemma star_store: "getConversations (star_store p ph) =
    [(empty_conv p)\<lparr>peerPhone := ph, messages := [(snd (Conversations.make [] True 0 init_store))\<lparr>starred := True\<rparr>]\<rparr>]"
  unfolding star_store_def by (subst getConversations_publish) (simp_all add: init_store_def sort_desc_def)

definition leads :: "screen \<Rightarrow> screen \<Rightarrow> bool" where
  "leads v v' = (\<exists>i u g x. x \<in> set (taps (render i u v)) \<and> app_tap g x v = Some v')"

lemma leadsI: "x \<in> set (taps (render i u v)) \<Longrightarrow> app_tap g x v = Some v' \<Longrightarrow> leads v v'"
  by (auto simp: leads_def)

lemma home_leads: "v' \<in> {ContactsScreen, Settings, Starred, NewGroup} \<Longrightarrow> leads Home v'" "leads Home (Chat p ph)"
proof -
  let ?menu = "no_inputs\<lparr>in_home := home_init\<lparr>h_menu := True\<rparr>\<rparr>" and ?chats = "no_inputs\<lparr>in_store := star_store p ph\<rparr>"
  have menu: "leads Home w" if "a \<in> {OnNewChat, OnNewGroup, OnStarred, OnSettings}" "home_nav a = Some w" for a w
    using that by (intro leadsI [of "HomeAct (InMenu a)" ?menu "[]" Home "[]" w]) (auto simp: taps_map home_taps)
  then show "v' \<in> {ContactsScreen, Settings, Starred, NewGroup} \<Longrightarrow> leads Home v'"
    using menu [of OnNewChat] menu [of OnNewGroup] menu [of OnStarred] menu [of OnSettings] by auto
  have "HomeAct (OnOpenChat p ph) \<in> set (taps (render ?chats [] Home))"
    using home_taps(3) [of home_init "hd (getConversations (star_store p ph))" "getConversations (star_store p ph)"]
    by (simp add: taps_map no_inputs_def star_store home_init_def empty_conv_def)
  then show "leads Home (Chat p ph)" by (rule leadsI) simp
qed

lemma list_leads: "leads NewGroup Home" "leads NewGroup (Chat g None)" "leads Starred Home" "leads Starred (Chat p ph)"
    "leads ContactsScreen Home"
  by (rule leadsI [of "ListAct LBack"], simp add: taps_map newgroup_taps, simp)
    (rule leadsI [of "ListAct LCreate" "no_inputs\<lparr>in_selected := [[]]\<rparr>"], simp add: taps_map newgroup_taps, simp,
     rule leadsI [of "ListAct LBack"], simp add: taps_map starred_taps, simp,
     rule leadsI [of "ListAct (LOpenChat p ph)" "no_inputs\<lparr>in_store := star_store p ph\<rparr>"],
     simp add: taps_map starred_taps star_store empty_conv_def, simp,
     rule leadsI [of "ListAct LBack"], simp add: taps_map contacts_taps, simp)

lemma contact_leads: "leads ContactsScreen (Chat p (Some q))"
proof -
  let ?i = "no_inputs\<lparr>in_device := (in_device no_inputs)\<lparr>cd_native := Some (Some [])\<rparr>,
    in_contacts := ContactsState [] False None False (Some [\<lparr>mr_user = p, mr_phone = q, mr_name = q\<rparr>]) None\<rparr>"
  have "ListAct (LOpenMatch p q) \<in> set (taps (render ?i [] ContactsScreen))"
    using contacts_taps(2) [of "in_device ?i" "in_contacts ?i" "\<lparr>mr_user = p, mr_phone = q, mr_name = q\<rparr>" "[]"]
    by (simp add: taps_map hasContacts_def)
  then show ?thesis by (rule leadsI) simp
qed

lemma account_leads: "leads Welcome Onboarding" "leads Settings Home" "leads Settings LinkDevice" "leads Settings Devices"
    "leads LinkDevice Settings" "leads Devices Settings" "leads (Safety p ph) (Chat p ph)"
  by (rule leadsI [of "AccountAct AAgree"], simp add: taps_map welcome_taps, simp)
    (rule leadsI [of "AccountAct ABack"] leadsI [of "AccountAct ALinkDevice"] leadsI [of "AccountAct ALinkedDevices"],
     simp add: taps_map settings_taps link_taps devices_taps safety_taps, simp; fail)+

lemma chat_leads: "leads (Chat p ph) Home" "leads (Chat p ph) (Safety p ph)"
  by (rule leadsI [of "ChatAct GoBack"], simp add: taps_map chat_taps, simp)
    (rule leadsI [of "ChatAct Verify" no_inputs], simp add: taps_map chat_taps chat_no_group no_inputs_def, simp)

lemma exit_button: "way v v' \<Longrightarrow> leads v v'"
  unfolding way_def by (cases v) (auto intro: home_leads list_leads contact_leads account_leads chat_leads)

text \<open>The navigation model is the rendered app: one screen leads to another in it exactly when some enabled button that
  \<open>App\<close> renders on the first, for some contents of the stores, is given the callback that shows the second.\<close>

theorem navigation_is_the_buttons:
  "(exits v v' \<or> v = Welcome \<and> v' = Onboarding \<or> v = ContactsScreen \<and> (\<exists>p ph. v' = Chat p (Some ph))) \<longleftrightarrow>
    (\<exists>i u g x. x \<in> set (taps (render i u v)) \<and> app_tap g x v = Some v')"
  using exit_button [of v v'] render_taps [of _ _ _ v _ v'] unfolding leads_def way_def by blast

text \<open>So every tap on the rendered app is a step of \<open>app_run\<close>, and the overlay's buttons change no screen.\<close>

theorem tap_is_a_step:
  assumes "app_run late a" and "e \<in> set (App i a)" and "x \<in> set (taps e)" and "app_tap g x (ap_screen a) = Some v'"
  shows "\<exists>a'. app_run late a' \<and> ap_screen a' = v'"
proof -
  have "\<nexists>c. x = CallAct c" using assms(4) by auto
  then obtain v where v: "shown a = Some v" "e = render i (or_blank (ap_user a)) v"
    using assms(2,3) by (cases "shown a") (auto simp: App_def taps_map)
  have sc: "ap_screen a = v" using v(1) by (rule shown_user)
  from render_taps [OF assms(3) [unfolded v(2)] assms(4) [unfolded sc]]
  consider "exits v v'" | "v = Welcome" "v' = Onboarding" | p q where "v = ContactsScreen" "v' = Chat p (Some q)" by blast
  then show ?thesis
  proof cases
    case 1
    then show ?thesis using app_run.Tap [OF assms(1) v(1)] by (force simp: goto_def)
  next
    case 2
    then show ?thesis using app_run.Agree [OF assms(1)] sc by (force simp: goto_def)
  next
    case 3
    then show ?thesis using app_run.OpenMatch [OF assms(1), of p q] v(1)
      by (force simp: openChat_def goto_def split: prod.split)
  qed
qed

end
