(* ===== verification/RelayService.thy ===== *)
theory RelayService
  imports Relay
begin

text \<open>
  The relay service, \<open>backend/relay\<close> (\<open>hub.go\<close>, \<open>client.go\<close>, \<open>envelope.go\<close> and the socket handler of \<open>main.go\<close>), as far
  as the client depends on it: routing, the store-and-forward queue and its retention, receipts, the channel in front
  of each socket, and how the goroutines of different connections interleave.

  Each connection has a goroutine that runs its handler. What the handler does under the hub's lock is one step; the
  sends that follow the unlock are its \<open>c_todo\<close>, executed one by one, so that steps of other connections come in between.
  Go integers are \<open>int\<close> with their range written out, the envelope counter is a \<open>64 word\<close>. Strings are the code units that
  the JSON text decodes to, and property names are matched as they are written (Go also accepts other capitalisation).
  Writing the persistence file is taken to succeed; its failure is only logged.
\<close>

subsection \<open>\<open>envelope.go\<close>\<close>

record go_envelope =
  ge_id :: jstr
  ge_recipient :: jstr
  ge_rdevice :: int
  ge_sender :: jstr
  ge_sdevice :: int
  ge_type :: int
  ge_cipher :: jstr
  ge_time :: int

record go_msg =
  g_kind :: jstr
  g_env :: "go_envelope option"
  g_eid :: jstr
  g_at :: int
  g_ref :: jstr
  g_status :: jstr
  g_target :: jstr
  g_tdevice :: int
  g_token :: jstr

definition zero_msg :: go_msg where
  "zero_msg = \<lparr>g_kind = [], g_env = None, g_eid = [], g_at = 0, g_ref = [], g_status = [], g_target = [], g_tdevice = 0, g_token = []\<rparr>"

definition wrap64 :: "int \<Rightarrow> int" where
  "wrap64 i = (i + 2 ^ 63) mod 2 ^ 64 - 2 ^ 63"

definition fits64 :: "int \<Rightarrow> bool" where
  "fits64 i = (- (2 ^ 63) \<le> i \<and> i < 2 ^ 63)"

text \<open>The loop of \<open>itoa\<close>, from the end of the buffer; \<open>-n\<close> wraps.\<close>

fun itoa_loop :: "nat \<Rightarrow> jstr \<Rightarrow> jstr" where
  "itoa_loop n buf = (if n = 0 then buf else itoa_loop (n div 10) (of_nat (48 + n mod 10) # buf))"

declare itoa_loop.simps [simp del]

definition itoa :: "int \<Rightarrow> jstr" where
  "itoa n =
    (if n = 0 then js ''0''
     else (let m = (if n < 0 then wrap64 (- n) else n); buf = itoa_loop (nat m) []
           in if n < 0 then 45 # buf else buf))"

definition routeKey :: "jstr \<Rightarrow> int \<Rightarrow> jstr" where
  "routeKey u d = u @ js '':'' @ itoa d"

text \<open>\<open>json.Unmarshal\<close> into the two structs: an absent or \<open>null\<close> property leaves the zero value, another type is an error.\<close>

definition go_str :: "json \<Rightarrow> string \<Rightarrow> jstr option" where
  "go_str v k = (case field v k of None \<Rightarrow> Some [] | Some JNull \<Rightarrow> Some [] | Some (JStr s) \<Rightarrow> Some s | _ \<Rightarrow> None)"

definition go_int :: "json \<Rightarrow> string \<Rightarrow> int option" where
  "go_int v k = (case field v k of None \<Rightarrow> Some 0 | Some JNull \<Rightarrow> Some 0 | Some (JInt i) \<Rightarrow> if fits64 i then Some i else None | _ \<Rightarrow> None)"

definition go_envelope_of :: "json \<Rightarrow> go_envelope option" where
  "go_envelope_of v =
    (case (go_str v ''id'', go_str v ''recipientId'', go_int v ''recipientDevice'', go_str v ''senderId'', go_int v ''senderDevice'',
           go_int v ''type'', go_str v ''ciphertext'', go_int v ''timestamp'') of
       (Some i, Some r, Some rd, Some s, Some sd, Some t, Some c, Some at) \<Rightarrow>
         Some \<lparr>ge_id = i, ge_recipient = r, ge_rdevice = rd, ge_sender = s, ge_sdevice = sd, ge_type = t, ge_cipher = c, ge_time = at\<rparr>
     | _ \<Rightarrow> None)"

definition go_pointer :: "json \<Rightarrow> string \<Rightarrow> go_envelope option option" where
  "go_pointer v k =
    (case field v k of None \<Rightarrow> Some None | Some JNull \<Rightarrow> Some None
     | Some (JObj ps) \<Rightarrow> map_option Some (go_envelope_of (JObj ps)) | _ \<Rightarrow> None)"

definition go_msg_of :: "json \<Rightarrow> go_msg option" where
  "go_msg_of v =
    (case v of JNull \<Rightarrow> Some zero_msg
     | JObj ps \<Rightarrow>
        (case (go_str v ''kind'', go_pointer v ''envelope'', go_str v ''envelopeId'', go_int v ''acceptedAt'', go_str v ''clientRef'',
               go_str v ''status'', go_str v ''targetId'', go_int v ''targetDevice'', go_str v ''token'') of
           (Some k, Some e, Some i, Some at, Some r, Some st, Some u, Some d, Some tk) \<Rightarrow>
             Some \<lparr>g_kind = k, g_env = e, g_eid = i, g_at = at, g_ref = r, g_status = st, g_target = u, g_tdevice = d, g_token = tk\<rparr>
         | _ \<Rightarrow> None)
     | _ \<Rightarrow> None)"

text \<open>\<open>WriteJSON\<close>: the value that is written. \<open>omitempty\<close> leaves out zero values.\<close>

definition go_envelope_json :: "go_envelope \<Rightarrow> json" where
  "go_envelope_json e = JObj
    [(js ''id'', JStr (ge_id e)), (js ''recipientId'', JStr (ge_recipient e)), (js ''recipientDevice'', JInt (ge_rdevice e)),
     (js ''senderId'', JStr (ge_sender e)), (js ''senderDevice'', JInt (ge_sdevice e)), (js ''type'', JInt (ge_type e)),
     (js ''ciphertext'', JStr (ge_cipher e)), (js ''timestamp'', JInt (ge_time e))]"

definition omit_str :: "string \<Rightarrow> jstr \<Rightarrow> (jstr \<times> json) list" where
  "omit_str k s = (if s = [] then [] else [(js k, JStr s)])"

definition omit_int :: "string \<Rightarrow> int \<Rightarrow> (jstr \<times> json) list" where
  "omit_int k i = (if i = 0 then [] else [(js k, JInt i)])"

definition go_msg_json :: "go_msg \<Rightarrow> json" where
  "go_msg_json m = JObj
    ((js ''kind'', JStr (g_kind m)) # opt_prop ''envelope'' go_envelope_json (g_env m) @ omit_str ''envelopeId'' (g_eid m) @
     omit_int ''acceptedAt'' (g_at m) @ omit_str ''clientRef'' (g_ref m) @ omit_str ''status'' (g_status m) @
     omit_str ''targetId'' (g_target m) @ omit_int ''targetDevice'' (g_tdevice m) @ omit_str ''token'' (g_token m))"

subsection \<open>\<open>hub.go\<close>\<close>

definition queueTTL :: int where "queueTTL = 30 * 24 * 60 * 60 * 1000"
definition maxQueuePerRecipient :: nat where "maxQueuePerRecipient = 1000"

record queuedEnvelope =
  q_env :: go_envelope
  q_at :: int

type_synonym queues = "(jstr, queuedEnvelope list) jsmap"

text \<open>\<open>h_disk\<close> is the persistence file; it is only written when \<open>h_path\<close> (a path is configured).\<close>

record hub =
  h_path :: bool
  h_disk :: "(64 word \<times> queues) option"
  h_conns :: "(jstr, nat) jsmap"
  h_queue :: queues
  h_tokens :: "(jstr, jstr) jsmap"
  h_pusher :: bool
  h_next :: "64 word"

definition NewHub :: "bool \<Rightarrow> bool \<Rightarrow> hub" where
  "NewHub path pusher = \<lparr>h_path = path, h_disk = None, h_conns = [], h_queue = [], h_tokens = [], h_pusher = pusher, h_next = 0\<rparr>"

definition registerPushToken :: "jstr \<Rightarrow> jstr \<Rightarrow> hub \<Rightarrow> hub" where
  "registerPushToken key tok h = h\<lparr>h_tokens := map_set key tok (h_tokens h)\<rparr>"

definition queue_of :: "queues \<Rightarrow> jstr \<Rightarrow> queuedEnvelope list" where
  "queue_of q key = (case map_of q key of None \<Rightarrow> [] | Some l \<Rightarrow> l)"

definition retained :: "int \<Rightarrow> queuedEnvelope list \<Rightarrow> queuedEnvelope list" where
  "retained now q =
    (let kept = filter (\<lambda>e. now - queueTTL \<le> q_at e) q in
     if maxQueuePerRecipient < length kept then drop (length kept - maxQueuePerRecipient) kept else kept)"

definition pruneQueueLocked :: "int \<Rightarrow> jstr \<Rightarrow> hub \<Rightarrow> hub" where
  "pruneQueueLocked now key h =
    (let q = queue_of (h_queue h) key; kept = retained now q in
     if q = [] \<or> length kept = length q then h
     else if kept = [] then h\<lparr>h_queue := map_del key (h_queue h)\<rparr>
     else h\<lparr>h_queue := map_set key kept (h_queue h)\<rparr>)"

definition persistLocked :: "hub \<Rightarrow> hub" where
  "persistLocked h = (if h_path h then h\<lparr>h_disk := Some (h_next h, h_queue h)\<rparr> else h)"

text \<open>A restart: \<open>NewPersistentHub\<close> reads the file (\<open>load\<close>) and prunes every queue; \<open>NewHub\<close> starts empty.\<close>

definition hub_restart :: "int \<Rightarrow> hub \<Rightarrow> hub" where
  "hub_restart now h =
    (let h0 = (NewHub (h_path h) (h_pusher h))\<lparr>h_disk := h_disk h\<rparr> in
     case (h_path h, h_disk h) of
       (True, Some (n, q)) \<Rightarrow> foldl (\<lambda>x key. pruneQueueLocked now key x) (h0\<lparr>h_next := n, h_queue := q\<rparr>) (map fst q)
     | _ \<Rightarrow> h0)"

definition hub_register :: "int \<Rightarrow> nat \<Rightarrow> jstr \<Rightarrow> hub \<Rightarrow> hub \<times> queuedEnvelope list" where
  "hub_register now cid key h =
    (let h1 = pruneQueueLocked now key (h\<lparr>h_conns := map_set key cid (h_conns h)\<rparr>);
         pending = queue_of (h_queue h1) key
     in (if pending = [] then h1 else persistLocked (h1\<lparr>h_queue := map_del key (h_queue h1)\<rparr>), pending))"

definition hub_unregister :: "nat \<Rightarrow> jstr \<Rightarrow> hub \<Rightarrow> hub" where
  "hub_unregister cid key h = (if map_of (h_conns h) key = Some cid then h\<lparr>h_conns := map_del key (h_conns h)\<rparr> else h)"

text \<open>\<open>route\<close>: the hub, the envelope with its id, the live connection if there is one, and the token that is pushed to.\<close>

definition env_id_of :: "64 word \<Rightarrow> jstr" where
  "env_id_of n = js ''env-'' @ itoa (sint n)"

definition route :: "int \<Rightarrow> go_envelope \<Rightarrow> hub \<Rightarrow> hub \<times> go_envelope \<times> nat option \<times> jstr option" where
  "route now env h =
    (let key = routeKey (ge_recipient env) (ge_rdevice env);
         n = h_next h + 1;
         e = env\<lparr>ge_id := env_id_of n\<rparr>;
         h1 = h\<lparr>h_next := n\<rparr>
     in case map_of (h_conns h) key of
          Some t \<Rightarrow> (persistLocked h1, e, Some t, None)
        | None \<Rightarrow>
            (let h2 = pruneQueueLocked now key
                   (h1\<lparr>h_queue := map_set key (queue_of (h_queue h1) key @ [\<lparr>q_env = e, q_at = now\<rparr>]) (h_queue h1)\<rparr>);
                 tok = (case map_of (h_tokens h) key of None \<Rightarrow> [] | Some t \<Rightarrow> t)
             in (persistLocked h2, e, None, if h_pusher h \<and> tok \<noteq> [] then Some tok else None)))"

subsection \<open>\<open>client.go\<close>\<close>

datatype action = SendTo nat go_msg | StartPump

text \<open>A connection: its identity from the token, the channel \<open>out\<close> with its capacity, whether it is closed, what its
  goroutine has still to do, and whether \<open>writePump\<close> and \<open>readPump\<close> run.\<close>

record conn =
  c_user :: jstr
  c_device :: int
  c_out :: "go_msg list"
  c_closed :: bool
  c_todo :: "action list"
  c_writing :: bool
  c_reading :: bool

definition out_capacity :: nat where "out_capacity = 64"

definition newClient :: "jstr \<Rightarrow> int \<Rightarrow> conn" where
  "newClient u d = \<lparr>c_user = u, c_device = d, c_out = [], c_closed = False, c_todo = [], c_writing = False, c_reading = False\<rparr>"

definition c_key :: "conn \<Rightarrow> jstr" where
  "c_key c = routeKey (c_user c) (c_device c)"

text \<open>\<open>send\<close>: a full channel drops the message; \<open>None\<close> is the panic of a send on a closed channel.\<close>

definition chan_send :: "go_msg \<Rightarrow> conn \<Rightarrow> conn option" where
  "chan_send m c =
    (if c_closed c then None
     else if length (c_out c) < out_capacity then Some (c\<lparr>c_out := c_out c @ [m]\<rparr>) else Some c)"

definition deliver_msg :: "go_envelope \<Rightarrow> go_msg" where
  "deliver_msg e = zero_msg\<lparr>g_kind := js ''deliver'', g_env := Some e\<rparr>"

definition ack_msg :: "jstr \<Rightarrow> int \<Rightarrow> jstr \<Rightarrow> go_msg" where
  "ack_msg i now ref = zero_msg\<lparr>g_kind := js ''ack'', g_eid := i, g_at := now, g_ref := ref\<rparr>"

definition status_msg :: "jstr \<Rightarrow> jstr \<Rightarrow> go_msg" where
  "status_msg i st = zero_msg\<lparr>g_kind := js ''status'', g_eid := i, g_status := st\<rparr>"

text \<open>One round of \<open>readPump\<close>: the hub, what is sent after the lock is released, and the token that is pushed to.\<close>

definition authentic :: "conn \<Rightarrow> go_envelope \<Rightarrow> go_envelope" where
  "authentic c e = e\<lparr>ge_sender := c_user c, ge_sdevice := c_device c\<rparr>"

definition on_frame :: "int \<Rightarrow> nat \<Rightarrow> conn \<Rightarrow> go_msg \<Rightarrow> hub \<Rightarrow> hub \<times> action list \<times> jstr option" where
  "on_frame now cid c m h =
    (if g_kind m = js ''send'' then
       (case g_env m of None \<Rightarrow> (h, [], None)
        | Some e \<Rightarrow>
            (case route now (authentic c e) h of
               (h1, e1, t, tok) \<Rightarrow>
                 (h1, (case t of Some x \<Rightarrow> [SendTo x (deliver_msg e1)] | None \<Rightarrow> []) @
                      [SendTo cid (ack_msg (ge_id e1) now (g_ref m))], tok)))
     else if g_kind m = js ''register-push'' then
       ((if g_token m \<noteq> [] then registerPushToken (c_key c) (g_token m) h else h), [], None)
     else if g_kind m = js ''receipt'' then
       (h, (if g_target m \<noteq> [] \<and> g_status m \<in> {js ''delivered'', js ''read''}
            then (case map_of (h_conns h) (routeKey (g_target m) (g_tdevice m)) of
                    Some t \<Rightarrow> [SendTo t (status_msg (g_eid m) (g_status m))] | None \<Rightarrow> []) else []), None)
     else (h, [], None))"

subsection \<open>The service\<close>

record relay =
  r_hub :: hub
  r_conn :: "nat \<Rightarrow> conn option"

definition boot :: "bool \<Rightarrow> bool \<Rightarrow> relay" where
  "boot path pusher = \<lparr>r_hub = NewHub path pusher, r_conn = (\<lambda>_. None)\<rparr>"

text \<open>The socket handler of \<open>main.go\<close>: \<open>register\<close> flushes the queue into the channel, then \<open>writePump\<close> is started.\<close>

definition connect :: "int \<Rightarrow> nat \<Rightarrow> jstr \<Rightarrow> int \<Rightarrow> relay \<Rightarrow> relay" where
  "connect now cid u d r =
    (case hub_register now cid (routeKey u d) (r_hub r) of
       (h, pending) \<Rightarrow> \<lparr>r_hub = h, r_conn = (r_conn r)(cid \<mapsto> (newClient u d)
          \<lparr>c_todo := map (\<lambda>q. SendTo cid (deliver_msg (q_env q))) pending @ [StartPump]\<rparr>)\<rparr>)"

text \<open>The deferred calls of \<open>readPump\<close>, which run when it returns and when it panics.\<close>

definition hang_up :: "nat \<Rightarrow> relay \<Rightarrow> relay" where
  "hang_up cid r =
    (case r_conn r cid of None \<Rightarrow> r
     | Some c \<Rightarrow> \<lparr>r_hub = hub_unregister cid (c_key c) (r_hub r),
         r_conn = (r_conn r)(cid \<mapsto> c\<lparr>c_closed := True, c_todo := [], c_reading := False\<rparr>)\<rparr>)"

definition set_conn :: "nat \<Rightarrow> conn \<Rightarrow> relay \<Rightarrow> relay" where
  "set_conn cid c r = r\<lparr>r_conn := (r_conn r)(cid \<mapsto> c)\<rparr>"

text \<open>The next action of a goroutine, and whether it panicked.\<close>

definition act :: "nat \<Rightarrow> relay \<Rightarrow> relay \<times> bool" where
  "act cid r =
    (case r_conn r cid of None \<Rightarrow> (r, False)
     | Some c \<Rightarrow>
        (case c_todo c of [] \<Rightarrow> (r, False)
         | StartPump # as \<Rightarrow> (set_conn cid (c\<lparr>c_todo := as, c_writing := True, c_reading := True\<rparr>) r, False)
         | SendTo t m # as \<Rightarrow>
            (let r1 = set_conn cid (c\<lparr>c_todo := as\<rparr>) r in
             case Option.bind (r_conn r1 t) (chan_send m) of
               Some d \<Rightarrow> (set_conn t d r1, False)
             | None \<Rightarrow> (hang_up cid r1, True))))"

definition receive_frame :: "int \<Rightarrow> nat \<Rightarrow> go_msg \<Rightarrow> relay \<Rightarrow> relay \<times> jstr option" where
  "receive_frame now cid m r =
    (case r_conn r cid of None \<Rightarrow> (r, None)
     | Some c \<Rightarrow>
        (case on_frame now cid c m (r_hub r) of
           (h, as, tok) \<Rightarrow> (\<lparr>r_hub = h, r_conn = (r_conn r)(cid \<mapsto> c\<lparr>c_todo := as\<rparr>)\<rparr>, tok)))"

definition restart :: "int \<Rightarrow> relay \<Rightarrow> relay" where
  "restart now r = \<lparr>r_hub = hub_restart now (r_hub r), r_conn = (\<lambda>_. None)\<rparr>"

text \<open>
  The events of a run, the latest first. A connection has a new number and a device id that \<open>Atoi\<close> accepts. \<open>readPump\<close> reads a frame when it has done with the one before; \<open>writePump\<close>
  writes while there is something in the channel, also after it was closed, and stops at an error of the socket.
\<close>

datatype relay_event =
    Connected nat jstr int
  | Frame nat go_msg
  | Acted nat
  | Wrote nat go_msg
  | WriteFailed nat
  | HungUp nat
  | Panicked nat
  | Pushed jstr
  | Restarted

inductive relay_run :: "relay_event list \<Rightarrow> relay \<Rightarrow> bool" where
  Boot: "relay_run [] (boot path pusher)"
| Connect: "relay_run es r \<Longrightarrow> \<forall>u d. Connected cid u d \<notin> set es \<Longrightarrow> fits64 d \<Longrightarrow> relay_run (Connected cid u d # es) (connect now cid u d r)"
| Frame: "relay_run es r \<Longrightarrow> r_conn r cid = Some c \<Longrightarrow> c_reading c \<Longrightarrow> c_todo c = [] \<Longrightarrow>
    go_msg_of v = Some m \<Longrightarrow> receive_frame now cid m r = (r', tok) \<Longrightarrow>
    relay_run ((case tok of None \<Rightarrow> [] | Some t \<Rightarrow> [Pushed t]) @ Frame cid m # es) r'"
| Act: "relay_run es r \<Longrightarrow> r_conn r cid = Some c \<Longrightarrow> c_todo c \<noteq> [] \<Longrightarrow> act cid r = (r', p) \<Longrightarrow>
    relay_run ((if p then Panicked cid else Acted cid) # es) r'"
| Write: "relay_run es r \<Longrightarrow> r_conn r cid = Some c \<Longrightarrow> c_writing c \<Longrightarrow> c_out c = m # ms \<Longrightarrow>
    relay_run (Wrote cid m # es) (set_conn cid (c\<lparr>c_out := ms\<rparr>) r)"
| WriteError: "relay_run es r \<Longrightarrow> r_conn r cid = Some c \<Longrightarrow> c_writing c \<Longrightarrow> c_out c = m # ms \<Longrightarrow>
    relay_run (WriteFailed cid # es) (set_conn cid (c\<lparr>c_out := ms, c_writing := False\<rparr>) r)"
| HangUp: "relay_run es r \<Longrightarrow> r_conn r cid = Some c \<Longrightarrow> c_reading c \<Longrightarrow> c_todo c = [] \<Longrightarrow>
    relay_run (HungUp cid # es) (hang_up cid r)"
| Restart: "relay_run es r \<Longrightarrow> relay_run (Restarted # es) (restart now r)"

end
