(* ===== verification/RelayProps.thy ===== *)
theory RelayProps
  imports RelayService
begin

text \<open>
  What the relay service guarantees on every run: routing keys are unambiguous; queues and channels are bounded; a
  device that is connected has no queue; every envelope that is written was submitted by an authenticated connection and
  is written to the device it is addressed to only; and what happens to the queue of a device that comes back.

  The locale \<open>queue_property\<close> is a property of stored queues that survives pruning. It is interpreted on the bound of
  the queues and on where their envelopes come from.
\<close>

subsection \<open>Routing keys\<close>

lemma itoa_loop_digits: "itoa_loop n buf = (if n = 0 then buf else dec_digits n @ buf)"
proof (induction n arbitrary: buf rule: less_induct)
  case (less n)
  show ?case
  proof (cases "n < 10")
    case True
    then show ?thesis by (simp add: itoa_loop.simps dec_digits.simps [of n])
  next
    case False
    then have "itoa_loop n buf = itoa_loop (n div 10) (of_nat (48 + n mod 10) # buf)" by (simp add: itoa_loop.simps [of n])
    also have "\<dots> = dec_digits (n div 10) @ of_nat (48 + n mod 10) # buf" using False less.IH [of "n div 10"] by auto
    finally show ?thesis using False by (simp add: dec_digits.simps [of n])
  qed
qed

lemma wrap64_id: "fits64 i \<Longrightarrow> wrap64 i = i"
  by (auto simp: wrap64_def fits64_def)

text \<open>\<open>itoa\<close> is decimal notation, except at the least integer, whose negation wraps.\<close>

lemma itoa_int: "fits64 i \<Longrightarrow> i \<noteq> - (2 ^ 63) \<Longrightarrow> itoa i = int_str i"
  by (auto simp: itoa_def int_str_def Let_def wrap64_def fits64_def itoa_loop_digits js_Cons of_char_def dec_digits_0)

lemma itoa_least: "itoa (- (2 ^ 63)) = [45]"
  by (simp add: itoa_def wrap64_def Let_def itoa_loop_digits)

lemma itoa_inj: "fits64 i \<Longrightarrow> fits64 j \<Longrightarrow> itoa i = itoa j \<Longrightarrow> i = j"
proof -
  have s: "int_str k \<noteq> [45]" for k using dec_digits_digits [of "nat k"] by (auto simp: int_str_def is_digit_def)
  have "\<exists>l. \<forall>k. fits64 k \<longrightarrow> (k = l \<and> itoa k = [45]) \<or> (k \<noteq> l \<and> itoa k = int_str k)"
    using itoa_int itoa_least by metis
  moreover assume "fits64 i" "fits64 j" "itoa i = itoa j"
  ultimately show "i = j" using int_str_inj s by metis
qed

lemma itoa_no_colon: "fits64 i \<Longrightarrow> 58 \<notin> set (itoa i)"
proof (cases "i = - (2 ^ 63)")
  case False
  assume "fits64 i"
  then have "itoa i = int_str i" using itoa_int False by blast
  then show ?thesis using dec_digits_digits [of "nat (- i)"] dec_digits_digits [of "nat i"]
    by (auto simp: int_str_def is_digit_def)
qed (simp only: itoa_least, simp)

lemma last_colon:
  assumes "x @ (58::unit16) # a = y @ 58 # b" "58 \<notin> set a" "58 \<notin> set b"
  shows "x = y \<and> a = b"
proof -
  have "takeWhile (\<lambda>c. c \<noteq> 58) (rev (z @ 58 # d)) = rev d" if "58 \<notin> set d" for z d :: jstr
    using that by (simp add: takeWhile_append)
  then have "rev a = rev b" using assms by metis
  then show ?thesis using assms(1) by simp
qed

text \<open>Two devices have the same routing key only if they are the same device of the same account, whatever the account ids
  look like.\<close>

theorem routeKey_inj:
  assumes "fits64 d" "fits64 e" "routeKey u d = routeKey v e"
  shows "u = v \<and> d = e"
proof -
  have "u @ 58 # itoa d = v @ 58 # itoa e" using assms(3) by (simp add: routeKey_def js_Cons of_char_def)
  from last_colon [OF this itoa_no_colon itoa_no_colon] assms itoa_inj show ?thesis by blast
qed

lemma routeKey_inj_witness: "routeKey (js ''a:1'') 2 \<noteq> routeKey (js ''a'') 12"
  using routeKey_inj [of 2 12 "js ''a:1''" "js ''a''"] by (auto simp: fits64_def)


subsection \<open>Stored queues\<close>

lemma queue_of_set [simp]: "queue_of (map_set k l q) key = (if key = k then l else queue_of q key)"
  by (simp add: queue_of_def)

lemma queue_of_del [simp]: "queue_of (map_del k q) key = (if key = k then [] else queue_of q key)"
  by (simp add: queue_of_def)

lemma retained_sub: "set (retained now q) \<subseteq> set q"
  by (auto simp: retained_def Let_def dest: in_set_dropD)

lemma retained_cap: "length (retained now q) \<le> maxQueuePerRecipient"
  by (simp add: retained_def Let_def)

lemma retained_Nil [simp]: "retained now [] = []"
  by (simp add: retained_def)

lemma retained_same: "length (retained now q) = length q \<Longrightarrow> retained now q = q"
proof -
  assume l: "length (retained now q) = length q"
  have f: "length (filter (\<lambda>e. now - queueTTL \<le> q_at e) q) \<le> length q" by (rule length_filter_le)
  then have "length (filter (\<lambda>e. now - queueTTL \<le> q_at e) q) = length q"
    using l by (auto simp: retained_def Let_def split: if_splits) (metis leD length_filter_le)
  then have "filter (\<lambda>e. now - queueTTL \<le> q_at e) q = q" using length_filter_less by (metis filter_id_conv nat_neq_iff)
  then show ?thesis using l by (auto simp: retained_def Let_def split: if_splits)
qed

lemma queue_prune [simp]:
  "queue_of (h_queue (pruneQueueLocked now key h)) k = (if k = key then retained now (queue_of (h_queue h) k) else queue_of (h_queue h) k)"
  using retained_same [of now "queue_of (h_queue h) k"] by (auto simp: pruneQueueLocked_def Let_def)

lemma prune_frame [simp]: "h_conns (pruneQueueLocked now key h) = h_conns h" "h_disk (pruneQueueLocked now key h) = h_disk h"
    "h_next (pruneQueueLocked now key h) = h_next h" "h_path (pruneQueueLocked now key h) = h_path h"
    "h_tokens (pruneQueueLocked now key h) = h_tokens h" "h_pusher (pruneQueueLocked now key h) = h_pusher h"
  by (simp_all add: pruneQueueLocked_def Let_def)

lemma persist_frame [simp]: "h_conns (persistLocked h) = h_conns h" "h_queue (persistLocked h) = h_queue h"
    "h_next (persistLocked h) = h_next h" "h_path (persistLocked h) = h_path h"
    "h_tokens (persistLocked h) = h_tokens h" "h_pusher (persistLocked h) = h_pusher h"
  by (simp_all add: persistLocked_def)

text \<open>\<open>stored P h\<close>: \<open>P\<close> holds of every queue in memory and in the file.\<close>

definition stored :: "(jstr \<Rightarrow> queuedEnvelope list \<Rightarrow> bool) \<Rightarrow> hub \<Rightarrow> bool" where
  "stored P h = ((\<forall>key. P key (queue_of (h_queue h) key)) \<and>
     (\<forall>n q. h_disk h = Some (n, q) \<longrightarrow> (\<forall>key. P key (queue_of q key))))"

lemma storedD: "stored P h \<Longrightarrow> P key (queue_of (h_queue h) key)"
  by (simp add: stored_def)

lemma stored_fields [simp]: "stored P (h\<lparr>h_conns := c\<rparr>) = stored P h" "stored P (h\<lparr>h_next := n\<rparr>) = stored P h"
    "stored P (h\<lparr>h_tokens := tk\<rparr>) = stored P h"
  by (simp_all add: stored_def)

lemma stored_set: "stored P h \<Longrightarrow> P key q \<Longrightarrow> stored P (h\<lparr>h_queue := map_set key q (h_queue h)\<rparr>)"
  by (simp add: stored_def)

lemma stored_persist: "stored P h \<Longrightarrow> stored P (persistLocked h)"
  by (auto simp: stored_def persistLocked_def)

locale queue_property =
  fixes P :: "jstr \<Rightarrow> queuedEnvelope list \<Rightarrow> bool"
  assumes none: "P key []"
    and kept: "P key q \<Longrightarrow> P key (retained now q)"
begin

lemma stored_prune: "stored P h \<Longrightarrow> stored P (pruneQueueLocked now key h)"
  using kept by (simp add: stored_def)

lemma stored_new: "stored P (NewHub path pusher)"
  using none by (simp add: stored_def NewHub_def queue_of_def)

lemma stored_del: "stored P h \<Longrightarrow> stored P (h\<lparr>h_queue := map_del key (h_queue h)\<rparr>)"
  using none by (simp add: stored_def)

lemma stored_restart: "stored P h \<Longrightarrow> stored P (hub_restart now h)"
proof -
  assume h: "stored P h"
  have f: "stored P x \<Longrightarrow> stored P (foldl (\<lambda>x key. pruneQueueLocked now key x) x ks)" for x ks
    by (induction ks arbitrary: x) (simp_all add: stored_prune)
  have n: "stored P ((NewHub b c)\<lparr>h_disk := h_disk h\<rparr>)" for b c
    using h none by (simp add: stored_def NewHub_def queue_of_def)
  show ?thesis
  proof (cases "h_disk h")
    case None
    then show ?thesis using n by (simp add: hub_restart_def Let_def split: bool.split)
  next
    case (Some d)
    obtain m q where d: "d = (m, q)" by fastforce
    have "stored P ((NewHub (h_path h) (h_pusher h))\<lparr>h_disk := Some (m, q), h_next := m, h_queue := q\<rparr>)"
      using h Some d by (simp add: stored_def)
    then show ?thesis using n [of False] f Some d by (cases "h_path h") (simp_all add: hub_restart_def Let_def)
  qed
qed

lemma stored_register: "stored P h \<Longrightarrow> stored P (fst (hub_register now cid key h))"
  by (simp add: hub_register_def Let_def stored_prune stored_del stored_persist del: queue_prune)

lemma stored_unregister: "stored P h \<Longrightarrow> stored P (hub_unregister cid key h)"
  by (simp add: hub_unregister_def)

lemma stored_token: "stored P h \<Longrightarrow> stored P (registerPushToken key tok h)"
  by (simp add: registerPushToken_def)

text \<open>\<open>route\<close> stores at most the envelope that it numbers, at the end of the recipient's queue.\<close>

lemma stored_route:
  assumes "stored P h" "route now env h = (h', e, t, tok)"
    and new: "P (routeKey (ge_recipient env) (ge_rdevice env))
      (retained now (queue_of (h_queue h) (routeKey (ge_recipient env) (ge_rdevice env)) @ [\<lparr>q_env = e, q_at = now\<rparr>]))"
  shows "stored P h'"
proof (cases t)
  case None
  then show ?thesis using assms
    by (auto simp: route_def Let_def split: option.splits intro!: stored_persist) (simp_all add: stored_def)
next
  case (Some a)
  then show ?thesis using assms(1,2) by (auto simp: route_def Let_def stored_persist split: option.splits)
qed

end

interpretation capped: queue_property "\<lambda>key q. length q \<le> maxQueuePerRecipient"
  by unfold_locales (simp_all add: retained_cap)

lemma route_capped: "stored (\<lambda>key q. length q \<le> maxQueuePerRecipient) h \<Longrightarrow> route now env h = (h', e, t, tok) \<Longrightarrow>
    stored (\<lambda>key q. length q \<le> maxQueuePerRecipient) h'"
  by (rule capped.stored_route) (simp_all add: retained_cap)

subsection \<open>Where envelopes come from and go to\<close>

text \<open>\<open>submitted\<close>: a connection sent the envelope in a \<open>send\<close> frame; the relay gave it its id and put the
  connection's own identity in place of the sender that the frame named.\<close>

definition submitted :: "relay_event list \<Rightarrow> go_envelope \<Rightarrow> bool" where
  "submitted es e = (\<exists>cid u d m f. Connected cid u d \<in> set es \<and> Frame cid m \<in> set es \<and> g_kind m = js ''send'' \<and> g_env m = Some f \<and>
     e = f\<lparr>ge_id := ge_id e, ge_sender := u, ge_sdevice := d\<rparr>)"

definition addressed :: "relay_event list \<Rightarrow> jstr \<Rightarrow> go_envelope \<Rightarrow> bool" where
  "addressed es key e = (submitted es e \<and> fits64 (ge_rdevice e) \<and> routeKey (ge_recipient e) (ge_rdevice e) = key)"

definition for_conn :: "relay_event list \<Rightarrow> conn \<Rightarrow> go_msg \<Rightarrow> bool" where
  "for_conn es c m = (\<forall>e. g_env m = Some e \<longrightarrow> addressed es (c_key c) e)"

definition action_ok :: "relay_event list \<Rightarrow> relay \<Rightarrow> action \<Rightarrow> bool" where
  "action_ok es r a = (\<forall>t m. a = SendTo t m \<longrightarrow> (\<exists>d. r_conn r t = Some d \<and> for_conn es d m))"

definition conn_ok :: "relay_event list \<Rightarrow> relay \<Rightarrow> nat \<Rightarrow> conn \<Rightarrow> bool" where
  "conn_ok es r cid c = (Connected cid (c_user c) (c_device c) \<in> set es \<and> fits64 (c_device c) \<and>
     (\<forall>m\<in>set (c_out c). for_conn es c m) \<and> (\<forall>a\<in>set (c_todo c). action_ok es r a))"

definition origin :: "relay_event list \<Rightarrow> jstr \<Rightarrow> queuedEnvelope list \<Rightarrow> bool" where
  "origin es key q = (\<forall>x\<in>set q. addressed es key (q_env x))"

definition relay_ok :: "relay_event list \<Rightarrow> relay \<Rightarrow> bool" where
  "relay_ok es r = (stored (origin es) (r_hub r) \<and>
     (\<forall>key cid. map_of (h_conns (r_hub r)) key = Some cid \<longrightarrow> (\<exists>c. r_conn r cid = Some c \<and> c_key c = key)) \<and>
     (\<forall>cid c. r_conn r cid = Some c \<longrightarrow> conn_ok es r cid c))"

definition wrote_ok :: "relay_event list \<Rightarrow> bool" where
  "wrote_ok es = (\<forall>cid m e. Wrote cid m \<in> set es \<longrightarrow> g_env m = Some e \<longrightarrow>
     submitted es e \<and> Connected cid (ge_recipient e) (ge_rdevice e) \<in> set es)"

interpretation origins: queue_property "origin es"
  using retained_sub by unfold_locales (auto simp: origin_def)

lemma addressed_mono: "addressed es key e \<Longrightarrow> set es \<subseteq> set fs \<Longrightarrow> addressed fs key e"
  unfolding addressed_def submitted_def by blast

lemma relay_ok_mono: "relay_ok es r \<Longrightarrow> set es \<subseteq> set fs \<Longrightarrow> relay_ok fs r"
  unfolding relay_ok_def stored_def origin_def conn_ok_def for_conn_def action_ok_def
  by (meson addressed_mono subsetD)

lemma relay_okD: assumes "relay_ok es r"
  shows "stored (origin es) (r_hub r)"
    and "map_of (h_conns (r_hub r)) key = Some cid \<Longrightarrow> \<exists>c. r_conn r cid = Some c \<and> c_key c = key"
    and "r_conn r cid = Some c \<Longrightarrow> conn_ok es r cid c"
  using assms by (auto simp: relay_ok_def)

text \<open>Replacing a connection by one with the same identity.\<close>

lemma action_ok_set: "action_ok es r a \<Longrightarrow> r_conn r cid = Some c \<Longrightarrow> c_key c' = c_key c \<Longrightarrow> action_ok es (set_conn cid c' r) a"
  by (auto simp: action_ok_def set_conn_def for_conn_def)

lemma ok_set_conn:
  assumes "relay_ok es r" "r_conn r cid = Some c" "c_user c' = c_user c" "c_device c' = c_device c"
    and "\<forall>m\<in>set (c_out c'). for_conn es c m" "\<forall>a\<in>set (c_todo c'). action_ok es r a"
  shows "relay_ok es (set_conn cid c' r)"
proof -
  have k: "c_key c' = c_key c" using assms(3,4) by (simp add: c_key_def)
  have "conn_ok es (set_conn cid c' r) x d" if "r_conn (set_conn cid c' r) x = Some d" for x d
  proof (cases "x = cid")
    case True
    then have "d = c'" using that by (simp add: set_conn_def)
    then show ?thesis using relay_okD(3) [OF assms(1,2)] assms(3-6) True k action_ok_set [OF _ assms(2) k]
      by (auto simp: conn_ok_def for_conn_def)
  next
    case False
    then have "r_conn r x = Some d" using that by (simp add: set_conn_def)
    then show ?thesis using relay_okD(3) [OF assms(1)] action_ok_set [OF _ assms(2) k] by (auto simp: conn_ok_def)
  qed
  then show ?thesis using assms(1,2) k by (auto simp: relay_ok_def set_conn_def) (metis option.inject)
qed

lemma relay_ok_hub: "relay_ok es r \<Longrightarrow> stored (origin es) h \<Longrightarrow> map_of (h_conns h) \<subseteq>\<^sub>m map_of (h_conns (r_hub r)) \<Longrightarrow>
    relay_ok es (r\<lparr>r_hub := h\<rparr>)"
  unfolding relay_ok_def conn_ok_def action_ok_def by (auto simp: map_le_def dom_def)

text \<open>The steps, each with the events it adds.\<close>

lemma hang_up_ok: "relay_ok es r \<Longrightarrow> relay_ok es (hang_up cid r)"
proof (cases "r_conn r cid")
  case (Some c)
  assume ok: "relay_ok es r"
  have "relay_ok es (set_conn cid (c\<lparr>c_closed := True, c_todo := [], c_reading := False\<rparr>) r)"
    using relay_okD(3) [OF ok Some] by (intro ok_set_conn [OF ok Some]) (auto simp: conn_ok_def)
  then have "relay_ok es ((set_conn cid (c\<lparr>c_closed := True, c_todo := [], c_reading := False\<rparr>) r)\<lparr>r_hub := hub_unregister cid (c_key c) (r_hub r)\<rparr>)"
    by (rule relay_ok_hub) (auto simp: set_conn_def hub_unregister_def map_le_def origins.stored_unregister [unfolded hub_unregister_def] relay_okD(1) [OF ok])
  then show ?thesis using Some by (cases r) (simp add: hang_up_def set_conn_def)
qed (simp add: hang_up_def)

lemma act_ok:
  assumes "relay_ok es r" "act cid r = (r', p)"
  shows "relay_ok es r'"
proof -
  show ?thesis
  proof (cases "r_conn r cid")
    case (Some c)
    note ok = relay_okD(3) [OF assms(1) Some]
    show ?thesis
    proof (cases "c_todo c")
      case (Cons a as)
      have s: "relay_ok es (set_conn cid (c\<lparr>c_todo := as\<rparr>) r)"
        using ok Cons by (intro ok_set_conn [OF assms(1) Some]) (auto simp: conn_ok_def)
      show ?thesis
      proof (cases a)
        case (SendTo t m)
        have "action_ok es (set_conn cid (c\<lparr>c_todo := as\<rparr>) r) a"
          using ok Cons by (intro action_ok_set [OF _ Some]) (auto simp: conn_ok_def c_key_def)
        then obtain d where d: "r_conn (set_conn cid (c\<lparr>c_todo := as\<rparr>) r) t = Some d" "for_conn es d m"
          using SendTo by (auto simp: action_ok_def)
        have "relay_ok es (set_conn t e (set_conn cid (c\<lparr>c_todo := as\<rparr>) r))" if "chan_send m d = Some e" for e
          using that d relay_okD(3) [OF s d(1)]
          by (intro ok_set_conn [OF s d(1)]) (auto simp: chan_send_def conn_ok_def split: if_splits)
        then show ?thesis using assms(2) Some Cons SendTo d(1) hang_up_ok [OF s]
          by (auto simp: act_def Let_def split: option.splits)
      next
        case StartPump
        have "relay_ok es (set_conn cid (c\<lparr>c_todo := as, c_writing := True, c_reading := True\<rparr>) r)"
          using ok Cons by (intro ok_set_conn [OF assms(1) Some]) (auto simp: conn_ok_def)
        then show ?thesis using assms(2) Some Cons StartPump by (simp add: act_def)
      qed
    qed (use assms Some in \<open>simp add: act_def\<close>)
  qed (use assms in \<open>simp add: act_def\<close>)
qed


lemma register_facts:
  "h_conns (fst (hub_register now cid key h)) = map_set key cid (h_conns h)"
  "snd (hub_register now cid key h) = retained now (queue_of (h_queue h) key)"
  "queue_of (h_queue (fst (hub_register now cid key h))) k = (if k = key then [] else queue_of (h_queue h) k)"
  by (auto simp: hub_register_def Let_def)

lemma connect_ok:
  assumes ok: "relay_ok es r" and new: "\<forall>u d. Connected cid u d \<notin> set es" "fits64 d"
  shows "relay_ok (Connected cid u d # es) (connect now cid u d r)"
proof -
  let ?es = "Connected cid u d # es" and ?k = "routeKey u d"
  obtain h pending where h: "hub_register now cid ?k (r_hub r) = (h, pending)" by fastforce
  note reg = register_facts [of now cid ?k "r_hub r", unfolded h fst_conv snd_conv]
  have fresh: "r_conn r cid = None" using relay_okD(3) [OF ok, of cid] new(1) by (force simp: conn_ok_def)
  have ok': "relay_ok ?es r" by (rule relay_ok_mono [OF ok]) auto
  have st: "stored (origin ?es) h" using origins.stored_register [OF relay_okD(1) [OF ok'], of now cid ?k] h by simp
  have "origin ?es ?k pending"
    using origins.kept [OF storedD [OF relay_okD(1) [OF ok']]] reg(2) by simp
  then have p: "\<forall>q\<in>set pending. addressed ?es ?k (q_env q)" by (simp add: origin_def)
  let ?c = "(newClient u d)\<lparr>c_todo := map (\<lambda>q. SendTo cid (deliver_msg (q_env q))) pending @ [StartPump]\<rparr>"
  have r: "connect now cid u d r = \<lparr>r_hub = h, r_conn = (r_conn r)(cid \<mapsto> ?c)\<rparr>" by (simp add: connect_def h)
  have k: "c_key ?c = ?k" by (simp add: c_key_def newClient_def)
  have "conn_ok ?es (connect now cid u d r) x y" if "r_conn (connect now cid u d r) x = Some y" for x y
  proof (cases "x = cid")
    case True
    then have "y = ?c" using that r by simp
    then show ?thesis using True k p new(2) unfolding r conn_ok_def
      by (auto simp: newClient_def action_ok_def for_conn_def deliver_msg_def)
  next
    case False
    then have "r_conn r x = Some y" using that r by simp
    from relay_okD(3) [OF ok' this] show ?thesis using fresh unfolding r conn_ok_def action_ok_def by auto
  qed
  moreover have "\<exists>y. r_conn (connect now cid u d r) x = Some y \<and> c_key y = key" if "map_of (h_conns h) key = Some x" for key x
    using that reg(1) k relay_okD(2) [OF ok, of key x] fresh unfolding r by (auto split: if_splits)
  ultimately show ?thesis using st r by (simp add: relay_ok_def)
qed

lemma route_parts:
  "h_conns (fst (route now env h)) = h_conns h" "h_next (fst (route now env h)) = h_next h + 1"
  "fst (snd (route now env h)) = env\<lparr>ge_id := env_id_of (h_next h + 1)\<rparr>"
  "fst (snd (snd (route now env h))) = map_of (h_conns h) (routeKey (ge_recipient env) (ge_rdevice env))"
  by (simp_all add: route_def Let_def split: option.split)

lemma route_facts: "route now env h = (h', e, t, tok) \<Longrightarrow>
    e = env\<lparr>ge_id := env_id_of (h_next h + 1)\<rparr> \<and> h_conns h' = h_conns h \<and> h_next h' = h_next h + 1 \<and>
    t = map_of (h_conns h) (routeKey (ge_recipient env) (ge_rdevice env))"
  using route_parts [of now env h] by simp

lemma go_int_fits: "go_int v k = Some i \<Longrightarrow> fits64 i"
  by (auto simp: go_int_def fits64_def split: option.splits json.splits if_splits)

lemma go_envelope_fits: "go_envelope_of v = Some e \<Longrightarrow> fits64 (ge_rdevice e)"
  by (auto simp: go_envelope_of_def dest: go_int_fits split: option.splits)

lemma go_pointer_fits: "go_pointer v k = Some (Some e) \<Longrightarrow> fits64 (ge_rdevice e)"
  by (auto simp: go_pointer_def dest: go_envelope_fits split: option.splits json.splits)

lemma go_msg_of_fits: "go_msg_of v = Some m \<Longrightarrow> g_env m = Some e \<Longrightarrow> fits64 (ge_rdevice e)"
  by (cases v) (auto simp: go_msg_of_def zero_msg_def dest: go_pointer_fits split: option.splits)

lemma on_frame_ok:
  assumes ok: "relay_ok es r" "r_conn r cid = Some c" and m: "Frame cid m \<in> set es" "go_msg_of v = Some m"
    and f: "on_frame now cid c m (r_hub r) = (h, as, tok)"
  shows "stored (origin es) h \<and> h_conns h = h_conns (r_hub r) \<and> (\<forall>a\<in>set as. action_ok es r a)"
proof -
  have con: "Connected cid (c_user c) (c_device c) \<in> set es" using relay_okD(3) [OF ok] by (simp add: conn_ok_def)
  have quiet: "action_ok es r (SendTo t x)" if "r_conn r t \<noteq> None" "g_env x = None" for t x
    using that by (auto simp: action_ok_def for_conn_def)
  consider (send) e where "g_kind m = js ''send''" "g_env m = Some e" | (no) "g_kind m = js ''send''" "g_env m = None"
    | (other) "g_kind m \<noteq> js ''send''" by blast
  then show ?thesis
  proof cases
    case send
    obtain h1 e1 t tk where rt: "route now (authentic c e) (r_hub r) = (h1, e1, t, tk)" by (metis prod_cases4)
    note facts = route_facts [OF rt]
    have "e1 = e\<lparr>ge_id := ge_id e1, ge_sender := c_user c, ge_sdevice := c_device c\<rparr>"
      using facts by (simp add: authentic_def)
    then have "submitted es e1" using send m(1) con unfolding submitted_def by blast
    then have ad: "addressed es (routeKey (ge_recipient e) (ge_rdevice e)) e1"
      using facts go_msg_of_fits [OF m(2) send(2)] by (simp add: addressed_def authentic_def)
    have "origin es (routeKey (ge_recipient e) (ge_rdevice e)) (queue_of (h_queue (r_hub r)) (routeKey (ge_recipient e) (ge_rdevice e)) @ [\<lparr>q_env = e1, q_at = now\<rparr>])"
      using ad storedD [OF relay_okD(1) [OF ok(1)]] by (auto simp: origin_def)
    then have st: "stored (origin es) h1"
      using origins.stored_route [OF relay_okD(1) [OF ok(1)] rt] origins.kept by (simp add: authentic_def)
    have "action_ok es r (SendTo x (deliver_msg e1))" if "t = Some x" for x
      using that facts ad relay_okD(2) [OF ok(1), of "routeKey (ge_recipient e) (ge_rdevice e)" x]
      by (auto simp: action_ok_def for_conn_def deliver_msg_def authentic_def)
    moreover have "action_ok es r (SendTo cid (ack_msg i now ref))" for i ref
      using quiet [of cid] ok(2) by (simp add: ack_msg_def zero_msg_def)
    moreover have "h = h1" "as = (case t of Some x \<Rightarrow> [SendTo x (deliver_msg e1)] | None \<Rightarrow> []) @ [SendTo cid (ack_msg (ge_id e1) now (g_ref m))]"
      using f send rt by (simp_all add: on_frame_def)
    ultimately show ?thesis using st route_facts [OF rt, THEN conjunct2, THEN conjunct1] by (cases t) simp_all
  next
    case no
    then show ?thesis using f relay_okD(1) [OF ok(1)] by (simp add: on_frame_def)
  next
    case other
    have "action_ok es r (SendTo t (status_msg i st))" if "map_of (h_conns (r_hub r)) key = Some t" for t i st key
      using quiet [of t] relay_okD(2) [OF ok(1) that] by (auto simp: status_msg_def zero_msg_def)
    moreover have "h = (if g_kind m = js ''register-push'' \<and> g_token m \<noteq> [] then registerPushToken (c_key c) (g_token m) (r_hub r) else r_hub r)"
      "set as \<subseteq> {SendTo t (status_msg i st) |t i st. \<exists>key. map_of (h_conns (r_hub r)) key = Some t}"
      using f other by (auto simp: on_frame_def split: if_splits option.splits) blast+
    ultimately show ?thesis using relay_okD(1) [OF ok(1)] by (auto simp: registerPushToken_def)
  qed
qed

lemma frame_ok:
  assumes ok: "relay_ok es r" "r_conn r cid = Some c" and m: "Frame cid m \<in> set es" "go_msg_of v = Some m"
    and f: "receive_frame now cid m r = (r', tok)"
  shows "relay_ok es r'"
proof -
  obtain h as tk where o: "on_frame now cid c m (r_hub r) = (h, as, tk)" by (metis prod_cases3)
  note facts = on_frame_ok [OF ok m o]
  have "relay_ok es (set_conn cid (c\<lparr>c_todo := as\<rparr>) r)"
    using relay_okD(3) [OF ok] facts by (intro ok_set_conn [OF ok]) (auto simp: conn_ok_def)
  then have "relay_ok es ((set_conn cid (c\<lparr>c_todo := as\<rparr>) r)\<lparr>r_hub := h\<rparr>)"
    by (rule relay_ok_hub) (simp_all add: facts set_conn_def)
  then show ?thesis using f ok(2) o by (cases r) (simp add: receive_frame_def set_conn_def)
qed

lemma hub_restart_ok: "relay_ok es r \<Longrightarrow> relay_ok es (restart now r)"
proof -
  assume ok: "relay_ok es r"
  have "h_conns (foldl (\<lambda>x key. pruneQueueLocked now key x) x ks) = h_conns x" for x ks
    by (induction ks arbitrary: x) simp_all
  then have "h_conns (hub_restart now (r_hub r)) = []"
    by (auto simp: hub_restart_def Let_def NewHub_def split: bool.split option.split prod.split)
  then show ?thesis using origins.stored_restart [OF relay_okD(1) [OF ok]] by (simp add: relay_ok_def restart_def)
qed


lemma run_ok: "relay_run es r \<Longrightarrow> relay_ok es r"
proof (induction rule: relay_run.induct)
  case (Boot path pusher)
  then show ?case using origins.stored_new by (simp add: relay_ok_def boot_def NewHub_def)
next
  case (Connect es r cid u d now)
  then show ?case by (simp add: connect_ok)
next
  case (Frame es r cid c v m now r' tok)
  let ?es = "(case tok of None \<Rightarrow> [] | Some t \<Rightarrow> [Pushed t]) @ Frame cid m # es"
  have "relay_ok ?es r" by (rule relay_ok_mono [OF Frame.IH]) auto
  then show ?case by (rule frame_ok [OF _ Frame(2) _ Frame(5,6)]) simp
next
  case (Act es r cid c r' p)
  show ?case by (rule relay_ok_mono [OF act_ok [OF Act.IH Act(4)]]) auto
next
  case (Write es r cid c m ms)
  have "relay_ok es (set_conn cid (c\<lparr>c_out := ms\<rparr>) r)"
    using relay_okD(3) [OF Write.IH Write(2)] Write(4) by (intro ok_set_conn [OF Write.IH Write(2)]) (auto simp: conn_ok_def)
  then show ?case by (rule relay_ok_mono) auto
next
  case (WriteError es r cid c m ms)
  have "relay_ok es (set_conn cid (c\<lparr>c_out := ms, c_writing := False\<rparr>) r)"
    using relay_okD(3) [OF WriteError.IH WriteError(2)] WriteError(4)
    by (intro ok_set_conn [OF WriteError.IH WriteError(2)]) (auto simp: conn_ok_def)
  then show ?case by (rule relay_ok_mono) auto
next
  case (HangUp es r cid c)
  show ?case by (rule relay_ok_mono [OF hang_up_ok [OF HangUp.IH]]) auto
next
  case (Restart es r now)
  show ?case by (rule relay_ok_mono [OF hub_restart_ok [OF Restart.IH]]) auto
qed

lemma wrote_ok_more: "wrote_ok es \<Longrightarrow> \<forall>x\<in>set xs. \<forall>cid m. x \<noteq> Wrote cid m \<Longrightarrow> wrote_ok (xs @ es)"
  unfolding wrote_ok_def submitted_def by (simp, blast)

lemma run_wrote_ok: "relay_run es r \<Longrightarrow> wrote_ok es"
proof (induction rule: relay_run.induct)
  case (Write es r cid c m ms)
  have ok: "conn_ok es r cid c" by (rule relay_okD(3) [OF run_ok [OF Write(1)] Write(2)])
  have "submitted es e \<and> Connected cid (ge_recipient e) (ge_rdevice e) \<in> set es" if "g_env m = Some e" for e
  proof -
    have "addressed es (c_key c) e" using ok Write(4) that by (simp add: conn_ok_def for_conn_def)
    then show ?thesis using ok routeKey_inj [of "ge_rdevice e" "c_device c" "ge_recipient e" "c_user c"]
      by (auto simp: addressed_def conn_ok_def c_key_def)
  qed
  moreover have "submitted es e \<Longrightarrow> submitted (Wrote cid m # es) e" for e unfolding submitted_def by auto
  ultimately show ?case using Write.IH unfolding wrote_ok_def by auto
next
  case (Frame es r cid c v m now r' tok)
  then show ?case using wrote_ok_more [of es "(case tok of None \<Rightarrow> [] | Some t \<Rightarrow> [Pushed t]) @ [Frame cid m]"]
    by (cases tok) simp_all
next
  case Boot
  then show ?case by (simp add: wrote_ok_def)
qed (use wrote_ok_more [of _ "[_]"] in simp_all)

text \<open>C14: Whatever the connections do and however their goroutines interleave, over restarts as well: an envelope that the
  relay writes to a socket was submitted by some connection, its ciphertext and everything else unchanged but for the
  id and the sender; the sender is the account and device whose token opened that connection; and the socket belongs
  to the account and device it is addressed to.\<close>

theorem relay_delivers_submitted:
  assumes "relay_run es r" "Wrote cid m \<in> set es" "g_env m = Some e"
  shows "submitted es e \<and> Connected cid (ge_recipient e) (ge_rdevice e) \<in> set es"
  using run_wrote_ok [OF assms(1)] assms(2,3) by (simp add: wrote_ok_def)


subsection \<open>Bounds\<close>

abbreviation capped_hub :: "hub \<Rightarrow> bool" where
  "capped_hub \<equiv> stored (\<lambda>key q. length q \<le> maxQueuePerRecipient)"

definition quiet :: "hub \<Rightarrow> bool" where
  "quiet h = (\<forall>key. map_of (h_conns h) key \<noteq> None \<longrightarrow> queue_of (h_queue h) key = [])"

definition bounded :: "relay \<Rightarrow> bool" where
  "bounded r = (capped_hub (r_hub r) \<and> quiet (r_hub r) \<and> (\<forall>cid c. r_conn r cid = Some c \<longrightarrow> length (c_out c) \<le> out_capacity))"

lemma bounded_set: "bounded r \<Longrightarrow> length (c_out c) \<le> out_capacity \<Longrightarrow> bounded (set_conn cid c r)"
  by (simp add: bounded_def set_conn_def)

lemma bounded_hub: "bounded r \<Longrightarrow> capped_hub h \<Longrightarrow> quiet h \<Longrightarrow> bounded (r\<lparr>r_hub := h\<rparr>)"
  by (simp add: bounded_def)

lemma boundedD: "bounded r \<Longrightarrow> capped_hub (r_hub r)" "bounded r \<Longrightarrow> quiet (r_hub r)"
    "bounded r \<Longrightarrow> r_conn r cid = Some c \<Longrightarrow> length (c_out c) \<le> out_capacity"
  by (simp_all add: bounded_def)

lemma bounded_hang_up: "bounded r \<Longrightarrow> bounded (hang_up cid r)"
proof (cases "r_conn r cid")
  case (Some c)
  assume b: "bounded r"
  have "bounded (set_conn cid (c\<lparr>c_closed := True, c_todo := [], c_reading := False\<rparr>) r)"
    using boundedD(3) [OF b Some] by (intro bounded_set [OF b]) simp
  then have "bounded ((set_conn cid (c\<lparr>c_closed := True, c_todo := [], c_reading := False\<rparr>) r)\<lparr>r_hub := hub_unregister cid (c_key c) (r_hub r)\<rparr>)"
    using boundedD(1,2) [OF b] by (intro bounded_hub capped.stored_unregister) (auto simp: quiet_def hub_unregister_def)
  then show ?thesis using Some by (cases r) (simp add: hang_up_def set_conn_def)
qed (simp add: hang_up_def)

lemma bounded_act: "bounded r \<Longrightarrow> act cid r = (r', p) \<Longrightarrow> bounded r'"
proof -
  assume b: "bounded r" and a: "act cid r = (r', p)"
  show ?thesis
  proof (cases "r_conn r cid")
    case (Some c)
    have s: "bounded (set_conn cid c' r)" if "c_out c' = c_out c" for c' using boundedD(3) [OF b Some] that bounded_set [OF b] by simp
    have t: "bounded (set_conn t d' (set_conn cid (c\<lparr>c_todo := as\<rparr>) r))"
      if "r_conn (set_conn cid (c\<lparr>c_todo := as\<rparr>) r) t = Some d" "chan_send m d = Some d'" for t d d' m as
      using boundedD(3) [OF s that(1)] that(2) by (intro bounded_set s) (auto simp: chan_send_def split: if_splits)
    show ?thesis
    proof (cases "c_todo c")
      case (Cons x xs)
      then show ?thesis
      proof (cases x)
        case (SendTo t' m)
        then show ?thesis using a Some Cons s t
          by (cases "Option.bind (r_conn (set_conn cid (c\<lparr>c_todo := xs\<rparr>) r) t') (chan_send m)")
            (auto simp: act_def bounded_hang_up bind_eq_Some_conv)
      qed (use a Some Cons s in \<open>auto simp: act_def\<close>)
    qed (use a Some b in \<open>simp add: act_def\<close>)
  qed (use a b in \<open>simp add: act_def\<close>)
qed

lemma route_queue: "queue_of (h_queue (fst (route now env h))) k =
    (if k = routeKey (ge_recipient env) (ge_rdevice env) \<and> map_of (h_conns h) k = None
     then retained now (queue_of (h_queue h) k @ [\<lparr>q_env = fst (snd (route now env h)), q_at = now\<rparr>]) else queue_of (h_queue h) k)"
  by (cases "map_of (h_conns h) (routeKey (ge_recipient env) (ge_rdevice env))") (auto simp: route_def Let_def)

lemma route_bounded: "capped_hub h \<Longrightarrow> quiet h \<Longrightarrow> capped_hub (fst (route now env h)) \<and> quiet (fst (route now env h))"
proof
  assume c: "capped_hub h" and q: "quiet h"
  obtain h' e t tok where r: "route now env h = (h', e, t, tok)" by (metis prod_cases4)
  then show "capped_hub (fst (route now env h))" using route_capped [OF c] by simp
  show "quiet (fst (route now env h))" using q by (auto simp: quiet_def route_queue route_parts)
qed

lemma on_frame_hub: "fst (on_frame now cid c m h) \<in>
    {h, registerPushToken (c_key c) (g_token m) h} \<union> {fst (route now e h) |e. True}"
  by (cases "g_env m") (auto simp: on_frame_def case_prod_beta)

lemma run_bounded: "relay_run es r \<Longrightarrow> bounded r"
proof (induction rule: relay_run.induct)
  case (Boot path pusher)
  then show ?case using capped.stored_new by (simp add: bounded_def boot_def quiet_def NewHub_def)
next
  case (Connect es r cid d u now)
  let ?h = "fst (hub_register now cid (routeKey u d) (r_hub r))"
  have "capped_hub ?h" using capped.stored_register [OF boundedD(1) [OF Connect.IH]] .
  moreover have "quiet ?h" using boundedD(2) [OF Connect.IH] by (auto simp: quiet_def register_facts)
  ultimately show ?case using boundedD(3) [OF Connect.IH]
    by (auto simp: connect_def bounded_def newClient_def out_capacity_def case_prod_beta)
next
  case (Frame es r cid c v m now r' tok)
  obtain h as tk where o: "on_frame now cid c m (r_hub r) = (h, as, tk)" by (metis prod_cases3)
  have "h \<in> {r_hub r, registerPushToken (c_key c) (g_token m) (r_hub r)} \<union> {fst (route now e (r_hub r)) |e. True}"
    using on_frame_hub [of now cid c m "r_hub r"] o by simp
  then have "capped_hub h \<and> quiet h"
    using boundedD(1,2) [OF Frame.IH] route_bounded [OF boundedD(1,2) [OF Frame.IH]] capped.stored_token
    by (auto simp: quiet_def registerPushToken_def)
  then have "bounded ((set_conn cid (c\<lparr>c_todo := as\<rparr>) r)\<lparr>r_hub := h\<rparr>)"
    using boundedD(3) [OF Frame.IH Frame(2)] by (intro bounded_hub bounded_set [OF Frame.IH]) simp_all
  then show ?case using Frame(2,6) o by (cases r) (simp add: receive_frame_def set_conn_def)
next
  case (Restart es r now)
  have "h_conns (foldl (\<lambda>x key. pruneQueueLocked now key x) x ks) = h_conns x" for x ks
    by (induction ks arbitrary: x) simp_all
  then have "h_conns (hub_restart now (r_hub r)) = []"
    by (auto simp: hub_restart_def Let_def NewHub_def split: bool.split option.split prod.split)
  then show ?case using capped.stored_restart [OF boundedD(1) [OF Restart.IH]] by (simp add: bounded_def restart_def quiet_def)
next
  case (Act es r cid c r' p)
  then show ?case using bounded_act by blast
next
  case (Write es r cid c m ms)
  then show ?case using boundedD(3) [OF Write.IH Write(2)] by (intro bounded_set) simp_all
next
  case (WriteError es r cid c m ms)
  then show ?case using boundedD(3) [OF WriteError.IH WriteError(2)] by (intro bounded_set) simp_all
qed (simp add: bounded_hang_up)

text \<open>C19: No recipient's queue ever holds more than a thousand envelopes, in memory or in the file, no channel more than its
  capacity, and a device that is connected has nothing queued: what arrives for it goes to its channel.\<close>

theorem relay_is_bounded:
  assumes "relay_run es r"
  shows "(\<forall>key. length (queue_of (h_queue (r_hub r)) key) \<le> 1000 \<and>
      (map_of (h_conns (r_hub r)) key = None \<or> queue_of (h_queue (r_hub r)) key = [])) \<and>
    (\<forall>n q key. h_disk (r_hub r) = Some (n, q) \<longrightarrow> length (queue_of q key) \<le> 1000) \<and>
    (\<forall>cid c. r_conn r cid = Some c \<longrightarrow> length (c_out c) \<le> 64)"
  using run_bounded [OF assms] by (auto simp: bounded_def stored_def maxQueuePerRecipient_def out_capacity_def quiet_def)


subsection \<open>Coming back, and leaving at the wrong moment\<close>

text \<open>\<open>acts cid n\<close>: the goroutine of \<open>cid\<close> performs \<open>n\<close> actions.\<close>

definition acts :: "nat \<Rightarrow> nat \<Rightarrow> relay \<Rightarrow> relay" where
  "acts cid n r = ((\<lambda>s. fst (act cid s)) ^^ n) r"

lemma acts_simps: "acts cid 0 r = r" "acts cid (Suc n) r = acts cid n (fst (act cid r))"
  unfolding acts_def by (simp, simp only: funpow_Suc_right comp_apply)

lemma acts_self:
  assumes "r_conn r cid = Some c" "\<not> c_closed c" "c_todo c = map (SendTo cid) ms @ as" "length (c_out c) \<le> out_capacity"
  shows "acts cid (length ms) r = set_conn cid (c\<lparr>c_todo := as, c_out := take out_capacity (c_out c @ ms)\<rparr>) r"
  using assms
proof (induction ms arbitrary: r c)
  case Nil
  then show ?case by (cases r) (auto simp: acts_simps set_conn_def fun_upd_idem)
next
  case (Cons m ms)
  let ?c = "c\<lparr>c_todo := map (SendTo cid) ms @ as, c_out := take out_capacity (c_out c @ [m])\<rparr>"
  have a: "fst (act cid r) = set_conn cid ?c r"
    using Cons.prems by (auto simp: act_def Let_def set_conn_def chan_send_def)
  have "acts cid (length ms) (set_conn cid ?c r) = set_conn cid (?c\<lparr>c_todo := as, c_out := take out_capacity (c_out ?c @ ms)\<rparr>) (set_conn cid ?c r)"
    using Cons.prems by (intro Cons.IH) (simp_all add: set_conn_def)
  moreover have "take out_capacity (take out_capacity (c_out c @ [m]) @ ms) = take out_capacity (c_out c @ m # ms)"
    using Cons.prems(4) by (cases "length (c_out c) < out_capacity") simp_all
  ultimately show ?case using a by (simp add: acts_simps set_conn_def)
qed

text \<open>C20: When a device connects, its handler empties the queue into the channel before the channel's reader is started:
  what was queued (and is not too old) arrives in order, up to 64 envelopes; the rest is dropped, and is neither in
  the queue nor in the file any more.\<close>

theorem reconnect_delivers_64:
  assumes "r' = acts cid (Suc (length (retained now (queue_of (h_queue (r_hub r)) (routeKey u d))))) (connect now cid u d r)"
  shows "(\<exists>c. r_conn r' cid = Some c \<and> c_reading c \<and> c_writing c \<and> c_todo c = [] \<and>
      c_out c = take 64 (map (\<lambda>q. deliver_msg (q_env q)) (retained now (queue_of (h_queue (r_hub r)) (routeKey u d))))) \<and>
    queue_of (h_queue (r_hub r')) (routeKey u d) = [] \<and>
    (h_path (r_hub r) \<and> retained now (queue_of (h_queue (r_hub r)) (routeKey u d)) \<noteq> [] \<longrightarrow>
      (\<exists>n q. h_disk (r_hub r') = Some (n, q) \<and> queue_of q (routeKey u d) = []))"
proof -
  let ?k = "routeKey u d" and ?p = "retained now (queue_of (h_queue (r_hub r)) (routeKey u d))"
  let ?ms = "map (\<lambda>q. deliver_msg (q_env q)) ?p"
  obtain h pending where h: "hub_register now cid ?k (r_hub r) = (h, pending)" by fastforce
  note reg = register_facts [of now cid ?k "r_hub r", unfolded h fst_conv snd_conv]
  let ?c = "(newClient u d)\<lparr>c_todo := map (SendTo cid) ?ms @ [StartPump]\<rparr>"
  let ?r = "\<lparr>r_hub = h, r_conn = (r_conn r)(cid \<mapsto> ?c)\<rparr>"
  have r: "connect now cid u d r = ?r" using reg(2) by (simp add: connect_def h comp_def)
  have "acts cid (length ?ms) ?r = set_conn cid (?c\<lparr>c_todo := [StartPump], c_out := take out_capacity (c_out ?c @ ?ms)\<rparr>) ?r"
    by (rule acts_self) (simp_all add: newClient_def)
  moreover have "acts cid (Suc n) s = fst (act cid (acts cid n s))" for n s by (simp add: acts_def)
  ultimately have r': "r' = \<lparr>r_hub = h, r_conn = (r_conn r)(cid \<mapsto> ?c\<lparr>c_todo := [], c_out := take 64 ?ms, c_writing := True, c_reading := True\<rparr>)\<rparr>"
    using assms r by (simp add: act_def set_conn_def newClient_def out_capacity_def)
  have "h_path (r_hub r) \<and> ?p \<noteq> [] \<longrightarrow> (\<exists>n q. h_disk h = Some (n, q) \<and> queue_of q ?k = [])"
    using h by (auto simp: hub_register_def Let_def persistLocked_def)
  then show ?thesis using r' reg(3) by simp
qed

text \<open>If the recipient's connection ends between the lookup in \<open>route\<close> and the send, the sender's goroutine panics: its
  connection is torn down, the envelope is not queued for the recipient, and the sender gets no ack.\<close>

theorem hang_up_race_loses_envelope:
  assumes run: "relay_run es r"
    and sender: "r_conn r a = Some ca" "c_reading ca" "c_todo ca = []"
    and target: "map_of (h_conns (r_hub r)) (routeKey (ge_recipient e) (ge_rdevice e)) = Some b" "b \<noteq> a"
      "r_conn r b = Some cb" "c_reading cb" "c_todo cb = []"
    and frame: "go_msg_of v = Some m" "g_kind m = js ''send''" "g_env m = Some e"
  shows "\<exists>r2 c. relay_run (Panicked a # HungUp b # Frame a m # es) r2 \<and>
    queue_of (h_queue (r_hub r2)) (routeKey (ge_recipient e) (ge_rdevice e)) = [] \<and>
    r_conn r2 a = Some c \<and> c_closed c \<and> c_out c = c_out ca"
proof -
  let ?k = "routeKey (ge_recipient e) (ge_rdevice e)"
  obtain h1 e1 t tok where rt: "route now (authentic ca e) (r_hub r) = (h1, e1, t, tok)" by (metis prod_cases4)
  have t: "t = Some b" "tok = None" using rt target(1) by (auto simp: route_def authentic_def Let_def)
  have q: "queue_of (h_queue h1) ?k = []"
    using run_bounded [OF run] target(1) route_queue [of now "authentic ca e" "r_hub r" ?k] rt
    by (simp add: bounded_def quiet_def authentic_def)
  let ?ca = "ca\<lparr>c_todo := [SendTo b (deliver_msg e1), SendTo a (ack_msg (ge_id e1) now (g_ref m))]\<rparr>"
  let ?r1 = "\<lparr>r_hub = h1, r_conn = (r_conn r)(a \<mapsto> ?ca)\<rparr>"
  let ?r2 = "hang_up a (set_conn a (ca\<lparr>c_todo := [SendTo a (ack_msg (ge_id e1) now (g_ref m))]\<rparr>) (hang_up b ?r1))"
  have f: "receive_frame now a m r = (?r1, None)"
    using sender(1) frame rt t by (simp add: receive_frame_def on_frame_def)
  have u: "queue_of (h_queue (hub_unregister x k h)) ?k = queue_of (h_queue h) ?k" for x k h by (simp add: hub_unregister_def)
  have "relay_run (Frame a m # es) ?r1"
    using relay_run.Frame [OF run sender frame(1) f] by simp
  then have "relay_run (HungUp b # Frame a m # es) (hang_up b ?r1)"
    by (rule relay_run.HangUp [where c = cb]) (simp_all add: target)
  then have hu: "relay_run (HungUp b # Frame a m # es) (hang_up b ?r1)" .
  have pa: "act a (hang_up b ?r1) = (?r2, True)"
    using target(2,3) by (simp add: act_def hang_up_def set_conn_def chan_send_def Let_def)
  have "r_conn (hang_up b ?r1) a = Some ?ca" using target(2,3) by (simp add: hang_up_def)
  from relay_run.Act [OF hu this _ pa] have "relay_run (Panicked a # HungUp b # Frame a m # es) ?r2" by simp
  then show ?thesis using q u target(2,3) by (intro exI [of _ ?r2]) (simp add: hang_up_def set_conn_def)
qed


subsection \<open>Live delivery\<close>

definition open_ok :: "relay \<Rightarrow> bool" where
  "open_ok r = (\<forall>cid c. r_conn r cid = Some c \<longrightarrow> c_closed c \<longrightarrow> \<not> c_reading c \<and> c_todo c = [])"

lemma open_ok_set: "open_ok r \<Longrightarrow> (c_closed c \<longrightarrow> \<not> c_reading c \<and> c_todo c = []) \<Longrightarrow> open_ok (set_conn cid c r)"
  by (simp add: open_ok_def set_conn_def)

lemma open_ok_hub: "open_ok (r\<lparr>r_hub := h\<rparr>) = open_ok r"
  by (simp add: open_ok_def)

lemma open_ok_hang_up: "open_ok r \<Longrightarrow> open_ok (hang_up cid r)"
  by (simp add: open_ok_def hang_up_def split: option.split)

lemma open_ok_act: "open_ok r \<Longrightarrow> act cid r = (r', p) \<Longrightarrow> open_ok r'"
proof -
  assume ok: "open_ok r" and a: "act cid r = (r', p)"
  show ?thesis
  proof (cases "r_conn r cid")
    case (Some c)
    show ?thesis
    proof (cases "c_todo c")
      case (Cons x xs)
      then have o: "\<not> c_closed c" using ok Some by (auto simp: open_ok_def)
      then have s: "open_ok (set_conn cid (c\<lparr>c_todo := xs\<rparr>) r)" by (intro open_ok_set [OF ok]) simp
      show ?thesis
      proof (cases x)
        case (SendTo t m)
        show ?thesis
        proof (cases "Option.bind (r_conn (set_conn cid (c\<lparr>c_todo := xs\<rparr>) r) t) (chan_send m)")
          case None
          then show ?thesis using a Some Cons SendTo open_ok_hang_up [OF s] by (auto simp: act_def)
        next
          case (Some d)
          then have "\<not> c_closed d" by (auto simp: bind_eq_Some_conv chan_send_def split: if_splits)
          then have "open_ok (set_conn t d (set_conn cid (c\<lparr>c_todo := xs\<rparr>) r))" by (intro open_ok_set [OF s]) simp
          then show ?thesis using a \<open>r_conn r cid = Some c\<close> Cons SendTo Some by (simp add: act_def)
        qed
      next
        case StartPump
        then show ?thesis using a Some Cons o open_ok_set [OF ok] by (auto simp: act_def)
      qed
    qed (use a Some ok in \<open>simp add: act_def\<close>)
  qed (use a ok in \<open>simp add: act_def\<close>)
qed

lemma run_open_ok: "relay_run es r \<Longrightarrow> open_ok r"
proof (induction rule: relay_run.induct)
  case (Connect es r cid d u now)
  then show ?case by (auto simp: open_ok_def connect_def newClient_def case_prod_beta)
next
  case (Frame es r cid c v m now r' tok)
  obtain h as tk where o: "on_frame now cid c m (r_hub r) = (h, as, tk)" by (metis prod_cases3)
  have "\<not> c_closed c" using Frame by (auto simp: open_ok_def)
  then have "open_ok ((set_conn cid (c\<lparr>c_todo := as\<rparr>) r)\<lparr>r_hub := h\<rparr>)" unfolding open_ok_hub
    by (intro open_ok_set [OF Frame.IH]) simp
  then show ?case using Frame(2,6) o by (cases r) (simp add: receive_frame_def set_conn_def)
next
  case (Act es r cid c r' p)
  then show ?case using open_ok_act by blast
next
  case (Write es r cid c m ms)
  then show ?case by (intro open_ok_set) (auto simp: open_ok_def)
next
  case (WriteError es r cid c m ms)
  then show ?case by (intro open_ok_set) (auto simp: open_ok_def)
qed (simp_all add: open_ok_hang_up, simp_all add: open_ok_def boot_def restart_def)

lemma run_open: "relay_run es r \<Longrightarrow> r_conn r cid = Some c \<Longrightarrow> c_reading c \<Longrightarrow> \<not> c_closed c"
  using run_open_ok by (auto simp: open_ok_def)

text \<open>A \<open>send\<close> frame for a connected device: the envelope goes to the recipient's channel first.\<close>

lemma live_routed:
  assumes run: "relay_run es r"
    and sender: "r_conn r a = Some ca" "c_reading ca" "c_todo ca = []"
    and target: "map_of (h_conns (r_hub r)) (routeKey (ge_recipient e) (ge_rdevice e)) = Some b" "b \<noteq> a"
      "r_conn r b = Some cb" "c_reading cb" "length (c_out cb) < 64"
    and frame: "go_msg_of v = Some m" "g_kind m = js ''send''" "g_env m = Some e"
  shows "\<exists>r1. relay_run (Acted a # Frame a m # es) r1 \<and> h_conns (r_hub r1) = h_conns (r_hub r) \<and>
    r_conn r1 = (r_conn r)(b \<mapsto> cb\<lparr>c_out := c_out cb @ [deliver_msg ((authentic ca e)\<lparr>ge_id := env_id_of (h_next (r_hub r) + 1)\<rparr>)]\<rparr>,
      a \<mapsto> ca\<lparr>c_todo := [SendTo a (ack_msg (env_id_of (h_next (r_hub r) + 1)) now (g_ref m))]\<rparr>)"
proof -
  obtain h1 e1 t tok where rt: "route now (authentic ca e) (r_hub r) = (h1, e1, t, tok)" by (metis prod_cases4)
  have t: "t = Some b" "tok = None" "e1 = (authentic ca e)\<lparr>ge_id := env_id_of (h_next (r_hub r) + 1)\<rparr>" "h_conns h1 = h_conns (r_hub r)"
    using rt target(1) by (auto simp: route_def authentic_def Let_def)
  let ?ack = "ack_msg (ge_id e1) now (g_ref m)"
  let ?ca = "ca\<lparr>c_todo := [SendTo b (deliver_msg e1), SendTo a ?ack]\<rparr>" and ?cb = "cb\<lparr>c_out := c_out cb @ [deliver_msg e1]\<rparr>"
  let ?r1 = "\<lparr>r_hub = h1, r_conn = (r_conn r)(a \<mapsto> ?ca)\<rparr>"
  let ?r2 = "set_conn b ?cb (set_conn a (ca\<lparr>c_todo := [SendTo a ?ack]\<rparr>) ?r1)"
  have o: "\<not> c_closed cb" using run_open [OF run] target by blast
  have f: "receive_frame now a m r = (?r1, None)" using sender(1) frame rt t by (simp add: receive_frame_def on_frame_def)
  have 1: "relay_run (Frame a m # es) ?r1" using relay_run.Frame [OF run sender frame(1) f] by simp
  have "act a ?r1 = (?r2, False)"
    using target(2,3,5) o by (simp add: act_def set_conn_def chan_send_def out_capacity_def Let_def)
  from relay_run.Act [OF 1 _ _ this, of ?ca] have "relay_run (Acted a # Frame a m # es) ?r2" by simp
  moreover have "r_conn ?r2 = (r_conn r)(b \<mapsto> ?cb, a \<mapsto> ca\<lparr>c_todo := [SendTo a ?ack]\<rparr>)"
    using target(2) by (auto simp: set_conn_def fun_eq_iff)
  ultimately show ?thesis using t by (intro exI [of _ ?r2]) (simp add: set_conn_def authentic_def)
qed

text \<open>The ack follows into the sender's own channel.\<close>

lemma ack_sent:
  assumes run: "relay_run es r" and a: "r_conn r a = Some c" "c_todo c = [SendTo a m]" "length (c_out c) < 64"
  shows "\<exists>r1. relay_run (Acted a # es) r1 \<and> r_hub r1 = r_hub r \<and> r_conn r1 = (r_conn r)(a \<mapsto> c\<lparr>c_todo := [], c_out := c_out c @ [m]\<rparr>)"
proof -
  let ?r1 = "set_conn a (c\<lparr>c_todo := [], c_out := c_out c @ [m]\<rparr>) (set_conn a (c\<lparr>c_todo := []\<rparr>) r)"
  have "\<not> c_closed c" using run_open_ok [OF run] a(1,2) by (auto simp: open_ok_def)
  then have "act a r = (?r1, False)" using a by (simp add: act_def set_conn_def chan_send_def out_capacity_def Let_def)
  from relay_run.Act [OF run a(1) _ this] a(2) show ?thesis by (intro exI [of _ ?r1]) (simp add: set_conn_def)
qed

text \<open>While both devices are connected and there is room in their channels, a \<open>send\<close> frame puts the envelope, numbered
  and with the sender's authenticated identity, at the end of the recipient's channel, and then an ack with that number
  and the frame's reference at the end of the sender's.\<close>

theorem live_envelope_delivered:
  assumes run: "relay_run es r"
    and sender: "r_conn r a = Some ca" "c_reading ca" "c_todo ca = []" "length (c_out ca) < 64"
    and target: "map_of (h_conns (r_hub r)) (routeKey (ge_recipient e) (ge_rdevice e)) = Some b" "b \<noteq> a"
      "r_conn r b = Some cb" "c_reading cb" "length (c_out cb) < 64"
    and frame: "go_msg_of v = Some m" "g_kind m = js ''send''" "g_env m = Some e"
  shows "\<exists>r2. relay_run (Acted a # Acted a # Frame a m # es) r2 \<and> h_conns (r_hub r2) = h_conns (r_hub r) \<and>
    r_conn r2 = (r_conn r)(b \<mapsto> cb\<lparr>c_out := c_out cb @ [deliver_msg ((authentic ca e)\<lparr>ge_id := env_id_of (h_next (r_hub r) + 1)\<rparr>)]\<rparr>,
      a \<mapsto> ca\<lparr>c_out := c_out ca @ [ack_msg (env_id_of (h_next (r_hub r) + 1)) now (g_ref m)]\<rparr>)"
proof -
  let ?i = "env_id_of (h_next (r_hub r) + 1)"
  let ?c = "ca\<lparr>c_todo := [SendTo a (ack_msg ?i now (g_ref m))]\<rparr>"
  obtain r1 where r1: "relay_run (Acted a # Frame a m # es) r1" "h_conns (r_hub r1) = h_conns (r_hub r)"
    "r_conn r1 = (r_conn r)(b \<mapsto> cb\<lparr>c_out := c_out cb @ [deliver_msg ((authentic ca e)\<lparr>ge_id := ?i\<rparr>)]\<rparr>, a \<mapsto> ?c)"
    using live_routed [OF run sender(1-3) target frame, of now] by blast
  have "ca\<lparr>c_todo := [], c_out := c_out ca @ [ack_msg ?i now (g_ref m)]\<rparr> = ca\<lparr>c_out := c_out ca @ [ack_msg ?i now (g_ref m)]\<rparr>"
    using sender(3) by (cases ca) simp
  then show ?thesis using ack_sent [OF r1(1), of a ?c] sender(4) r1(2,3) by auto
qed

subsection \<open>Witnesses\<close>

definition demo_env :: go_envelope where
  "demo_env = \<lparr>ge_id = [], ge_recipient = js ''bob'', ge_rdevice = 1, ge_sender = js ''eve'', ge_sdevice = 7, ge_type = 3,
     ge_cipher = js ''AAAA'', ge_time = 5\<rparr>"

definition demo_send :: go_msg where
  "demo_send = zero_msg\<lparr>g_kind := js ''send'', g_env := Some demo_env, g_ref := js ''c1''\<rparr>"

lemma demo_send_parses: "go_msg_of (go_msg_json demo_send) = Some demo_send"
  by code_simp

text \<open>Bob is connection 0 and Alice connection 1.\<close>

definition demo_up :: relay where
  "demo_up = fst (act 1 (connect 0 1 (js ''alice'') 1 (fst (act 0 (connect 0 0 (js ''bob'') 1 (boot False False))))))"

definition demo_events :: "relay_event list" where
  "demo_events = [Acted 1, Connected 1 (js ''alice'') 1, Acted 0, Connected 0 (js ''bob'') 1]"

lemma demo_keys: "routeKey (js ''bob'') 1 \<noteq> routeKey (js ''alice'') 1"
  by (auto simp: fits64_def js_Cons dest: routeKey_inj [rotated 2])

lemma hub_register_new: "hub_register now cid key (h\<lparr>h_queue := []\<rparr>) = (h\<lparr>h_queue := [], h_conns := map_set key cid (h_conns h)\<rparr>, [])"
  by (simp add: hub_register_def pruneQueueLocked_def queue_of_def Let_def)

lemma demo_up: "demo_up = \<lparr>r_hub = (NewHub False False)\<lparr>h_conns := [(routeKey (js ''bob'') 1, 0), (routeKey (js ''alice'') 1, 1)]\<rparr>,
    r_conn = [0 \<mapsto> (newClient (js ''bob'') 1)\<lparr>c_writing := True, c_reading := True\<rparr>,
      1 \<mapsto> (newClient (js ''alice'') 1)\<lparr>c_writing := True, c_reading := True\<rparr>]\<rparr>"
  using demo_keys
  by (simp add: demo_up_def connect_def hub_register_def pruneQueueLocked_def queue_of_def boot_def NewHub_def act_def set_conn_def
      newClient_def Let_def)

lemma demo_run: "relay_run demo_events demo_up"
proof -
  let ?a = "connect 0 0 (js ''bob'') 1 (boot False False)"
  have d: "fits64 1" by (simp add: fits64_def)
  have todo: "\<exists>c. r_conn (connect now cid u dv r) cid = Some c \<and> c_todo c \<noteq> []" for now cid u dv r
    by (simp add: connect_def case_prod_beta)
  have step: "relay_run (Acted cid # Connected cid u dv # es) (fst (act cid (connect now cid u dv r)))"
    if "relay_run es r" "\<forall>u d. Connected cid u d \<notin> set es" "fits64 dv" "\<not> snd (act cid (connect now cid u dv r))" for cid u dv es now r
  proof -
    obtain c where c: "r_conn (connect now cid u dv r) cid = Some c" "c_todo c \<noteq> []" using todo by blast
    obtain r' p where r: "act cid (connect now cid u dv r) = (r', p)" by fastforce
    from relay_run.Act [OF relay_run.Connect [OF that(1-3)] c r] show ?thesis using r that(4) by simp
  qed
  have n: "\<not> snd (act cid (connect now cid u dv r))" if "h_queue (r_hub r) = []" for cid u dv now r
    using that by (simp add: connect_def hub_register_def pruneQueueLocked_def queue_of_def act_def Let_def newClient_def)
  have "relay_run [Acted 0, Connected 0 (js ''bob'') 1] (fst (act 0 ?a))"
    by (rule step [OF relay_run.Boot]) (simp_all add: d n boot_def NewHub_def)
  from step [OF this, of 1 1 0 "js ''alice''"] show ?thesis
    unfolding demo_events_def demo_up_def
    by (simp add: d n boot_def NewHub_def connect_def hub_register_def pruneQueueLocked_def queue_of_def act_def set_conn_def newClient_def Let_def)
qed

lemma demo_live:
  "\<exists>r2 cb ca i. relay_run (Acted 1 # Acted 1 # Frame 1 demo_send # demo_events) r2 \<and> r_conn r2 0 = Some cb \<and> c_writing cb \<and>
     c_out cb = [deliver_msg (demo_env\<lparr>ge_sender := js ''alice'', ge_sdevice := 1, ge_id := i\<rparr>)] \<and>
     r_conn r2 1 = Some ca \<and> c_out ca = [ack_msg i 0 (js ''c1'')]"
proof -
  have m: "g_kind demo_send = js ''send''" "g_env demo_send = Some demo_env" by (simp_all add: demo_send_def zero_msg_def)
  show ?thesis
    using live_envelope_delivered [OF demo_run _ _ _ _ _ _ _ _ _ demo_send_parses m, of 1 _ 0 _ 0]
    by (fastforce simp: demo_up newClient_def demo_env_def authentic_def NewHub_def demo_send_def zero_msg_def)
qed

lemma relay_delivers_submitted_witness:
  "\<exists>es e. submitted es e \<and> ge_sender e = js ''alice'' \<and> ge_cipher e = js ''AAAA'' \<and> Connected 0 (js ''bob'') 1 \<in> set es"
proof -
  obtain r2 cb ca i where r: "relay_run (Acted 1 # Acted 1 # Frame 1 demo_send # demo_events) r2" "r_conn r2 0 = Some cb" "c_writing cb"
    "c_out cb = [deliver_msg (demo_env\<lparr>ge_sender := js ''alice'', ge_sdevice := 1, ge_id := i\<rparr>)]"
    using demo_live by blast
  let ?e = "demo_env\<lparr>ge_sender := js ''alice'', ge_sdevice := 1, ge_id := i\<rparr>"
  have "g_env (deliver_msg ?e) = Some ?e" by (simp add: deliver_msg_def)
  from relay_delivers_submitted [where cid = 0, OF relay_run.Write [OF r] _ this] show ?thesis
    by (intro exI [of _ "Wrote 0 (deliver_msg ?e) # Acted 1 # Acted 1 # Frame 1 demo_send # demo_events"] exI [of _ ?e])
      (simp add: demo_env_def)
qed

lemma relay_is_bounded_witness: "length (queue_of (h_queue (r_hub demo_up)) (js ''bob'')) \<le> 1000"
  using relay_is_bounded [OF demo_run] by blast

definition demo_backlog :: relay where
  "demo_backlog = \<lparr>r_hub = (NewHub True False)\<lparr>h_queue := [(routeKey (js ''bob'') 1, replicate 65 \<lparr>q_env = demo_env, q_at = 0\<rparr>)]\<rparr>,
     r_conn = (\<lambda>_. None)\<rparr>"

lemma reconnect_delivers_64_witness:
  "\<exists>(r'::relay) c n q. r_conn r' 0 = Some c \<and> length (c_out c) = 64 \<and> h_disk (r_hub r') = Some (n, q) \<and> queue_of q (routeKey (js ''bob'') 1) = []"
proof -
  have q: "queue_of (h_queue (r_hub demo_backlog)) (routeKey (js ''bob'') 1) = replicate 65 \<lparr>q_env = demo_env, q_at = 0\<rparr>"
    "h_path (r_hub demo_backlog)" by (simp_all add: demo_backlog_def queue_of_def NewHub_def)
  have f: "filter (\<lambda>e. 0 - queueTTL \<le> q_at e) (replicate 65 \<lparr>q_env = demo_env, q_at = 0\<rparr>) = replicate 65 \<lparr>q_env = demo_env, q_at = 0\<rparr>"
    by (rule filter_True) (simp add: queueTTL_def)
  have k: "retained 0 (replicate 65 \<lparr>q_env = demo_env, q_at = 0\<rparr>) = replicate 65 \<lparr>q_env = demo_env, q_at = 0\<rparr>"
    unfolding retained_def f by (simp add: maxQueuePerRecipient_def)
  define b where "b = replicate 65 \<lparr>q_env = demo_env, q_at = 0\<rparr>"
  have b: "queue_of (h_queue (r_hub demo_backlog)) (routeKey (js ''bob'') 1) = b" "retained 0 b = b" "b \<noteq> []" "length b = 65"
    using q k by (simp_all add: b_def)
  define r where "r = acts 0 (Suc (length b)) (connect 0 0 (js ''bob'') 1 demo_backlog)"
  have "r = acts 0 (Suc (length (retained 0 (queue_of (h_queue (r_hub demo_backlog)) (routeKey (js ''bob'') 1))))) (connect 0 0 (js ''bob'') 1 demo_backlog)"
    by (simp add: b r_def)
  from reconnect_delivers_64 [OF this] obtain c n p where "r_conn r 0 = Some c" "c_out c = take 64 (map (\<lambda>q. deliver_msg (q_env q)) b)"
    "h_disk (r_hub r) = Some (n, p)" "queue_of p (routeKey (js ''bob'') 1) = []"
    unfolding b(1,2) using q(2) b(3) by blast
  moreover from this have "length (c_out c) = 64" using b(4) by simp
  ultimately show ?thesis by blast
qed

lemma hang_up_race_loses_envelope_witness:
  "\<exists>r2 c. relay_run (Panicked 1 # HungUp 0 # Frame 1 demo_send # demo_events) r2 \<and> r_conn r2 1 = Some c \<and> c_closed c \<and> c_out c = []"
proof -
  have m: "g_kind demo_send = js ''send''" "g_env demo_send = Some demo_env" by (simp_all add: demo_send_def zero_msg_def)
  show ?thesis
    using hang_up_race_loses_envelope [OF demo_run _ _ _ _ _ _ _ _ demo_send_parses m, of 1 _ 0]
    by (fastforce simp: demo_up newClient_def demo_env_def NewHub_def)
qed

end
