(* ===== verification/Network.thy ===== *)
theory Network
  imports RelayProps Messaging
begin

text \<open>
  The clients and the relay together. The frames of \<open>relay.ts\<close> are what the Go structs of \<open>envelope.go\<close> unmarshal, and what
  the relay marshals is what \<open>relay.ts\<close> parses; so a run of the service can be followed from the socket of one client to
  the handlers of the other. Go's encoder escapes some characters that \<open>JSON.stringify\<close> does not, so a frame of the relay is
  any text that parses to the value it marshals (\<open>carries\<close>).
\<close>

subsection \<open>The two sides of the wire\<close>

definition carries :: "jstr \<Rightarrow> go_msg \<Rightarrow> bool" where
  "carries raw m = (json_parse raw = Some (go_msg_json m))"

text \<open>The client's envelope as the service has it.\<close>

definition go_env :: "envelope \<Rightarrow> go_envelope" where
  "go_env e = \<lparr>ge_id = (case env_id e of None \<Rightarrow> [] | Some i \<Rightarrow> i), ge_recipient = recipientId e, ge_rdevice = recipientDevice e,
     ge_sender = senderId e, ge_sdevice = senderDevice e, ge_type = type_code (env_type e), ge_cipher = ciphertext e, ge_time = timestamp e\<rparr>"

definition env_fits :: "envelope \<Rightarrow> bool" where
  "env_fits e = (fits64 (recipientDevice e) \<and> fits64 (senderDevice e) \<and> fits64 (timestamp e))"

lemma type_code_fits [simp]: "fits64 (type_code t)"
  by (cases t) (simp_all add: fits64_def)

lemma go_env_parses: "env_fits e \<Longrightarrow> go_envelope_of (env_json e) = Some (go_env e)"
  by (simp add: go_envelope_of_def go_env_def env_json_def go_str_def go_int_def payload_defs env_fits_def split: option.split)

lemma send_parses: "env_fits e \<Longrightarrow> go_msg_of (relay_json (SendEnvelope e ref)) =
    Some (zero_msg\<lparr>g_kind := js ''send'', g_env := Some (go_env e), g_ref := (case ref of None \<Rightarrow> [] | Some r \<Rightarrow> r)\<rparr>)"
proof -
  assume f: "env_fits e"
  obtain ps where ps: "env_json e = JObj ps" by (simp add: env_json_def)
  show ?thesis using go_env_parses [OF f] unfolding relay_json.simps ps
    by (simp add: go_msg_of_def go_pointer_def go_str_def go_int_def payload_defs kind_prop_def zero_msg_def split: option.split)
qed

lemma receipt_parses: "fits64 d \<Longrightarrow> go_msg_of (relay_json (DeliveryReceipt i t u d)) =
    Some (zero_msg\<lparr>g_kind := js ''receipt'', g_eid := i, g_status := status_name t, g_target := u, g_tdevice := d\<rparr>)"
  by (simp add: go_msg_of_def go_pointer_def go_str_def go_int_def payload_defs kind_prop_def zero_msg_def)

lemma push_parses: "go_msg_of (relay_json (RegisterPush t)) = Some (zero_msg\<lparr>g_kind := js ''register-push'', g_token := t\<rparr>)"
  by (simp add: go_msg_of_def go_pointer_def go_str_def go_int_def payload_defs kind_prop_def zero_msg_def)

text \<open>What the client makes of the relay's frames.\<close>

definition client_env :: "go_envelope \<Rightarrow> ciphertext_type \<Rightarrow> envelope" where
  "client_env g t = \<lparr>env_id = Some (ge_id g), recipientId = ge_recipient g, recipientDevice = ge_rdevice g, senderId = ge_sender g,
     senderDevice = ge_sdevice g, env_type = t, ciphertext = ge_cipher g, timestamp = ge_time g\<rparr>"

lemma go_envelope_read: "type_of_code (ge_type g) = Some t \<Longrightarrow> env_of_json (go_envelope_json g) = Some (client_env g t)"
  by (simp add: env_of_json_def go_envelope_json_def client_env_def payload_defs)

lemma deliver_read:
  assumes "carries raw (deliver_msg g)" "type_of_code (ge_type g) = Some t"
  shows "on_message raw c = Some (OnDeliver (client_env g t) # relay_send (delivered_receipt (client_env g t)) c)"
proof -
  obtain ps where ps: "go_envelope_json g = JObj ps" by (simp add: go_envelope_json_def)
  have "json_parse raw = Some (JObj [(js ''kind'', JStr (js ''deliver'')), (js ''envelope'', JObj ps)])"
    using assms(1) ps by (simp add: carries_def deliver_msg_def go_msg_json_def zero_msg_def omit_str_def omit_int_def opt_prop_def)
  then show ?thesis using go_envelope_read [OF assms(2)] ps by (simp add: on_message_def payload_defs Let_def)
qed

lemma ack_read: "carries raw (ack_msg i now ref) \<Longrightarrow> i \<noteq> [] \<Longrightarrow>
    on_message raw c = Some [OnAck (if ref = [] then None else Some ref) i]"
  by (simp add: on_message_def carries_def ack_msg_def go_msg_json_def zero_msg_def omit_str_def omit_int_def payload_defs Let_def)

lemma status_read: "carries raw (status_msg i (status_name t)) \<Longrightarrow> i \<noteq> [] \<Longrightarrow> on_message raw c = Some [OnStatus i t]"
  by (cases t) (simp_all add: on_message_def carries_def status_msg_def go_msg_json_def zero_msg_def omit_str_def omit_int_def payload_defs
      Let_def status_of_name_def js_Cons of_char_def)

subsection \<open>Runs\<close>

lemma env_id_ne [simp]: "env_id_of n \<noteq> []"
  by (simp add: env_id_of_def js_Cons)

lemma run_device_fits: "relay_run es r \<Longrightarrow> r_conn r cid = Some c \<Longrightarrow> fits64 (c_device c)"
  using relay_okD(3) [OF run_ok] by (simp add: conn_ok_def)

text \<open>A receipt that a connection sends becomes a status in the channel of the device it names.\<close>

definition receipt_msg :: "jstr \<Rightarrow> message_status \<Rightarrow> jstr \<Rightarrow> int \<Rightarrow> go_msg" where
  "receipt_msg i t u d = zero_msg\<lparr>g_kind := js ''receipt'', g_eid := i, g_status := status_name t, g_target := u, g_tdevice := d\<rparr>"

lemma receipt_run:
  assumes run: "relay_run es r" and b: "r_conn r b = Some cb" "c_reading cb" "c_todo cb = []"
    and a: "map_of (h_conns (r_hub r)) (routeKey u d) = Some a" "a \<noteq> b" "r_conn r a = Some ca" "\<not> c_closed ca" "length (c_out ca) < 64"
    and t: "t \<in> {Delivered, Read}" "u \<noteq> []" "fits64 d"
  shows "\<exists>r2. relay_run (Acted b # Frame b (receipt_msg i t u d) # es) r2 \<and> r_hub r2 = r_hub r \<and>
    r_conn r2 = (r_conn r)(a \<mapsto> ca\<lparr>c_out := c_out ca @ [status_msg i (status_name t)]\<rparr>)"
proof -
  let ?m = "receipt_msg i t u d" and ?st = "status_msg i (status_name t)"
  let ?r1 = "\<lparr>r_hub = r_hub r, r_conn = (r_conn r)(b \<mapsto> cb\<lparr>c_todo := [SendTo a ?st]\<rparr>)\<rparr>"
  let ?r2 = "set_conn a (ca\<lparr>c_out := c_out ca @ [?st]\<rparr>) (set_conn b (cb\<lparr>c_todo := []\<rparr>) ?r1)"
  have m: "go_msg_of (relay_json (DeliveryReceipt i t u d)) = Some ?m"
    using receipt_parses [OF t(3)] by (simp only: receipt_msg_def)
  have "on_frame 0 b cb ?m (r_hub r) = (r_hub r, [SendTo a ?st], None)"
    using a(1) t by (auto simp: on_frame_def receipt_msg_def zero_msg_def)
  then have f: "receive_frame 0 b ?m r = (?r1, None)" using b(1) by (simp add: receive_frame_def)
  have 1: "relay_run (Frame b ?m # es) ?r1" using relay_run.Frame [OF run b m f] by simp
  have 2: "act b ?r1 = (?r2, False)"
    using a by (simp add: act_def set_conn_def chan_send_def out_capacity_def Let_def)
  have "relay_run (Acted b # Frame b ?m # es) ?r2" using relay_run.Act [OF 1 _ _ 2] by simp
  moreover have "cb\<lparr>c_todo := []\<rparr> = cb" using b(3) by (cases cb) simp
  then have "r_conn ?r2 = (r_conn r)(a \<mapsto> ca\<lparr>c_out := c_out ca @ [?st]\<rparr>)"
    using a(2) b(1) by (auto simp: set_conn_def fun_eq_iff)
  ultimately show ?thesis by (intro exI [of _ ?r2]) (simp add: set_conn_def)
qed

lemma write_run:
  assumes "relay_run es r" "r_conn r x = Some c" "c_writing c" "c_out c = m # ms"
  shows "\<exists>r2. relay_run (Wrote x m # es) r2 \<and> r_hub r2 = r_hub r \<and> r_conn r2 = (r_conn r)(x \<mapsto> c\<lparr>c_out := ms\<rparr>)"
  using relay_run.Write [OF assms] by (intro exI [of _ "set_conn x (c\<lparr>c_out := ms\<rparr>) r"]) (simp add: set_conn_def)

subsection \<open>A message and its ticks\<close>

text \<open>The frame that \<open>sendEnvelope\<close> writes, as the service reads it, and the envelope that arrives.\<close>

definition send_msg :: "envelope \<Rightarrow> jstr \<Rightarrow> go_msg" where
  "send_msg e ref = zero_msg\<lparr>g_kind := js ''send'', g_env := Some (go_env e), g_ref := ref\<rparr>"

definition as_delivered :: "conn \<Rightarrow> jstr \<Rightarrow> envelope \<Rightarrow> envelope" where
  "as_delivered c i e = e\<lparr>env_id := Some i, senderId := c_user c, senderDevice := c_device c\<rparr>"

lemma send_msg_fields [simp]: "g_kind (send_msg e ref) = js ''send''" "g_env (send_msg e ref) = Some (go_env e)" "g_ref (send_msg e ref) = ref"
  by (simp_all add: send_msg_def zero_msg_def)

lemma as_delivered_read: "carries raw (deliver_msg ((authentic c (go_env e))\<lparr>ge_id := i\<rparr>)) \<Longrightarrow>
    on_message raw sock = Some (OnDeliver (as_delivered c i e) # relay_send (DeliveryReceipt i Delivered (c_user c) (c_device c)) sock)"
proof -
  let ?g = "(authentic c (go_env e))\<lparr>ge_id := i\<rparr>"
  have t: "type_of_code (ge_type ?g) = Some (env_type e)" by (simp add: authentic_def go_env_def)
  have a: "client_env ?g (env_type e) = as_delivered c i e" by (simp add: client_env_def as_delivered_def authentic_def go_env_def)
  assume "carries raw (deliver_msg ?g)"
  from deliver_read [OF this t, of sock] show ?thesis unfolding a by (simp add: delivered_receipt_def as_delivered_def)
qed


text \<open>The service sends the envelope before the ack, and nothing orders the ack before the receipt: the recipient's answer may
  be forwarded in between. The sender's client then gets "delivered" for an id it does not know yet and drops it; the
  tick stays at "sent".\<close>

theorem early_receipt_is_lost:
  assumes run: "relay_run es r" and e: "env_fits e" "ref \<noteq> []"
    and a: "r_conn r a = Some ca" "c_reading ca" "c_writing ca" "c_todo ca = []" "c_out ca = []" "c_user ca \<noteq> []"
      "map_of (h_conns (r_hub r)) (c_key ca) = Some a"
    and b: "r_conn r b = Some cb" "c_reading cb" "c_writing cb" "c_todo cb = []" "c_out cb = []" "a \<noteq> b"
      "map_of (h_conns (r_hub r)) (routeKey (recipientId e) (recipientDevice e)) = Some b"
    and fresh: "\<forall>i. map_of (envelopeToRef s) i = None"
  shows "\<exists>i dm am sm rm r2. go_msg_of (relay_json (DeliveryReceipt i Delivered (c_user ca) (c_device ca))) = Some rm \<and>
    relay_run (Wrote a am # Wrote a sm # Acted a # Acted b # Frame b rm # Wrote b dm # Acted a # Frame a (send_msg e ref) # es) r2 \<and>
    (\<forall>raw sock. carries raw sm \<longrightarrow> on_message raw sock = Some [OnStatus i Delivered]) \<and>
    (\<forall>raw sock. carries raw am \<longrightarrow> on_message raw sock = Some [OnAck (Some ref) i]) \<and>
    handleStatus i Delivered s = [] \<and> snd (handleAck (Some ref) i s) = [(ref, Sent)]"
proof -
  let ?i = "env_id_of (h_next (r_hub r) + 1)" and ?u = "c_user ca" and ?d = "c_device ca"
  let ?dm = "deliver_msg ((authentic ca (go_env e))\<lparr>ge_id := ?i\<rparr>)" and ?am = "ack_msg ?i 0 ref" and ?rm = "receipt_msg ?i Delivered ?u ?d"
  let ?sm = "status_msg ?i (status_name Delivered)"
  have fits: "fits64 ?d" using run_device_fits [OF run a(1)] .
  have v: "go_msg_of (relay_json (SendEnvelope e (Some ref))) = Some (send_msg e ref)" using send_parses [OF e(1)] by (simp only: send_msg_def) simp
  have k: "map_of (h_conns (r_hub r)) (routeKey (ge_recipient (go_env e)) (ge_rdevice (go_env e))) = Some b" using b(7) by (simp add: go_env_def)
  have l: "length (c_out cb) < 64" using b(5) by simp
  obtain r1 where r1: "relay_run (Acted a # Frame a (send_msg e ref) # es) r1" "h_conns (r_hub r1) = h_conns (r_hub r)"
    "r_conn r1 = (r_conn r)(b \<mapsto> cb\<lparr>c_out := [?dm]\<rparr>, a \<mapsto> ca\<lparr>c_todo := [SendTo a ?am]\<rparr>)"
    using live_routed [OF run a(1,2,4) k b(6) [symmetric] b(1,2) l v send_msg_fields(1,2), of 0] b(5) by auto
  obtain r2 where r2: "relay_run (Wrote b ?dm # Acted a # Frame a (send_msg e ref) # es) r2" "r_hub r2 = r_hub r1"
    "r_conn r2 = (r_conn r)(b \<mapsto> cb\<lparr>c_out := []\<rparr>, a \<mapsto> ca\<lparr>c_todo := [SendTo a ?am]\<rparr>)"
    using write_run [OF r1(1), of b "cb\<lparr>c_out := [?dm]\<rparr>"] r1(3) b(3,6) by (auto simp: fun_upd_twist)
  have u: "map_of (h_conns (r_hub r2)) (routeKey ?u ?d) = Some a" using a(7) r1(2) r2(2) by (simp add: c_key_def)
  obtain r3 where r3: "relay_run (Acted b # Frame b ?rm # Wrote b ?dm # Acted a # Frame a (send_msg e ref) # es) r3"
    "r_conn r3 a = Some (ca\<lparr>c_todo := [SendTo a ?am], c_out := [?sm]\<rparr>)"
    using receipt_run [OF r2(1), of b "cb\<lparr>c_out := []\<rparr>" ?u ?d a "ca\<lparr>c_todo := [SendTo a ?am]\<rparr>" Delivered ?i] r2(3) a(5,6) b(2,4,6) u fits
      run_open [OF run a(1,2)] by auto
  obtain r4 where r4: "relay_run (Acted a # Acted b # Frame b ?rm # Wrote b ?dm # Acted a # Frame a (send_msg e ref) # es) r4"
    "r_conn r4 a = Some (ca\<lparr>c_out := [?sm, ?am], c_todo := []\<rparr>)"
    using ack_sent [OF r3] by auto
  obtain r5 where r5: "relay_run (Wrote a ?sm # Acted a # Acted b # Frame b ?rm # Wrote b ?dm # Acted a # Frame a (send_msg e ref) # es) r5"
    "r_conn r5 a = Some (ca\<lparr>c_out := [?am], c_todo := []\<rparr>)"
    using write_run [OF r4] a(3) by auto
  obtain r6 where r6: "relay_run (Wrote a ?am # Wrote a ?sm # Acted a # Acted b # Frame b ?rm # Wrote b ?dm # Acted a # Frame a (send_msg e ref) # es) r6"
    using write_run [OF r5] a(3) by auto
  have rm: "go_msg_of (relay_json (DeliveryReceipt ?i Delivered ?u ?d)) = Some ?rm" using receipt_parses [OF fits] by (simp only: receipt_msg_def)
  have h: "handleStatus ?i Delivered s = []" "snd (handleAck (Some ref) ?i s) = [(ref, Sent)]"
    using fresh e(2) by (simp_all add: handleAck_def handleStatus_def)
  show ?thesis
    using r6 rm ack_read [of _ ?i 0 ref] e(2) status_read [of _ ?i Delivered] h
    by (intro exI [of _ ?i] exI [of _ ?dm] exI [of _ ?am] exI [of _ ?sm] exI [of _ ?rm] exI [of _ r6] conjI) (simp_all del: relay_json.simps)
qed

text \<open>A receipt, from the connection that sends it to the handler of the client it names.\<close>

lemma receipt_reaches:
  assumes run: "relay_run es r" and x: "r_conn r x = Some cx" "c_reading cx" "c_todo cx = []"
    and a: "r_conn r a = Some ca" "c_reading ca" "c_writing ca" "c_out ca = []" "c_user ca \<noteq> []" "a \<noteq> x"
      "map_of (h_conns (r_hub r)) (c_key ca) = Some a"
    and t: "t \<in> {Delivered, Read}" "i \<noteq> []"
  shows "\<exists>fm sm r2. go_msg_of (relay_json (DeliveryReceipt i t (c_user ca) (c_device ca))) = Some fm \<and>
    relay_run (Wrote a sm # Acted x # Frame x fm # es) r2 \<and> (\<forall>raw sock. carries raw sm \<longrightarrow> on_message raw sock = Some [OnStatus i t])"
proof -
  let ?fm = "receipt_msg i t (c_user ca) (c_device ca)" and ?sm = "status_msg i (status_name t)"
  have fits: "fits64 (c_device ca)" using run_device_fits [OF run a(1)] .
  obtain r1 where r1: "relay_run (Acted x # Frame x ?fm # es) r1" "r_conn r1 a = Some (ca\<lparr>c_out := [?sm]\<rparr>)"
    using receipt_run [OF run x, of "c_user ca" "c_device ca" a ca t i] a t(1) fits run_open [OF run a(1,2)]
    by (auto simp: c_key_def)
  obtain r2 where r2: "relay_run (Wrote a ?sm # Acted x # Frame x ?fm # es) r2" using write_run [OF r1] a(3) by auto
  have fm: "go_msg_of (relay_json (DeliveryReceipt i t (c_user ca) (c_device ca))) = Some ?fm"
    using receipt_parses [OF fits] by (simp only: receipt_msg_def)
  show ?thesis using r2 fm status_read [of _ i t] t(2)
    by (intro exI [of _ ?fm] exI [of _ ?sm] exI [of _ r2] conjI) (simp_all del: relay_json.simps)
qed

text \<open>C40: The service forwards any receipt: it does not know who received an envelope. Ids are consecutive, so any user can
  turn the ticks of anyone's messages blue that are on their way to somebody else.\<close>

theorem receipts_can_be_forged:
  assumes run: "relay_run es r"
    and eve: "r_conn r x = Some cx" "c_reading cx" "c_todo cx = []"
    and author: "r_conn r a = Some ca" "c_reading ca" "c_writing ca" "c_out ca = []" "c_user ca \<noteq> []" "a \<noteq> x"
      "map_of (h_conns (r_hub r)) (c_key ca) = Some a"
    and own: "map_of (envelopeToRef s) (env_id_of n) = Some ref" "ref \<noteq> []"
  shows "\<exists>fm sm r2. go_msg_of (relay_json (DeliveryReceipt (env_id_of n) Read (c_user ca) (c_device ca))) = Some fm \<and>
    relay_run (Wrote a sm # Acted x # Frame x fm # es) r2 \<and>
    (\<forall>raw sock. carries raw sm \<longrightarrow> on_message raw sock = Some [OnStatus (env_id_of n) Read]) \<and>
    handleStatus (env_id_of n) Read s = [(ref, Read)]"
proof -
  have "handleStatus (env_id_of n) Read s = [(ref, Read)]" using own by (simp add: handleStatus_def)
  then show ?thesis using receipt_reaches [OF run eve author, of Read "env_id_of n"] by (simp del: relay_json.simps)
qed

subsection \<open>Witnesses\<close>

definition demo_text :: envelope where
  "demo_text = \<lparr>env_id = None, recipientId = js ''bob'', recipientDevice = 1, senderId = js ''eve'', senderDevice = 9, env_type = Whisper,
     ciphertext = js ''AAAA'', timestamp = 5\<rparr>"

lemma demo_conns:
  "r_conn demo_up 0 = Some ((newClient (js ''bob'') 1)\<lparr>c_writing := True, c_reading := True\<rparr>)"
  "r_conn demo_up 1 = Some ((newClient (js ''alice'') 1)\<lparr>c_writing := True, c_reading := True\<rparr>)"
  "map_of (h_conns (r_hub demo_up)) (routeKey (js ''bob'') 1) = Some 0"
  "map_of (h_conns (r_hub demo_up)) (routeKey (js ''alice'') 1) = Some 1"
  using demo_keys by (simp_all add: demo_up)

lemma demo_conn_fields [simp]:
  "c_user ((newClient u d)\<lparr>c_writing := True, c_reading := True\<rparr>) = u" "c_device ((newClient u d)\<lparr>c_writing := True, c_reading := True\<rparr>) = d"
  "c_out ((newClient u d)\<lparr>c_writing := True, c_reading := True\<rparr>) = []" "c_todo ((newClient u d)\<lparr>c_writing := True, c_reading := True\<rparr>) = []"
  "c_key ((newClient u d)\<lparr>c_writing := True, c_reading := True\<rparr>) = routeKey u d"
  by (simp_all add: newClient_def c_key_def)

lemma demo_text_fields: "env_fits demo_text" "env_id demo_text = None" "recipientId demo_text = js ''bob''" "recipientDevice demo_text = 1"
  by (simp_all add: demo_text_def env_fits_def fits64_def)


lemma early_receipt_is_lost_witness:
  "\<exists>i dm am sm rm r2. relay_run (Wrote 1 am # Wrote 1 sm # Acted 1 # Acted 0 # Frame 0 rm # Wrote 0 dm # Acted 1 #
     Frame 1 (send_msg demo_text (js ''c1'')) # demo_events) r2 \<and> handleStatus i Delivered (demo_messenger\<lparr>envelopeToRef := []\<rparr>) = []"
proof -
  have n: "js ''c1'' \<noteq> []" "js ''alice'' \<noteq> []" "(1::nat) \<noteq> 0" by (simp_all add: js_Cons)
  from early_receipt_is_lost [OF demo_run demo_text_fields(1) n(1) demo_conns(2) _ _ _ _ _ _ demo_conns(1) _ _ _ _ n(3),
    of "demo_messenger\<lparr>envelopeToRef := []\<rparr>"] n demo_conns(3,4) demo_text_fields(3,4)
  show ?thesis by (simp del: relay_json.simps) blast
qed

lemma receipts_can_be_forged_witness:
  "\<exists>fm sm r2. relay_run (Wrote 1 sm # Acted 0 # Frame 0 fm # demo_events) r2 \<and>
     (\<forall>raw sock. carries raw sm \<longrightarrow> on_message raw sock = Some [OnStatus (env_id_of 4) Read])"
proof -
  have n: "js ''c1'' \<noteq> []" "js ''alice'' \<noteq> []" "(1::nat) \<noteq> 0" by (simp_all add: js_Cons)
  have s: "map_of (envelopeToRef (demo_messenger\<lparr>envelopeToRef := [(env_id_of 4, js ''c1'')]\<rparr>)) (env_id_of 4) = Some (js ''c1'')" by simp
  from receipts_can_be_forged [OF demo_run demo_conns(1) _ _ demo_conns(2) _ _ _ _ n(3) _ s n(1)] n demo_conns(4)
  show ?thesis by (simp del: relay_json.simps) blast
qed

end
