(* ===== verification/Journeys.thy ===== *)
theory Journeys
  imports ChatView Media MessagingProps Typing Network
begin

text \<open>
  What travels from one user's screen to the other's, through all the layers: a read receipt, a typing signal, a file;
  and what a group message may do on its way.

  Between the two clients stand the relay, whose runs are those of \<open>RelayService\<close>, and libsignal. That texts arrive as they
  were sent is \<open>text_end_to_end\<close> of \<open>Spec2Isabelle\<close>; here the body that one store hands out is given to the other's \<open>receive\<close>.
\<close>

subsection \<open>The blue ticks\<close>

lemma markRead_sends:
  assumes "conv_of s p = Some c" "m \<in> set (messages c)" "needs_receipt m"
  shows "receipt_of p m \<in> set (snd (markRead p s))"
  using assms by (auto simp: markRead_def Let_def case_prod_beta filter_empty_conv)


subsection \<open>"typing..."\<close>

lemma receive_typing: "receive me peer (buildTypingBody p) at env v s =
    Some (s, [RouteTyping (case typing_gid p of None \<Rightarrow> peer | Some g \<Rightarrow> g) peer (typing p)])"
proof -
  have "body_kind (buildTypingBody p) = KTyping" by simp
  then have "isTypingBody (buildTypingBody p)" by (simp add: body_kind_def split: if_splits)
  moreover obtain w where "parseTypingBody (buildTypingBody p) = Some w" "truthy w" "typing_of_json w = Some p"
    using typing_body.parsed by blast
  ultimately show ?thesis by (simp add: receive_def on_payload_def)
qed

text \<open>The first key of a text shows in the other user's header: the composer announces it, the announcement arrives as a
  typing signal for the sender's thread, and the header of that thread says "typing...", with no message in any thread.\<close>

theorem typing_end_to_end:
  assumes typist: "length t \<noteq> 0" "3000 < now - lastTypingSent k"
      "conv_of s peer = Some c" "messages c \<noteq> []" "group c = None"
    and reader: "typing_reach t0 ts" "t0 \<le> at"
      "cp_typing pr = snd (getTyping at me (fst (receiveTyping at me me True ts)))"
  shows "snd (handleDraftChange now t k) = [True] \<and>
    (\<exists>body. snd (sendTyping (Some me) peer True s) = [SendText peer body None] \<and>
       receive (Some peer) me body at env v r = Some (r, [RouteTyping me me True]) \<and>
       headerSub pr None = js ''typing'' @ ELLIPSIS)"
proof -
  have "me \<in> set (cp_typing pr)" using typing_signal_shown [OF reader(1,2)] reader(3) by simp
  then have "headerSub pr None = js ''typing'' @ ELLIPSIS"
    by (auto simp: headerSub_def split: list.split)
  then show ?thesis using typist
    by (simp add: handleDraftChange_def TYPING_THROTTLE_MS_def Let_def sendTyping_def receive_typing)
qed

subsection \<open>A file\<close>

lemma receive_media_body: "receive me peer (mediaBody ref) at env v s = Some (receive_media peer ref at env s)"
proof -
  have "body_kind (mediaBody ref) = KMedia" by (simp add: mediaBody_def)
  then have "\<not> isTypingBody (mediaBody ref)" "\<not> isCallBody (mediaBody ref)" "\<not> isGroupBody (mediaBody ref)"
    "\<not> isStatusBody (mediaBody ref)" "isMediaBody (mediaBody ref)"
    by (auto simp: body_kind_def split: if_splits)
  moreover obtain w where "parseMediaBody (mediaBody ref) = Some w" "truthy w" "media_of_json w = Some ref"
    using media_body.parsed by blast
  ultimately show ?thesis by (simp add: receive_def on_payload_def)
qed

lemma find_index_app: "(\<forall>x\<in>set xs. \<not> P x) \<Longrightarrow> find_index P (xs @ ys) = map_option ((+) (length xs)) (find_index P ys)"
proof (induction xs)
  case Nil
  then show ?case by (cases "find_index P ys") (simp_all del: find_index_None)
next
  case (Cons x xs)
  then show ?case by (cases "find_index P ys") (simp_all del: find_index_None)
qed

lemma data_uri_bytes: "44 \<notin> set mt \<Longrightarrow> base64FromDataUri (toDataUri bs mt) = bytes_to_base64 bs"
proof -
  assume m: "44 \<notin> set mt"
  let ?h = "js ''data:'' @ mt @ js '';base64''"
  have "(44::unit16) \<notin> set ?h" using m by (auto simp: js_Cons of_char_def)
  then have "\<forall>x\<in>set ?h. x \<noteq> 44" by blast
  from find_index_app [OF this, of "44 # bytes_to_base64 bs"]
  have "find_index (\<lambda>c. c = 44) (?h @ 44 # bytes_to_base64 bs) = Some (length ?h)" by simp
  moreover have "toDataUri bs mt = ?h @ 44 # bytes_to_base64 bs" by (simp add: toDataUri_def js_Cons of_char_def)
  ultimately show ?thesis by (simp add: base64FromDataUri_def)
qed

text \<open>The newest message of a thread, and changing it.\<close>

lemma last_distinct:
  assumes "store_inv s" "conv_of s p = Some c" "messages c = xs @ [m]"
  shows "\<forall>x\<in>set xs. m_id x \<noteq> m_id m"
proof -
  have "distinct (map m_id (xs @ [m]))" using store_invD(2) [OF assms(1,2)] assms(3) by (simp add: conv_ok_def)
  then have "m_id m \<notin> m_id ` set xs" by simp
  then show ?thesis by (metis image_eqI)
qed

lemma patch_last:
  assumes "store_inv s" "conv_of s p = Some c" "messages c = xs @ [m]" "keeps f"
  shows "\<exists>c'. conv_of (fst (patch p (m_id m) f s)) p = Some c' \<and> messages c' = xs @ [f m]"
    and "store_inv (fst (patch p (m_id m) f s))"
proof -
  have "map (\<lambda>x. if m_id x = m_id m then f x else x) xs = xs"
    using last_distinct [OF assms(1-3)] by (simp add: map_idI)
  then show "\<exists>c'. conv_of (fst (patch p (m_id m) f s)) p = Some c' \<and> messages c' = xs @ [f m]"
    using assms(2,3) by (simp add: patch_map [OF assms(1)] map_msg_def ids_def)
  show "store_inv (fst (patch p (m_id m) f s))" using inv_patch [OF assms(1,4)] .
qed

lemma find_last:
  assumes "store_inv s" "conv_of s p = Some c" "messages c = xs @ [m]"
  shows "find_msg s p (m_id m) = Some m"
proof -
  have "find (\<lambda>x. m_id x = m_id m) xs = None" using last_distinct [OF assms] by (simp add: find_None_iff)
  then show ?thesis using assms(2,3) by (simp add: find_msg_def find_append)
qed

lemma receive_file:
  assumes "store_inv r" "\<not> isImageMime (Some (mime ref))" "receive_media p ref at env r = (r1, es)"
  obtains c m where "store_inv r1" "conv_of r1 p = Some c" "messages c = getMessages r p @ [m]" "m_id m = msg_id (counter r)"
    "media m = Some ref" "mediaUri m = None" "mediaName m = mname ref" "mediaMime m = Some (mime ref)" "mediaState m = None"
    "\<not> mine m" "\<not> mediaSaved m"
proof -
  define m where "m = (with_env env (snd (Conversations.make (mediaLabel (Some (mime ref)) (mname ref)) False at r)))
    \<lparr>media := Some ref, mediaMime := Some (mime ref), mediaName := mname ref, mediaSize := Some (msize ref)\<rparr>"
  let ?e = "snd (ensure p r)"
  have "conv_of (fst (receive_media p ref at env r)) p = Some (?e\<lparr>unread := unread ?e + 1, lastAt := at, messages := messages ?e @ [m]\<rparr>)"
    using assms(2) by (simp add: receive_media_def Conversations.make_def m_def with_env_def Let_def case_prod_beta append_msg_conv)
  moreover have "messages ?e = getMessages r p" by (simp add: ensure_value getMessages_def empty_conv_def split: option.split)
  ultimately obtain c where c: "conv_of r1 p = Some c" "messages c = getMessages r p @ [m]" using assms(3) by simp
  have "store_inv r1" using inv_receive_media [OF assms(1), of p ref at env] assms(3) by simp
  then show ?thesis by (rule that [OF _ c]) (simp_all add: m_def Conversations.make_def with_env_def)
qed

lemma handleSaveFile_loads:
  assumes "store_inv s" "conv_of s p = Some c" "messages c = xs @ [m]" "media m = Some ref" "mediaUri m = None" "cp_peer pr = p"
  shows "handleSaveFile decode pr (m_id m) s = (fst (loadMedia p (m_id m) ref s), snd (loadMedia p (m_id m) ref s), None)"
  using find_last [OF assms(1-3)] assms(4-6) by (simp add: handleSaveFile_def saveMedia_def case_prod_beta)

text \<open>The message is downloaded, and the bytes that were downloaded are written.\<close>

lemma loaded_is_saved:
  assumes "store_inv s" "conv_of s p = Some c" "messages c = xs @ [m]" "mime ref = pl_mime f" "mname ref = Some n"
    and "pl_bytes f \<noteq> []" "44 \<notin> set (pl_mime f)"
  shows "saveMedia_loaded rn_base64_to_bytes p (m_id m) ref (fst (loadMedia_done p (m_id m) (Some (delivered f)) (fst (loadMedia p (m_id m) r s)))) =
    (Writing, [SaveFile p (m_id m) (pl_bytes f) (pl_mime f) n])"
proof -
  let ?ld = "\<lambda>x. x\<lparr>mediaState := Some Loading\<rparr>" and ?uri = "toDataUri (pl_bytes f) (pl_mime f)"
  let ?rd = "\<lambda>x. x\<lparr>mediaUri := Some ?uri, mediaState := Some Ready\<rparr>" and ?s2 = "fst (loadMedia p (m_id m) r s)"
  let ?s3 = "fst (loadMedia_done p (m_id m) (Some (delivered f)) ?s2)"
  have s2: "?s2 = fst (patch p (m_id m) ?ld s)" by (simp add: loadMedia_def case_prod_beta)
  obtain c2 where c2: "store_inv ?s2" "conv_of ?s2 p = Some c2" "messages c2 = xs @ [?ld m]"
    using patch_last [OF assms(1-3), of ?ld] unfolding s2 by auto
  have s3: "?s3 = fst (patch p (m_id (?ld m)) ?rd ?s2)" by (simp add: loadMedia_done_def delivered_def)
  obtain c3 where c3: "store_inv ?s3" "conv_of ?s3 p = Some c3" "messages c3 = xs @ [?rd (?ld m)]"
    using patch_last [OF c2, of ?rd] unfolding s3 by auto
  have "find_msg ?s3 p (m_id m) = Some (?rd (?ld m))" using find_last [OF c3] by simp
  moreover have "?uri \<noteq> []" by (simp add: toDataUri_def js_Cons)
  moreover have "bytes_to_base64 [] = []" by (simp add: bytes_to_base64_def)
  then have "bytes_to_base64 (pl_bytes f) \<noteq> []" using assms(6) base64_roundtrip by (metis option.inject)
  ultimately show ?thesis
    using assms(4,5,7) by (simp add: saveMedia_loaded_def save_bytes_def data_uri_bytes rn_decoder Let_def)
qed


text \<open>An empty file arrives but cannot be saved: its data URI has no data.\<close>

theorem empty_file_cannot_be_saved:
  assumes "find_msg s p i = Some m" "media m = Some ref" "mediaUri m = Some (toDataUri [] mt)" "44 \<notin> set mt"
  shows "saveMedia decode p i s = (s, NoData, [])"
  using assms data_uri_bytes [OF assms(4), of "[]"]
  by (simp add: saveMedia_def save_bytes_def bytes_to_base64_def Let_def) (simp add: toDataUri_def js_Cons)

subsection \<open>A group message may take over a thread\<close>

text \<open>C32: The id in a group body is not checked: a body whose group id is the account of a third user turns the receiver's
  private thread with that user into a group of the sender's choice, puts the sender's text into it, and sends what the
  receiver writes there next to the sender's members and not to the user.\<close>

theorem group_body_takes_over_thread:
  assumes thread: "conv_of r victim = Some c" "group c = None" and "me \<noteq> []" "eve \<noteq> me" "eve \<noteq> victim"
  shows "\<exists>r1 es d m. receive (Some me) eve (buildGroupBody \<lparr>gid = victim, group_name = nm, group_members = [eve], group_text = txt\<rparr>)
      at env v r = Some (r1, es) \<and>
    conv_of r1 victim = Some d \<and> messages d = messages c @ [m] \<and> m_text m = txt \<and> \<not> mine m \<and>
    group d = Some \<lparr>g_name = nm, g_members = [eve]\<rparr> \<and>
    (\<forall>q. (\<exists>b ref. SendText q b ref \<in> set (snd (send (Some me) now victim reply r1))) \<longleftrightarrow> q = eve)"
proof -
  let ?p = "\<lparr>gid = victim, group_name = nm, group_members = [eve], group_text = txt\<rparr>"
  obtain r1 es where r1: "receive_group (Some me) eve ?p at env v r = (r1, es)" by fastforce
  then have rc: "receive (Some me) eve (buildGroupBody ?p) at env v r = Some (r1, es)" by (simp add: receive_group_body)
  obtain d m where d: "conv_of r1 victim = Some d" "messages d = messages c @ [m]" "m_text m = txt" "\<not> mine m"
    "group d = Some \<lparr>g_name = nm, g_members = [eve]\<rparr>"
    using receive_group_conv [of "Some me" eve ?p at env v r] r1 thread assms(3,4) by (auto simp: getMessages_def others_def)
  have "send (Some me) now victim reply r1 = sendGroup (Some me) now victim d \<lparr>g_name = nm, g_members = [eve]\<rparr> reply r1"
    using d(1,5) by (simp add: send_def ensure_def)
  then have "(\<exists>b ref. SendText q b ref \<in> set (snd (send (Some me) now victim reply r1))) \<longleftrightarrow> q = eve" for q
    using assms(4) by (auto simp: sendGroup_effects others_def)
  then show ?thesis using rc d by blast
qed

subsection \<open>Witnesses\<close>

definition demo_inbox :: conv_store where
  "demo_inbox = fst (receive_text (js ''alice'') (js ''hi'') 6 (Some (js ''e1'')) None init_store)"

lemma demo_inbox_conv: "\<exists>c m. conv_of demo_inbox (js ''alice'') = Some c \<and> messages c = [m] \<and> \<not> mine m \<and> \<not> readSent m \<and> m_sender m = None \<and>
    envelopeId m = Some (js ''e1'')"
  unfolding demo_inbox_def receive_text_conv
  by (simp add: Let_def ensure_value init_store_def conv_of_def empty_conv_def Conversations.make_def with_env_def js_Cons)


lemma typing_end_to_end_witness:
  "\<exists>body. snd (sendTyping (Some (js ''me'')) (js ''bob'') True demo) = [SendText (js ''bob'') body None]"
proof -
  obtain n where n: "conv_of demo (js ''bob'') = Some ((empty_conv (js ''bob''))\<lparr>messages := [n], lastAt := 5\<rparr>)" using demo_conv by blast
  let ?ts = "snd (getTyping 3 (js ''me'') (fst (receiveTyping 3 (js ''me'') (js ''me'') True typing_init)))"
  have p: "cp_typing (ChatProps (js ''me'') None True ?ts [] None (\<lambda>t. 0)) = ?ts" by simp
  have a: "length [65::unit16] \<noteq> 0" "3000 < 9999 - lastTypingSent new_composer" by (simp_all add: new_composer_def)
  from typing_end_to_end [OF a n _ _ typing_reach.Init [of 0] _ p] show ?thesis by (simp add: empty_conv_def) blast
qed


lemma empty_file_cannot_be_saved_witness:
  "\<exists>s. saveMedia rn_base64_to_bytes (js ''alice'') (msg_id 0) s = (s, NoData, [])"
proof -
  obtain c m where m: "conv_of demo_inbox (js ''alice'') = Some c" "messages c = [m]" using demo_inbox_conv by blast
  let ?m = "\<lambda>r. m\<lparr>m_id := msg_id 0, media := Some r, mediaUri := Some (toDataUri [] (js ''text/plain''))\<rparr>"
  have "find_msg (put (js ''alice'') (c\<lparr>messages := [?m r]\<rparr>) init_store) (js ''alice'') (msg_id 0) = Some (?m r)" for r
    by (simp add: find_msg_def)
  from empty_file_cannot_be_saved [OF this] show ?thesis by (force simp: js_Cons of_char_def)
qed

lemma group_body_takes_over_thread_witness:
  "\<exists>r1 es d. receive (Some (js ''me'')) (js ''eve'') (buildGroupBody \<lparr>gid = js ''bob'', group_name = js ''bob'',
      group_members = [js ''eve''], group_text = js ''hi''\<rparr>) 7 None None demo = Some (r1, es) \<and>
    conv_of r1 (js ''bob'') = Some d \<and> group d = Some \<lparr>g_name = js ''bob'', g_members = [js ''eve'']\<rparr>"
proof -
  obtain n where n: "conv_of demo (js ''bob'') = Some ((empty_conv (js ''bob''))\<lparr>messages := [n], lastAt := 5\<rparr>)" using demo_conv by blast
  have a: "js ''me'' \<noteq> []" "js ''eve'' \<noteq> js ''me''" "js ''eve'' \<noteq> js ''bob''" by (simp_all add: js_Cons of_char_def)
  from group_body_takes_over_thread [OF n _ a] show ?thesis by (simp add: empty_conv_def) blast
qed

end
