(* ===== verification/Subscriptions.thy ===== *)
theory Subscriptions
  imports ConvProps Statuses
begin

text \<open>
  The stores as React sees them. A store has a set of listeners (\<open>subscribe\<close>) that \<open>emit\<close> calls, and a snapshot
  (\<open>getConversations\<close>, \<open>getMessages\<close>, \<open>getSnapshot\<close>). A component that uses \<open>useSyncExternalStore\<close> shows the snapshot it
  read last: when it is mounted, and whenever its listener is called.

  The locale \<open>external_store\<close> is what a store owes such a component: a call that changes the snapshot calls the
  listeners. \<open>mounted\<close> is a component over any calls of the store; its lemma is that it never shows an old snapshot. It is
  interpreted on the conversation store, of which \<open>conv_call\<close> are the methods with the calls they make, and on the
  status store.
\<close>

subsection \<open>Listeners\<close>

definition subscribe :: "'l \<Rightarrow> 'l list \<Rightarrow> 'l list" where
  "subscribe l ls = (if l \<in> set ls then ls else ls @ [l])"

definition unsubscribe :: "'l \<Rightarrow> 'l list \<Rightarrow> 'l list" where
  "unsubscribe l ls = removeAll l ls"

lemma listeners: "distinct ls \<Longrightarrow> distinct (subscribe l ls) \<and> set (subscribe l ls) = insert l (set ls)"
    "distinct ls \<Longrightarrow> distinct (unsubscribe l ls) \<and> set (unsubscribe l ls) = set ls - {l}"
  by (auto simp: subscribe_def unsubscribe_def distinct_removeAll)

text \<open>A component that subscribed and left again has left no listener, and no other is lost.\<close>

lemma unsubscribe_subscribe: "l \<notin> set ls \<Longrightarrow> unsubscribe l (subscribe l ls) = ls"
  by (simp add: subscribe_def unsubscribe_def)

subsection \<open>The contract\<close>

inductive mounted :: "('s \<Rightarrow> 'e list \<Rightarrow> 's \<Rightarrow> bool) \<Rightarrow> ('e \<Rightarrow> bool) \<Rightarrow> ('s \<Rightarrow> 'v) \<Rightarrow> ('s \<Rightarrow> bool) \<Rightarrow> 's \<Rightarrow> 'v \<Rightarrow> bool"
  for does tells snap good where
  Mount: "good s \<Longrightarrow> mounted does tells snap good s (snap s)"
| Call: "mounted does tells snap good s v \<Longrightarrow> does s es s' \<Longrightarrow>
    mounted does tells snap good s' (if \<exists>e\<in>set es. tells e then snap s' else v)"

locale external_store =
  fixes does :: "'s \<Rightarrow> 'e list \<Rightarrow> 's \<Rightarrow> bool" and tells :: "'e \<Rightarrow> bool" and snap :: "'s \<Rightarrow> 'v" and good :: "'s \<Rightarrow> bool"
  assumes told: "good s \<Longrightarrow> does s es s' \<Longrightarrow> (\<exists>e\<in>set es. tells e) \<or> snap s' = snap s"
    and good_step: "good s \<Longrightarrow> does s es s' \<Longrightarrow> good s'"
begin

lemma in_sync: "mounted does tells snap good s v \<Longrightarrow> good s \<and> v = snap s"
proof (induction rule: mounted.induct)
  case (Call s v es s')
  then show ?case using told good_step by metis
qed simp

end

subsection \<open>The conversation store\<close>

inductive conv_call :: "jstr option \<Rightarrow> conv_store \<Rightarrow> conv_effect list \<Rightarrow> conv_store \<Rightarrow> bool" for me where
  Start: "start s = (s', es) \<Longrightarrow> conv_call me s es s'"
| Hydrate: "hydrate blob s = (s', es) \<Longrightarrow> conv_call me s es s'"
| SetPeerIdentity: "setPeerIdentity p k s = (s', es) \<Longrightarrow> conv_call me s es s'"
| EnsurePeer: "ensurePeer p ph s = (s', es) \<Longrightarrow> conv_call me s es s'"
| Send: "send me now p tx s = (s', es) \<Longrightarrow> conv_call me s es s'"
| CreateGroup: "createGroup now rnd name ms s = (s', es, g) \<Longrightarrow> conv_call me s es s'"
| SendTyping: "sendTyping me p on s = (s', es) \<Longrightarrow> conv_call me s es s'"
| SendMedia: "sendMedia now p d s = (s', es) \<Longrightarrow> conv_call me s es s'"
| Uploaded: "sendMedia_uploaded p mid ref r s = (s', es) \<Longrightarrow> conv_call me s es s'"
| UploadFailed: "sendMedia_failed p mid s = (s', es) \<Longrightarrow> conv_call me s es s'"
| LoadMedia: "loadMedia p mid r s = (s', es) \<Longrightarrow> conv_call me s es s'"
| Loaded: "loadMedia_done p mid res s = (s', es) \<Longrightarrow> conv_call me s es s'"
| LoadPending: "loadPendingMedia p s = (s', es) \<Longrightarrow> conv_call me s es s'"
| Download: "Conversations.downloadMedia p mid s = (s', es) \<Longrightarrow> conv_call me s es s'"
| Save: "saveMedia decode p mid s = (s', res, es) \<Longrightarrow> conv_call me s es s'"
| Saved: "saveMedia_done p mid s = (s', es) \<Longrightarrow> conv_call me s es s'"
| ApplyStatus: "applyStatus ref t s = (s', es) \<Longrightarrow> conv_call me s es s'"
| MarkRead: "markRead p s = (s', es) \<Longrightarrow> conv_call me s es s'"
| ToggleStar: "toggleStar p mid s = (s', es) \<Longrightarrow> conv_call me s es s'"
| Dismiss: "dismissScamWarning p mid s = (s', es) \<Longrightarrow> conv_call me s es s'"
| Receive: "receive me p tx a env v s = Some (s', es) \<Longrightarrow> conv_call me s es s'"
| PersistTick: "persist_tick s = (s', es) \<Longrightarrow> conv_call me s es s'"
| Reset: "reset s = (s', es) \<Longrightarrow> conv_call me s es s'"

text \<open>What \<open>useConversations\<close> and \<open>useMessages\<close> read, and that the list names stored threads only.\<close>

definition screens :: "conv_store \<Rightarrow> conversation list \<times> (jstr \<Rightarrow> chat_message list)" where
  "screens s = (getConversations s, getMessages s)"

definition listed :: "conv_store \<Rightarrow> bool" where
  "listed s = (\<forall>p\<in>set (listSnapshot s). conv_of s p \<noteq> None)"

definition current :: "conv_store \<Rightarrow> conv_effect list \<Rightarrow> conv_store \<Rightarrow> bool" where
  "current s es s' = ((Emit \<in> set es \<or> screens s' = screens s) \<and> listed s')"

lemma listed_publish [simp]: "listed (fst (publish u))"
  unfolding listed_def publish_snapshot by (auto simp: conv_of_def map_of_eq_None_iff)

lemma emit_publish [simp]: "Emit \<in> set (snd (publish u))"
  by (simp add: publish_effects)

lemma current_publish [simp]: "Emit \<in> set es \<Longrightarrow> current s es (fst (publish u))"
  by (simp add: current_def)

lemma current_same [simp]: "listed s \<Longrightarrow> current s es s"
  by (simp add: current_def)

lemma current_more: "current s es s' \<Longrightarrow> set es \<subseteq> set fs \<Longrightarrow> current s fs s'"
  by (auto simp: current_def)

lemma current_extend [simp]: "current s es t \<Longrightarrow> current s (es @ fs) t"
  by (rule current_more) auto

lemma current_trans: "current s es t \<Longrightarrow> current t fs u \<Longrightarrow> current s (es @ fs) u"
  by (auto simp: current_def)

text \<open>Updates that write no thread, and threads that are created empty.\<close>

lemma screens_fields [simp]: "screens (s\<lparr>saveTimer := b\<rparr>) = screens s" "screens (s\<lparr>started := b\<rparr>) = screens s"
    "listed (s\<lparr>saveTimer := b\<rparr>) = listed s" "listed (s\<lparr>started := b\<rparr>) = listed s"
  by (simp_all add: screens_def getConversations_def getMessages_def listed_def conv_of_def fun_eq_iff)

lemma listed_put [simp]: "listed s \<Longrightarrow> listed (put p c s)"
  by (auto simp: listed_def)

lemma map_filter_cong: "(\<And>x. x \<in> set xs \<Longrightarrow> f x = g x) \<Longrightarrow> List.map_filter f xs = List.map_filter g xs"
  by (induction xs) (auto simp: List.map_filter_simps split: option.split)

lemma screens_ensure: "listed s \<Longrightarrow> current s [] (fst (ensure p s))"
proof (cases "conv_of s p")
  case None
  then have s': "fst (ensure p s) = put p (empty_conv p) s" by (simp add: ensure_def)
  assume l: "listed s"
  then have "p \<notin> set (listSnapshot s)" using None by (auto simp: listed_def)
  then have "getConversations (put p (empty_conv p) s) = getConversations s"
    by (auto simp: getConversations_def intro!: map_filter_cong)
  moreover have "getMessages (put p (empty_conv p) s) = getMessages s"
    using None by (auto simp: getMessages_def empty_conv_def fun_eq_iff)
  ultimately show ?thesis using l by (simp add: current_def screens_def s')
qed (simp add: ensure_def)

lemma current_patch: "listed s \<Longrightarrow> current s (snd (patch p i f s)) (fst (patch p i f s))"
  by (simp add: patch_def split: option.split)

lemma current_map_msg: "listed s \<Longrightarrow> current s (snd (map_msg p i f s)) (fst (map_msg p i f s))"
  by (simp add: map_msg_def split: option.split)

lemma current_loadMedia: "listed s \<Longrightarrow> current s (snd (loadMedia p i r s)) (fst (loadMedia p i r s))"
  unfolding loadMedia_def Let_def case_prod_beta
  by (rule current_more, simp, rule current_patch) auto

lemma current_load_all: "listed s \<Longrightarrow> current s (snd (load_all p ms s)) (fst (load_all p ms s))"
proof (induction ms arbitrary: s)
  case (Cons m ms)
  have "current s (snd (loadMedia p (m_id m) r s)) (fst (loadMedia p (m_id m) r s))" for r
    using current_loadMedia [OF Cons.prems] .
  moreover from this have "listed (fst (loadMedia p (m_id m) r s))" for r by (simp add: current_def)
  ultimately show ?case using Cons by (auto simp: Let_def case_prod_beta intro!: current_trans split: option.split)
qed simp

lemma current_status: "listed s \<Longrightarrow> current s (snd (status_loop ref t m s)) (fst (status_loop ref t m s))"
  by (induction ref t m s rule: status_loop.induct) (auto split: option.split)

lemma current_markRead: "listed s \<Longrightarrow> current s (snd (markRead p s)) (fst (markRead p s))"
proof (cases "conv_of s p")
  case (Some c)
  assume l: "listed s"
  show ?thesis
  proof (cases "filter needs_receipt (messages c) \<noteq> [] \<or> unread c \<noteq> 0")
    case True
    then show ?thesis using Some by (auto simp: markRead_def Let_def case_prod_beta)
  next
    case False
    then have "markRead p s = (s, [])"
      using Some mark_id [of "messages c"] put_same [of s p c] by (cases c) (auto simp: markRead_def Let_def)
    then show ?thesis using l by simp
  qed
qed (simp add: markRead_def)

lemma current_append [simp]: "current s (snd (append_msg q c m b u)) (fst (append_msg q c m b u))"
    "listed (fst (append_msg q c m b u))" "Emit \<in> set (snd (append_msg q c m b u))"
  by (simp_all add: append_msg_def)

lemma current_receive_media: "current s (snd (receive_media p f a env s)) (fst (receive_media p f a env s))"
  by (auto simp: receive_media_def Let_def case_prod_beta intro!: current_trans [OF _ current_loadMedia])

lemma current_receive: "listed s \<Longrightarrow> receive me p tx a env v s = Some r \<Longrightarrow> current s (snd r) (fst r)"
proof -
  assume l: "listed s" and r: "receive me p tx a env v s = Some r"
  have tex: "current s (snd (receive_text p tx a env v s)) (fst (receive_text p tx a env v s))"
    by (simp add: receive_text_def Let_def case_prod_beta)
  have grp: "current s (snd (receive_group me p g a env v s)) (fst (receive_group me p g a env v s))" for g
    by (simp add: receive_group_def Let_def case_prod_beta)
  have eph: "current s [e] s" for e using l by (simp add: current_def)
  show ?thesis using r l
    by (auto simp: receive_def on_payload_def tex grp eph current_receive_media split: if_splits option.splits)
qed

text \<open>The other methods. \<open>current_pair\<close> turns what they return into the form of \<open>conv_call\<close>.\<close>

lemma current_pair: "r = (s', es) \<Longrightarrow> current s (snd r) (fst r) \<Longrightarrow> current s es s'"
  by simp

lemma current_quiet: "current s [] t \<Longrightarrow> current s es t"
  by (auto simp: current_def)

lemma current_peers: "listed s \<Longrightarrow> current s (snd (setPeerIdentity p k s)) (fst (setPeerIdentity p k s))"
    "listed s \<Longrightarrow> current s (snd (ensurePeer p ph s)) (fst (ensurePeer p ph s))"
    "listed s \<Longrightarrow> current s (snd (hydrate blob s)) (fst (hydrate blob s))"
    "listed s \<Longrightarrow> current s (snd (start s)) (fst (start s))"
    "listed s \<Longrightarrow> current s (snd (persist_tick s)) (fst (persist_tick s))"
    "current s (snd (reset s)) (fst (reset s))"
  using screens_ensure [of s p]
  by (auto simp: setPeerIdentity_def ensurePeer_def hydrate_def start_def persist_tick_def reset_def Let_def
      case_prod_beta current_def split: option.split)

lemma current_sends: "current s (snd (send me now p tx s)) (fst (send me now p tx s))"
    "listed s \<Longrightarrow> current s (snd (sendTyping me p on s)) (fst (sendTyping me p on s))"
    "current s (snd (sendMedia now p d s)) (fst (sendMedia now p d s))"
    "createGroup now rnd name ms s = (s', es, g) \<Longrightarrow> current s es s'"
  by (auto simp: send_def sendGroup_def sendTyping_def sendMedia_def createGroup_def Let_def case_prod_beta
      publish_effects current_def split: option.split)

lemma current_attachments: assumes "listed s"
  shows "current s (snd (sendMedia_uploaded p mid ref r s)) (fst (sendMedia_uploaded p mid ref r s))"
    "current s (snd (sendMedia_failed p mid s)) (fst (sendMedia_failed p mid s))"
    "current s (snd (loadMedia_done p mid res s)) (fst (loadMedia_done p mid res s))"
    "current s (snd (loadPendingMedia p s)) (fst (loadPendingMedia p s))"
    "current s (snd (Conversations.downloadMedia p mid s)) (fst (Conversations.downloadMedia p mid s))"
    "current s (snd (saveMedia_done p mid s)) (fst (saveMedia_done p mid s))"
  using current_patch [OF assms] current_load_all [OF assms] current_loadMedia [OF assms] assms
  by (auto simp: sendMedia_uploaded_def sendMedia_failed_def loadMedia_done_def loadPendingMedia_def
      Conversations.downloadMedia_def saveMedia_done_def Let_def case_prod_beta split: option.split)

lemma current_saveMedia: "listed s \<Longrightarrow> saveMedia decode p mid s = (s', res, es) \<Longrightarrow> current s es s'"
  using current_loadMedia [of s p mid]
  by (auto simp: saveMedia_def Let_def case_prod_beta split: option.splits if_splits)

lemma call_current: "conv_call me s es s' \<Longrightarrow> listed s \<Longrightarrow> current s es s'"
proof (induction rule: conv_call.induct)
  case (CreateGroup now rnd name ms s s' es g)
  then show ?case by (simp add: current_sends)
next
  case (Save decode p mid s s' res es)
  then show ?case using current_saveMedia by blast
next
  case (Receive p tx a env v s s' es)
  then show ?case using current_receive by fastforce
qed (erule current_pair, simp add: current_peers current_sends current_attachments current_loadMedia
  current_status applyStatus_def current_markRead toggleStar_def dismissScamWarning_def current_map_msg)+

lemma listed_init: "listed init_store"
  by (simp add: listed_def init_store_def)

interpretation threads: external_store "conv_call me" "(=) Emit" screens listed
  using call_current by unfold_locales (auto simp: current_def)

text \<open>C11: Whatever the conversation store is asked to do while a screen is mounted (sending, receiving, a status or a receipt,
  an attachment's progress, a star, the blob that arrives late, a reset), the list and the threads that the screen shows
  are the store's own: no method changes what \<open>getConversations\<close> or \<open>getMessages\<close> returns without telling the listeners.
\<close>

theorem screens_are_current:
  assumes "mounted (conv_call me) ((=) Emit) screens listed s v"
  shows "fst v = getConversations s \<and> snd v peer = getMessages s peer"
  using threads.in_sync [OF assms] by (simp add: screens_def)

definition demo_told :: conv_store where
  "demo_told = fst (send None 7 [97] [98] init_store)"

lemma screens_are_current_witness:
  "\<exists>v. mounted (conv_call None) ((=) Emit) screens listed demo_told v \<and> map m_text (snd v [97]) = [[98]]"
proof -
  have "conv_call None init_store (snd (send None 7 [97] [98] init_store)) demo_told"
    by (rule conv_call.Send) (simp add: demo_told_def)
  then obtain v where v: "mounted (conv_call None) ((=) Emit) screens listed demo_told v"
    using mounted.Call [OF mounted.Mount [where good = listed and s = init_store, OF listed_init]] by blast
  moreover have "map m_text (getMessages demo_told [97]) = [[98]]" by code_simp
  ultimately show ?thesis using screens_are_current [OF v] by metis
qed

subsection \<open>The status store\<close>

text \<open>\<open>upsert\<close> always tells its listeners, \<open>prune\<close> only when it drops something: then nothing else changed.\<close>

inductive status_call :: "status_store \<Rightarrow> bool list \<Rightarrow> status_store \<Rightarrow> bool" where
  AddOwn: "status_call s [True] (addOwn now p s)"
| ReceiveStatus: "status_call s [True] (receiveStatus now u p ph s)"
| Prune: "prune now s = (s', b) \<Longrightarrow> status_call s [b] s'"

lemma status_told: "status_call s es s' \<Longrightarrow> (\<exists>b\<in>set es. b) \<or> s' = s"
  by (erule status_call.cases) (auto simp: prune_def Let_def split: if_splits)

interpretation statuses: external_store status_call "\<lambda>b. b" "\<lambda>s. s" "\<lambda>_. True"
  by unfold_locales (simp_all add: status_told)

lemma updates_are_current: "mounted status_call (\<lambda>b. b) (\<lambda>s. s) (\<lambda>_. True) s v \<Longrightarrow> v = s"
  by (simp add: statuses.in_sync)

end
