(* ===== verification/AuthToken.thy ===== *)
theory AuthToken
  imports RelayService Discovery MessagingProps Sha256
begin

text \<open>
  The bearer tokens of \<open>backend/authtoken/token.go\<close>, which the discovery service signs, the relay verifies and the client
  reads the expiry of (\<open>expiringSoon\<close> in \<open>discovery.ts\<close>), and the relay's socket handler (\<open>main.go\<close>) that turns the URL the
  client connects to into an authenticated connection. HMAC and base64url are the standard library's; HMAC is over
  the SHA-256 of \<open>Sha256\<close>. Times are milliseconds; \<open>Unix()\<close> is whole seconds.
\<close>

subsection \<open>\<open>token.go\<close>\<close>

definition hmac_block :: "byte list \<Rightarrow> byte list" where
  "hmac_block key = (let k = (if 64 < length key then sha256 key else key) in k @ replicate (64 - length k) 0)"

definition hmac_sha256 :: "byte list \<Rightarrow> byte list \<Rightarrow> byte list" where
  "hmac_sha256 key msg =
    (let k = hmac_block key in
     sha256 (map (\<lambda>b. b XOR 0x5c) k @ sha256 (map (\<lambda>b. b XOR 0x36) k @ msg)))"

text \<open>\<open>base64.RawURLEncoding\<close>: no padding; line ends are skipped, and nothing but its alphabet is decoded.\<close>

definition raw_url :: "byte list \<Rightarrow> jstr" where
  "raw_url bs = strip_eq (map (sub_unit 47 95) (map (sub_unit 43 45) (bytes_to_base64 bs)))"

definition url_unit :: "unit16 \<Rightarrow> bool" where
  "url_unit c = (65 \<le> c \<and> c \<le> 90 \<or> 97 \<le> c \<and> c \<le> 122 \<or> 48 \<le> c \<and> c \<le> 57 \<or> c = 45 \<or> c = 95)"

definition raw_url_decode :: "jstr \<Rightarrow> byte list option" where
  "raw_url_decode s =
    (let t = filter (\<lambda>c. c \<noteq> 10 \<and> c \<noteq> 13) s in if list_all url_unit t then url_to_bytes t else None)"

definition token_mac :: "byte list \<Rightarrow> jstr \<Rightarrow> jstr" where
  "token_mac secret p = raw_url (hmac_sha256 secret (utf8_encode p))"

text \<open>\<open>json.Marshal\<close> of the claims. Account ids are UUIDs, so that none of its extra escapes occurs.\<close>

definition claims_json :: "jstr \<Rightarrow> jstr \<Rightarrow> int \<Rightarrow> json" where
  "claims_json uid kind exp = JObj [(js ''uid'', JStr uid), (js ''k'', JStr kind), (js ''exp'', JInt exp)]"

definition exp_at :: "int \<Rightarrow> int \<Rightarrow> int" where
  "exp_at now ttl = (now + ttl) div 1000"

definition sign :: "byte list \<Rightarrow> jstr \<Rightarrow> jstr \<Rightarrow> int \<Rightarrow> int \<Rightarrow> jstr" where
  "sign secret uid kind ttl now =
    (let p = raw_url (utf8_encode (stringify (claims_json uid kind (exp_at now ttl))))
     in p @ js ''.'' @ token_mac secret p)"

text \<open>\<open>parse\<close>: the account, the kind and the expiry; the JSON is unmarshalled into the claims struct.\<close>

definition claims_of :: "json \<Rightarrow> (jstr \<times> jstr \<times> int) option" where
  "claims_of v =
    (case v of JNull \<Rightarrow> Some ([], [], 0)
     | JObj ps \<Rightarrow> (case (go_str v ''uid'', go_str v ''k'', go_int v ''exp'') of (Some u, Some k, Some e) \<Rightarrow> Some (u, k, e) | _ \<Rightarrow> None)
     | _ \<Rightarrow> None)"

definition parse_token :: "byte list \<Rightarrow> int \<Rightarrow> jstr \<Rightarrow> (jstr \<times> jstr \<times> int) option" where
  "parse_token secret now tok =
    (case find_index (\<lambda>c. c = 46) tok of None \<Rightarrow> None
     | Some i \<Rightarrow>
        if token_mac secret (take i tok) \<noteq> drop (Suc i) tok then None
        else (case Option.bind (Option.bind (raw_url_decode (take i tok)) (\<lambda>bs. json_parse (utf8_decode bs))) claims_of of
            None \<Rightarrow> None
          | Some (u, k, e) \<Rightarrow> if e \<le> now div 1000 then None else Some (u, k, e)))"

definition verify_access :: "byte list \<Rightarrow> int \<Rightarrow> jstr \<Rightarrow> (jstr \<times> int) option" where
  "verify_access secret now tok =
    (case parse_token secret now tok of Some (u, k, e) \<Rightarrow> if k = js ''access'' then Some (u, e) else None | None \<Rightarrow> None)"

definition devSecret :: jstr where
  "devSecret = js ''hwfa-dev-insecure-shared-secret-change-me''"

definition resolveSecret :: "jstr \<Rightarrow> bool \<Rightarrow> byte list option" where
  "resolveSecret env production =
    (if env \<noteq> [] then Some (utf8_encode env) else if production then None else Some (utf8_encode devSecret))"

subsection \<open>The socket handler of the relay\<close>

text \<open>\<open>strconv.Atoi\<close>, and \<open>Query().Get\<close> of \<open>net/url\<close>: the first pair with the key whose escapes are valid.\<close>

definition atoi :: "jstr \<Rightarrow> int option" where
  "atoi s =
    (let neg = (\<exists>r. s = 45 # r); ds = (if s \<noteq> [] \<and> hd s \<in> {43, 45} then tl s else s);
         n = (if neg then - int (digits_val ds) else int (digits_val ds))
     in if ds \<noteq> [] \<and> (\<forall>c\<in>set ds. is_digit c) \<and> fits64 n then Some n else None)"

fun unescape_bytes :: "bool \<Rightarrow> jstr \<Rightarrow> byte list option" where
  "unescape_bytes q [] = Some []"
| "unescape_bytes q (c # cs) =
    (if c = 37 then
       (case cs of a # b # r \<Rightarrow>
          (case (hex_val a, hex_val b) of
             (Some x, Some y) \<Rightarrow> map_option ((#) (of_nat (16 * x + y))) (unescape_bytes q r) | _ \<Rightarrow> None)
        | _ \<Rightarrow> None)
     else if q \<and> c = 43 then map_option ((#) 32) (unescape_bytes q cs)
     else map_option ((@) (utf8_encode [c])) (unescape_bytes q cs))"

definition query_unescape :: "jstr \<Rightarrow> jstr option" where
  "query_unescape s = map_option utf8_decode (unescape_bytes True s)"

fun split_at :: "unit16 \<Rightarrow> jstr \<Rightarrow> jstr list" where
  "split_at x [] = [[]]"
| "split_at x (c # cs) =
    (if c = x then [] # split_at x cs else (case split_at x cs of s # ss \<Rightarrow> (c # s) # ss | [] \<Rightarrow> [[c]]))"

definition query_pair :: "jstr \<Rightarrow> (jstr \<times> jstr) option" where
  "query_pair p =
    (let (k, v) = (case find_index (\<lambda>c. c = 61) p of None \<Rightarrow> (p, []) | Some i \<Rightarrow> (take i p, drop (Suc i) p)) in
     if p = [] \<or> 59 \<in> set p then None
     else case (query_unescape k, query_unescape v) of (Some k', Some v') \<Rightarrow> Some (k', v') | _ \<Rightarrow> None)"

definition query_get :: "jstr \<Rightarrow> string \<Rightarrow> jstr" where
  "query_get q k =
    (case map_of (List.map_filter query_pair (split_at 38 q)) (js k) of None \<Rightarrow> [] | Some v \<Rightarrow> v)"

definition url_query :: "jstr \<Rightarrow> jstr" where
  "url_query url =
    (let u = takeWhile (\<lambda>c. c \<noteq> 35) url in
     case find_index (\<lambda>c. c = 63) u of None \<Rightarrow> [] | Some i \<Rightarrow> drop (Suc i) u)"

text \<open>The status of a refusal, or the account, the device and when the socket is closed.\<close>

definition socket_handler :: "byte list \<Rightarrow> int \<Rightarrow> jstr \<Rightarrow> int + jstr \<times> int \<times> int" where
  "socket_handler secret now url =
    (case atoi (query_get (url_query url) ''deviceId'') of None \<Rightarrow> Inl 400
     | Some d \<Rightarrow>
        (case verify_access secret now (query_get (url_query url) ''token'') of None \<Rightarrow> Inl 401
         | Some (u, e) \<Rightarrow> Inr (u, d, e)))"

subsection \<open>A signed token parses back\<close>

lemma raw_url_sextets: "raw_url bs = map to_url (map b64_char (sextets (map unat bs)))"
proof -
  have "unat b < 2 ^ LENGTH(8)" for b :: byte by (rule unsigned_less)
  then have "\<forall>n\<in>set (map unat bs). n < 256" by simp
  then have "n \<in> set (sextets (map unat bs)) \<Longrightarrow> b64_ok n" for n using sextets_less b64_ok by blast
  then have "\<forall>c\<in>set (map to_url (map b64_char (sextets (map unat bs)))). c \<noteq> 61" by (auto simp: b64_ok_def Let_def)
  moreover have "map to_url (padding n) = padding n" for n by (simp add: to_url_def sub_unit_def padding_def)
  ultimately show ?thesis
    by (simp add: raw_url_def bytes_to_base64_def b64_enc_sextets map_url_eqs dropWhile_padding strip_eq_id del: map_map)
qed

definition url_sextet :: "nat \<Rightarrow> bool" where
  "url_sextet n = url_unit (to_url (b64_char n))"

lemma url_table: "list_all url_sextet [0..<64]"
  by code_simp

lemma raw_url_units: "c \<in> set (raw_url bs) \<Longrightarrow> url_unit c"
proof -
  have "unat b < 2 ^ LENGTH(8)" for b :: byte by (rule unsigned_less)
  then have "\<forall>n\<in>set (map unat bs). n < 256" by simp
  then have "n < 64" if "n \<in> set (sextets (map unat bs))" for n using that sextets_less by blast
  then have "url_sextet n" if "n \<in> set (sextets (map unat bs))" for n
    using that url_table by (simp add: list_all_iff)
  then show "c \<in> set (raw_url bs) \<Longrightarrow> url_unit c" by (auto simp: raw_url_sextets url_sextet_def)
qed

lemma url_unit_plain: "url_unit c \<Longrightarrow> c \<noteq> 46 \<and> c \<noteq> 10 \<and> c \<noteq> 13 \<and> c \<noteq> 37 \<and> c \<noteq> 43 \<and> c \<noteq> 38 \<and> c \<noteq> 61 \<and> c \<noteq> 59 \<and> c \<noteq> 35 \<and> c < 128"
  by (auto simp: url_unit_def) uint_arith+

lemma raw_url_text: "raw_url (utf8_encode s) = base64_url_encode s"
  by (simp add: raw_url_def base64_url_encode_def)

lemma raw_url_back: "raw_url_decode (raw_url (utf8_encode s)) = Some (utf8_encode s)"
proof -
  have "url_unit c" if "c \<in> set (raw_url (utf8_encode s))" for c using that by (rule raw_url_units)
  then have "filter (\<lambda>c. c \<noteq> 10 \<and> c \<noteq> 13) (raw_url (utf8_encode s)) = raw_url (utf8_encode s) \<and>
      list_all url_unit (raw_url (utf8_encode s))"
    using url_unit_plain by (auto simp: list_all_iff intro!: filter_True)
  then show ?thesis by (simp add: raw_url_decode_def raw_url_text url_bytes_roundtrip)
qed

lemma quote_one_ascii: "c < 128 \<Longrightarrow> d \<in> set (quote_one c) \<Longrightarrow> d < 128"
proof -
  have h: "hex_char n < 128" if "n < 16" for n
  proof -
    have "list_all (\<lambda>n. hex_char n < 128) [0..<16]" by code_simp
    then show ?thesis using that by (simp add: list_all_iff)
  qed
  have "unat c < 2 ^ LENGTH(16)" by (rule unsigned_less)
  then have m: "unat c div 4096 < 16" by simp
  have e: "e < 128" if "short_escape c = Some e" for e
    using that by (auto simp: short_escape_def split: if_splits)
  show "c < 128 \<Longrightarrow> d \<in> set (quote_one c) \<Longrightarrow> d < 128"
    using e h m by (auto simp: quote_one_def u_escape_def hex4_def Let_def split: option.splits if_splits)
qed

lemma quote_ascii: "\<forall>c\<in>set s. c < 128 \<Longrightarrow> c \<in> set (quote s) \<Longrightarrow> c < 128"
proof -
  have "\<forall>c\<in>set s. c < 128 \<Longrightarrow> c \<in> set (quote_body s) \<Longrightarrow> c < 128"
    by (induction s rule: quote_body.induct) (auto dest: quote_one_ascii split: if_splits)
  then show "\<forall>c\<in>set s. c < 128 \<Longrightarrow> c \<in> set (quote s) \<Longrightarrow> c < 128" by (auto simp: quote_def)
qed

definition ascii :: "jstr \<Rightarrow> bool" where
  "ascii s = list_all (\<lambda>c. c < 128) s"

lemma ascii_js: "list_all (\<lambda>c. of_char c < (128 :: unit16)) k \<Longrightarrow> ascii (js k)"
  by (induction k) (auto simp: ascii_def js_Cons)

lemma claims_ascii: "ascii uid \<Longrightarrow> ascii k \<Longrightarrow> \<forall>c\<in>set (stringify (claims_json uid k e)). c < 128"
proof -
  assume "ascii uid" "ascii k"
  moreover have "ascii (js ''uid'')" "ascii (js ''k'')" "ascii (js ''exp'')" by code_simp+
  ultimately show ?thesis
    using quote_ascii int_str_ascii by (auto simp: claims_json_def ascii_def list_all_iff)
qed

lemma find_first: "\<forall>y\<in>set x. \<not> P y \<Longrightarrow> P c \<Longrightarrow> find_index P (x @ c # r) = Some (length x)"
  by (induction x) auto

lemma claims_back: "fits64 e \<Longrightarrow> claims_of (claims_json uid k e) = Some (uid, k, e)"
  by (simp add: claims_of_def claims_json_def go_str_def go_int_def field_def js_Cons)

lemma sign_parts:
  fixes now ttl :: int
  assumes "ascii uid" "ascii k"
  defines "p \<equiv> base64_url_encode (stringify (claims_json uid k (exp_at now ttl)))"
  shows "sign secret uid k ttl now = p @ 46 # token_mac secret p" "\<forall>c\<in>set p. c \<noteq> 46" "p \<noteq> []"
    "raw_url_decode p = Some (utf8_encode (stringify (claims_json uid k (exp_at now ttl))))"
    "decodeBase64Url p = Some (stringify (claims_json uid k (exp_at now ttl)))"
proof -
  let ?j = "stringify (claims_json uid k (exp_at now ttl))"
  have a: "\<forall>c\<in>set ?j. c < 128" using assms(1,2) by (rule claims_ascii)
  show "sign secret uid k ttl now = p @ 46 # token_mac secret p"
    by (simp add: sign_def p_def raw_url_text Let_def js_Cons)
  show "\<forall>c\<in>set p. c \<noteq> 46" unfolding p_def by (rule url_no_dot)
  show "raw_url_decode p = Some (utf8_encode ?j)" unfolding p_def by (simp only: raw_url_back flip: raw_url_text)
  show "decodeBase64Url p = Some ?j"
    unfolding p_def decodeBase64Url_def url_bytes_roundtrip by (simp only: utf8_ascii [OF a] option.map ascii_back [OF a])
  moreover have "url_to_bytes [] = Some []" by code_simp
  ultimately show "p \<noteq> []" by (auto simp: decodeBase64Url_def claims_json_def)
qed

theorem token_parses_back:
  assumes "ascii uid" "ascii k" "fits64 (exp_at now ttl)"
  shows "parse_token secret t (sign secret uid k ttl now) =
    (if exp_at now ttl \<le> t div 1000 then None else Some (uid, k, exp_at now ttl))"
proof -
  let ?j = "stringify (claims_json uid k (exp_at now ttl))"
  note p = sign_parts [OF assms(1,2), where now = now and ttl = ttl]
  have a: "\<forall>c\<in>set ?j. c < 128" using assms(1,2) by (rule claims_ascii)
  have "c < 0xd800" if "c < 128" for c :: unit16 using that by uint_arith
  with a have "wf16 ?j" by (auto intro: wf16_plain)
  then have "utf8_decode (utf8_encode ?j) = ?j" by (rule utf8_roundtrip)
  moreover have "json_parse ?j = Some (claims_json uid k (exp_at now ttl))"
    by (rule json_roundtrip) (simp add: claims_json_def js_Cons)
  ultimately show ?thesis
    using p(2,4) find_first [of "base64_url_encode ?j" "\<lambda>c. c = 46" 46 "token_mac secret (base64_url_encode ?j)"]
    by (simp add: p(1) parse_token_def claims_back assms(3) del: stringify.simps)
qed

lemma token_parses_back_witness:
  "parse_token [] 0 (sign [] [65] [66] 5000 0) = Some ([65], [66], 5)"
  using token_parses_back [of "[65]" "[66]" 0 5000 "[]" 0] by (simp add: ascii_def fits64_def exp_at_def)

lemma expiringSoon_sign:
  assumes "ascii uid" "ascii k"
  shows "expiringSoon frac t (sign secret uid k ttl now) = (exp_at now ttl * 1000 - t < 60000)"
proof -
  let ?j = "stringify (claims_json uid k (exp_at now ttl))"
  note p = sign_parts [OF assms, where now = now and ttl = ttl]
  have "find_index (\<lambda>c. c = 46) (sign secret uid k ttl now) = Some (length (base64_url_encode ?j))"
    using p(2) unfolding p(1) by (intro find_first) auto
  moreover obtain n where "length (base64_url_encode ?j) = Suc n" using p(3) by (cases "base64_url_encode ?j") auto
  moreover have "json_parse ?j = Some (claims_json uid k (exp_at now ttl))"
    by (rule json_roundtrip) (simp add: claims_json_def js_Cons)
  moreover have "take (length (base64_url_encode ?j)) (sign secret uid k ttl now) = base64_url_encode ?j"
    unfolding p(1) by simp
  moreover have "field (claims_json uid k e) ''exp'' = Some (JInt e)" for e
    by (simp add: claims_json_def field_def js_Cons)
  ultimately show ?thesis using p(5) by (simp add: expiringSoon_def del: stringify.simps)
qed

theorem fresh_token_is_accepted:
  assumes "ascii uid" "fits64 (exp_at now ttl)"
    and "\<not> expiringSoon frac t (sign secret uid (js ''access'') ttl now)" "t' < t + 60000"
  shows "verify_access secret t' (sign secret uid (js ''access'') ttl now) = Some (uid, exp_at now ttl)"
proof -
  have k: "ascii (js ''access'')" by code_simp
  have "60000 \<le> exp_at now ttl * 1000 - t" using assms(3) expiringSoon_sign [OF assms(1) k] by simp
  then have "\<not> exp_at now ttl \<le> t' div 1000" using assms(4) by linarith
  then show ?thesis using token_parses_back [OF assms(1) k assms(2)] by (simp add: verify_access_def)
qed

lemma refresh_token_rejected:
  "ascii uid \<Longrightarrow> fits64 (exp_at now ttl) \<Longrightarrow> verify_access secret t (sign secret uid (js ''refresh'') ttl now) = None"
proof -
  have "ascii (js ''refresh'')" "js ''refresh'' \<noteq> js ''access''" by code_simp+
  then show "ascii uid \<Longrightarrow> fits64 (exp_at now ttl) \<Longrightarrow> ?thesis" by (simp add: verify_access_def token_parses_back)
qed

subsection \<open>The URL the client connects to\<close>

definition token_unit :: "unit16 \<Rightarrow> bool" where
  "token_unit c = (url_unit c \<or> c = 46)"

lemma token_units: "ascii uid \<Longrightarrow> ascii k \<Longrightarrow> c \<in> set (sign secret uid k ttl now) \<Longrightarrow> token_unit c"
  unfolding sign_def Let_def token_mac_def token_unit_def by (auto simp: js_Cons dest: raw_url_units)

lemma token_unit_uri: "token_unit c \<Longrightarrow> uri_unreserved (ucast c)"
proof -
  assume c: "token_unit c"
  then have "unat c < 128" by (auto simp: token_unit_def url_unit_def word_le_nat_alt)
  then have u: "unat (ucast c :: byte) = unat c"
    by (simp add: unsigned_ucast_eq unsigned_take_bit_eq take_bit_nat_eq_self)
  consider "48 \<le> c \<and> c \<le> 57" | "65 \<le> c \<and> c \<le> 90" | "97 \<le> c \<and> c \<le> 122" | "c = 45" | "c = 95" | "c = 46"
    using c by (auto simp: token_unit_def url_unit_def)
  then show "uri_unreserved (ucast c)"
    by cases (simp_all add: uri_unreserved_def word_le_nat_alt u)
qed

lemma token_uri:
  assumes "\<forall>c\<in>set s. token_unit c"
  shows "encodeURIComponent s = Some s"
proof -
  have a: "\<forall>c\<in>set s. c < 128" using assms url_unit_plain by (auto simp: token_unit_def)
  have "c < 0xd800" if "c < 128" for c :: unit16 using that by uint_arith
  then have "wf16 s" using a by (auto intro: wf16_plain)
  moreover have "concat (map (\<lambda>b. if uri_unreserved b then [ucast b]
        else [37, hex_upper (unat b div 16), hex_upper (unat b mod 16)]) (map ucast s)) = map ucast (map ucast s :: byte list)"
    using assms by (induction s) (auto simp: token_unit_uri)
  ultimately show ?thesis unfolding encodeURIComponent_def utf8_ascii [OF a] ascii_back [OF a] by simp
qed

definition query_plain :: "jstr \<Rightarrow> bool" where
  "query_plain s = list_all (\<lambda>c. c < 128 \<and> c \<notin> {37, 43, 38, 61, 59, 35}) s"

lemma plain_unescape: "query_plain s \<Longrightarrow> query_unescape s = Some s"
proof -
  assume s: "query_plain s"
  then have a: "\<forall>c\<in>set s. c < 128" by (simp add: query_plain_def list_all_iff)
  have one: "utf8_encode [c] = [ucast c]" if "c < 128" for c using utf8_ascii [of "[c]"] that by simp
  have "unescape_bytes True s = Some (map ucast s)" using s
    by (induction s) (simp_all add: query_plain_def one del: utf8_encode.simps)
  then have "unescape_bytes True s = Some (utf8_encode s)" by (simp add: utf8_ascii [OF a])
  moreover have "c < 0xd800" if "c < 128" for c :: unit16 using that by uint_arith
  then have "wf16 s" using a by (auto intro: wf16_plain)
  ultimately show ?thesis by (simp add: query_unescape_def utf8_roundtrip)
qed

lemma plain_pair: "query_plain k \<Longrightarrow> query_plain v \<Longrightarrow> query_pair (k @ 61 # v) = Some (k, v)"
proof -
  assume kv: "query_plain k" "query_plain v"
  then have "find_index (\<lambda>c. c = 61) (k @ 61 # v) = Some (length k)"
    by (intro find_first) (auto simp: query_plain_def list_all_iff)
  moreover have "59 \<notin> set (k @ 61 # v)" using kv by (auto simp: query_plain_def list_all_iff)
  ultimately show ?thesis using kv by (simp add: query_pair_def plain_unescape)
qed

lemma split_at_none: "x \<notin> set s \<Longrightarrow> split_at x s = [s]"
  by (induction s) auto

lemma split_at_sep: "x \<notin> set s \<Longrightarrow> split_at x (s @ x # r) = s # split_at x r"
  by (induction s) auto

lemma plain_notin: "query_plain s \<Longrightarrow> c \<in> {37, 43, 38, 61, 59, 35} \<Longrightarrow> c \<notin> set s"
  by (auto simp: query_plain_def list_all_iff)

lemma query_of_two:
  assumes "query_plain k1" "query_plain v1" "query_plain k2" "query_plain v2"
  shows "List.map_filter query_pair (split_at 38 (k1 @ 61 # v1 @ 38 # k2 @ 61 # v2)) = [(k1, v1), (k2, v2)]"
proof -
  have "split_at 38 ((k1 @ 61 # v1) @ 38 # k2 @ 61 # v2) = [k1 @ 61 # v1, k2 @ 61 # v2]"
    using plain_notin [OF assms(1)] plain_notin [OF assms(2)] plain_notin [OF assms(3)] plain_notin [OF assms(4)]
    by (subst split_at_sep) (auto simp: split_at_none)
  then show ?thesis by (simp add: List.map_filter_simps plain_pair assms)
qed

lemma int_str_plain: "query_plain (int_str i)"
proof -
  have "c < 128 \<and> c \<notin> {37, 43, 38, 61, 59, 35}" if "is_digit c \<or> c = 45" for c
    using that by (auto simp: is_digit_def) uint_arith+
  moreover have "\<forall>c\<in>set (int_str i). is_digit c \<or> c = 45"
    using dec_digits_digits [of "nat (- i)"] dec_digits_digits [of "nat i"] by (auto simp: int_str_def)
  ultimately show ?thesis by (auto simp: query_plain_def list_all_iff)
qed

lemma atoi_int_str: "fits64 i \<Longrightarrow> atoi (int_str i) = Some i"
proof -
  assume i: "fits64 i"
  have ne: "dec_digits n \<noteq> []" for n by simp
  have d: "\<forall>c\<in>set (dec_digits n). is_digit c" for n using dec_digits_digits by blast
  have h: "hd (dec_digits n) \<noteq> 43 \<and> hd (dec_digits n) \<noteq> 45" for n
  proof -
    have "is_digit (hd (dec_digits n))" using d list.set_sel(1) [OF ne] by blast
    then show ?thesis by (auto simp: is_digit_def)
  qed
  show ?thesis
  proof (cases "i < 0")
    case True
    then show ?thesis using i d by (simp add: atoi_def int_str_def)
  next
    case False
    have "\<not> (\<exists>r. dec_digits (nat i) = 45 # r)" using h [of "nat i"] by auto
    then show ?thesis using False i d h [of "nat i"] by (simp add: atoi_def int_str_def Let_def)
  qed
qed

lemma keys_plain: "query_plain (js ''token'')" "query_plain (js ''deviceId'')"
  by code_simp+

lemma token_plain: "\<forall>c\<in>set s. token_unit c \<Longrightarrow> query_plain s"
proof -
  have "c < 128 \<and> c \<notin> {37, 43, 38, 61, 59, 35}" if "token_unit c" for c
    using that url_unit_plain [of c] by (cases "c = 46") (auto simp: token_unit_def)
  then show "\<forall>c\<in>set s. token_unit c \<Longrightarrow> query_plain s" by (simp add: query_plain_def list_all_iff)
qed

text \<open>C18: A device gets in: when the client opens its socket with a token that the discovery service issued to it and that the client does not
  consider about to expire, the relay, from the URL alone, authenticates exactly the user the token was issued to, on the device the client
  named, until exactly the expiry the token was given. The URL survives percent-encoding and query parsing, the payload survives base64url and JSON.\<close>

theorem connect_url_is_accepted:
  assumes "ascii uid" "fits64 (exp_at now ttl)" "fits64 (relay_device c)" "63 \<notin> set (relayUrl c)" "35 \<notin> set (relayUrl c)"
    and "relay_token c = sign secret uid (js ''access'') ttl now" "\<not> expiringSoon frac t (relay_token c)" "t' < t + 60000"
  shows "\<exists>url. snd (relay_connect c) = [WsNew url] \<and>
    socket_handler secret t' url = Inr (uid, relay_device c, exp_at now ttl)"
proof -
  let ?t = "relay_token c"
  let ?q = "js ''token'' @ 61 # ?t @ 38 # js ''deviceId'' @ 61 # int_str (relay_device c)"
  have k: "ascii (js ''access'')" by code_simp
  have tok: "\<forall>x\<in>set ?t. token_unit x" using token_units [OF assms(1) k] assms(6) by auto
  have "encodeURIComponent ?t = Some ?t" using tok by (rule token_uri)
  moreover have "js ''?token='' = 63 # js ''token'' @ [61]" "js ''&deviceId='' = 38 # js ''deviceId'' @ [61]" by code_simp+
  ultimately have url: "snd (relay_connect c) = [WsNew (relayUrl c @ 63 # ?q)]"
    by (simp add: relay_connect_def)
  note pl = keys_plain(1) token_plain [OF tok] keys_plain(2) int_str_plain [of "relay_device c"]
  define q where "q = ?q"
  have "35 \<notin> set q" unfolding q_def using pl by (auto dest: plain_notin [where c = 35])
  then have "takeWhile (\<lambda>x. x \<noteq> 35) (relayUrl c @ 63 # q) = relayUrl c @ 63 # q"
    using assms(5) by (intro takeWhile_eq_all_conv [THEN iffD2]) auto
  moreover have "find_index (\<lambda>x. x = 63) (relayUrl c @ 63 # q) = Some (length (relayUrl c))"
    using assms(4) by (intro find_first) auto
  moreover have "drop (Suc (length (relayUrl c))) (relayUrl c @ 63 # q) = q" by simp
  ultimately have "url_query (relayUrl c @ 63 # q) = q" unfolding url_query_def Let_def by (simp only: option.case)
  then have q: "url_query (relayUrl c @ 63 # ?q) = ?q" unfolding q_def .
  have "js ''token'' \<noteq> js ''deviceId''" by code_simp
  then have g: "query_get ?q ''token'' = ?t" "query_get ?q ''deviceId'' = int_str (relay_device c)"
    by (simp_all add: query_get_def query_of_two [OF pl])
  have "verify_access secret t' ?t = Some (uid, exp_at now ttl)"
    using fresh_token_is_accepted [OF assms(1,2)] assms(6-8) by simp
  then have "socket_handler secret t' (relayUrl c @ 63 # ?q) = Inr (uid, relay_device c, exp_at now ttl)"
    by (simp add: socket_handler_def q g atoi_int_str assms(3))
  with url show ?thesis by blast
qed

lemma connect_url_is_accepted_witness:
  "\<exists>url. snd (relay_connect \<lparr>relayUrl = js ''ws://h'', relay_token = sign [7] (js ''u'') (js ''access'') 900000 0,
      relay_device = 1, ws_open = False\<rparr>) = [WsNew url] \<and> socket_handler [7] 1000 url = Inr (js ''u'', 1, 900)"
proof -
  have u: "ascii (js ''u'')" "ascii (js ''access'')" "63 \<notin> set (js ''ws://h'')" "35 \<notin> set (js ''ws://h'')" by code_simp+
  then have "\<not> expiringSoon (\<lambda>_. 0) 1000 (sign [7] (js ''u'') (js ''access'') 900000 0)"
    by (simp add: expiringSoon_sign exp_at_def)
  then show ?thesis
    using connect_url_is_accepted [of "js ''u''" 0 900000
        "\<lparr>relayUrl = js ''ws://h'', relay_token = sign [7] (js ''u'') (js ''access'') 900000 0, relay_device = 1, ws_open = False\<rparr>"
        "[7]" "\<lambda>_. 0" 1000 1000] u by (simp add: exp_at_def fits64_def)
qed

end
