(* ===== verification/DiscoveryService.thy ===== *)
theory DiscoveryService
  imports AuthToken Messaging
begin

text \<open>
  The discovery service, \<open>backend/discovery\<close>: the store of accounts (\<open>store.go\<close>), its wire types (\<open>types.go\<close>), the handlers
  (\<open>handlers.go\<close>) and the routes (\<open>main.go\<close>), down to a function \<open>serve\<close> from a request to the response, which is a \<open>fetch\<close>
  that the client of \<open>Discovery\<close> and \<open>Messaging\<close> can be run against.

  The clock and the bytes read from \<open>crypto/rand\<close> are arguments, and so is the order in which \<open>range\<close> visits the accounts
  (\<open>perm\<close>; Go leaves it open). Times are milliseconds. Numbers are \<open>int\<close> within the range of Go's \<open>int\<close>, strings the code
  units their JSON text decodes to, property names are matched as they are written, and a request body is one JSON text.
  The seven key fields that are copied together are a record of their own. Writing the persistence file is taken to
  succeed, as its failure is only logged; logging is left out, and an OTP that goes to the SMS gateway is a value.
\<close>

subsection \<open>\<open>types.go\<close>\<close>

record one_time_key =
  ok_id :: int
  ok_public :: jstr

record key_material =
  km_registration :: int
  km_identity :: jstr
  km_signed_id :: int
  km_signed_public :: jstr
  km_signed_signature :: jstr
  km_kyber_id :: int
  km_kyber_public :: jstr
  km_kyber_signature :: jstr

record register_request =
  rr_phone :: jstr
  rr_device :: int
  rr_keys :: key_material
  rr_oneTime :: "one_time_key list"

text \<open>\<open>Decode\<close>: \<open>null\<close> leaves the zero value, for a struct as for its fields and the elements of its lists.\<close>

definition go_object :: "json \<Rightarrow> json option" where
  "go_object v = (case v of JNull \<Rightarrow> Some (JObj []) | JObj ps \<Rightarrow> Some (JObj ps) | _ \<Rightarrow> None)"

definition go_list :: "(json \<Rightarrow> 'a option) \<Rightarrow> json \<Rightarrow> string \<Rightarrow> 'a list option" where
  "go_list f v k = (case field v k of None \<Rightarrow> Some [] | Some JNull \<Rightarrow> Some [] | Some (JArr vs) \<Rightarrow> all_some f vs | _ \<Rightarrow> None)"

definition go_string :: "json \<Rightarrow> jstr option" where
  "go_string v = (case v of JNull \<Rightarrow> Some [] | JStr s \<Rightarrow> Some s | _ \<Rightarrow> None)"

definition one_time_of :: "json \<Rightarrow> one_time_key option" where
  "one_time_of w =
    Option.bind (go_object w) (\<lambda>v. case (go_int v ''id'', go_str v ''publicB64'') of
      (Some i, Some p) \<Rightarrow> Some \<lparr>ok_id = i, ok_public = p\<rparr> | _ \<Rightarrow> None)"

definition keys_of :: "json \<Rightarrow> key_material option" where
  "keys_of v =
    (case (go_int v ''registrationId'', go_str v ''identityKeyB64'', go_int v ''signedPreKeyId'', go_str v ''signedPreKeyPublicB64'',
           go_str v ''signedPreKeySignatureB64'', go_int v ''kyberPreKeyId'', go_str v ''kyberPreKeyPublicB64'',
           go_str v ''kyberPreKeySignatureB64'') of
       (Some g, Some i, Some si, Some sp, Some ss, Some ki, Some kp, Some ks) \<Rightarrow>
         Some \<lparr>km_registration = g, km_identity = i, km_signed_id = si, km_signed_public = sp, km_signed_signature = ss,
           km_kyber_id = ki, km_kyber_public = kp, km_kyber_signature = ks\<rparr>
     | _ \<Rightarrow> None)"

definition register_request_of :: "json \<Rightarrow> register_request option" where
  "register_request_of v =
    (case (go_str v ''phoneNumber'', go_int v ''deviceId'', keys_of v, go_list one_time_of v ''oneTimePreKeys'') of
       (Some p, Some d, Some k, Some o') \<Rightarrow> Some \<lparr>rr_phone = p, rr_device = d, rr_keys = k, rr_oneTime = o'\<rparr>
     | _ \<Rightarrow> None)"

text \<open>A link request has a token and no phone number (\<open>asRegister\<close>).\<close>

definition link_request_of :: "json \<Rightarrow> (jstr \<times> register_request) option" where
  "link_request_of v =
    (case (go_str v ''token'', go_int v ''deviceId'', keys_of v, go_list one_time_of v ''oneTimePreKeys'') of
       (Some t, Some d, Some k, Some o') \<Rightarrow> Some (t, \<lparr>rr_phone = [], rr_device = d, rr_keys = k, rr_oneTime = o'\<rparr>)
     | _ \<Rightarrow> None)"

subsection \<open>\<open>store.go\<close>\<close>

record account =
  ac_user :: jstr
  ac_account :: jstr
  ac_hash :: jstr
  ac_device :: int
  ac_keys :: key_material
  ac_oneTime :: "one_time_key list"
  ac_verified :: bool

record pending_otp =
  po_code :: jstr
  po_expires :: int
  po_attempts :: nat

type_synonym accounts = "(jstr, account) jsmap"

record dstore =
  d_path :: bool
  d_disk :: "(byte list \<times> accounts) option"
  d_salt :: "byte list"
  d_accounts :: accounts
  d_pending :: "(jstr, pending_otp) jsmap"
  d_secret :: "byte list"
  d_lastRegister :: "(jstr, int) jsmap"
  d_intersectUse :: "(jstr, int \<times> nat) jsmap"
  d_linkTokens :: "(jstr, jstr \<times> int) jsmap"

definition accessTTL :: int where "accessTTL = 15 * 60 * 1000"
definition refreshTTL :: int where "refreshTTL = 30 * 24 * 60 * 60 * 1000"
definition linkTTL :: int where "linkTTL = 5 * 60 * 1000"
definition otpTTL :: int where "otpTTL = 10 * 60 * 1000"
definition maxOTPAttempts :: nat where "maxOTPAttempts = 5"
definition registerCooldown :: int where "registerCooldown = 30 * 1000"
definition maxIntersectHashes :: nat where "maxIntersectHashes = 1000"
definition intersectWindow :: int where "intersectWindow = 60 * 60 * 1000"
definition intersectBudget :: nat where "intersectBudget = 5000"

definition NewStore :: "byte list \<Rightarrow> byte list \<Rightarrow> bool \<Rightarrow> dstore" where
  "NewStore salt secret path =
    \<lparr>d_path = path, d_disk = None, d_salt = salt, d_accounts = [], d_pending = [], d_secret = secret, d_lastRegister = [],
     d_intersectUse = [], d_linkTokens = []\<rparr>"

definition ds_persist :: "dstore \<Rightarrow> dstore" where
  "ds_persist s = (if d_path s then s\<lparr>d_disk := Some (d_salt s, d_accounts s)\<rparr> else s)"

text \<open>\<open>NewPersistentStore\<close> with a fresh random salt, and \<open>load\<close>, which gives old records their account id.\<close>

definition own_account :: "account \<Rightarrow> account" where
  "own_account a = (if ac_account a = [] then a\<lparr>ac_account := ac_user a\<rparr> else a)"

definition ds_restart :: "byte list \<Rightarrow> dstore \<Rightarrow> dstore" where
  "ds_restart salt s =
    (let n = NewStore salt (d_secret s) (d_path s) in
     if \<not> d_path s then n
     else (case d_disk s of None \<Rightarrow> n
       | Some (sa, as) \<Rightarrow> n\<lparr>d_disk := d_disk s, d_salt := sa,
           d_accounts := fold (\<lambda>(_, a). map_set (ac_user a) (own_account a)) as []\<rparr>))"

definition store_hashPhone :: "dstore \<Rightarrow> jstr \<Rightarrow> jstr" where
  "store_hashPhone s phone = bytes_to_base64 (sha256 (d_salt s @ utf8_encode phone))"

definition issueTokens :: "int \<Rightarrow> jstr \<Rightarrow> dstore \<Rightarrow> jstr \<times> jstr" where
  "issueTokens now uid s =
    (sign (d_secret s) uid (js ''access'') accessTTL now, sign (d_secret s) uid (js ''refresh'') refreshTTL now)"

definition new_account :: "jstr \<Rightarrow> jstr \<Rightarrow> jstr \<Rightarrow> int \<Rightarrow> register_request \<Rightarrow> bool \<Rightarrow> account" where
  "new_account uid acct hash device req verified =
    \<lparr>ac_user = uid, ac_account = acct, ac_hash = hash, ac_device = device, ac_keys = rr_keys req, ac_oneTime = rr_oneTime req,
     ac_verified = verified\<rparr>"

text \<open>Registering with the id and the code that were drawn; a refusal changes nothing.\<close>

definition store_register :: "int \<Rightarrow> jstr \<Rightarrow> jstr \<Rightarrow> register_request \<Rightarrow> dstore \<Rightarrow> dstore \<times> bool" where
  "store_register now uid otp req s =
    (let h = store_hashPhone s (rr_phone req) in
     if (case map_of (d_lastRegister s) h of Some t \<Rightarrow> now - t < registerCooldown | None \<Rightarrow> False) then (s, False)
     else
       (ds_persist (s\<lparr>d_lastRegister := map_set h now (d_lastRegister s),
          d_accounts := map_set uid (new_account uid uid h (rr_device req) req False) (d_accounts s),
          d_pending := map_set uid \<lparr>po_code = otp, po_expires = now + otpTTL, po_attempts = 0\<rparr> (d_pending s)\<rparr>), True))"

definition store_verify :: "int \<Rightarrow> jstr \<Rightarrow> jstr \<Rightarrow> dstore \<Rightarrow> dstore \<times> (jstr \<times> jstr) option" where
  "store_verify now uid code s =
    (case map_of (d_pending s) uid of None \<Rightarrow> (s, None)
     | Some p \<Rightarrow>
        if po_expires p < now then (s\<lparr>d_pending := map_del uid (d_pending s)\<rparr>, None)
        else if po_code p \<noteq> code then
          (let n = Suc (po_attempts p) in
           (s\<lparr>d_pending := (if maxOTPAttempts \<le> n then map_del uid (d_pending s)
               else map_set uid (p\<lparr>po_attempts := n\<rparr>) (d_pending s))\<rparr>, None))
        else (case map_of (d_accounts s) uid of None \<Rightarrow> (s, None)
          | Some a \<Rightarrow>
             (ds_persist (s\<lparr>d_accounts := map_set uid (a\<lparr>ac_verified := True\<rparr>) (d_accounts s),
                d_pending := map_del uid (d_pending s)\<rparr>), Some (issueTokens now uid s))))"

definition store_refresh :: "int \<Rightarrow> jstr \<Rightarrow> dstore \<Rightarrow> (jstr \<times> jstr) option" where
  "store_refresh now tok s =
    (case parse_token (d_secret s) now tok of None \<Rightarrow> None
     | Some (uid, kind, _) \<Rightarrow>
        if kind \<noteq> js ''refresh'' then None
        else (case map_of (d_accounts s) uid of None \<Rightarrow> None
          | Some a \<Rightarrow> if ac_verified a then Some (issueTokens now uid s) else None))"

definition store_createLinkToken :: "int \<Rightarrow> jstr \<Rightarrow> jstr \<Rightarrow> dstore \<Rightarrow> dstore" where
  "store_createLinkToken now tok acct s = s\<lparr>d_linkTokens := map_set tok (acct, now + linkTTL) (d_linkTokens s)\<rparr>"

definition store_linkDevice :: "int \<Rightarrow> jstr \<Rightarrow> jstr \<Rightarrow> register_request \<Rightarrow> dstore \<Rightarrow> dstore \<times> (jstr \<times> jstr \<times> jstr) option" where
  "store_linkDevice now uid tok req s =
    (case map_of (d_linkTokens s) tok of None \<Rightarrow> (s, None)
     | Some (acct, expires) \<Rightarrow>
        if expires < now then (s\<lparr>d_linkTokens := map_del tok (d_linkTokens s)\<rparr>, None)
        else if map_of (d_accounts s) acct = None then (s, None)
        else
          (let dev = (if rr_device req = 0 then 1 else rr_device req) in
           (ds_persist (s\<lparr>d_accounts := map_set uid (new_account uid acct [] dev req True) (d_accounts s),
              d_linkTokens := map_del tok (d_linkTokens s)\<rparr>), Some (acct, issueTokens now uid s))))"

type_synonym visit = "(jstr \<times> account) list \<Rightarrow> (jstr \<times> account) list"

definition store_devicesFor :: "visit \<Rightarrow> jstr \<Rightarrow> dstore \<Rightarrow> jstr list" where
  "store_devicesFor perm acct s =
    map (\<lambda>(_, a). ac_user a) (filter (\<lambda>(_, a). ac_verified a \<and> ac_account a = acct) (perm (d_accounts s)))"

definition store_accountIDFor :: "jstr \<Rightarrow> dstore \<Rightarrow> jstr option" where
  "store_accountIDFor uid s =
    (case map_of (d_accounts s) uid of Some a \<Rightarrow> if ac_verified a then Some (ac_account a) else None | None \<Rightarrow> None)"

definition store_deleteAccount :: "jstr \<Rightarrow> dstore \<Rightarrow> dstore \<times> bool" where
  "store_deleteAccount uid s =
    (case map_of (d_accounts s) uid of None \<Rightarrow> (s, False)
     | Some c \<Rightarrow>
        (let gone = filter (\<lambda>(_, a). ac_account a = ac_account c) (d_accounts s) in
         (ds_persist (s\<lparr>d_lastRegister := fold (\<lambda>(_, a). map_del (ac_hash a)) gone (d_lastRegister s),
            d_pending := fold (\<lambda>(u, _). map_del u) gone (d_pending s),
            d_accounts := filter (\<lambda>(_, a). ac_account a \<noteq> ac_account c) (d_accounts s)\<rparr>), True)))"

text \<open>\<open>None\<close> is the nil slice, which an account without a verified device gives too.\<close>

definition store_accountDevices :: "visit \<Rightarrow> jstr \<Rightarrow> dstore \<Rightarrow> (jstr \<times> int \<times> bool) list option" where
  "store_accountDevices perm uid s =
    (case map_of (d_accounts s) uid of None \<Rightarrow> None
     | Some c \<Rightarrow>
        (let out = map (\<lambda>(u, a). (u, ac_device a, u = ac_account a))
             (filter (\<lambda>(_, a). ac_verified a \<and> ac_account a = ac_account c) (perm (d_accounts s)))
         in if out = [] then None else Some out))"

definition store_removeDevice :: "jstr \<Rightarrow> jstr \<Rightarrow> dstore \<Rightarrow> dstore \<times> bool" where
  "store_removeDevice caller target s =
    (case map_of (d_accounts s) caller of None \<Rightarrow> (s, False)
     | Some c \<Rightarrow>
        (case map_of (d_accounts s) target of None \<Rightarrow> (s, False)
         | Some t \<Rightarrow>
            if ac_account t \<noteq> ac_account c \<or> target = ac_account t then (s, False)
            else (ds_persist (s\<lparr>d_pending := map_del target (d_pending s), d_accounts := map_del target (d_accounts s)\<rparr>), True)))"

definition store_userForToken :: "int \<Rightarrow> jstr \<Rightarrow> dstore \<Rightarrow> jstr option" where
  "store_userForToken now tok s = map_option fst (verify_access (d_secret s) now tok)"

definition store_bundleFor :: "jstr \<Rightarrow> dstore \<Rightarrow> dstore \<times> (account \<times> one_time_key option) option" where
  "store_bundleFor uid s =
    (case map_of (d_accounts s) uid of None \<Rightarrow> (s, None)
     | Some a \<Rightarrow>
        if \<not> ac_verified a then (s, None)
        else (case ac_oneTime a of [] \<Rightarrow> (s, Some (a, None))
          | k # ks \<Rightarrow> (ds_persist (s\<lparr>d_accounts := map_set uid (a\<lparr>ac_oneTime := ks\<rparr>) (d_accounts s)\<rparr>), Some (a, Some k))))"

definition store_poolSize :: "jstr \<Rightarrow> dstore \<Rightarrow> nat option" where
  "store_poolSize uid s = map_option (\<lambda>a. length (ac_oneTime a)) (map_of (d_accounts s) uid)"

definition store_addOneTime :: "jstr \<Rightarrow> one_time_key list \<Rightarrow> dstore \<Rightarrow> dstore \<times> nat option" where
  "store_addOneTime uid ks s =
    (case map_of (d_accounts s) uid of None \<Rightarrow> (s, None)
     | Some a \<Rightarrow>
        (ds_persist (s\<lparr>d_accounts := map_set uid (a\<lparr>ac_oneTime := ac_oneTime a @ ks\<rparr>) (d_accounts s)\<rparr>),
         Some (length (ac_oneTime a @ ks))))"

definition store_allowIntersect :: "int \<Rightarrow> jstr \<Rightarrow> nat \<Rightarrow> dstore \<Rightarrow> dstore \<times> bool" where
  "store_allowIntersect now uid n s =
    (let w = (case map_of (d_intersectUse s) uid of None \<Rightarrow> (now, 0)
         | Some (start, used) \<Rightarrow> if intersectWindow \<le> now - start then (now, 0) else (start, used));
         ok = (snd w + n \<le> intersectBudget)
     in (s\<lparr>d_intersectUse := map_set uid (fst w, if ok then snd w + n else snd w) (d_intersectUse s)\<rparr>, ok))"

definition store_intersect :: "visit \<Rightarrow> jstr list \<Rightarrow> dstore \<Rightarrow> (jstr \<times> jstr) list" where
  "store_intersect perm hashes s =
    (let byHash = fold (\<lambda>(_, a) m. if ac_verified a then map_set (ac_hash a) (ac_user a) m else m) (perm (d_accounts s)) []
     in List.map_filter (\<lambda>h. map_option (Pair h) (map_of byHash h)) (uniq hashes))"

text \<open>The random ids, from the bytes drawn: a version 4 UUID, a link token and a six-digit code.\<close>

definition hex_lower :: "byte list \<Rightarrow> jstr" where
  "hex_lower bs = concat (map (\<lambda>b. [hex_char (unat b div 16), hex_char (unat b mod 16)]) bs)"

definition newUUID :: "byte list \<Rightarrow> jstr" where
  "newUUID r =
    (let b = r[6 := (r ! 6 AND 0x0f) OR 0x40, 8 := (r ! 8 AND 0x3f) OR 0x80]
     in hex_lower (take 4 b) @ 45 # hex_lower (take 2 (drop 4 b)) @ 45 # hex_lower (take 2 (drop 6 b)) @
        45 # hex_lower (take 2 (drop 8 b)) @ 45 # hex_lower (take 6 (drop 10 b)))"

definition newToken :: "byte list \<Rightarrow> jstr" where
  "newToken b = hex_lower (take 24 b)"

definition newOTP :: "byte list \<Rightarrow> jstr" where
  "newOTP b =
    (let n = (unat (b ! 0) * 2 ^ 24 + unat (b ! 1) * 2 ^ 16 + unat (b ! 2) * 2 ^ 8 + unat (b ! 3)) mod 1000000;
         ds = dec_digits n
     in replicate (6 - length ds) 48 @ ds)"

subsection \<open>\<open>handlers.go\<close>\<close>

text \<open>The service: the store, the dev switch, the codes handed to the SMS gateway, the clock and the random draws to come.\<close>

record service =
  sv_store :: dstore
  sv_dev :: bool
  sv_sms :: "(jstr \<times> jstr) list"
  sv_now :: int
  sv_draws :: "nat \<Rightarrow> byte list"
  sv_drawn :: nat

type_synonym handler = "visit \<Rightarrow> jstr list \<Rightarrow> http_req \<Rightarrow> service \<Rightarrow> service \<times> http_res"

definition draw :: "nat \<Rightarrow> service \<Rightarrow> byte list" where
  "draw i w = sv_draws w (sv_drawn w + i)"

definition put :: "dstore \<Rightarrow> nat \<Rightarrow> service \<Rightarrow> service" where
  "put s n w = w\<lparr>sv_store := s, sv_drawn := sv_drawn w + n\<rparr>"

definition writeJSON :: "int \<Rightarrow> json \<Rightarrow> http_res" where
  "writeJSON status v = \<lparr>rs_status = status, rs_text = stringify v @ [10]\<rparr>"

definition writeError :: "int \<Rightarrow> jstr \<Rightarrow> http_res" where
  "writeError status msg = writeJSON status (JObj [(js ''error'', JStr msg)])"

definition no_content :: http_res where
  "no_content = \<lparr>rs_status = 204, rs_text = []\<rparr>"

definition decode_body :: "(json \<Rightarrow> 'a option) \<Rightarrow> http_req \<Rightarrow> 'a option" where
  "decode_body f req = Option.bind (Option.bind (Option.bind (rq_body req) json_parse) go_object) f"

text \<open>\<open>TrimSpace\<close> of the token after \<open>Bearer\<close>.\<close>

definition go_space :: "unit16 \<Rightarrow> bool" where
  "go_space c = (9 \<le> c \<and> c \<le> 13 \<or> 0x2000 \<le> c \<and> c \<le> 0x200a \<or> c \<in> {32, 0x85, 0xa0, 0x1680, 0x2028, 0x2029, 0x202f, 0x205f, 0x3000})"

definition trimSpace :: "jstr \<Rightarrow> jstr" where
  "trimSpace s = rev (dropWhile go_space (rev (dropWhile go_space s)))"

definition bearerUser :: "http_req \<Rightarrow> service \<Rightarrow> jstr option" where
  "bearerUser req w =
    (case rq_bearer req of None \<Rightarrow> None
     | Some t \<Rightarrow> if trimSpace t = [] then None else store_userForToken (sv_now w) (trimSpace t) (sv_store w))"

definition authed :: "(jstr \<Rightarrow> service \<times> http_res) \<Rightarrow> http_req \<Rightarrow> service \<Rightarrow> service \<times> http_res" where
  "authed f req w =
    (case bearerUser req w of None \<Rightarrow> (w, writeError 401 (js ''missing or invalid token'')) | Some u \<Rightarrow> f u)"

definition bad_json :: http_res where "bad_json = writeError 400 (js ''invalid JSON'')"
definition no_account :: http_res where "no_account = writeError 404 (js ''account not found'')"

definition h_register :: handler where
  "h_register perm ps req w =
    (case decode_body register_request_of req of None \<Rightarrow> (w, bad_json)
     | Some r0 \<Rightarrow>
        if rr_phone r0 = [] \<or> km_identity (rr_keys r0) = [] then (w, writeError 400 (js ''missing phoneNumber or identity key''))
        else
          (let r = (if rr_device r0 = 0 then r0\<lparr>rr_device := 1\<rparr> else r0); uid = newUUID (draw 0 w); otp = newOTP (draw 1 w) in
           case store_register (sv_now w) uid otp r (sv_store w) of
             (_, False) \<Rightarrow> (w, writeError 429 (js ''a code was just sent '' @ 0x2014 # js '' wait a moment before retrying''))
           | (s, True) \<Rightarrow>
              ((put s 2 w)\<lparr>sv_sms := sv_sms w @ [(rr_phone r, otp)]\<rparr>,
               writeJSON 200 (JObj ([(js ''userId'', JStr uid), (js ''otpSent'', JBool True)] @
                 (if sv_dev w then [(js ''devOtp'', JStr otp)] else []))))))"

definition h_verify :: handler where
  "h_verify perm ps req w =
    (case decode_body (\<lambda>v. case (go_str v ''userId'', go_str v ''code'') of (Some u, Some c) \<Rightarrow> Some (u, c) | _ \<Rightarrow> None) req of
       None \<Rightarrow> (w, bad_json)
     | Some (u, c) \<Rightarrow>
        (case store_verify (sv_now w) u c (sv_store w) of
           (s, None) \<Rightarrow> (put s 0 w, writeError 401 (js ''invalid userId or code''))
         | (s, Some (access, refr)) \<Rightarrow>
            (put s 0 w, writeJSON 200 (JObj [(js ''verified'', JBool True), (js ''token'', JStr access), (js ''refreshToken'', JStr refr)]))))"

definition h_refresh :: handler where
  "h_refresh perm ps req w =
    (case decode_body (\<lambda>v. go_str v ''refreshToken'') req of None \<Rightarrow> (w, bad_json)
     | Some t \<Rightarrow>
        (case store_refresh (sv_now w) t (sv_store w) of
           None \<Rightarrow> (w, writeError 401 (js ''invalid or revoked refresh token''))
         | Some (access, refr) \<Rightarrow> (w, writeJSON 200 (JObj [(js ''token'', JStr access), (js ''refreshToken'', JStr refr)]))))"

definition bundle_json :: "account \<Rightarrow> one_time_key option \<Rightarrow> json" where
  "bundle_json a k = (let m = ac_keys a in JObj
    [(js ''registrationId'', JInt (km_registration m)), (js ''deviceId'', JInt (ac_device a)), (js ''identityKeyB64'', JStr (km_identity m)),
     (js ''signedPreKeyId'', JInt (km_signed_id m)), (js ''signedPreKeyPublicB64'', JStr (km_signed_public m)),
     (js ''signedPreKeySignatureB64'', JStr (km_signed_signature m)), (js ''kyberPreKeyId'', JInt (km_kyber_id m)),
     (js ''kyberPreKeyPublicB64'', JStr (km_kyber_public m)), (js ''kyberPreKeySignatureB64'', JStr (km_kyber_signature m)),
     (js ''oneTimePreKeyId'', case k of None \<Rightarrow> JNull | Some o' \<Rightarrow> JInt (ok_id o')),
     (js ''oneTimePreKeyPublicB64'', case k of None \<Rightarrow> JNull | Some o' \<Rightarrow> JStr (ok_public o'))])"

definition h_fetchKeys :: handler where
  "h_fetchKeys perm ps req w = authed (\<lambda>_.
    (case store_bundleFor (hd ps) (sv_store w) of
       (s, None) \<Rightarrow> (put s 0 w, writeError 404 (js ''no verified account for that user''))
     | (s, Some (a, k)) \<Rightarrow> (put s 0 w, writeJSON 200 (bundle_json a k)))) req w"

definition h_deleteAccount :: handler where
  "h_deleteAccount perm ps req w = authed (\<lambda>u.
    (case store_deleteAccount u (sv_store w) of (s, ok) \<Rightarrow> (put s 0 w, if ok then no_content else no_account))) req w"

definition h_keyPool :: handler where
  "h_keyPool perm ps req w = authed (\<lambda>u.
    (w, case store_poolSize u (sv_store w) of None \<Rightarrow> no_account
        | Some n \<Rightarrow> writeJSON 200 (JObj [(js ''poolSize'', JInt (int n))]))) req w"

definition h_uploadKeys :: handler where
  "h_uploadKeys perm ps req w = authed (\<lambda>u.
    (case decode_body (\<lambda>v. go_list one_time_of v ''oneTimePreKeys'') req of None \<Rightarrow> (w, bad_json)
     | Some ks \<Rightarrow>
        (case store_addOneTime u ks (sv_store w) of
           (s, None) \<Rightarrow> (put s 0 w, no_account)
         | (s, Some n) \<Rightarrow> (put s 0 w, writeJSON 200 (JObj [(js ''poolSize'', JInt (int n))]))))) req w"

definition h_linkToken :: handler where
  "h_linkToken perm ps req w = authed (\<lambda>u.
    (case store_accountIDFor u (sv_store w) of None \<Rightarrow> (w, no_account)
     | Some acct \<Rightarrow>
        (let t = newToken (draw 0 w) in
         (put (store_createLinkToken (sv_now w) t acct (sv_store w)) 1 w,
          writeJSON 200 (JObj [(js ''token'', JStr t), (js ''expiresInSec'', JInt (linkTTL div 1000))]))))) req w"

definition h_link :: handler where
  "h_link perm ps req w =
    (case decode_body link_request_of req of None \<Rightarrow> (w, bad_json)
     | Some (t, r) \<Rightarrow>
        if t = [] \<or> km_identity (rr_keys r) = [] then (w, writeError 400 (js ''missing token or identity key''))
        else (let uid = newUUID (draw 0 w) in
          case store_linkDevice (sv_now w) uid t r (sv_store w) of
            (s, None) \<Rightarrow> (put s 0 w, writeError 401 (js ''invalid or expired link token''))
          | (s, Some (acct, access, refr)) \<Rightarrow>
             (put s 1 w, writeJSON 200 (JObj [(js ''userId'', JStr uid), (js ''accountId'', JStr acct), (js ''token'', JStr access),
                (js ''refreshToken'', JStr refr)]))))"

definition h_devices :: handler where
  "h_devices perm ps req w = authed (\<lambda>_.
    (w, let ds = store_devicesFor perm (hd ps) (sv_store w) in
        writeJSON 200 (JObj [(js ''devices'', if ds = [] then JNull else JArr (map JStr ds))]))) req w"

definition h_myDevices :: handler where
  "h_myDevices perm ps req w = authed (\<lambda>u.
    (w, case store_accountDevices perm u (sv_store w) of None \<Rightarrow> no_account
        | Some ds \<Rightarrow> writeJSON 200 (JObj [(js ''devices'', JArr (map (\<lambda>(i, d, p).
            JObj [(js ''userId'', JStr i), (js ''deviceId'', JInt d), (js ''primary'', JBool p)]) ds))]))) req w"

definition h_removeDevice :: handler where
  "h_removeDevice perm ps req w = authed (\<lambda>u.
    (case store_removeDevice u (hd ps) (sv_store w) of
       (s, ok) \<Rightarrow> (put s 0 w, if ok then no_content else writeError 400 (js ''not a removable linked device on your account'')))) req w"

definition h_account :: handler where
  "h_account perm ps req w = authed (\<lambda>_.
    (w, case store_accountIDFor (hd ps) (sv_store w) of None \<Rightarrow> writeError 404 (js ''no verified account for that user'')
        | Some a \<Rightarrow> writeJSON 200 (JObj [(js ''accountId'', JStr a)]))) req w"

definition h_salt :: handler where
  "h_salt perm ps req w = authed (\<lambda>_.
    (w, writeJSON 200 (JObj [(js ''saltB64'', JStr (bytes_to_base64 (d_salt (sv_store w))))]))) req w"

definition h_intersect :: handler where
  "h_intersect perm ps req w = authed (\<lambda>u.
    (case decode_body (\<lambda>v. go_list go_string v ''phoneHashesB64'') req of None \<Rightarrow> (w, bad_json)
     | Some hs \<Rightarrow>
        if maxIntersectHashes < length hs then (w, writeError 400 (js ''too many hashes in one request''))
        else (case store_allowIntersect (sv_now w) u (length hs) (sv_store w) of
            (s, False) \<Rightarrow> (put s 0 w, writeError 429 (js ''contact-discovery rate limit exceeded; try again later''))
          | (s, True) \<Rightarrow> (put s 0 w, writeJSON 200 (JObj [(js ''matches'', JArr (map (\<lambda>(h, u).
              JObj [(js ''phoneHashB64'', JStr h), (js ''userId'', JStr u)]) (store_intersect perm hs s)))]))))) req w"

subsection \<open>The routes of \<open>main.go\<close>\<close>

text \<open>A wildcard matches one non-empty segment. Literal segments win over wildcards, so \<open>keys/pool\<close> comes first.\<close>

fun match_path :: "string option list \<Rightarrow> jstr list \<Rightarrow> jstr list option" where
  "match_path [] [] = Some []"
| "match_path (Some k # ps) (s # ss) = (if s = js k then match_path ps ss else None)"
| "match_path (None # ps) (s # ss) = (if s = [] then None else map_option ((#) s) (match_path ps ss))"
| "match_path _ _ = None"

definition h_healthz :: handler where
  "h_healthz perm ps req w = (w, \<lparr>rs_status = 200, rs_text = js ''ok''\<rparr>)"

definition routes :: "(string \<times> string option list \<times> handler) list" where
  "routes =
    [(''GET'', [Some ''healthz''], h_healthz),
     (''POST'', [Some ''v1'', Some ''accounts'', Some ''register''], h_register),
     (''POST'', [Some ''v1'', Some ''accounts'', Some ''verify''], h_verify),
     (''POST'', [Some ''v1'', Some ''auth'', Some ''refresh''], h_refresh),
     (''DELETE'', [Some ''v1'', Some ''accounts''], h_deleteAccount),
     (''GET'', [Some ''v1'', Some ''keys'', Some ''pool''], h_keyPool),
     (''GET'', [Some ''v1'', Some ''keys'', None], h_fetchKeys),
     (''PUT'', [Some ''v1'', Some ''keys'', Some ''upload''], h_uploadKeys),
     (''GET'', [Some ''v1'', Some ''contacts'', Some ''salt''], h_salt),
     (''POST'', [Some ''v1'', Some ''contacts'', Some ''intersect''], h_intersect),
     (''POST'', [Some ''v1'', Some ''devices'', Some ''link-token''], h_linkToken),
     (''POST'', [Some ''v1'', Some ''devices'', Some ''link''], h_link),
     (''GET'', [Some ''v1'', Some ''devices''], h_myDevices),
     (''DELETE'', [Some ''v1'', Some ''devices'', None], h_removeDevice),
     (''GET'', [Some ''v1'', Some ''accounts'', None, Some ''devices''], h_devices),
     (''GET'', [Some ''v1'', Some ''accounts'', None, Some ''account''], h_account)]"

fun find_route :: "(string \<times> string option list \<times> handler) list \<Rightarrow> jstr \<Rightarrow> jstr list \<Rightarrow> (handler \<times> jstr list) option" where
  "find_route [] m segs = None"
| "find_route ((meth, pat, h) # rs) m segs =
    (if m = js meth then (case match_path pat segs of Some ps \<Rightarrow> Some (h, ps) | None \<Rightarrow> find_route rs m segs)
     else find_route rs m segs)"

definition path_segments :: "jstr \<Rightarrow> jstr list option" where
  "path_segments path = all_some (\<lambda>s. map_option utf8_decode (unescape_bytes False s)) (split_at 47 path)"

text \<open>
  \<open>base\<close> is the origin the service is reached at. What the mux answers itself: a path with an invalid escape, one it
  redirects to its clean form, a method that has no handler, and an unknown path. Every request is answered.
\<close>

definition request_path :: "jstr \<Rightarrow> jstr \<Rightarrow> jstr" where
  "request_path base url = takeWhile (\<lambda>c. c \<noteq> 63 \<and> c \<noteq> 35) (drop (Suc (length base)) url)"

definition unclean :: "jstr \<Rightarrow> bool" where
  "unclean path = (let ss = split_at 47 path in [] \<in> set (butlast ss) \<or> js ''.'' \<in> set ss \<or> js ''..'' \<in> set ss)"

definition not_routed :: "jstr list \<Rightarrow> http_res" where
  "not_routed ss =
    (if list_ex (\<lambda>(_, pat, _). match_path pat ss \<noteq> None) routes then \<lparr>rs_status = 405, rs_text = js ''Method Not Allowed'' @ [10]\<rparr>
     else \<lparr>rs_status = 404, rs_text = js ''404 page not found'' @ [10]\<rparr>)"

definition serve :: "visit \<Rightarrow> jstr \<Rightarrow> service fetch" where
  "serve perm base req w =
    (let path = request_path base (rq_url req) in
     case path_segments path of None \<Rightarrow> (w, Some \<lparr>rs_status = 400, rs_text = js ''400 Bad Request''\<rparr>)
     | Some ss \<Rightarrow>
        if unclean path then (w, Some \<lparr>rs_status = 301, rs_text = []\<rparr>)
        else (case find_route routes (rq_method req) ss of None \<Rightarrow> (w, Some (not_routed ss))
         | Some (h, ps) \<Rightarrow> map_prod id Some (h perm ps req w)))"

text \<open>A run of the service: requests at times that do not go back, and restarts with a fresh salt.\<close>

inductive service_run :: "visit \<Rightarrow> jstr \<Rightarrow> service \<Rightarrow> (http_req \<times> http_res) list \<Rightarrow> service \<Rightarrow> bool" for perm base w0 where
  Begin: "service_run perm base w0 [] w0"
| Request: "service_run perm base w0 tr w \<Longrightarrow> sv_now w \<le> now \<Longrightarrow> serve perm base req (w\<lparr>sv_now := now\<rparr>) = (w', Some res) \<Longrightarrow>
    service_run perm base w0 (tr @ [(req, res)]) w'"
| Restart: "service_run perm base w0 tr w \<Longrightarrow> service_run perm base w0 tr (w\<lparr>sv_store := ds_restart salt (sv_store w)\<rparr>)"

end
