(* ===== verification/Directory.thy ===== *)
theory Directory
  imports DiscoveryService "HOL-Library.Sublist"
begin

text \<open>
  What runs of the discovery service of \<open>DiscoveryService\<close> preserve: \<open>serve_effect\<close> classifies what one request does to the
  store, and the theorems follow an account, its pending code and its one-time prekeys through any run.
\<close>

subsection \<open>Responses parse back\<close>

lemma json_line: "wf_json v \<Longrightarrow> json_parse (stringify v @ [10]) = Some v"
proof -
  assume wf: "wf_json v"
  define x where "x = stringify v @ [10]"
  have "stops [10]" by code_simp
  with wf obtain m where "pval m x = Some (v, [10])"
    using stringify_parse(1) [of v "[10]"] by (auto simp: enough_def x_def)
  then have f: "\<forall>n. 2 * (length x - length [10 :: unit16]) \<le> n \<longrightarrow> pval n x = Some (v, [10])"
    by (rule pval_fuel(1) [THEN conjunct2])
  have "pval (2 * length x + 2) x = Some (v, [10])" by (rule f [rule_format]) simp
  moreover have "skip_ws [10] = []" by code_simp
  ultimately have "json_parse x = Some v" by (simp add: json_parse_def del: pval.simps)
  then show ?thesis unfolding x_def .
qed

lemma writeJSON_parse [simp]: "wf_json v \<Longrightarrow> json_parse (rs_text (writeJSON st v)) = Some v"
  by (simp add: writeJSON_def json_line)

lemma writeJSON_status [simp]: "rs_status (writeJSON st v) = st" "rs_status (writeError st m) = st"
  by (simp_all add: writeJSON_def writeError_def)

lemma writeError_parse [simp]: "json_parse (rs_text (writeError st m)) = Some (JObj [(js ''error'', JStr m)])"
  by (simp add: writeError_def)

lemma wf_bundle: "wf_json (bundle_json a k)"
  by (simp add: bundle_json_def Let_def payload_defs split: option.split)

subsection \<open>What one request does to the store\<close>

definition segments :: "jstr \<Rightarrow> http_req \<Rightarrow> jstr list option" where
  "segments base req = path_segments (request_path base (rq_url req))"

text \<open>The account and code of a verification request, and the prekey that a response to a bundle request gives away.\<close>

definition guess_of :: "jstr \<Rightarrow> http_req \<Rightarrow> (jstr \<times> jstr) option" where
  "guess_of base req =
    (if rq_method req = js ''POST'' \<and> segments base req = Some [js ''v1'', js ''accounts'', js ''verify''] \<and>
        \<not> unclean (request_path base (rq_url req))
     then decode_body (\<lambda>v. case (go_str v ''userId'', go_str v ''code'') of (Some u, Some c) \<Rightarrow> Some (u, c) | _ \<Rightarrow> None) req
     else None)"

definition handed_in :: "jstr \<Rightarrow> http_req \<times> http_res \<Rightarrow> (jstr \<times> one_time_key) option" where
  "handed_in base x =
    (case segments base (fst x) of
       Some [a, b, u] \<Rightarrow>
         if rq_method (fst x) = js ''GET'' \<and> a = js ''v1'' \<and> b = js ''keys'' \<and> u \<noteq> js ''pool''
         then Option.bind (json_parse (rs_text (snd x))) (\<lambda>v.
           case (field v ''oneTimePreKeyId'', field v ''oneTimePreKeyPublicB64'') of
             (Some (JInt i), Some (JStr p)) \<Rightarrow> Some (u, \<lparr>ok_id = i, ok_public = p\<rparr>) | _ \<Rightarrow> None)
         else None
     | _ \<Rightarrow> None)"

definition same_directory :: "dstore \<Rightarrow> dstore \<Rightarrow> bool" where
  "same_directory s t \<longleftrightarrow> d_path t = d_path s \<and> d_disk t = d_disk s \<and> d_salt t = d_salt s \<and> d_accounts t = d_accounts s \<and>
     d_pending t = d_pending s \<and> d_secret t = d_secret s"

inductive effect :: "jstr \<Rightarrow> service \<Rightarrow> http_req \<Rightarrow> service \<Rightarrow> http_res \<Rightarrow> bool" for base w req where
  Quiet: "same_directory (sv_store w) (sv_store w') \<Longrightarrow> sv_sms w' = sv_sms w \<Longrightarrow> guess_of base req = None \<Longrightarrow>
    handed_in base (req, res) = None \<Longrightarrow> effect base w req w' res"
| Registered: "store_register (sv_now w) (newUUID (draw 0 w)) otp r (sv_store w) = (sv_store w', True) \<Longrightarrow>
    sv_sms w' = sv_sms w @ [(rr_phone r, otp)] \<Longrightarrow> guess_of base req = None \<Longrightarrow> handed_in base (req, res) = None \<Longrightarrow>
    sv_drawn w < sv_drawn w' \<Longrightarrow> effect base w req w' res"
| Guessed: "guess_of base req = Some (u, c) \<Longrightarrow> store_verify (sv_now w) u c (sv_store w) = (sv_store w', x) \<Longrightarrow>
    sv_sms w' = sv_sms w \<Longrightarrow> handed_in base (req, res) = None \<Longrightarrow>
    (rs_status res = 401 \<longleftrightarrow> x = None) \<Longrightarrow> effect base w req w' res"
| Linked: "store_linkDevice (sv_now w) (newUUID (draw 0 w)) tok r (sv_store w) = (sv_store w', Some x) \<Longrightarrow>
    sv_sms w' = sv_sms w \<Longrightarrow> guess_of base req = None \<Longrightarrow> handed_in base (req, res) = None \<Longrightarrow>
    sv_drawn w < sv_drawn w' \<Longrightarrow> effect base w req w' res"
| Deleted: "store_deleteAccount u (sv_store w) = (sv_store w', ok) \<Longrightarrow> sv_sms w' = sv_sms w \<Longrightarrow> guess_of base req = None \<Longrightarrow>
    handed_in base (req, res) = None \<Longrightarrow> effect base w req w' res"
| Removed: "store_removeDevice u v (sv_store w) = (sv_store w', ok) \<Longrightarrow> sv_sms w' = sv_sms w \<Longrightarrow> guess_of base req = None \<Longrightarrow>
    handed_in base (req, res) = None \<Longrightarrow> effect base w req w' res"
| Handed: "store_bundleFor u (sv_store w) = (sv_store w', x) \<Longrightarrow> sv_sms w' = sv_sms w \<Longrightarrow> guess_of base req = None \<Longrightarrow>
    handed_in base (req, res) =
      (case x of Some (a, Some k) \<Rightarrow> Some (u, k) | _ \<Rightarrow> None) \<Longrightarrow> effect base w req w' res"
| Uploaded: "bearerUser req w = Some u \<Longrightarrow> decode_body (\<lambda>v. go_list one_time_of v ''oneTimePreKeys'') req = Some ks \<Longrightarrow>
    store_addOneTime u ks (sv_store w) = (sv_store w', n) \<Longrightarrow> sv_sms w' = sv_sms w \<Longrightarrow> guess_of base req = None \<Longrightarrow>
    handed_in base (req, res) = None \<Longrightarrow> effect base w req w' res"

lemma match_path_simps:
  "match_path [] ss = Some xs \<longleftrightarrow> ss = [] \<and> xs = []"
  "match_path (Some k # ps) ss = Some xs \<longleftrightarrow> (\<exists>r. ss = js k # r \<and> match_path ps r = Some xs)"
  "match_path (None # ps) ss = Some xs \<longleftrightarrow> (\<exists>s r ys. ss = s # r \<and> s \<noteq> [] \<and> xs = s # ys \<and> match_path ps r = Some ys)"
  by (cases ss; auto)+

lemma find_route_mem: "find_route rs m ss = Some (h, ps) \<Longrightarrow> \<exists>meth pat. (meth, pat, h) \<in> set rs \<and> m = js meth \<and> match_path pat ss = Some ps"
  by (induction rs m ss rule: find_route.induct) (auto split: if_splits option.splits)

lemma route_cases:
  assumes "find_route routes m ss = Some (h, ps)"
  obtains (verify) "h = h_verify" "m = js ''POST''" "ss = map js [''v1'', ''accounts'', ''verify'']"
    | (keys) u where "h = h_fetchKeys" "m = js ''GET''" "ss = [js ''v1'', js ''keys'', u]" "ps = [u]" "u \<noteq> js ''pool''"
    | (post) "m \<noteq> js ''GET''" "ss \<noteq> map js [''v1'', ''accounts'', ''verify'']"
        "h \<in> {h_register, h_refresh, h_deleteAccount, h_uploadKeys, h_intersect, h_linkToken, h_link, h_removeDevice}"
    | (reads) "m = js ''GET''" "\<And>u. ss = [js ''v1'', js ''keys'', u] \<Longrightarrow> u = js ''pool''"
        "h \<in> {h_healthz, h_keyPool, h_salt, h_myDevices, h_devices, h_account}"
proof (cases "m = js ''GET'' \<and> ss = map js [''v1'', ''keys'', ''pool'']")
  case True
  then have "h = h_keyPool" using assms by (simp add: routes_def js_inject)
  then show ?thesis using True reads by auto
next
  case False
  obtain meth pat where r: "(meth, pat, h) \<in> set routes" "m = js meth" "match_path pat ss = Some ps"
    using find_route_mem [OF assms] by blast
  from r(1) show ?thesis
    using r(2,3) False verify keys post reads
    by (auto simp: routes_def match_path_simps js_inject) blast
qed

lemma same_directory_refl [simp]: "same_directory s s"
  by (simp add: same_directory_def)

lemma service_put_simps [simp]: "sv_store (put s n w) = s" "sv_sms (put s n w) = sv_sms w" "sv_drawn (put s n w) = sv_drawn w + n"
  "sv_draws (put s n w) = sv_draws w" "sv_now (put s n w) = sv_now w"
  by (simp_all add: put_def)

lemma h_register_effect:
  assumes "guess_of base req = None" "handed_in base (req, res) = None" "h_register perm ps req w = (w', res)"
  shows "effect base w req w' res"
proof (cases "w' = w")
  case True
  then show ?thesis using assms by (auto intro: effect.Quiet)
next
  case False
  then obtain r0 where r0: "decode_body register_request_of req = Some r0" using assms(3) by (auto simp: h_register_def split: option.splits)
  define r where "r = (if rr_device r0 = 0 then r0\<lparr>rr_device := 1\<rparr> else r0)"
  define otp where "otp = newOTP (draw (Suc 0) w)"
  have ph: "rr_phone r0 = rr_phone r" by (simp add: r_def)
  obtain s b where sb: "store_register (sv_now w) (newUUID (draw 0 w)) otp r (sv_store w) = (s, b)" by fastforce
  with assms(3) False r0 have "b \<and> w' = (put s 2 w)\<lparr>sv_sms := sv_sms w @ [(rr_phone r, otp)]\<rparr>"
    unfolding h_register_def ph by (cases b) (simp_all add: Let_def ph split: if_splits flip: r_def otp_def)
  then show ?thesis using assms(1,2) sb by (auto intro: effect.Registered)
qed

lemma h_link_effect:
  assumes "guess_of base req = None" "handed_in base (req, res) = None" "h_link perm ps req w = (w', res)"
  shows "effect base w req w' res"
proof (cases "w' = w")
  case True
  then show ?thesis using assms by (auto intro: effect.Quiet)
next
  case False
  then obtain t r where d: "decode_body link_request_of req = Some (t, r)"
    using assms(3) by (auto simp: h_link_def split: option.splits)
  obtain s x where sx: "store_linkDevice (sv_now w) (newUUID (draw 0 w)) t r (sv_store w) = (s, x)" by fastforce
  show ?thesis
  proof (cases x)
    case None
    then have "same_directory (sv_store w) s"
      using sx by (auto simp: store_linkDevice_def same_directory_def Let_def split: option.splits if_splits)
    moreover have "w' = put s 0 w" using assms(3) False d sx None by (simp add: h_link_def Let_def split: if_splits)
    ultimately show ?thesis using assms(1,2) by (auto intro: effect.Quiet)
  next
    case (Some y)
    then have "w' = put s 1 w" using assms(3) False d sx by (simp add: h_link_def Let_def split: if_splits prod.splits)
    then show ?thesis using assms(1,2) sx Some by (auto intro!: effect.Linked)
  qed
qed

lemma h_verify_effect:
  assumes "rq_method req = js ''POST''" "segments base req = Some (map js [''v1'', ''accounts'', ''verify''])"
    "\<not> unclean (request_path base (rq_url req))" "handed_in base (req, res) = None" "h_verify perm ps req w = (w', res)"
  shows "effect base w req w' res"
proof (cases "guess_of base req")
  case None
  then have "w' = w" using assms by (auto simp: h_verify_def guess_of_def)
  then show ?thesis using None assms(4) by (auto intro: effect.Quiet)
next
  case (Some g)
  obtain u c where g: "g = (u, c)" by (cases g)
  obtain s x where v: "store_verify (sv_now w) u c (sv_store w) = (s, x)" by (cases "store_verify (sv_now w) u c (sv_store w)")
  have "h_verify perm ps req w = (case (s, x) of (s, None) \<Rightarrow> (put s 0 w, writeError 401 (js ''invalid userId or code''))
         | (s, Some (access, refr)) \<Rightarrow>
            (put s 0 w, writeJSON 200 (JObj [(js ''verified'', JBool True), (js ''token'', JStr access), (js ''refreshToken'', JStr refr)])))"
    using Some assms(1-3) by (simp add: h_verify_def guess_of_def g v split: if_splits)
  then have "sv_store w' = s \<and> sv_sms w' = sv_sms w \<and> (rs_status res = 401 \<longleftrightarrow> x = None)"
    using assms(5) by (auto split: option.splits)
  then show ?thesis using Some g v assms(4) by (auto intro!: effect.Guessed)
qed

lemma handed_only_keys:
  "rq_method req \<noteq> js ''GET'' \<Longrightarrow> handed_in base (req, res) = None"
  "segments base req = Some ss \<Longrightarrow> (\<And>u. ss = [js ''v1'', js ''keys'', u] \<Longrightarrow> u = js ''pool'') \<Longrightarrow> handed_in base (req, res) = None"
  by (auto simp: handed_in_def split: option.splits list.splits)

lemma authed_cases:
  "authed f req w = (w', res) \<Longrightarrow> w' = w \<and> res = writeError 401 (js ''missing or invalid token'') \<or> (\<exists>u. bearerUser req w = Some u \<and> f u = (w', res))"
  by (auto simp: authed_def split: option.splits)

lemma h_posts_effect:
  assumes h: "h \<in> {h_refresh, h_deleteAccount, h_uploadKeys, h_intersect, h_linkToken, h_removeDevice}" "h perm ps req w = (w', res)"
    and q: "guess_of base req = None" "handed_in base (req, res) = None"
  shows "effect base w req w' res"
proof -
  have quiet: ?thesis if "same_directory (sv_store w) (sv_store w') \<and> sv_sms w' = sv_sms w"
    using that q by (auto intro: effect.Quiet)
  consider "w' = w" | "w' \<noteq> w" "h = h_refresh" | "w' \<noteq> w" "h = h_deleteAccount" | "w' \<noteq> w" "h = h_uploadKeys"
    | "w' \<noteq> w" "h = h_intersect" | "w' \<noteq> w" "h = h_linkToken" | "w' \<noteq> w" "h = h_removeDevice"
    using h(1) by auto
  then show ?thesis
  proof cases
    case 1
    then show ?thesis using quiet by simp
  next
    case 2
    then show ?thesis using h(2) by (auto simp: h_refresh_def split: option.splits)
  next
    case 3
    then obtain u ok where "store_deleteAccount u (sv_store w) = (sv_store w', ok)" "sv_sms w' = sv_sms w"
      using h(2) by (auto simp: h_deleteAccount_def dest!: authed_cases split: prod.splits)
    then show ?thesis using q by (rule effect.Deleted)
  next
    case 4
    then obtain u ks n where "bearerUser req w = Some u" "decode_body (\<lambda>v. go_list one_time_of v ''oneTimePreKeys'') req = Some ks"
        "store_addOneTime u ks (sv_store w) = (sv_store w', n)" "sv_sms w' = sv_sms w"
      using h(2) by (auto simp: h_uploadKeys_def dest!: authed_cases split: prod.splits option.splits)
    then show ?thesis using q by (rule effect.Uploaded)
  next
    case 5
    have "same_directory s s'" if "store_allowIntersect n u k s = (s', b)" for n u k s s' b
      using that by (auto simp: store_allowIntersect_def Let_def same_directory_def)
    then show ?thesis using 5 h(2) quiet
      by (auto simp: h_intersect_def dest!: authed_cases split: prod.splits option.splits if_splits bool.splits)
  next
    case 6
    then show ?thesis using h(2) quiet
      by (auto simp: h_linkToken_def Let_def store_createLinkToken_def same_directory_def dest!: authed_cases split: option.splits)
  next
    case 7
    then obtain u v ok where "store_removeDevice u v (sv_store w) = (sv_store w', ok)" "sv_sms w' = sv_sms w"
      using h(2) by (auto simp: h_removeDevice_def dest!: authed_cases split: prod.splits)
    then show ?thesis using q by (rule effect.Removed)
  qed
qed

lemma h_reads_same:
  "h \<in> {h_healthz, h_keyPool, h_salt, h_myDevices, h_devices, h_account} \<Longrightarrow> h perm ps req w = (w', res) \<Longrightarrow> w' = w"
  by (auto simp: h_healthz_def h_keyPool_def h_salt_def h_myDevices_def h_devices_def h_account_def dest!: authed_cases)

lemma h_fetchKeys_effect:
  assumes "rq_method req = js ''GET''" "segments base req = Some [js ''v1'', js ''keys'', u]" "u \<noteq> js ''pool''" "guess_of base req = None"
    and "h_fetchKeys perm [u] req w = (w', res)"
  shows "effect base w req w' res"
proof -
  have h: "handed_in base (req, res) = Option.bind (json_parse (rs_text res)) (\<lambda>v.
           case (field v ''oneTimePreKeyId'', field v ''oneTimePreKeyPublicB64'') of
             (Some (JInt i), Some (JStr p)) \<Rightarrow> Some (u, \<lparr>ok_id = i, ok_public = p\<rparr>) | _ \<Rightarrow> None)"
    using assms(1-3) by (simp add: handed_in_def)
  have err: "handed_in base (req, writeError n m) = None" if "res = writeError n m" for n m
    using h that by (simp add: payload_defs)
  consider "w' = w" "res = writeError 401 (js ''missing or invalid token'')"
    | s x where "store_bundleFor u (sv_store w) = (s, x)" "w' = put s 0 w"
        "res = (case x of None \<Rightarrow> writeError 404 (js ''no verified account for that user'') | Some (a, k) \<Rightarrow> writeJSON 200 (bundle_json a k))"
    using assms(5) by (auto simp: h_fetchKeys_def dest!: authed_cases split: prod.splits option.splits)
  then show ?thesis
  proof cases
    case 1
    then show ?thesis using err assms(4) by (auto intro: effect.Quiet)
  next
    case (2 s x)
    have "handed_in base (req, res) = (case x of Some (a, Some k) \<Rightarrow> Some (u, k) | _ \<Rightarrow> None)"
    proof (cases x)
      case None
      then show ?thesis using 2(3) err by simp
    next
      case (Some y)
      then show ?thesis using 2(3) h wf_bundle by (cases y) (auto simp: bundle_json_def Let_def payload_defs split: option.split)
    qed
    then show ?thesis using 2 assms(4) by (auto intro!: effect.Handed)
  qed
qed

lemma serve_effect:
  assumes "serve perm base req w = (w', Some res)"
  shows "effect base w req w' res"
proof -
  have quiet: "handed_in base (req, res) = None \<Longrightarrow> guess_of base req = None \<Longrightarrow> effect base w req w res"
    by (auto intro: effect.Quiet)
  show ?thesis
  proof (cases "segments base req")
    case None
    then show ?thesis using assms quiet by (auto simp: serve_def Let_def segments_def guess_of_def handed_in_def)
  next
    case (Some ss)
    let ?p = "request_path base (rq_url req)"
    have n: "handed_in base (req, res) = None" if "json_parse (rs_text res) = None"
      using that by (simp add: handed_in_def split: option.splits list.splits)
    consider "unclean ?p" | "\<not> unclean ?p" "find_route routes (rq_method req) ss = None"
      | h ps where "\<not> unclean ?p" "find_route routes (rq_method req) ss = Some (h, ps)" by (metis not_None_eq surj_pair)
    then show ?thesis
    proof cases
      case 1
      have "json_parse [] = None" by code_simp
      then show ?thesis using 1 assms Some quiet n by (auto simp: serve_def segments_def guess_of_def)
    next
      case 2
      have "guess_of base req = None" using 2(2) Some by (auto simp: guess_of_def routes_def js_inject)
      moreover have "json_parse (js ''404 page not found'' @ [10]) = None" "json_parse (js ''Method Not Allowed'' @ [10]) = None"
        by code_simp+
      then have "json_parse (rs_text (not_routed ss)) = None" by (simp add: not_routed_def)
      ultimately show ?thesis using 2 assms Some quiet n by (auto simp: serve_def segments_def)
    next
      case (3 h ps)
      then have r: "h perm ps req w = (w', res)"
        using assms Some by (auto simp: serve_def segments_def map_prod_def split: prod.splits)
      from 3(2) show ?thesis
      proof (cases rule: route_cases)
        case verify
        then have "handed_in base (req, res) = None" using handed_only_keys(1) by (simp add: js_inject)
        then show ?thesis using h_verify_effect Some verify 3(1) r by simp
      next
        case (keys u)
        then have "guess_of base req = None" by (simp add: guess_of_def js_inject)
        then show ?thesis using h_fetchKeys_effect Some keys r by simp
      next
        case post
        then have q: "guess_of base req = None" "handed_in base (req, res) = None"
          using handed_only_keys(1) Some by (simp_all add: guess_of_def)
        consider "h = h_register" | "h = h_link"
          | "h \<in> {h_refresh, h_deleteAccount, h_uploadKeys, h_intersect, h_linkToken, h_removeDevice}" using post(3) by auto
        then show ?thesis
          using h_register_effect [OF q] h_link_effect [OF q] h_posts_effect [OF _ _ q] r by cases auto
      next
        case reads
        then have "handed_in base (req, res) = None" "guess_of base req = None"
          using handed_only_keys(2) [OF Some] by (auto simp: guess_of_def js_inject)
        then show ?thesis using h_reads_same [OF reads(3) r] quiet by simp
      qed
    qed
  qed
qed

subsection \<open>The clock and the draws\<close>

definition frame :: "service \<Rightarrow> service \<Rightarrow> bool" where
  "frame w w' \<longleftrightarrow> sv_draws w' = sv_draws w \<and> sv_now w' = sv_now w \<and> sv_dev w' = sv_dev w \<and> sv_drawn w \<le> sv_drawn w'"

lemma frame_refl [simp]: "frame w w"
  by (simp add: frame_def)

lemma frame_put [simp]: "frame w (put s n w)" "frame w ((put s n w)\<lparr>sv_sms := x\<rparr>)"
  by (simp_all add: frame_def put_def)

lemma handler_frame: "find_route routes m ss = Some (h, ps) \<Longrightarrow> h perm ps req w = (w', res) \<Longrightarrow> frame w w'"
proof (erule route_cases)
  assume r: "h perm ps req w = (w', res)"
  show "frame w w'" if "h = h_verify"
    using r that by (auto simp: h_verify_def split: option.splits prod.splits)
  show "frame w w'" if "h = h_fetchKeys" for u
    using r that by (auto simp: h_fetchKeys_def dest!: authed_cases split: option.splits prod.splits)
  show "frame w w'" if "h \<in> {h_register, h_refresh, h_deleteAccount, h_uploadKeys, h_intersect, h_linkToken, h_link, h_removeDevice}"
  proof -
    note m = that
    consider "h = h_register" | "h = h_refresh" | "h = h_deleteAccount" | "h = h_uploadKeys"
      | "h = h_intersect" | "h = h_linkToken" | "h = h_link" | "h = h_removeDevice" using m by auto
    then show ?thesis
    proof cases
      case 1
      then show ?thesis using r by (auto simp: h_register_def Let_def split: option.splits if_splits prod.splits bool.splits)
    next
      case 2
      then show ?thesis using r by (auto simp: h_refresh_def split: option.splits)
    next
      case 3
      then show ?thesis using r by (auto simp: h_deleteAccount_def dest!: authed_cases split: prod.splits)
    next
      case 4
      then show ?thesis using r by (auto simp: h_uploadKeys_def dest!: authed_cases split: option.splits prod.splits)
    next
      case 5
      then show ?thesis using r by (auto simp: h_intersect_def dest!: authed_cases split: option.splits prod.splits if_splits bool.splits)
    next
      case 6
      then show ?thesis using r by (auto simp: h_linkToken_def Let_def dest!: authed_cases split: option.splits)
    next
      case 7
      then show ?thesis using r by (auto simp: h_link_def Let_def split: option.splits if_splits prod.splits)
    next
      case 8
      then show ?thesis using r by (auto simp: h_removeDevice_def dest!: authed_cases split: prod.splits)
    qed
  qed
  show "frame w w'" if "h \<in> {h_healthz, h_keyPool, h_salt, h_myDevices, h_devices, h_account}"
    using h_reads_same [OF that r] by simp
qed

lemma serve_frame: "serve perm base req w = (w', x) \<Longrightarrow> frame w w'"
proof -
  assume a: "serve perm base req w = (w', x)"
  show ?thesis
  proof (cases "w' = w")
    case False
    then obtain ss h ps res where "find_route routes (rq_method req) ss = Some (h, ps)" "h perm ps req w = (w', res)"
      using a by (auto simp: serve_def Let_def map_prod_def split: option.splits if_splits prod.splits)
    then show ?thesis by (rule handler_frame)
  qed simp
qed

text \<open>A random UUID is never drawn twice: \<open>u\<close> is none of those to come.\<close>

definition never_drawn :: "jstr \<Rightarrow> service \<Rightarrow> bool" where
  "never_drawn u w \<longleftrightarrow> (\<forall>i\<ge>sv_drawn w. newUUID (sv_draws w i) \<noteq> u)"

lemma run_frame: "service_run perm base w0 tr w \<Longrightarrow> sv_draws w = sv_draws w0 \<and> sv_drawn w0 \<le> sv_drawn w"
  by (induction rule: service_run.induct) (auto dest!: serve_frame simp: frame_def)

lemma run_never_drawn: "service_run perm base w0 tr w \<Longrightarrow> never_drawn u w0 \<Longrightarrow> never_drawn u w"
  by (drule run_frame) (auto simp: never_drawn_def)

lemma never_drawn_now: "never_drawn u w \<Longrightarrow> newUUID (draw 0 (w\<lparr>sv_now := n\<rparr>)) \<noteq> u"
  by (simp add: never_drawn_def draw_def)

subsection \<open>A code survives four wrong guesses\<close>

lemma persist_simps [simp]:
  "d_accounts (ds_persist s) = d_accounts s" "d_pending (ds_persist s) = d_pending s" "d_salt (ds_persist s) = d_salt s"
  "d_path (ds_persist s) = d_path s" "d_secret (ds_persist s) = d_secret s" "d_lastRegister (ds_persist s) = d_lastRegister s"
  "d_linkTokens (ds_persist s) = d_linkTokens s"
  by (simp_all add: ds_persist_def)

lemma fold_del: "map_of (fold (\<lambda>(x, _). map_del x) l m) k = (if k \<in> fst ` set l then None else map_of m k)"
  by (induction l arbitrary: m) auto

lemma pending_after:
  "store_register n uid otp r s = (s', b) \<Longrightarrow> uid \<noteq> u \<Longrightarrow> map_of (d_pending s') u = map_of (d_pending s) u"
  "store_linkDevice n uid tok r s = (s', x) \<Longrightarrow> d_pending s' = d_pending s"
  "store_deleteAccount v s = (s', b) \<Longrightarrow> map_of (d_pending s') u = map_of (d_pending s) u \<or> map_of (d_pending s') u = None"
  "store_removeDevice v v' s = (s', b) \<Longrightarrow> map_of (d_pending s') u = map_of (d_pending s) u \<or> map_of (d_pending s') u = None"
  "store_bundleFor v s = (s', y) \<Longrightarrow> d_pending s' = d_pending s"
  "store_addOneTime v ks s = (s', m) \<Longrightarrow> d_pending s' = d_pending s"
  by (auto simp: store_register_def store_linkDevice_def store_deleteAccount_def store_removeDevice_def store_bundleFor_def
      store_addOneTime_def Let_def fold_del split: option.splits if_splits list.splits)

definition wrong_guess :: "jstr \<Rightarrow> jstr \<Rightarrow> jstr \<Rightarrow> http_req \<times> http_res \<Rightarrow> bool" where
  "wrong_guess base u c x = (case guess_of base (fst x) of Some (v, d) \<Rightarrow> v = u \<and> d \<noteq> c | None \<Rightarrow> False)"

definition guessed :: "jstr \<Rightarrow> pending_otp \<Rightarrow> nat \<Rightarrow> dstore \<Rightarrow> bool" where
  "guessed u p n s \<longleftrightarrow> map_of (d_pending s) u = None \<or>
     map_of (d_pending s) u = Some (p\<lparr>po_attempts := n\<rparr>) \<and> n < maxOTPAttempts"

lemma guessed_other: "map_of (d_pending s') u = map_of (d_pending s) u \<or> map_of (d_pending s') u = None \<Longrightarrow> guessed u p n s \<Longrightarrow> guessed u p n s'"
  by (auto simp: guessed_def)

lemma guessed_verify:
  "guessed u p n s \<Longrightarrow> guessed u p (if v = u \<and> c \<noteq> po_code p then Suc n else n) (fst (store_verify now v c s))"
  by (auto simp: guessed_def store_verify_def Let_def split: option.splits)

lemma guessed_effect:
  assumes "effect base w req w' res" "never_drawn u w" "guessed u p n (sv_store w)"
  shows "guessed u p (if wrong_guess base u (po_code p) (req, res) then Suc n else n) (sv_store w')"
  using assms(1)
proof cases
  case Quiet
  then show ?thesis using assms(3) by (simp add: wrong_guess_def guessed_def same_directory_def)
next
  case (Registered otp r)
  have "newUUID (draw 0 w) \<noteq> u" using assms(2) by (simp add: never_drawn_def draw_def)
  from pending_after(1) [OF Registered(1) this] show ?thesis using assms(3) Registered by (simp add: wrong_guess_def guessed_def)
next
  case (Guessed v c x)
  then show ?thesis using guessed_verify [OF assms(3), of v c "sv_now w"] by (auto simp: wrong_guess_def)
next
  case (Linked tok r x)
  then show ?thesis using assms(3) pending_after(2) [OF Linked(1)] by (simp add: wrong_guess_def guessed_def)
next
  case (Deleted v ok)
  then show ?thesis using Deleted guessed_other [OF pending_after(3) [OF Deleted(1)] assms(3)] by (simp add: wrong_guess_def)
next
  case (Removed v v' ok)
  then show ?thesis using Removed guessed_other [OF pending_after(4) [OF Removed(1)] assms(3)] by (simp add: wrong_guess_def)
next
  case (Handed v x)
  then show ?thesis using assms(3) pending_after(5) [OF Handed(1)] by (simp add: wrong_guess_def guessed_def)
next
  case (Uploaded v ks m)
  then show ?thesis using assms(3) pending_after(6) [OF Uploaded(3)] by (simp add: wrong_guess_def guessed_def)
qed

lemma guessed_run:
  "service_run perm base w0 tr w \<Longrightarrow> never_drawn u w0 \<Longrightarrow> guessed u p 0 (sv_store w0) \<Longrightarrow>
   guessed u p (length (filter (wrong_guess base u (po_code p)) tr)) (sv_store w)"
proof (induction rule: service_run.induct)
  case (Request tr w now req w' res)
  have "never_drawn u (w\<lparr>sv_now := now\<rparr>)" using run_never_drawn [OF Request.hyps(1) Request.prems(1)] by (simp add: never_drawn_def)
  then show ?case using guessed_effect [OF serve_effect [OF Request.hyps(3)], of u p
      "length (filter (wrong_guess base u (po_code p)) tr)"] Request.IH [OF Request.prems] by (simp split: if_splits)
next
  case (Restart tr w salt)
  have "d_pending (ds_restart salt s) = []" for s by (simp add: ds_restart_def NewStore_def Let_def split: option.split prod.split)
  then show ?case by (simp add: guessed_def)
qed simp

text \<open>C16: Guessing is bounded: once five wrong codes have been tried against a pending registration, in whatever order and between whatever
  other requests and restarts, every further verification of it is refused, the right code included.\<close>

theorem otp_cannot_be_brute_forced:
  assumes "service_run perm base w0 tr w" "never_drawn u w0" "map_of (d_pending (sv_store w0)) u = Some p" "po_attempts p = 0"
    and "5 \<le> length (filter (wrong_guess base u (po_code p)) tr)"
    and "serve perm base req w = (w', Some res)" "guess_of base req = Some (u, code)"
  shows "rs_status res = 401"
proof -
  have "guessed u p 0 (sv_store w0)" using assms(3,4) by (simp add: guessed_def maxOTPAttempts_def)
  from guessed_run [OF assms(1,2) this] assms(5) have "map_of (d_pending (sv_store w)) u = None"
    by (auto simp: guessed_def maxOTPAttempts_def)
  then have "store_verify n u code (sv_store w) = (sv_store w, None)" for n by (simp add: store_verify_def)
  then show ?thesis using serve_effect [OF assms(6)] assms(7) by (auto elim!: effect.cases)
qed

subsection \<open>What is on disk\<close>

definition store_ok :: "dstore \<Rightarrow> bool" where
  "store_ok s \<longleftrightarrow> map_ok (d_accounts s) \<and>
    (\<forall>(u, a)\<in>set (d_accounts s). ac_user a = u \<and> u \<noteq> [] \<and> ac_account a \<noteq> []) \<and>
    (d_path s \<longrightarrow> (case d_disk s of None \<Rightarrow> d_accounts s = [] | Some (sa, as) \<Rightarrow> sa = d_salt s \<and> as = d_accounts s))"

lemma NewStore_ok: "store_ok (NewStore salt secret path)"
  by (simp add: store_ok_def NewStore_def)

lemma persist_ok: "map_ok (d_accounts s) \<Longrightarrow> (\<forall>(u, a)\<in>set (d_accounts s). ac_user a = u \<and> u \<noteq> [] \<and> ac_account a \<noteq> []) \<Longrightarrow> store_ok (ds_persist s)"
  by (simp add: store_ok_def ds_persist_def)

lemma store_ok_set:
  "store_ok s \<Longrightarrow> u \<noteq> [] \<Longrightarrow> ac_user a = u \<Longrightarrow> ac_account a \<noteq> [] \<Longrightarrow> d_accounts t = map_set u a (d_accounts s) \<Longrightarrow> store_ok (ds_persist t)"
  using set_map_set [of u a "d_accounts s"] by (intro persist_ok) (auto simp: store_ok_def)

lemma store_ok_sub:
  "store_ok s \<Longrightarrow> d_accounts t = filter P (d_accounts s) \<Longrightarrow> store_ok (ds_persist t)"
  by (intro persist_ok) (auto simp: store_ok_def map_ok_def distinct_map_filter)

lemma store_ok_get: "store_ok s \<Longrightarrow> map_of (d_accounts s) u = Some a \<Longrightarrow> ac_user a = u \<and> u \<noteq> [] \<and> ac_account a \<noteq> []"
  by (auto simp: store_ok_def dest!: map_of_SomeD)

lemma store_ok_same: "d_accounts t = d_accounts s \<Longrightarrow> d_path t = d_path s \<Longrightarrow> d_disk t = d_disk s \<Longrightarrow> d_salt t = d_salt s \<Longrightarrow> store_ok s \<Longrightarrow> store_ok t"
  by (auto simp: store_ok_def split: option.splits)

lemma newUUID_ne: "newUUID r \<noteq> []"
  by (simp add: newUUID_def Let_def)

lemma fold_restore:
  "map_ok (m @ l) \<Longrightarrow> \<forall>(u, a)\<in>set l. ac_user a = u \<and> ac_account a \<noteq> [] \<Longrightarrow>
   fold (\<lambda>(_, a). map_set (ac_user a) (own_account a)) l m = m @ l"
proof (induction l arbitrary: m)
  case (Cons x l)
  obtain u a where x: "x = (u, a)" by (cases x)
  have "u \<notin> fst ` set m" using Cons.prems(1) x by (auto simp: map_ok_def)
  then have "map_set u a m = m @ [(u, a)]" unfolding map_set_def by (induction m) auto
  then show ?case using Cons x by (simp add: own_account_def)
qed simp

lemma restart_ok:
  assumes "store_ok s" "d_path s"
  shows "d_accounts (ds_restart salt s) = d_accounts s" "d_disk s \<noteq> None \<Longrightarrow> d_salt (ds_restart salt s) = d_salt s"
    "store_ok (ds_restart salt s)"
proof -
  have "fold (\<lambda>(_, a). map_set (ac_user a) (own_account a)) (d_accounts s) [] = [] @ d_accounts s"
    using assms(1) by (intro fold_restore) (auto simp: store_ok_def)
  then show "d_accounts (ds_restart salt s) = d_accounts s" "d_disk s \<noteq> None \<Longrightarrow> d_salt (ds_restart salt s) = d_salt s"
      "store_ok (ds_restart salt s)"
    using assms by (auto simp: ds_restart_def store_ok_def NewStore_def Let_def split: option.splits)
qed

lemma filter_del: "map_del k m = filter (\<lambda>(x, _). x \<noteq> k) m"
  by (simp add: map_del_def AList.delete_eq case_prod_unfold eq_commute)

lemma new_account_simps [simp]:
  "ac_user (new_account u acct h d r v) = u" "ac_account (new_account u acct h d r v) = acct" "ac_hash (new_account u acct h d r v) = h"
  "ac_verified (new_account u acct h d r v) = v" "ac_oneTime (new_account u acct h d r v) = rr_oneTime r"
  by (simp_all add: new_account_def)

lemma link_adds:
  "store_linkDevice n uid tok r s = (s', Some x) \<Longrightarrow> \<exists>acct dev t. map_of (d_accounts s) acct \<noteq> None \<and>
     d_accounts t = map_set uid (new_account uid acct [] dev r True) (d_accounts s) \<and> s' = ds_persist t \<and> d_salt t = d_salt s"
  by (auto simp: store_linkDevice_def Let_def split: option.splits if_splits) (auto intro!: exI)

lemma store_ok_effect:
  assumes "effect base w req w' res" "store_ok (sv_store w)"
  shows "store_ok (sv_store w')"
  using assms(1)
proof cases
  case Quiet
  then show ?thesis using assms(2) by (auto simp: same_directory_def intro: store_ok_same)
next
  case (Registered otp r)
  have "store_ok s'" if "store_register n uid otp r (sv_store w) = (s', True)" "uid \<noteq> []" for n uid s'
    using that assms(2) by (auto simp: store_register_def Let_def split: if_splits
        intro!: store_ok_set [of "sv_store w" uid "new_account uid acct h d r v" for acct h d v])
  then show ?thesis using Registered(1) newUUID_ne by blast
next
  case (Guessed v c x)
  have "store_ok s'" if "store_verify n v c (sv_store w) = (s', x)" for n s'
    using that assms(2) store_ok_get [OF assms(2)]
    by (auto simp: store_verify_def Let_def split: option.splits if_splits intro: store_ok_same intro!: store_ok_set [of "sv_store w" v "a\<lparr>ac_verified := True\<rparr>" for a])
  then show ?thesis using Guessed(2) by blast
next
  case (Linked tok r x)
  then obtain acct dev t where "map_of (d_accounts (sv_store w)) acct \<noteq> None" "sv_store w' = ds_persist t"
      "d_accounts t = map_set (newUUID (draw 0 w)) (new_account (newUUID (draw 0 w)) acct [] dev r True) (d_accounts (sv_store w))"
    using link_adds by blast
  then show ?thesis using assms(2) store_ok_get [OF assms(2)] newUUID_ne
    by (auto intro!: store_ok_set [of "sv_store w" "newUUID (draw 0 w)" "new_account (newUUID (draw 0 w)) acct [] dev r True"])
next
  case (Deleted v ok)
  have "store_ok s'" if "store_deleteAccount v (sv_store w) = (s', ok)" for s'
    using that assms(2) by (auto simp: store_deleteAccount_def Let_def split: option.splits intro!: store_ok_sub [of "sv_store w"])
  then show ?thesis using Deleted(1) by blast
next
  case (Removed v v' ok)
  have "store_ok s'" if "store_removeDevice v v' (sv_store w) = (s', ok)" for s'
    using that assms(2)
    by (auto simp: store_removeDevice_def Let_def filter_del split: option.splits if_splits intro!: store_ok_sub [of "sv_store w"])
  then show ?thesis using Removed(1) by blast
next
  case (Handed v x)
  have "store_ok s'" if "store_bundleFor v (sv_store w) = (s', x)" for s'
    using that assms(2) store_ok_get [OF assms(2)]
    by (auto simp: store_bundleFor_def split: option.splits if_splits list.splits intro!: store_ok_set [of "sv_store w" v "a\<lparr>ac_oneTime := ks\<rparr>" for a ks])
  then show ?thesis using Handed(1) by blast
next
  case (Uploaded v ks m)
  have "store_ok s'" if "store_addOneTime v ks (sv_store w) = (s', m)" for s'
    using that assms(2) store_ok_get [OF assms(2)] by (auto simp: store_addOneTime_def split: option.splits
        intro!: store_ok_set [of "sv_store w" v "a\<lparr>ac_oneTime := ac_oneTime a @ ks\<rparr>" for a])
  then show ?thesis using Uploaded(3) by blast
qed

lemma restart_store_ok: "store_ok s \<Longrightarrow> store_ok (ds_restart salt s)"
proof (cases "d_path s")
  case False
  then have "ds_restart salt s = NewStore salt (d_secret s) False" by (simp add: ds_restart_def)
  then show ?thesis by (simp add: NewStore_ok)
qed (rule restart_ok)

lemma store_ok_run: "service_run perm base w0 tr w \<Longrightarrow> store_ok (sv_store w0) \<Longrightarrow> store_ok (sv_store w)"
proof (induction rule: service_run.induct)
  case (Request tr w now req w' res)
  then show ?case using store_ok_effect [OF serve_effect [OF Request.hyps(3)]] by simp
qed (auto intro: restart_store_ok)

lemma const_after:
  "store_register n uid otp r s = (s', b) \<Longrightarrow> d_path s' = d_path s \<and> d_secret s' = d_secret s"
  "store_verify n u c s = (s', x) \<Longrightarrow> d_path s' = d_path s \<and> d_secret s' = d_secret s"
  "store_linkDevice n uid tok r s = (s', y) \<Longrightarrow> d_path s' = d_path s \<and> d_secret s' = d_secret s"
  "store_deleteAccount v s = (s', b) \<Longrightarrow> d_path s' = d_path s \<and> d_secret s' = d_secret s"
  "store_removeDevice v v' s = (s', b) \<Longrightarrow> d_path s' = d_path s \<and> d_secret s' = d_secret s"
  "store_bundleFor v s = (s', z) \<Longrightarrow> d_path s' = d_path s \<and> d_secret s' = d_secret s"
  "store_addOneTime v ks s = (s', m) \<Longrightarrow> d_path s' = d_path s \<and> d_secret s' = d_secret s"
  by (auto simp: store_register_def store_verify_def store_linkDevice_def store_deleteAccount_def store_removeDevice_def
      store_bundleFor_def store_addOneTime_def Let_def split: option.splits if_splits list.splits)

lemma const_effect: "effect base w req w' res \<Longrightarrow> d_path (sv_store w') = d_path (sv_store w) \<and> d_secret (sv_store w') = d_secret (sv_store w)"
  by (cases rule: effect.cases) (auto simp: same_directory_def dest: const_after)

lemma const_run: "service_run perm base w0 tr w \<Longrightarrow> d_path (sv_store w) = d_path (sv_store w0) \<and> d_secret (sv_store w) = d_secret (sv_store w0)"
proof (induction rule: service_run.induct)
  case (Request tr w now req w' res)
  then show ?case using const_effect [OF serve_effect [OF Request.hyps(3)]] by simp
next
  case (Restart tr w salt)
  then show ?case by (simp add: ds_restart_def NewStore_def Let_def split: option.split prod.split)
qed simp

text \<open>What is on disk is the directory: a service that persists its store and is restarted after any run has the same accounts and the same salt.\<close>

theorem restart_keeps_directory:
  assumes "service_run perm base w0 tr w" "sv_store w0 = NewStore salt secret True" "d_accounts (sv_store w) \<noteq> []"
  shows "d_accounts (ds_restart fresh (sv_store w)) = d_accounts (sv_store w) \<and> d_salt (ds_restart fresh (sv_store w)) = d_salt (sv_store w)"
proof -
  have ok: "store_ok (sv_store w)" using store_ok_run [OF assms(1)] assms(2) NewStore_ok by simp
  have "d_path (sv_store w)" using const_run [OF assms(1)] assms(2) by (simp add: NewStore_def)
  moreover from this have "d_disk (sv_store w) \<noteq> None" using ok assms(3) by (auto simp: store_ok_def split: option.splits)
  ultimately show ?thesis using restart_ok [OF ok] by blast
qed

subsection \<open>A revoked device stays out\<close>

lemma absent_after:
  "store_register n uid otp r s = (s', b) \<Longrightarrow> uid \<noteq> u \<Longrightarrow> map_of (d_accounts s) u = None \<Longrightarrow> map_of (d_accounts s') u = None"
  "store_verify n v c s = (s', x) \<Longrightarrow> map_of (d_accounts s) u = None \<Longrightarrow> map_of (d_accounts s') u = None"
  "store_linkDevice n uid tok r s = (s', y) \<Longrightarrow> uid \<noteq> u \<Longrightarrow> map_of (d_accounts s) u = None \<Longrightarrow> map_of (d_accounts s') u = None"
  "store_removeDevice v v' s = (s', b) \<Longrightarrow> map_of (d_accounts s) u = None \<Longrightarrow> map_of (d_accounts s') u = None"
  "store_bundleFor v s = (s', z) \<Longrightarrow> map_of (d_accounts s) u = None \<Longrightarrow> map_of (d_accounts s') u = None"
  "store_addOneTime v ks s = (s', m) \<Longrightarrow> map_of (d_accounts s) u = None \<Longrightarrow> map_of (d_accounts s') u = None"
  by (auto simp: store_register_def store_verify_def store_linkDevice_def store_removeDevice_def
      store_bundleFor_def store_addOneTime_def Let_def split: option.splits if_splits list.splits)

lemma delete_sub: "store_deleteAccount v s = (s', b) \<Longrightarrow> set (d_accounts s') \<subseteq> set (d_accounts s)"
  by (auto simp: store_deleteAccount_def Let_def split: option.splits)

lemma absent_effect:
  assumes "effect base w req w' res" "never_drawn u w" "map_of (d_accounts (sv_store w)) u = None"
  shows "map_of (d_accounts (sv_store w')) u = None"
proof -
  have n: "newUUID (draw 0 w) \<noteq> u" using assms(2) by (simp add: never_drawn_def draw_def)
  from assms(1) show ?thesis
  proof cases
    case Quiet
    then show ?thesis using assms(3) by (simp add: same_directory_def)
  next
    case (Deleted v ok)
    then show ?thesis using delete_sub assms(3) by (force simp: map_of_eq_None_iff)
  next
    case (Registered otp r)
    then show ?thesis using absent_after(1) [OF Registered(1) n assms(3)] by simp
  next
    case (Guessed v c x)
    then show ?thesis using absent_after(2) [OF Guessed(2) assms(3)] by simp
  next
    case (Linked tok r x)
    then show ?thesis using absent_after(3) [OF Linked(1) n assms(3)] by simp
  next
    case (Removed v v' ok)
    then show ?thesis using absent_after(4) [OF Removed(1) assms(3)] by simp
  next
    case (Handed v x)
    then show ?thesis using absent_after(5) [OF Handed(1) assms(3)] by simp
  next
    case (Uploaded v ks m)
    then show ?thesis using absent_after(6) [OF Uploaded(3) assms(3)] by simp
  qed
qed

lemma absent_run:
  "service_run perm base w0 tr w \<Longrightarrow> store_ok (sv_store w0) \<Longrightarrow> never_drawn u w0 \<Longrightarrow> map_of (d_accounts (sv_store w0)) u = None \<Longrightarrow>
   map_of (d_accounts (sv_store w)) u = None"
proof (induction rule: service_run.induct)
  case (Request tr w now req w' res)
  have "never_drawn u (w\<lparr>sv_now := now\<rparr>)" using run_never_drawn [OF Request.hyps(1)] Request.prems by (simp add: never_drawn_def)
  then show ?case using absent_effect [OF serve_effect [OF Request.hyps(3)]] Request by simp
next
  case (Restart tr w salt)
  have ok: "store_ok (sv_store w)" using store_ok_run Restart by blast
  show ?case
  proof (cases "d_path (sv_store w)")
    case True
    then show ?thesis using restart_ok(1) [OF ok] Restart by simp
  next
    case False
    then show ?thesis by (simp add: ds_restart_def NewStore_def)
  qed
qed simp

lemma serve_route:
  "segments base req = Some ss \<Longrightarrow> \<not> unclean (request_path base (rq_url req)) \<Longrightarrow> find_route routes (rq_method req) ss = Some (h, ps) \<Longrightarrow>
   serve perm base req w = map_prod id Some (h perm ps req w)"
  by (simp add: serve_def segments_def)

definition refresh_of :: "jstr \<Rightarrow> http_req \<Rightarrow> jstr option" where
  "refresh_of base req =
    (if rq_method req = js ''POST'' \<and> segments base req = Some [js ''v1'', js ''auth'', js ''refresh''] \<and>
        \<not> unclean (request_path base (rq_url req))
     then decode_body (\<lambda>v. go_str v ''refreshToken'') req else None)"

text \<open>C17: A removed device is locked out: after a request that removes a device has been answered with success, no later request, in any
  run with any restarts, gets new tokens for it, even with an intact refresh token of that device.\<close>

theorem revoked_device_is_locked_out:
  assumes "serve perm base del w0 = (w1, Some gone)" "rq_method del = js ''DELETE''" "segments base del = Some [js ''v1'', js ''devices'', u]"
    and "rs_status gone = 204" "store_ok (sv_store w0)" "never_drawn u w0" "service_run perm base w1 tr w"
    and "serve perm base req w = (w', Some res)" "refresh_of base req = Some tok"
    and "parse_token (d_secret (sv_store w)) (sv_now w) tok = Some (u, kind, e)"
  shows "rs_status res = 401"
proof -
  have clean: "\<not> unclean (request_path base (rq_url del))"
    using assms(1,3,4) by (auto simp: serve_def segments_def)
  have nr: "rs_status (not_routed ss) \<noteq> 204" for ss by (simp add: not_routed_def)
  have u: "find_route routes (rq_method del) [js ''v1'', js ''devices'', u] = Some (h_removeDevice, [u])"
  proof (cases "u = []")
    case True
    then have "find_route routes (rq_method del) [js ''v1'', js ''devices'', u] = None"
      using assms(2) by (simp add: routes_def js_inject)
    then show ?thesis using assms(1,3,4) clean nr by (auto simp: serve_def segments_def)
  next
    case False
    then show ?thesis using assms(2) by (simp add: routes_def js_inject)
  qed
  have "h_removeDevice perm [u] del w0 = (w1, gone)" using serve_route [OF assms(3) clean u] assms(1) by (cases "h_removeDevice perm [u] del w0") simp
  then obtain v s where r: "store_removeDevice v u (sv_store w0) = (s, True)" "w1 = put s 0 w0"
    using assms(4) by (auto simp: h_removeDevice_def dest!: authed_cases split: prod.splits if_splits)
  then have "map_of (d_accounts (sv_store w1)) u = None" by (auto simp: store_removeDevice_def split: option.splits if_splits)
  moreover have "store_ok (sv_store w1)" using store_ok_effect [OF serve_effect [OF assms(1)] assms(5)] .
  moreover have "never_drawn u w1" using assms(6) r(2) by (simp add: never_drawn_def)
  ultimately have "map_of (d_accounts (sv_store w)) u = None" using absent_run [OF assms(7)] by blast
  then have "store_refresh (sv_now w) tok (sv_store w) = None" using assms(10) by (simp add: store_refresh_def)
  moreover have "serve perm base req w = map_prod id Some (h_refresh perm [] req w)"
    using assms(9) by (intro serve_route [of _ _ "[js ''v1'', js ''auth'', js ''refresh'']"])
      (auto simp: refresh_of_def routes_def js_inject split: if_splits)
  ultimately show ?thesis using assms(8,9) by (auto simp: h_refresh_def refresh_of_def split: if_splits)
qed

subsection \<open>One-time prekeys\<close>

definition pool :: "jstr \<Rightarrow> dstore \<Rightarrow> one_time_key list option" where
  "pool u s = map_option ac_oneTime (map_of (d_accounts s) u)"

definition handed :: "jstr \<Rightarrow> jstr \<Rightarrow> (http_req \<times> http_res) list \<Rightarrow> one_time_key list" where
  "handed base u tr = List.map_filter (\<lambda>x. case handed_in base x of Some (v, k) \<Rightarrow> if v = u then Some k else None | None \<Rightarrow> None) tr"

definition offered :: "(http_req \<times> http_res) list \<Rightarrow> one_time_key list" where
  "offered tr = concat (map (\<lambda>(req, _). case decode_body (\<lambda>v. go_list one_time_of v ''oneTimePreKeys'') req of Some ks \<Rightarrow> ks | None \<Rightarrow> []) tr)"

lemma handed_snoc: "handed base u (tr @ [x]) = handed base u tr @ handed base u [x]"
  by (simp add: handed_def List.map_filter_def)

lemma offered_snoc: "offered (tr @ [x]) = offered tr @ offered [x]"
  by (simp add: offered_def)

lemma handed_one: "handed base u [x] = (case handed_in base x of Some (v, k) \<Rightarrow> if v = u then [k] else [] | None \<Rightarrow> [])"
  by (simp add: handed_def List.map_filter_simps split: option.split)

lemma pool_after:
  "store_register n uid otp r s = (s', b) \<Longrightarrow> uid \<noteq> u \<Longrightarrow> pool u s' = pool u s"
  "store_verify n v c s = (s', x) \<Longrightarrow> pool u s' = pool u s"
  "store_linkDevice n uid tok r s = (s', y) \<Longrightarrow> uid \<noteq> u \<Longrightarrow> pool u s' = pool u s"
  "store_removeDevice v v' s = (s', b) \<Longrightarrow> pool u s' = pool u s \<or> pool u s' = None"
  by (auto simp: pool_def store_register_def store_verify_def store_linkDevice_def store_removeDevice_def
      Let_def split: option.splits if_splits)

lemma map_of_filter_sub: "map_ok m \<Longrightarrow> map_of (filter P m) u = map_of m u \<or> map_of (filter P m) u = None"
proof (cases "map_of (filter P m) u")
  case (Some y)
  then have "(u, y) \<in> set m" by (auto dest: map_of_SomeD)
  then show "map_ok m \<Longrightarrow> ?thesis" using Some by (simp add: map_ok_mem)
qed simp

lemma pool_delete: "store_deleteAccount v s = (s', b) \<Longrightarrow> store_ok s \<Longrightarrow> pool u s' = pool u s \<or> pool u s' = None"
proof (cases "map_of (d_accounts s) v")
  case (Some c)
  assume "store_deleteAccount v s = (s', b)" "store_ok s"
  then have "d_accounts s' = filter (\<lambda>(_, a). ac_account a \<noteq> ac_account c) (d_accounts s)" "map_ok (d_accounts s)"
    using Some by (auto simp: store_deleteAccount_def Let_def store_ok_def)
  then show ?thesis using map_of_filter_sub [of "d_accounts s" "\<lambda>(_, a). ac_account a \<noteq> ac_account c" u] by (auto simp: pool_def)
qed (simp add: store_deleteAccount_def)

lemma append_nil_id: "(@) [] = id"
  by (simp add: fun_eq_iff)

lemma pool_bundle: "store_bundleFor v s = (s', x) \<Longrightarrow> pool u s =
    map_option ((@) (case x of Some (a, Some k) \<Rightarrow> if v = u then [k] else [] | _ \<Rightarrow> [])) (pool u s')"
  by (auto simp: pool_def store_bundleFor_def append_nil_id option.map_id split: option.splits if_splits list.splits)

lemma pool_upload: "store_addOneTime v ks s = (s', n) \<Longrightarrow> pool u s' = map_option (\<lambda>p. p @ (if v = u then ks else [])) (pool u s)"
  by (auto simp: pool_def store_addOneTime_def option.map_ident split: option.splits)

text \<open>Since the pool was \<open>p0\<close>: the keys handed out, then those still there, are \<open>p0\<close> followed by uploads, as long as the account exists.\<close>

definition ledger :: "jstr \<Rightarrow> one_time_key list \<Rightarrow> one_time_key list \<Rightarrow> one_time_key list \<Rightarrow> dstore \<Rightarrow> bool" where
  "ledger u p0 hs os s \<longleftrightarrow> (\<exists>ups rest. subseq ups os \<and> hs @ rest = p0 @ ups \<and> (pool u s = Some rest \<or> pool u s = None))"

lemma ledger_weaken: "ledger u p0 hs os s \<Longrightarrow> pool u t = pool u s \<or> pool u t = None \<Longrightarrow> subseq os os' \<Longrightarrow> ledger u p0 hs os' t"
  unfolding ledger_def by (metis subseq_order.order_trans)

lemma ledger_effect:
  assumes "effect base w req w' res" "never_drawn u w" "store_ok (sv_store w)" "ledger u p0 hs os (sv_store w)"
  shows "ledger u p0 (hs @ handed base u [(req, res)]) (os @ offered [(req, res)]) (sv_store w')"
proof -
  have n: "newUUID (draw 0 w) \<noteq> u" using assms(2) by (simp add: never_drawn_def draw_def)
  have quiet: ?thesis if "handed_in base (req, res) = None" "pool u (sv_store w') = pool u (sv_store w) \<or> pool u (sv_store w') = None"
    using ledger_weaken [OF assms(4) that(2), of "os @ offered [(req, res)]"] that(1) by (simp add: handed_one subseq_rev_drop_many)
  from assms(1) show ?thesis
  proof cases
    case Quiet
    then show ?thesis using quiet by (simp add: same_directory_def pool_def)
  next
    case (Registered otp r)
    then show ?thesis using quiet pool_after(1) [OF Registered(1) n] by simp
  next
    case (Guessed v c x)
    then show ?thesis using quiet pool_after(2) [OF Guessed(2)] by simp
  next
    case (Linked tok r x)
    then show ?thesis using quiet pool_after(3) [OF Linked(1) n] by simp
  next
    case (Deleted v ok)
    then show ?thesis using quiet pool_delete [OF Deleted(1) assms(3)] by simp
  next
    case (Removed v v' ok)
    then show ?thesis using quiet pool_after(4) [OF Removed(1)] by simp
  next
    case (Handed v x)
    have h: "handed base u [(req, res)] = (case x of Some (a, Some k) \<Rightarrow> if v = u then [k] else [] | _ \<Rightarrow> [])"
      using Handed(4) by (simp add: handed_one split: option.splits prod.splits)
    obtain ups rest where l: "subseq ups os" "hs @ rest = p0 @ ups" "pool u (sv_store w) = Some rest \<or> pool u (sv_store w) = None"
      using assms(4) by (auto simp: ledger_def)
    have p: "pool u (sv_store w) = map_option ((@) (handed base u [(req, res)])) (pool u (sv_store w'))"
      using pool_bundle [OF Handed(1)] h by simp
    show ?thesis
    proof (cases "pool u (sv_store w')")
      case None
      then have "map_of (d_accounts (sv_store w)) u = None" using p by (simp add: pool_def)
      then have "handed base u [(req, res)] = []"
        using Handed(1) h by (auto simp: store_bundleFor_def split: option.splits if_splits list.splits)
      then show ?thesis using ledger_weaken [OF assms(4), of "sv_store w'" "os @ offered [(req, res)]"] None
        by (simp add: subseq_rev_drop_many)
    next
      case (Some r)
      then have "rest = handed base u [(req, res)] @ r" using p l(3) by simp
      moreover have "subseq ups (os @ offered [(req, res)])" using l(1) by (simp add: subseq_rev_drop_many)
      ultimately show ?thesis using l Some by (auto simp: ledger_def)
    qed
  next
    case (Uploaded v ks m)
    have o: "offered [(req, res)] = ks" using Uploaded(2) by (simp add: offered_def)
    have h: "handed base u [(req, res)] = []" using Uploaded by (simp add: handed_one)
    obtain ups rest where l: "subseq ups os" "hs @ rest = p0 @ ups" "pool u (sv_store w) = Some rest \<or> pool u (sv_store w) = None"
      using assms(4) by (auto simp: ledger_def)
    let ?k = "if v = u then ks else []"
    have "subseq (ups @ ?k) (os @ ks)" using l(1) by (simp add: list_emb_append_mono)
    moreover have "pool u (sv_store w') = Some (rest @ ?k) \<or> pool u (sv_store w') = None"
      using pool_upload [OF Uploaded(3), of u] l(3) by auto
    moreover have "hs @ rest @ ?k = p0 @ ups @ ?k" using l(2) by (metis append_assoc)
    ultimately have "subseq (ups @ ?k) (os @ ks) \<and> (hs @ []) @ (rest @ ?k) = p0 @ (ups @ ?k) \<and>
        (pool u (sv_store w') = Some (rest @ ?k) \<or> pool u (sv_store w') = None)" by simp
    then show ?thesis unfolding ledger_def o h by blast
  qed
qed

lemma ledger_run:
  "service_run perm base w0 tr w \<Longrightarrow> never_drawn u w0 \<Longrightarrow> store_ok (sv_store w0) \<Longrightarrow> pool u (sv_store w0) = Some p0 \<Longrightarrow>
   ledger u p0 (handed base u tr) (offered tr) (sv_store w)"
proof (induction rule: service_run.induct)
  case Begin
  then show ?case by (auto simp: ledger_def handed_def offered_def List.map_filter_def)
next
  case (Request tr w now req w' res)
  have "never_drawn u (w\<lparr>sv_now := now\<rparr>)" using run_never_drawn [OF Request.hyps(1)] Request.prems by (simp add: never_drawn_def)
  moreover have "store_ok (sv_store (w\<lparr>sv_now := now\<rparr>))" using store_ok_run [OF Request.hyps(1)] Request.prems by simp
  ultimately show ?case using ledger_effect [OF serve_effect [OF Request.hyps(3)]] Request by (simp add: handed_snoc offered_snoc)
next
  case (Restart tr w salt)
  have ok: "store_ok (sv_store w)" using store_ok_run Restart by blast
  have "pool u (ds_restart salt (sv_store w)) = pool u (sv_store w) \<or> pool u (ds_restart salt (sv_store w)) = None"
  proof (cases "d_path (sv_store w)")
    case True
    then show ?thesis using restart_ok(1) [OF ok] by (simp add: pool_def)
  next
    case False
    then show ?thesis by (simp add: pool_def ds_restart_def NewStore_def)
  qed
  then show ?case using ledger_weaken [OF Restart.IH [OF Restart.prems]] by auto
qed


subsection \<open>The code that was texted\<close>

text \<open>A verification that is not refused used the code that the registration handed to the gateway, for the number it hashed.\<close>

definition registers :: "jstr \<Rightarrow> http_req \<Rightarrow> bool" where
  "registers base req \<longleftrightarrow> rq_method req = js ''POST'' \<and> segments base req = Some [js ''v1'', js ''accounts'', js ''register''] \<and>
     \<not> unclean (request_path base (rq_url req))"

lemma register_serves:
  assumes "serve perm base req w = (w', Some res)" "registers base req" "rs_status res = 200"
  shows "\<exists>r otp. store_register (sv_now w) (newUUID (draw 0 w)) otp r (sv_store w) = (sv_store w', True) \<and>
     sv_sms w' = sv_sms w @ [(rr_phone r, otp)] \<and> sv_drawn w' = Suc (Suc (sv_drawn w)) \<and> sv_draws w' = sv_draws w"
proof -
  have "serve perm base req w = map_prod id Some (h_register perm [] req w)"
    using assms(2) by (intro serve_route [of _ _ "[js ''v1'', js ''accounts'', js ''register'']"]) (auto simp: registers_def routes_def js_inject)
  then have "h_register perm [] req w = (w', res)" using assms(1) by (cases "h_register perm [] req w") simp
  then show ?thesis using assms(3)
    by (auto simp: h_register_def bad_json_def Let_def split: option.splits if_splits prod.splits bool.splits)
      (fastforce)+
qed

text \<open>A verification that is not refused used the code that was handed to the SMS gateway for this registration, and the account carries the
  hash of the number the code was sent to.\<close>

theorem only_the_texted_code_verifies:
  assumes "serve perm base reg w0 = (w1, Some made)" "registers base reg" "rs_status made = 200" "u = newUUID (draw 0 w0)" "never_drawn u w1"
    and "service_run perm base w1 tr w" "serve perm base req w = (w', Some res)" "guess_of base req = Some (u, code)" "rs_status res \<noteq> 401"
  shows "\<exists>phone a. sv_sms w1 = sv_sms w0 @ [(phone, code)] \<and> map_of (d_accounts (sv_store w1)) u = Some a \<and>
    ac_hash a = store_hashPhone (sv_store w0) phone"
proof -
  obtain r otp where r: "store_register (sv_now w0) u otp r (sv_store w0) = (sv_store w1, True)" "sv_sms w1 = sv_sms w0 @ [(rr_phone r, otp)]"
    using register_serves [OF assms(1-3)] assms(4) by auto
  have reg: "map_of (d_pending s') u = Some \<lparr>po_code = otp, po_expires = n + otpTTL, po_attempts = 0\<rparr> \<and>
      (\<exists>a. map_of (d_accounts s') u = Some a \<and> ac_hash a = store_hashPhone s (rr_phone r))"
    if "store_register n u otp r s = (s', True)" for n s s'
    using that by (auto simp: store_register_def Let_def split: if_splits)
  define p where "p = \<lparr>po_code = otp, po_expires = sv_now w0 + otpTTL, po_attempts = 0\<rparr>"
  have "guessed u p 0 (sv_store w1)" using reg [OF r(1)] by (simp add: guessed_def p_def maxOTPAttempts_def)
  from guessed_run [OF assms(6,5) this] have "map_of (d_pending (sv_store w)) u = None \<or> (\<exists>q. map_of (d_pending (sv_store w)) u = Some q \<and> po_code q = otp)"
    by (auto simp: guessed_def p_def)
  moreover have "\<exists>x s. store_verify (sv_now w) u code (sv_store w) = (s, Some x)"
    using serve_effect [OF assms(7)] assms(8,9) by (auto elim!: effect.cases)
  ultimately have "code = otp" by (auto simp: store_verify_def Let_def split: option.splits if_splits)
  then show ?thesis using r(2) reg [OF r(1)] by auto
qed

end
