(* ===== verification/Registration.thy ===== *)
theory Registration
  imports Directory Providers
begin

text \<open>
  The client of \<open>Discovery\<close> and \<open>Messaging\<close> run against the discovery service of \<open>DiscoveryService\<close>: registration and verification,
  contact lookup and the fetch of a key bundle, as the JSON of each side is read by the other.
\<close>

subsection \<open>Paths and bodies\<close>

lemma request_path_base: "request_path base (base @ 47 # p) = takeWhile (\<lambda>c. c \<noteq> 63 \<and> c \<noteq> 35) p"
  by (simp add: request_path_def)

definition routed :: "jstr \<Rightarrow> string \<Rightarrow> jstr list \<Rightarrow> bool" where
  "routed p m ss \<longleftrightarrow> path_segments (takeWhile (\<lambda>c. c \<noteq> 63 \<and> c \<noteq> 35) p) = Some ss \<and> \<not> unclean (takeWhile (\<lambda>c. c \<noteq> 63 \<and> c \<noteq> 35) p)"

lemma serve_at:
  assumes "rq_url req = base @ 47 # p" "routed p m ss" "rq_method req = js m" "find_route routes (js m) ss = Some (h, ps)"
  shows "serve perm base req w = map_prod id Some (h perm ps req w)"
  using assms by (intro serve_route [of _ _ ss]) (simp_all add: segments_def request_path_base routed_def)

lemma fixed_paths:
  "routed (js ''v1/accounts/register'') ''POST'' (map js [''v1'', ''accounts'', ''register''])"
  "routed (js ''v1/accounts/verify'') ''POST'' (map js [''v1'', ''accounts'', ''verify''])"
  "routed (js ''v1/contacts/salt'') ''GET'' (map js [''v1'', ''contacts'', ''salt''])"
  "routed (js ''v1/contacts/intersect'') ''POST'' (map js [''v1'', ''contacts'', ''intersect''])"
  by code_simp+

lemma fixed_routes:
  "find_route routes (js ''POST'') (map js [''v1'', ''accounts'', ''register'']) = Some (h_register, [])"
  "find_route routes (js ''POST'') (map js [''v1'', ''accounts'', ''verify'']) = Some (h_verify, [])"
  "find_route routes (js ''GET'') (map js [''v1'', ''contacts'', ''salt'']) = Some (h_salt, [])"
  "find_route routes (js ''POST'') (map js [''v1'', ''contacts'', ''intersect'']) = Some (h_intersect, [])"
  by (simp_all add: routes_def js_inject)

lemma serve_fixed:
  "rq_url req = base @ 47 # js ''v1/accounts/register'' \<Longrightarrow> rq_method req = js ''POST'' \<Longrightarrow> serve perm base req w = map_prod id Some (h_register perm [] req w)"
  "rq_url req = base @ 47 # js ''v1/accounts/verify'' \<Longrightarrow> rq_method req = js ''POST'' \<Longrightarrow> serve perm base req w = map_prod id Some (h_verify perm [] req w)"
  "rq_url req = base @ 47 # js ''v1/contacts/salt'' \<Longrightarrow> rq_method req = js ''GET'' \<Longrightarrow> serve perm base req w = map_prod id Some (h_salt perm [] req w)"
  "rq_url req = base @ 47 # js ''v1/contacts/intersect'' \<Longrightarrow> rq_method req = js ''POST'' \<Longrightarrow> serve perm base req w = map_prod id Some (h_intersect perm [] req w)"
  using serve_at [OF _ fixed_paths(1) _ fixed_routes(1)] serve_at [OF _ fixed_paths(2) _ fixed_routes(2)]
    serve_at [OF _ fixed_paths(3) _ fixed_routes(3)] serve_at [OF _ fixed_paths(4) _ fixed_routes(4)] by blast+

lemma js_slash: "js (CHR ''/'' # p) = 47 # js p"
  by (simp add: js_Cons of_char_def)

lemma decode_body_json: "wf_json v \<Longrightarrow> rq_body req = Some (stringify v) \<Longrightarrow> decode_body f req = Option.bind (go_object v) f"
  by (simp add: decode_body_def json_roundtrip)

lemma finish_writeJSON: "200 \<le> n \<Longrightarrow> n \<le> 299 \<Longrightarrow> wf_json v \<Longrightarrow> finish path (writeJSON n v) = Inr v"
  by (simp add: finish_def is_ok_def)

lemma request_ok:
  "fetch (mk_req d meth path body auth) w = (w', Some (writeJSON 200 v)) \<Longrightarrow> wf_json v \<Longrightarrow>
   request fetch meth path body auth d w = (d, w', Inr v)"
  by (simp add: request_def finish_writeJSON)

definition material_of :: "published \<Rightarrow> key_material" where
  "material_of p = \<lparr>km_registration = pb_registrationId p, km_identity = pb_identityKey p, km_signed_id = pb_signedId p,
     km_signed_public = pb_signedPublic p, km_signed_signature = pb_signedSignature p, km_kyber_id = pb_kyberId p,
     km_kyber_public = pb_kyberPublic p, km_kyber_signature = pb_kyberSignature p\<rparr>"

definition bundle_fits :: "published \<Rightarrow> bool" where
  "bundle_fits p = (fits64 (pb_registrationId p) \<and> fits64 (pb_deviceId p) \<and> fits64 (pb_signedId p) \<and> fits64 (pb_kyberId p))"

definition register_body :: "published \<Rightarrow> (int \<times> jstr) list \<Rightarrow> jstr \<Rightarrow> json" where
  "register_body p ks phone = JObj ((js ''phoneNumber'', JStr phone) # published_json p @ [(js ''oneTimePreKeys'', JArr (map one_time_json ks))])"

lemma wf_register_body: "wf_json (register_body p ks phone)"
  by (auto simp: register_body_def published_json_def one_time_json_def js_inject list_all_iff split: option.split)

definition server_key :: "int \<times> jstr \<Rightarrow> one_time_key" where
  "server_key k = \<lparr>ok_id = fst k, ok_public = snd k\<rparr>"

lemma one_time_read: "fits64 (fst k) \<Longrightarrow> one_time_of (one_time_json k) = Some (server_key k)"
  by (simp add: one_time_of_def one_time_json_def go_object_def go_int_def go_str_def field_def js_inject server_key_def)

lemma one_times_read: "\<forall>k\<in>set ks. fits64 (fst k) \<Longrightarrow> all_some one_time_of (map one_time_json ks) = Some (map server_key ks)"
  by (induction ks) (simp_all add: one_time_read)

lemma register_read:
  assumes "bundle_fits p" "\<forall>k\<in>set ks. fits64 (fst k)"
  shows "Option.bind (go_object (register_body p ks phone)) register_request_of =
    Some \<lparr>rr_phone = phone, rr_device = pb_deviceId p, rr_keys = material_of p, rr_oneTime = map server_key ks\<rparr>"
  using assms
  by (simp add: register_body_def published_json_def register_request_of_def keys_of_def go_object_def go_str_def go_int_def
      go_list_def field_def js_inject bundle_fits_def material_of_def one_times_read)

subsection \<open>Registration and verification\<close>

lemma mk_req_simps [simp]:
  "rq_url (mk_req d meth path body auth) = baseUrl d @ path" "rq_method (mk_req d meth path body auth) = js meth"
  "rq_body (mk_req d meth path (Some v) auth) = Some (stringify v)"
  "rq_bearer (mk_req d meth path body True) = (if truthy_str (token d) then token d else None)"
  by (simp_all add: mk_req_def)

lemma decode_mk: "wf_json v \<Longrightarrow> decode_body f (mk_req d meth path (Some v) auth) = Option.bind (go_object v) f"
  by (rule decode_body_json) simp_all

lemma slash_paths:
  "js ''/v1/accounts/register'' = 47 # js ''v1/accounts/register''" "js ''/v1/accounts/verify'' = 47 # js ''v1/accounts/verify''"
  "js ''/v1/contacts/salt'' = 47 # js ''v1/contacts/salt''" "js ''/v1/contacts/intersect'' = 47 # js ''v1/contacts/intersect''"
  "js ''/v1/keys/'' = 47 # js ''v1/keys/''"
  by (rule js_slash)+

text \<open>A registration that the service accepts: what is stored, what is texted, and what the client gets to know.\<close>

definition can_register :: "published \<Rightarrow> (int \<times> jstr) list \<Rightarrow> jstr \<Rightarrow> service \<Rightarrow> bool" where
  "can_register p ks phone w \<longleftrightarrow> bundle_fits p \<and> (\<forall>k\<in>set ks. fits64 (fst k)) \<and> phone \<noteq> [] \<and> pb_identityKey p \<noteq> [] \<and>
     (case map_of (d_lastRegister (sv_store w)) (store_hashPhone (sv_store w) phone) of
        Some t \<Rightarrow> registerCooldown \<le> sv_now w - t | None \<Rightarrow> True)"

definition device_id :: "published \<Rightarrow> int" where
  "device_id p = (if pb_deviceId p = 0 then 1 else pb_deviceId p)"

definition new_entry :: "published \<Rightarrow> (int \<times> jstr) list \<Rightarrow> jstr \<Rightarrow> jstr \<Rightarrow> bool \<Rightarrow> account" where
  "new_entry p ks h u v = \<lparr>ac_user = u, ac_account = u, ac_hash = h, ac_device = device_id p, ac_keys = material_of p,
     ac_oneTime = map server_key ks, ac_verified = v\<rparr>"

lemma register_reaches_service:
  assumes "can_register p ks phone w" "baseUrl d = base"
  defines "u \<equiv> newUUID (draw 0 w)" and "otp \<equiv> newOTP (draw 1 w)" and "h \<equiv> store_hashPhone (sv_store w) phone"
  shows "\<exists>s r. Discovery.register (serve perm base) (published_json p) (map one_time_json ks) phone d w =
      (d, (put s 2 w)\<lparr>sv_sms := sv_sms w @ [(phone, otp)]\<rparr>, Inr r) \<and> reg_user r = u \<and>
    map_of (d_accounts s) = (map_of (d_accounts (sv_store w)))(u \<mapsto> new_entry p ks h u False) \<and>
    map_of (d_pending s) u = Some \<lparr>po_code = otp, po_expires = sv_now w + otpTTL, po_attempts = 0\<rparr> \<and>
    d_salt s = d_salt (sv_store w) \<and> d_secret s = d_secret (sv_store w) \<and> (store_ok (sv_store w) \<longrightarrow> store_ok s) \<and>
    d_intersectUse s = d_intersectUse (sv_store w) \<and>
    (\<exists>res. serve perm base (mk_req d ''POST'' (js ''/v1/accounts/register'') (Some (register_body p ks phone)) True) w =
       ((put s 2 w)\<lparr>sv_sms := sv_sms w @ [(phone, otp)]\<rparr>, Some res) \<and> rs_status res = 200)"
proof -
  let ?req = "mk_req d ''POST'' (js ''/v1/accounts/register'') (Some (register_body p ks phone)) True"
  let ?r = "\<lparr>rr_phone = phone, rr_device = pb_deviceId p, rr_keys = material_of p, rr_oneTime = map server_key ks\<rparr>"
  let ?r1 = "\<lparr>rr_phone = phone, rr_device = device_id p, rr_keys = material_of p, rr_oneTime = map server_key ks\<rparr>"
  let ?out = "JObj ([(js ''userId'', JStr u), (js ''otpSent'', JBool True)] @ (if sv_dev w then [(js ''devOtp'', JStr otp)] else []))"
  have dec: "decode_body register_request_of ?req = Some ?r"
    using assms(1) by (simp add: decode_mk wf_register_body register_read can_register_def)
  obtain s where s: "store_register (sv_now w) u otp ?r1 (sv_store w) = (s, True)"
    and acc: "map_of (d_accounts s) = (map_of (d_accounts (sv_store w)))(u \<mapsto> new_entry p ks h u False)"
    and rest: "map_of (d_pending s) u = Some \<lparr>po_code = otp, po_expires = sv_now w + otpTTL, po_attempts = 0\<rparr>"
      "d_salt s = d_salt (sv_store w)" "d_secret s = d_secret (sv_store w)" "d_intersectUse s = d_intersectUse (sv_store w)"
    using assms(1)
    by (auto simp: store_register_def can_register_def Let_def new_account_def new_entry_def h_def ds_persist_def split: option.splits)
  have fix_dev: "(if rr_device ?r = 0 then ?r\<lparr>rr_device := 1\<rparr> else ?r) = ?r1" by (simp add: device_id_def)
  have "h_register perm [] ?req w = ((put s 2 w)\<lparr>sv_sms := sv_sms w @ [(phone, otp)]\<rparr>, writeJSON 200 ?out)"
    using assms(1) s unfolding h_register_def dec u_def otp_def
    by (simp only: option.case fix_dev) (simp add: can_register_def material_of_def Let_def device_id_def split: if_splits)
  then have sv: "serve perm base ?req w = ((put s 2 w)\<lparr>sv_sms := sv_sms w @ [(phone, otp)]\<rparr>, Some (writeJSON 200 ?out))"
    by (subst serve_fixed(1)) (simp_all add: assms(2) slash_paths)
  from store_ok_effect [OF serve_effect [OF this]] have ok: "store_ok (sv_store w) \<longrightarrow> store_ok s" by simp
  from sv have "request (serve perm base) ''POST'' (js ''/v1/accounts/register'') (Some (register_body p ks phone)) True d w =
      (d, (put s 2 w)\<lparr>sv_sms := sv_sms w @ [(phone, otp)]\<rparr>, Inr ?out)" by (rule request_ok) simp
  then have "Discovery.register (serve perm base) (published_json p) (map one_time_json ks) phone d w =
      (d, (put s 2 w)\<lparr>sv_sms := sv_sms w @ [(phone, otp)]\<rparr>,
       Inr \<lparr>reg_user = u, reg_otpSent = True, reg_devOtp = (if sv_dev w then Some otp else None)\<rparr>)"
    by (simp add: Discovery.register_def register_body_def registered_of_def payload_defs)
  then show ?thesis using acc rest ok sv by auto
qed

definition verify_body :: "jstr \<Rightarrow> jstr \<Rightarrow> json" where
  "verify_body u code = JObj [(js ''userId'', JStr u), (js ''code'', JStr code)]"

lemma submit_reaches_service:
  assumes "map_of (d_pending (sv_store w)) u = Some \<lparr>po_code = code, po_expires = e, po_attempts = n\<rparr>" "sv_now w \<le> e"
    and "map_of (d_accounts (sv_store w)) u = Some a" "baseUrl d = base"
  shows "\<exists>s t. submitOtp (serve perm base) u code d w =
      (d\<lparr>token := Some (fst t), refresh_token := Some (snd t)\<rparr>, put s 0 w, Inr (fst t)) \<and>
    t = issueTokens (sv_now w) u (sv_store w) \<and>
    map_of (d_accounts s) = (map_of (d_accounts (sv_store w)))(u \<mapsto> a\<lparr>ac_verified := True\<rparr>) \<and>
    d_salt s = d_salt (sv_store w) \<and> d_secret s = d_secret (sv_store w) \<and> (store_ok (sv_store w) \<longrightarrow> store_ok s) \<and>
    d_intersectUse s = d_intersectUse (sv_store w) \<and>
    (\<exists>res. serve perm base (mk_req d ''POST'' (js ''/v1/accounts/verify'') (Some (verify_body u code)) False) w = (put s 0 w, Some res) \<and>
       rs_status res = 200)"
proof -
  let ?body = "JObj [(js ''userId'', JStr u), (js ''code'', JStr code)]"
  let ?req = "mk_req d ''POST'' (js ''/v1/accounts/verify'') (Some ?body) False"
  obtain access refr where t: "issueTokens (sv_now w) u (sv_store w) = (access, refr)" by fastforce
  let ?out = "JObj [(js ''verified'', JBool True), (js ''token'', JStr access), (js ''refreshToken'', JStr refr)]"
  have wf: "wf_json ?body" by simp
  have dec: "decode_body (\<lambda>v. case (go_str v ''userId'', go_str v ''code'') of (Some u, Some c) \<Rightarrow> Some (u, c) | _ \<Rightarrow> None) ?req = Some (u, code)"
    unfolding decode_mk [OF wf] by (simp add: go_object_def go_str_def field_def)
  obtain s where s: "store_verify (sv_now w) u code (sv_store w) = (s, Some (access, refr))"
    and acc: "map_of (d_accounts s) = (map_of (d_accounts (sv_store w)))(u \<mapsto> a\<lparr>ac_verified := True\<rparr>)"
    and rest: "d_salt s = d_salt (sv_store w)" "d_secret s = d_secret (sv_store w)" "d_intersectUse s = d_intersectUse (sv_store w)"
    using assms(1-3) t by (simp add: store_verify_def ds_persist_def)
  have "h_verify perm [] ?req w = (put s 0 w, writeJSON 200 ?out)"
    unfolding h_verify_def dec by (simp add: s)
  then have sv: "serve perm base ?req w = (put s 0 w, Some (writeJSON 200 ?out))"
    by (subst serve_fixed(2)) (simp_all add: assms(4) slash_paths)
  from store_ok_effect [OF serve_effect [OF this]] have ok: "store_ok (sv_store w) \<longrightarrow> store_ok s" by simp
  from sv have "request (serve perm base) ''POST'' (js ''/v1/accounts/verify'') (Some ?body) False d w = (d, put s 0 w, Inr ?out)"
    by (rule request_ok) simp
  moreover have "access \<noteq> []" using t by (auto simp: issueTokens_def sign_def Let_def js_Cons)
  ultimately have "submitOtp (serve perm base) u code d w = (d\<lparr>token := Some access, refresh_token := Some refr\<rparr>, put s 0 w, Inr access)"
    by (simp add: submitOtp_def payload_defs Let_def)
  then show ?thesis using acc rest t ok sv by (intro exI [of _ s] exI [of _ "(access, refr)"]) (simp add: verify_body_def)
qed

subsection \<open>Tokens the service issued\<close>

lemma hex_lower_units: "c \<in> set (hex_lower bs) \<Longrightarrow> 48 \<le> c \<and> c \<le> 57 \<or> 97 \<le> c \<and> c \<le> 102"
proof -
  have h: "48 \<le> hex_char n \<and> hex_char n \<le> 57 \<or> 97 \<le> hex_char n \<and> hex_char n \<le> 102" if "n < 16" for n
  proof -
    have "list_all (\<lambda>n. 48 \<le> hex_char n \<and> hex_char n \<le> 57 \<or> 97 \<le> hex_char n \<and> hex_char n \<le> 102) [0..<16]" by code_simp
    then show ?thesis using that by (simp add: list_all_iff)
  qed
  assume "c \<in> set (hex_lower bs)"
  then obtain b :: byte where "c = hex_char (unat b div 16) \<or> c = hex_char (unat b mod 16)" unfolding hex_lower_def by force
  moreover have "unat b < 2 ^ LENGTH(8)" by (rule unsigned_less)
  then have "unat b div 16 < 16" by simp
  ultimately show ?thesis using h [of "unat b div 16"] h [of "unat b mod 16"] by auto
qed

lemma uuid_units: "c \<in> set (newUUID r) \<Longrightarrow> 48 \<le> c \<and> c \<le> 57 \<or> 97 \<le> c \<and> c \<le> 102 \<or> c = 45"
  unfolding newUUID_def Let_def using hex_lower_units by auto

lemma uuid_ascii: "ascii (newUUID r)"
proof -
  have "c < 128" if "48 \<le> c \<and> c \<le> 57 \<or> 97 \<le> c \<and> c \<le> 102 \<or> c = 45" for c :: unit16
    using that by (elim disjE) (uint_arith, uint_arith, simp)
  then show ?thesis using uuid_units by (auto simp: ascii_def list_all_iff)
qed

definition authorized :: "jstr \<Rightarrow> disc \<Rightarrow> service \<Rightarrow> bool" where
  "authorized v d w \<longleftrightarrow> truthy_str (token d) \<and> trimSpace (the (token d)) = the (token d) \<and>
     store_userForToken (sv_now w) (the (token d)) (sv_store w) = Some v"

lemma authorized_bearer: "authorized v d w \<Longrightarrow> bearerUser (mk_req d meth path body True) w = Some v"
  by (cases "token d") (auto simp: authorized_def bearerUser_def)

lemma trim_token: "\<forall>c\<in>set s. token_unit c \<Longrightarrow> trimSpace s = s"
proof -
  have "\<not> go_space c" if t: "token_unit c" for c
  proof -
    consider "48 \<le> c \<and> c \<le> 57" | "65 \<le> c \<and> c \<le> 90" | "97 \<le> c \<and> c \<le> 122" | "c = 45" | "c = 95" | "c = 46"
      using t by (auto simp: token_unit_def url_unit_def)
    then show ?thesis by cases (auto simp: go_space_def word_le_nat_alt)
  qed
  moreover have "dropWhile go_space t = t" if "\<forall>c\<in>set t. \<not> go_space c" for t using that by (cases t) auto
  ultimately have d: "dropWhile go_space t = t" if "\<forall>c\<in>set t. token_unit c" for t using that by blast
  assume "\<forall>c\<in>set s. token_unit c"
  then show ?thesis using d [of s] d [of "rev s"] by (simp add: trimSpace_def)
qed

lemma issued_authorized:
  assumes "token d = Some (fst (issueTokens t0 v s))" "d_secret (sv_store w) = d_secret s" "ascii v" "fits64 (exp_at t0 accessTTL)"
    "sv_now w div 1000 < exp_at t0 accessTTL"
  shows "authorized v d w"
proof -
  have k: "ascii (js ''access'')" by code_simp
  have t: "token d = Some (sign (d_secret s) v (js ''access'') accessTTL t0)" using assms(1) by (simp add: issueTokens_def)
  have "\<forall>c\<in>set (the (token d)). token_unit c" using token_units [OF assms(3) k] t by auto
  moreover have "the (token d) \<noteq> []" by (simp add: t sign_def Let_def js_Cons)
  moreover have "store_userForToken (sv_now w) (the (token d)) (sv_store w) = Some v"
    using assms(2,5) by (simp add: store_userForToken_def verify_access_def t token_parses_back [OF assms(3) k assms(4)])
  ultimately show ?thesis using t by (simp add: authorized_def trim_token)
qed

subsection \<open>Finding a registered number, and fetching its keys\<close>

definition budget_left :: "jstr \<Rightarrow> service \<Rightarrow> bool" where
  "budget_left v w \<longleftrightarrow> (case map_of (d_intersectUse (sv_store w)) v of None \<Rightarrow> True
     | Some (start, used) \<Rightarrow> intersectWindow \<le> sv_now w - start \<or> used < intersectBudget)"

definition found_under :: "jstr \<Rightarrow> jstr \<Rightarrow> dstore \<Rightarrow> bool" where
  "found_under h u s \<longleftrightarrow> (\<exists>k a. (k, a) \<in> set (d_accounts s) \<and> ac_verified a \<and> ac_hash a = h) \<and>
     (\<forall>(k, a)\<in>set (d_accounts s). ac_verified a \<and> ac_hash a = h \<longrightarrow> ac_user a = u)"

lemma by_hash:
  "\<forall>(k, a)\<in>set l. ac_verified a \<and> ac_hash a = h \<longrightarrow> ac_user a = u \<Longrightarrow>
   map_of m h = Some u \<or> (\<exists>k a. (k, a) \<in> set l \<and> ac_verified a \<and> ac_hash a = h) \<Longrightarrow>
   map_of (fold (\<lambda>(_, a) m. if ac_verified a then map_set (ac_hash a) (ac_user a) m else m) l m) h = Some u"
proof (induction l arbitrary: m)
  case (Cons x l)
  obtain k a where x: "x = (k, a)" by (cases x)
  let ?m = "if ac_verified a then map_set (ac_hash a) (ac_user a) m else m"
  have "map_of ?m h = Some u \<or> (\<exists>k a. (k, a) \<in> set l \<and> ac_verified a \<and> ac_hash a = h)"
    using Cons.prems x by (cases "ac_verified a \<and> ac_hash a = h") auto
  moreover have "\<forall>(k, a)\<in>set l. ac_verified a \<and> ac_hash a = h \<longrightarrow> ac_user a = u" using Cons.prems(1) by simp
  ultimately show ?case using Cons.IH [of ?m] x by simp
qed simp

lemma allow_within_budget:
  "budget_left v w \<Longrightarrow> \<exists>use. store_allowIntersect (sv_now w) v (Suc 0) (sv_store w) = ((sv_store w)\<lparr>d_intersectUse := use\<rparr>, True)"
proof (cases "map_of (d_intersectUse (sv_store w)) v")
  case None
  then show ?thesis by (auto simp: store_allowIntersect_def Let_def intersectBudget_def)
next
  case (Some x)
  obtain start used where x: "x = (start, used)" by (cases x)
  assume b: "budget_left v w"
  show ?thesis
  proof (cases "intersectWindow \<le> sv_now w - start")
    case True
    then show ?thesis using Some x by (auto simp: store_allowIntersect_def Let_def intersectBudget_def)
  next
    case False
    then show ?thesis using Some x b by (auto simp: store_allowIntersect_def Let_def intersectBudget_def budget_left_def)
  qed
qed

lemma intersect_finds: "found_under h u s \<Longrightarrow> (\<And>l. set (perm l) = set l) \<Longrightarrow> store_intersect perm [h] s = [(h, u)]"
  using by_hash [of "perm (d_accounts s)" h u "[]"] by (auto simp: found_under_def store_intersect_def List.map_filter_simps)

lemma salt_request:
  assumes "authorized v d w" "baseUrl d = base"
  shows "getSalt (serve perm base) d w = (d, w, Inr (bytes_to_base64 (d_salt (sv_store w))))"
proof -
  let ?out = "JObj [(js ''saltB64'', JStr (bytes_to_base64 (d_salt (sv_store w))))]"
  have "serve perm base (mk_req d ''GET'' (js ''/v1/contacts/salt'') None True) w = (w, Some (writeJSON 200 ?out))"
    using authorized_bearer [OF assms(1)]
    by (subst serve_fixed(3)) (simp_all add: assms(2) slash_paths h_salt_def authed_def)
  then have "request (serve perm base) ''GET'' (js ''/v1/contacts/salt'') None True d w = (d, w, Inr ?out)"
    by (rule request_ok) simp
  then show ?thesis by (simp add: getSalt_def then_prop_def prop_of_def expect_def payload_defs)
qed

lemma intersect_request:
  assumes "authorized v d w" "baseUrl d = base" "budget_left v w" "found_under h u (sv_store w)" "\<And>l. set (perm l) = set l"
  shows "\<exists>use. Discovery.intersect (serve perm base) [h] d w = (d, w\<lparr>sv_store := (sv_store w)\<lparr>d_intersectUse := use\<rparr>\<rparr>, Inr [(h, u)])"
proof -
  let ?body = "JObj [(js ''phoneHashesB64'', JArr (map JStr [h]))]"
  let ?req = "mk_req d ''POST'' (js ''/v1/contacts/intersect'') (Some ?body) True"
  let ?out = "JObj [(js ''matches'', JArr [JObj [(js ''phoneHashB64'', JStr h), (js ''userId'', JStr u)]])]"
  have wf: "wf_json ?body" by simp
  have dec: "decode_body (\<lambda>v. go_list go_string v ''phoneHashesB64'') (mk_req d ''POST'' path (Some ?body) True) = Some [h]" for path
    unfolding decode_mk [OF wf] by (simp add: go_object_def go_list_def go_string_def field_def)
  obtain use where "store_allowIntersect (sv_now w) v (Suc 0) (sv_store w) = ((sv_store w)\<lparr>d_intersectUse := use\<rparr>, True)"
    using allow_within_budget [OF assms(3)] by blast
  moreover have "store_intersect perm [h] ((sv_store w)\<lparr>d_intersectUse := use\<rparr>) = [(h, u)]"
    using intersect_finds assms(4,5) by (simp add: found_under_def)
  moreover have "put t 0 w = w\<lparr>sv_store := t\<rparr>" for t by (simp add: put_def)
  ultimately have "serve perm base ?req w = (w\<lparr>sv_store := (sv_store w)\<lparr>d_intersectUse := use\<rparr>\<rparr>, Some (writeJSON 200 ?out))"
    using authorized_bearer [OF assms(1)]
    by (subst serve_fixed(4)) (simp_all add: assms(2) slash_paths h_intersect_def authed_def dec [simplified] maxIntersectHashes_def)
  then have "request (serve perm base) ''POST'' (js ''/v1/contacts/intersect'') (Some ?body) True d w =
      (d, w\<lparr>sv_store := (sv_store w)\<lparr>d_intersectUse := use\<rparr>\<rparr>, Inr ?out)"
    by (rule request_ok) simp
  then show ?thesis
    by (auto simp: Discovery.intersect_def then_prop_def prop_of_def expect_def payload_defs as_list_def match_of_def)
qed

lemma findContact_finds:
  assumes "authorized v (disc s) w" "baseUrl (disc s) = base" "budget_left v w"
    and "found_under (store_hashPhone (sv_store w) phone) u (sv_store w)" "\<And>l. set (perm l) = set l"
  shows "\<exists>use. findContact (serve perm base) phone s w = (s, w\<lparr>sv_store := (sv_store w)\<lparr>d_intersectUse := use\<rparr>\<rparr>, Inr (Some u))"
proof -
  let ?h = "store_hashPhone (sv_store w) phone"
  have h: "Messaging.hashPhone (bytes_to_base64 (d_salt (sv_store w))) phone = Some ?h"
    by (simp add: hashPhone_def base64_roundtrip store_hashPhone_def)
  obtain use where i: "Discovery.intersect (serve perm base) [?h] (disc s) w =
      (disc s, w\<lparr>sv_store := (sv_store w)\<lparr>d_intersectUse := use\<rparr>\<rparr>, Inr [(?h, u)])"
    using intersect_request [OF assms] by blast
  have "s\<lparr>disc := disc s\<rparr> = s" by simp
  then show ?thesis by (intro exI [of _ use]) (simp add: findContact_def salt_request [OF assms(1,2)] h i)
qed

definition uuid_like :: "jstr \<Rightarrow> bool" where
  "uuid_like u \<longleftrightarrow> u \<noteq> [] \<and> (\<forall>c\<in>set u. 48 \<le> c \<and> c \<le> 57 \<or> 97 \<le> c \<and> c \<le> 102 \<or> c = 45)"

lemma newUUID_like: "uuid_like (newUUID r)"
  using uuid_units newUUID_ne by (simp add: uuid_like_def)

lemma uuid_like_plain:
  "uuid_like u \<Longrightarrow> c \<in> set u \<Longrightarrow> c < 128 \<and> c \<noteq> 37 \<and> c \<noteq> 47 \<and> c \<noteq> 63 \<and> c \<noteq> 35 \<and> c \<noteq> 46 \<and> c \<noteq> 112"
proof -
  assume "uuid_like u" "c \<in> set u"
  then consider "48 \<le> c \<and> c \<le> 57" | "97 \<le> c \<and> c \<le> 102" | "c = 45" by (auto simp: uuid_like_def)
  then show ?thesis by cases (auto simp: word_le_nat_alt word_less_nat_alt)
qed

lemma path_unescape: "\<forall>c\<in>set s. c < 128 \<and> c \<noteq> 37 \<Longrightarrow> map_option utf8_decode (unescape_bytes False s) = Some s"
proof -
  assume s: "\<forall>c\<in>set s. c < 128 \<and> c \<noteq> 37"
  then have a: "\<forall>c\<in>set s. c < 128" by blast
  have one: "utf8_encode [c] = [ucast c]" if "c < 128" for c using utf8_ascii [of "[c]"] that by simp
  have "unescape_bytes False s = Some (map ucast s)" using s
    by (induction s) (simp_all add: one del: utf8_encode.simps)
  then have "unescape_bytes False s = Some (utf8_encode s)" by (simp add: utf8_ascii [OF a])
  moreover have "c < 0xd800" if "c < 128" for c :: unit16 using that by uint_arith
  then have "wf16 s" using a by (auto intro: wf16_plain)
  ultimately show ?thesis by (simp add: utf8_roundtrip)
qed

lemma key_path:
  assumes "uuid_like u"
  shows "routed (js ''v1/keys/'' @ u) ''GET'' [js ''v1'', js ''keys'', u]"
proof -
  note plain = uuid_like_plain [OF assms]
  have k: "js ''v1/keys/'' = js ''v1'' @ 47 # js ''keys'' @ [47]" "47 \<notin> set (js ''v1'')" "47 \<notin> set (js ''keys'')"
    "\<forall>c\<in>set (js ''v1/keys/''). c \<noteq> 63 \<and> c \<noteq> 35" by code_simp+
  have tw: "takeWhile (\<lambda>c. c \<noteq> 63 \<and> c \<noteq> 35) (js ''v1/keys/'' @ u) = js ''v1/keys/'' @ u"
    using plain k(4) by (intro takeWhile_eq_all_conv [THEN iffD2]) auto
  have "47 \<notin> set u" using plain by blast
  then have sp: "split_at 47 (js ''v1/keys/'' @ u) = [js ''v1'', js ''keys'', u]"
    using k(2,3) by (simp add: k(1) split_at_sep split_at_none)
  have "u \<noteq> js ''.''" "u \<noteq> js ''..''" using plain [of 46] by (auto simp: js_Cons of_char_def)
  moreover have "js ''v1'' \<noteq> []" "js ''keys'' \<noteq> []" by code_simp+
  moreover have "map_option utf8_decode (unescape_bytes False (js ''v1'')) = Some (js ''v1'')"
      "map_option utf8_decode (unescape_bytes False (js ''keys'')) = Some (js ''keys'')" by code_simp+
  moreover have "map_option utf8_decode (unescape_bytes False u) = Some u" using plain by (intro path_unescape) blast
  ultimately show ?thesis unfolding routed_def path_segments_def unclean_def tw sp by (simp del: map_option_eq_Some)
qed

lemma key_route: "uuid_like u \<Longrightarrow> find_route routes (js ''GET'') [js ''v1'', js ''keys'', u] = Some (h_fetchKeys, [u])"
proof -
  assume u: "uuid_like u"
  then have "u \<noteq> []" by (simp add: uuid_like_def)
  moreover have "112 \<in> set (js ''pool'')" by code_simp
  then have "u \<noteq> js ''pool''" using uuid_like_plain [OF u] by metis
  ultimately show ?thesis by (simp add: routes_def)
qed

text \<open>The bundle a peer reads: the published one with the oldest one-time prekey that is left.\<close>

definition with_key :: "published \<Rightarrow> (int \<times> jstr) list \<Rightarrow> published" where
  "with_key p ks = p\<lparr>pb_deviceId := device_id p,
     pb_oneTimeId := (case ks of [] \<Rightarrow> None | k # _ \<Rightarrow> Some (fst k)), pb_oneTimePublic := (case ks of [] \<Rightarrow> None | k # _ \<Rightarrow> Some (snd k))\<rparr>"

lemma bundle_read:
  "published_of_json (bundle_json (new_entry p ks h u v) (case map server_key ks of [] \<Rightarrow> None | k # _ \<Rightarrow> Some k)) = Some (with_key p ks)"
  by (cases p; cases ks)
    (simp_all add: published_of_json_def bundle_json_def new_entry_def material_of_def with_key_def server_key_def null_or_int_def
      null_or_str_def Let_def payload_defs device_id_def)

lemma fetch_reaches_service:
  assumes "authorized v d w" "baseUrl d = base" "uuid_like u" "map_of (d_accounts (sv_store w)) u = Some (new_entry p ks h u True)"
  shows "\<exists>s x. fetchBundle (serve perm base) u d w = (d, put s 0 w, Inr x) \<and> published_of_json x = Some (with_key p ks) \<and>
    pool u s = Some (map server_key (tl ks))"
proof -
  let ?k = "case map server_key ks of [] \<Rightarrow> None | k # _ \<Rightarrow> Some k"
  let ?x = "bundle_json (new_entry p ks h u True) ?k"
  obtain s where s: "store_bundleFor u (sv_store w) = (s, Some (new_entry p ks h u True, ?k))" "pool u s = Some (map server_key (tl ks))"
    using assms(4) by (cases ks) (simp_all add: store_bundleFor_def new_entry_def pool_def)
  have "serve perm base (mk_req d ''GET'' (js ''/v1/keys/'' @ u) None True) w = map_prod id Some (h_fetchKeys perm [u]
      (mk_req d ''GET'' (js ''/v1/keys/'' @ u) None True) w)"
    by (rule serve_at [OF _ key_path [OF assms(3)] _ key_route [OF assms(3)]]) (simp_all add: assms(2) slash_paths)
  also have "\<dots> = (put s 0 w, Some (writeJSON 200 ?x))"
    using authorized_bearer [OF assms(1)] s(1) by (simp add: h_fetchKeys_def authed_def)
  finally have "request (serve perm base) ''GET'' (js ''/v1/keys/'' @ u) None True d w = (d, put s 0 w, Inr ?x)"
    by (rule request_ok) (rule wf_bundle)
  then have "fetchBundle (serve perm base) u d w = (d, put s 0 w, Inr ?x)" by (simp add: fetchBundle_def)
  then show ?thesis using s(2) bundle_read by blast
qed

definition number_free :: "jstr \<Rightarrow> dstore \<Rightarrow> bool" where
  "number_free h s \<longleftrightarrow> (\<forall>u a. map_of (d_accounts s) u = Some a \<longrightarrow> \<not> (ac_verified a \<and> ac_hash a = h))"

lemma found_when_free:
  assumes "map_ok m" "m = d_accounts t" "number_free h s"
    and "map_of m = (map_of (d_accounts s))(u \<mapsto> a)" "ac_user a = u" "ac_verified a" "ac_hash a = h"
  shows "found_under h u t"
  using assms by (fastforce simp: found_under_def number_free_def map_ok_mem split: if_splits)

text \<open>C13: Onboarding reaches its purpose: a client that registers a free number against the service and submits the code it was texted in time
  can be found by its number by every authorized peer with budget left, whatever order the service visits its accounts in; the peer is handed
  exactly the keys that were published, with the first one-time key; and the newcomer's own access token is accepted.\<close>

theorem onboarded_number_is_reached:
  fixes w :: service
  assumes register: "can_register p ks phone w" "baseUrl d = base" "store_ok (sv_store w)"
      "number_free (store_hashPhone (sv_store w) phone) (sv_store w)"
      "Discovery.register (serve perm base) (published_json p) (map one_time_json ks) phone d w = (d1, w1, Inr r)"
    and submit: "t1 \<le> sv_now w + otpTTL"
      "submitOtp (serve perm base) (reg_user r) (snd (last (sv_sms w1))) d1 (w1\<lparr>sv_now := t1\<rparr>) = (d2, w2, res)"
    and peer: "baseUrl (disc s) = base" "authorized v (disc s) (w2\<lparr>sv_now := t2\<rparr>)" "budget_left v (w2\<lparr>sv_now := t2\<rparr>)"
      "\<And>l. set (perm l) = set l"
  shows "(\<exists>w3. findContact (serve perm base) phone s (w2\<lparr>sv_now := t2\<rparr>) = (s, w3, Inr (Some (reg_user r))) \<and>
      (\<exists>w4 x. fetchBundle (serve perm base) (reg_user r) (disc s) w3 = (disc s, w4, Inr x) \<and> published_of_json x = Some (with_key p ks))) \<and>
    (fits64 (exp_at t1 accessTTL) \<and> t2 div 1000 < exp_at t1 accessTTL \<longrightarrow> authorized (reg_user r) d2 (w2\<lparr>sv_now := t2\<rparr>))"
proof -
  define u where "u = newUUID (draw 0 w)"
  define h where "h = store_hashPhone (sv_store w) phone"
  define otp where "otp = newOTP (draw 1 w)"
  obtain s1 where w1: "d1 = d" "w1 = (put s1 2 w)\<lparr>sv_sms := sv_sms w @ [(phone, otp)]\<rparr>" "reg_user r = u"
    and a1: "map_of (d_accounts s1) = (map_of (d_accounts (sv_store w)))(u \<mapsto> new_entry p ks h u False)"
      "map_of (d_pending s1) u = Some \<lparr>po_code = otp, po_expires = sv_now w + otpTTL, po_attempts = 0\<rparr>"
      "d_salt s1 = d_salt (sv_store w)" "store_ok s1"
    using register_reaches_service [OF register(1,2), of perm] register(3,5) by (auto simp: u_def h_def otp_def)
  let ?w1 = "w1\<lparr>sv_now := t1\<rparr>"
  have st: "sv_store ?w1 = s1" "sv_now ?w1 = t1" "snd (last (sv_sms w1)) = otp" using w1(2) by simp_all
  have "map_of (d_accounts s1) u = Some (new_entry p ks h u False)" using a1(1) by simp
  from submit_reaches_service [of ?w1 u otp _ 0, unfolded st, OF a1(2) submit(1) this register(2), of perm]
  obtain s2 t where sub: "submitOtp (serve perm base) u otp d ?w1 =
      (d\<lparr>token := Some (fst t), refresh_token := Some (snd t)\<rparr>, put s2 0 ?w1, Inr (fst t))"
    and t: "t = issueTokens t1 u s1"
    and a2: "map_of (d_accounts s2) = (map_of (d_accounts s1))(u \<mapsto> (new_entry p ks h u False)\<lparr>ac_verified := True\<rparr>)"
      "d_salt s2 = d_salt s1" "d_secret s2 = d_secret s1" "store_ok s2"
    using a1(4) by blast
  have w2: "d2 = d\<lparr>token := Some (fst t), refresh_token := Some (snd t)\<rparr>" "w2 = put s2 0 ?w1"
    using sub submit(2) unfolding w1(1,3) st by auto
  have entry: "map_of (d_accounts s2) = (map_of (d_accounts (sv_store w)))(u \<mapsto> new_entry p ks h u True)"
    using a1(1) a2(1) by (simp add: new_entry_def)
  let ?w2 = "w2\<lparr>sv_now := t2\<rparr>"
  have s2: "sv_store ?w2 = s2" using w2(2) by simp
  have "map_ok (d_accounts s2)" using a2(4) by (simp add: store_ok_def)
  then have "found_under h u s2"
    by (rule found_when_free [OF _ refl _ entry]) (use register(4) in \<open>simp_all add: h_def new_entry_def\<close>)
  moreover have "store_hashPhone s2 phone = h" using a1(3) a2(2) by (simp add: store_hashPhone_def h_def)
  ultimately obtain use where f: "findContact (serve perm base) phone s ?w2 =
      (s, ?w2\<lparr>sv_store := s2\<lparr>d_intersectUse := use\<rparr>\<rparr>, Inr (Some u))"
    using findContact_finds [OF peer(2,1,3) _ peer(4), of phone u] unfolding s2 by auto
  let ?w3 = "?w2\<lparr>sv_store := s2\<lparr>d_intersectUse := use\<rparr>\<rparr>"
  have "authorized v (disc s) ?w3" using peer(2) s2 by (simp add: authorized_def store_userForToken_def)
  from fetch_reaches_service [OF this peer(1) newUUID_like [of "draw 0 w"], of p ks h perm]
  have "\<exists>w4 x. fetchBundle (serve perm base) u (disc s) ?w3 = (disc s, w4, Inr x) \<and> published_of_json x = Some (with_key p ks)"
    using entry by (auto simp: u_def)
  moreover have "authorized u d2 ?w2" if "fits64 (exp_at t1 accessTTL)" "t2 div 1000 < exp_at t1 accessTTL"
  proof (rule issued_authorized)
    show "token d2 = Some (fst (issueTokens t1 u s1))" using w2(1) t by simp
    show "d_secret (sv_store ?w2) = d_secret s1" using s2 a2(3) by simp
    show "ascii u" unfolding u_def by (rule uuid_ascii)
  qed (use that in simp_all)
  ultimately show ?thesis using f w1(3) by blast
qed

subsection \<open>A demonstration\<close>

definition demo_store :: dstore where
  "demo_store = NewStore [3] [7] True"

definition demo_service :: service where
  "demo_service = \<lparr>sv_store = demo_store, sv_dev = False, sv_sms = [], sv_now = 0, sv_draws = (\<lambda>n. replicate 24 (if n = 0 then 1 else 0)), sv_drawn = 0\<rparr>"

definition demo_published :: published where
  "demo_published = \<lparr>pb_registrationId = 5, pb_deviceId = 1, pb_identityKey = [65], pb_signedId = 1, pb_signedPublic = [66],
     pb_signedSignature = [67], pb_kyberId = 1, pb_kyberPublic = [68], pb_kyberSignature = [69], pb_oneTimeId = None, pb_oneTimePublic = None\<rparr>"

definition demo_disc0 :: disc where
  "demo_disc0 = \<lparr>baseUrl = js ''http://d'', token = None, refresh_token = None\<rparr>"

definition demo_fetch :: "service fetch" where
  "demo_fetch = serve id (js ''http://d'')"

definition demo_registered :: "disc \<times> service \<times> (disc_error + registered)" where
  "demo_registered = Discovery.register demo_fetch (published_json demo_published) [one_time_json (1, [70])] (js ''+234'') demo_disc0 demo_service"

definition demo_submitted :: "disc \<times> service \<times> (disc_error + jstr)" where
  "demo_submitted = submitOtp demo_fetch (newUUID (draw 0 demo_service)) (newOTP (draw 1 demo_service)) demo_disc0
     ((fst (snd demo_registered))\<lparr>sv_now := 1000\<rparr>)"

definition demo_seeker :: "unit messenger" where
  "demo_seeker = demo_messenger\<lparr>disc := demo_disc0\<lparr>token := Some (fst (issueTokens 0 (js ''b'') demo_store))\<rparr>\<rparr>"

lemma demo_can_register: "can_register demo_published [(1, [70])] (js ''+234'') demo_service"
  by (simp add: can_register_def bundle_fits_def demo_published_def fits64_def demo_service_def demo_store_def NewStore_def js_Cons)

definition demo_user :: jstr where
  "demo_user = newUUID (replicate 24 1)"

definition demo_code :: jstr where
  "demo_code = js ''000000''"

definition demo_entry :: "bool \<Rightarrow> account" where
  "demo_entry = new_entry demo_published [(1, [70])] (store_hashPhone demo_store (js ''+234'')) demo_user"

lemma update_later: "(x # r)[numeral k := y] = x # r[pred_numeral k := y]"
  by (simp add: numeral_eq_Suc)

lemma newUUID_head: "take 2 (newUUID (x # r)) = [hex_char (unat x div 16), hex_char (unat x mod 16)]"
proof -
  have "\<exists>t. newUUID (x # r) = hex_char (unat x div 16) # hex_char (unat x mod 16) # t"
    by (simp add: newUUID_def Let_def hex_lower_def update_later)
  then show ?thesis by auto
qed

lemma demo_draws: "newUUID (draw 0 demo_service) = demo_user" "newOTP (draw 1 demo_service) = demo_code" "newUUID (replicate 24 0) \<noteq> demo_user"
proof -
  show "newUUID (draw 0 demo_service) = demo_user" by (simp add: draw_def demo_service_def demo_user_def)
  have "newOTP (0 # 0 # 0 # 0 # r) = demo_code" for r
  proof -
    have "replicate 5 (48 :: unit16) @ [48] = js ''000000''" by code_simp
    then show ?thesis by (simp add: newOTP_def demo_code_def dec_digits_0)
  qed
  moreover have "replicate 24 (0 :: byte) = 0 # 0 # 0 # 0 # replicate 20 0" by code_simp
  ultimately have "newOTP (replicate 24 0) = demo_code" by metis
  then show "newOTP (draw 1 demo_service) = demo_code" by (simp add: draw_def demo_service_def)
  have "take 2 (newUUID (replicate 24 x)) = [hex_char (unat x div 16), hex_char (unat x mod 16)]" for x
    using newUUID_head [of x "replicate 23 x"] replicate_Suc [of 23 x] by simp
  from this [of 0] this [of 1] have "take 2 (newUUID (replicate 24 0)) \<noteq> take 2 demo_user"
    by (simp add: demo_user_def hex_char_def)
  then show "newUUID (replicate 24 0) \<noteq> demo_user" by metis
qed

lemma demo_register_facts:
  "\<exists>s r res. demo_registered = (demo_disc0, (put s 2 demo_service)\<lparr>sv_sms := [(js ''+234'', demo_code)]\<rparr>, Inr r) \<and>
     reg_user r = demo_user \<and> store_ok s \<and> d_secret s = [7] \<and> map_of (d_accounts s) = [demo_user \<mapsto> demo_entry False] \<and> d_intersectUse s = [] \<and>
     map_of (d_pending s) demo_user = Some \<lparr>po_code = demo_code, po_expires = otpTTL, po_attempts = 0\<rparr> \<and>
     serve id (js ''http://d'') (mk_req demo_disc0 ''POST'' (js ''/v1/accounts/register'') (Some (register_body demo_published [(1, [70])] (js ''+234''))) True)
       demo_service = ((put s 2 demo_service)\<lparr>sv_sms := [(js ''+234'', demo_code)]\<rparr>, Some res) \<and> rs_status res = 200"
proof -
  have "store_ok (sv_store demo_service)" "baseUrl demo_disc0 = js ''http://d''" "sv_sms demo_service = []" "sv_now demo_service = 0"
    "d_secret (sv_store demo_service) = [7]" "d_accounts (sv_store demo_service) = []" "d_intersectUse (sv_store demo_service) = []" "sv_store demo_service = demo_store"
    by (simp_all add: demo_service_def demo_store_def NewStore_ok demo_disc0_def, simp_all add: NewStore_def)
  then show ?thesis
    using register_reaches_service [OF demo_can_register, of demo_disc0 "js ''http://d''" id]
    unfolding demo_draws by (auto simp: demo_registered_def demo_fetch_def demo_entry_def)
qed

definition demo_one :: service where
  "demo_one = fst (snd demo_registered)"

lemma demo_one_facts:
  "store_ok (sv_store demo_one)" "d_secret (sv_store demo_one) = [7]" "map_of (d_accounts (sv_store demo_one)) = [demo_user \<mapsto> demo_entry False]"
  "map_of (d_pending (sv_store demo_one)) demo_user = Some \<lparr>po_code = demo_code, po_expires = otpTTL, po_attempts = 0\<rparr>"
  "sv_sms demo_one = [(js ''+234'', demo_code)]" "never_drawn demo_user demo_one" "sv_now demo_one = 0"
  "d_intersectUse (sv_store demo_one) = []"
  "\<exists>r. demo_registered = (demo_disc0, demo_one, Inr r) \<and> reg_user r = demo_user"
  "\<exists>res. serve id (js ''http://d'') (mk_req demo_disc0 ''POST'' (js ''/v1/accounts/register'')
     (Some (register_body demo_published [(1, [70])] (js ''+234''))) True) demo_service = (demo_one, Some res) \<and> rs_status res = 200"
proof -
  obtain s r res where f: "demo_registered = (demo_disc0, (put s 2 demo_service)\<lparr>sv_sms := [(js ''+234'', demo_code)]\<rparr>, Inr r)"
      "reg_user r = demo_user" "store_ok s" "d_secret s = [7]" "map_of (d_accounts s) = [demo_user \<mapsto> demo_entry False]"
      "map_of (d_pending s) demo_user = Some \<lparr>po_code = demo_code, po_expires = otpTTL, po_attempts = 0\<rparr>" "d_intersectUse s = []"
      "serve id (js ''http://d'') (mk_req demo_disc0 ''POST'' (js ''/v1/accounts/register'')
         (Some (register_body demo_published [(1, [70])] (js ''+234''))) True)
       demo_service = ((put s 2 demo_service)\<lparr>sv_sms := [(js ''+234'', demo_code)]\<rparr>, Some res)" "rs_status res = 200"
    using demo_register_facts by blast
  have one: "demo_one = (put s 2 demo_service)\<lparr>sv_sms := [(js ''+234'', demo_code)]\<rparr>" by (simp add: demo_one_def f(1))
  show "store_ok (sv_store demo_one)" "d_secret (sv_store demo_one) = [7]" "map_of (d_accounts (sv_store demo_one)) = [demo_user \<mapsto> demo_entry False]"
    "map_of (d_pending (sv_store demo_one)) demo_user = Some \<lparr>po_code = demo_code, po_expires = otpTTL, po_attempts = 0\<rparr>"
    "sv_sms demo_one = [(js ''+234'', demo_code)]" "d_intersectUse (sv_store demo_one) = []"
    using f by (simp_all add: one)
  show "sv_now demo_one = 0" "never_drawn demo_user demo_one"
    using demo_draws(3) by (simp_all add: one never_drawn_def, simp_all add: demo_service_def)
  show "\<exists>r. demo_registered = (demo_disc0, demo_one, Inr r) \<and> reg_user r = demo_user" using f(1,2) unfolding one by blast
  show "\<exists>res. serve id (js ''http://d'') (mk_req demo_disc0 ''POST'' (js ''/v1/accounts/register'')
     (Some (register_body demo_published [(1, [70])] (js ''+234''))) True) demo_service = (demo_one, Some res) \<and> rs_status res = 200"
    using f(8,9) one by simp
qed

definition demo_two :: service where
  "demo_two = fst (snd (submitOtp demo_fetch demo_user demo_code demo_disc0 (demo_one\<lparr>sv_now := 1000\<rparr>)))"

lemma demo_submit_facts:
  "\<exists>d res. submitOtp demo_fetch demo_user demo_code demo_disc0 (demo_one\<lparr>sv_now := 1000\<rparr>) = (d, demo_two, res)"
  "sv_now demo_two = 1000" "store_ok (sv_store demo_two)" "d_secret (sv_store demo_two) = [7]" "d_intersectUse (sv_store demo_two) = []"
  "map_of (d_accounts (sv_store demo_two)) = [demo_user \<mapsto> demo_entry True]" "never_drawn demo_user demo_two"
  "\<exists>r. serve id (js ''http://d'') (mk_req demo_disc0 ''POST'' (js ''/v1/accounts/verify'') (Some (verify_body demo_user demo_code)) False)
       (demo_one\<lparr>sv_now := 1000\<rparr>) = (demo_two, Some r) \<and> rs_status r = 200"
proof -
  let ?w = "demo_one\<lparr>sv_now := 1000\<rparr>"
  have w: "sv_now ?w = 1000" "sv_store ?w = sv_store demo_one" by simp_all
  have e: "(1000 :: int) \<le> otpTTL" by (simp add: otpTTL_def)
  have b: "baseUrl demo_disc0 = js ''http://d''" by (simp add: demo_disc0_def)
  have a: "map_of (d_accounts (sv_store demo_one)) demo_user = Some (demo_entry False)" using demo_one_facts(3) by simp
  from submit_reaches_service [of ?w, unfolded w, OF demo_one_facts(4) e a b, of id]
  obtain s t res where s: "submitOtp (serve id (js ''http://d'')) demo_user demo_code demo_disc0 ?w =
        (demo_disc0\<lparr>token := Some (fst t), refresh_token := Some (snd t)\<rparr>, put s 0 ?w, Inr (fst t))"
      "map_of (d_accounts s) = (map_of (d_accounts (sv_store demo_one)))(demo_user \<mapsto> (demo_entry False)\<lparr>ac_verified := True\<rparr>)"
      "d_secret s = d_secret (sv_store demo_one)" "store_ok (sv_store demo_one) \<longrightarrow> store_ok s"
      "d_intersectUse s = d_intersectUse (sv_store demo_one)"
      "serve id (js ''http://d'') (mk_req demo_disc0 ''POST'' (js ''/v1/accounts/verify'') (Some (verify_body demo_user demo_code)) False) ?w =
        (put s 0 ?w, Some res)" "rs_status res = 200"
    by blast
  have two: "demo_two = put s 0 ?w" by (simp add: demo_two_def demo_fetch_def s(1))
  show "\<exists>d res. submitOtp demo_fetch demo_user demo_code demo_disc0 ?w = (d, demo_two, res)"
    using s(1) by (simp add: demo_fetch_def two)
  have "(demo_entry False)\<lparr>ac_verified := True\<rparr> = demo_entry True" by (simp add: demo_entry_def new_entry_def)
  then show "sv_now demo_two = 1000" "store_ok (sv_store demo_two)" "d_secret (sv_store demo_two) = [7]" "d_intersectUse (sv_store demo_two) = []"
      "map_of (d_accounts (sv_store demo_two)) = [demo_user \<mapsto> demo_entry True]"
    using s demo_one_facts by (simp_all add: two)
  show "never_drawn demo_user demo_two" using demo_one_facts(6) by (simp add: two never_drawn_def)
  show "\<exists>r. serve id (js ''http://d'') (mk_req demo_disc0 ''POST'' (js ''/v1/accounts/verify'') (Some (verify_body demo_user demo_code)) False) ?w =
        (demo_two, Some r) \<and> rs_status r = 200" using s(6,7) two by simp
qed

lemma seeker_authorized: "d_secret (sv_store w) = [7] \<Longrightarrow> sv_now w \<le> 2000 \<Longrightarrow> authorized (js ''b'') (disc demo_seeker) w"
proof (rule issued_authorized)
  show "token (disc demo_seeker) = Some (fst (issueTokens 0 (js ''b'') demo_store))" by (simp add: demo_seeker_def)
  show "ascii (js ''b'')" by code_simp
qed (simp_all add: demo_store_def NewStore_def exp_at_def accessTTL_def fits64_def)

lemma onboarded_number_is_reached_witness:
  "\<exists>w3 w4 x. findContact demo_fetch (js ''+234'') demo_seeker demo_two = (demo_seeker, w3, Inr (Some demo_user)) \<and>
     fetchBundle demo_fetch demo_user (disc demo_seeker) w3 = (disc demo_seeker, w4, Inr x) \<and>
     published_of_json x = Some (demo_published\<lparr>pb_oneTimeId := Some 1, pb_oneTimePublic := Some [70]\<rparr>)"
proof -
  obtain r where r: "demo_registered = (demo_disc0, demo_one, Inr r)" "reg_user r = demo_user" using demo_one_facts(9) by blast
  obtain d res where sub: "submitOtp demo_fetch demo_user demo_code demo_disc0 (demo_one\<lparr>sv_now := 1000\<rparr>) = (d, demo_two, res)"
    using demo_submit_facts(1) by blast
  have w2: "demo_two\<lparr>sv_now := 1000\<rparr> = demo_two" using demo_submit_facts(2) by (metis (full_types) service.surjective service.update_convs(4) service.select_convs(4))
  have s0: "sv_store demo_service = demo_store" "sv_now demo_service = 0" by (simp_all add: demo_service_def)
  have k: "with_key demo_published [(1, [70])] = demo_published\<lparr>pb_oneTimeId := Some 1, pb_oneTimePublic := Some [70]\<rparr>"
    by (simp add: with_key_def device_id_def demo_published_def)
  have "budget_left (js ''b'') demo_two" by (simp add: budget_left_def demo_submit_facts)
  moreover have "authorized (js ''b'') (disc demo_seeker) demo_two" by (rule seeker_authorized) (simp_all add: demo_submit_facts)
  moreover have "number_free (store_hashPhone demo_store (js ''+234'')) demo_store" "store_ok demo_store"
    by (simp_all add: number_free_def demo_store_def NewStore_ok) (simp add: NewStore_def)
  moreover have "baseUrl demo_disc0 = js ''http://d''" "baseUrl (disc demo_seeker) = js ''http://d''" "(1000 :: int) \<le> 0 + otpTTL"
    by (simp_all add: demo_disc0_def demo_seeker_def otpTTL_def)
  ultimately show ?thesis
    using onboarded_number_is_reached [OF demo_can_register, of demo_disc0 "js ''http://d''" id demo_disc0 demo_one r 1000 d demo_two res demo_seeker
        "js ''b''" 1000] r sub
    unfolding s0 w2 k demo_fetch_def demo_registered_def by (auto simp: demo_one_facts(5))
qed

lemma serve_some: "\<exists>w' res. serve perm base req w = (w', Some res)"
proof (cases "serve perm base req w")
  case (Pair w' x)
  then show ?thesis by (auto simp: serve_def Let_def map_prod_def split: option.splits if_splits prod.splits)
qed

lemma run_repeat:
  "\<exists>tr w'. service_run perm base w tr w' \<and> length tr = n \<and> (\<forall>x\<in>set tr. fst x = req)"
proof (induction n)
  case 0
  then show ?case using service_run.Begin by fastforce
next
  case (Suc n)
  then obtain tr w' where t: "service_run perm base w tr w'" "length tr = n" "\<forall>x\<in>set tr. fst x = req" by blast
  obtain w'' res where "serve perm base req (w'\<lparr>sv_now := sv_now w'\<rparr>) = (w'', Some res)" using serve_some by blast
  from service_run.Request [OF t(1) order_refl this] have "service_run perm base w (tr @ [(req, res)]) w''" .
  moreover have "length (tr @ [(req, res)]) = Suc n" "\<forall>x\<in>set (tr @ [(req, res)]). fst x = req" using t(2,3) by auto
  ultimately show ?case by blast
qed

definition demo_guess :: "jstr \<Rightarrow> http_req" where
  "demo_guess code = mk_req demo_disc0 ''POST'' (js ''/v1/accounts/verify'') (Some (verify_body demo_user code)) False"

lemma guess_demo: "guess_of (js ''http://d'') (demo_guess code) = Some (demo_user, code)"
proof -
  have "baseUrl demo_disc0 @ js ''/v1/accounts/verify'' = js ''http://d'' @ 47 # js ''v1/accounts/verify''"
    by (simp add: demo_disc0_def slash_paths)
  then have "segments (js ''http://d'') (demo_guess code) = Some (map js [''v1'', ''accounts'', ''verify'']) \<and>
      \<not> unclean (request_path (js ''http://d'') (rq_url (demo_guess code)))"
    using fixed_paths(2) by (simp add: segments_def demo_guess_def request_path_base routed_def)
  moreover have "decode_body (\<lambda>v. case (go_str v ''userId'', go_str v ''code'') of (Some u, Some c) \<Rightarrow> Some (u, c) | _ \<Rightarrow> None)
      (demo_guess code) = Some (demo_user, code)"
    unfolding demo_guess_def by (subst decode_mk) (simp_all add: verify_body_def go_object_def go_str_def field_def)
  ultimately show ?thesis by (simp add: guess_of_def demo_guess_def)
qed

lemma otp_cannot_be_brute_forced_witness:
  "\<exists>tr w w' res. service_run id (js ''http://d'') demo_one tr w \<and> length tr = 5 \<and>
     serve id (js ''http://d'') (demo_guess demo_code) w = (w', Some res) \<and> rs_status res = 401"
proof -
  obtain tr w where t: "service_run id (js ''http://d'') demo_one tr w" "length tr = 5" "\<forall>x\<in>set tr. fst x = demo_guess [65]"
    using run_repeat by blast
  have "demo_code \<noteq> [65]" by (simp add: demo_code_def js_Cons)
  then have "filter (wrong_guess (js ''http://d'') demo_user demo_code) tr = tr"
    using t(3) by (intro filter_True) (simp add: wrong_guess_def guess_demo)
  moreover obtain w' res where "serve id (js ''http://d'') (demo_guess demo_code) w = (w', Some res)" using serve_some by blast
  ultimately show ?thesis
    using otp_cannot_be_brute_forced [OF t(1) demo_one_facts(6,4), of "demo_guess demo_code" w' res demo_code] t(1,2) guess_demo by auto
qed

lemma only_the_texted_code_verifies_witness:
  "\<exists>phone a. sv_sms demo_one = sv_sms demo_service @ [(phone, demo_code)] \<and> map_of (d_accounts (sv_store demo_one)) demo_user = Some a \<and>
    ac_hash a = store_hashPhone (sv_store demo_service) phone"
proof -
  let ?reg = "mk_req demo_disc0 ''POST'' (js ''/v1/accounts/register'') (Some (register_body demo_published [(1, [70])] (js ''+234''))) True"
  have "baseUrl demo_disc0 @ js ''/v1/accounts/register'' = js ''http://d'' @ 47 # js ''v1/accounts/register''"
    by (simp add: demo_disc0_def slash_paths)
  then have reg: "registers (js ''http://d'') ?reg"
    using fixed_paths(1) by (simp add: registers_def segments_def request_path_base routed_def)
  obtain made where m: "serve id (js ''http://d'') ?reg demo_service = (demo_one, Some made)" "rs_status made = 200" using demo_one_facts(10) by blast
  have z: "(0 :: int) \<le> otpTTL" "map_of (d_accounts (sv_store demo_one)) demo_user = Some (demo_entry False)" "baseUrl demo_disc0 = js ''http://d''"
    using demo_one_facts(3) by (simp_all add: otpTTL_def demo_disc0_def)
  obtain s r where r: "serve id (js ''http://d'') (demo_guess demo_code) demo_one = (put s 0 demo_one, Some r)" "rs_status r = 200"
    using submit_reaches_service [of demo_one, unfolded demo_one_facts(7), OF demo_one_facts(4) z, of id] unfolding demo_guess_def by blast
  show ?thesis
    by (rule only_the_texted_code_verifies [OF m(1) reg m(2) _ demo_one_facts(6) service_run.Begin r(1) guess_demo])
      (simp_all add: r(2) demo_draws)
qed

lemma restart_keeps_directory_witness:
  "d_accounts (ds_restart [9] (sv_store demo_one)) = d_accounts (sv_store demo_one) \<and> d_salt (ds_restart [9] (sv_store demo_one)) = d_salt (sv_store demo_one)"
proof -
  let ?reg = "mk_req demo_disc0 ''POST'' (js ''/v1/accounts/register'') (Some (register_body demo_published [(1, [70])] (js ''+234''))) True"
  obtain made where m: "serve id (js ''http://d'') ?reg demo_service = (demo_one, Some made)" using demo_one_facts(10) by blast
  have e: "demo_service\<lparr>sv_now := 0\<rparr> = demo_service" "sv_now demo_service \<le> 0" "sv_store demo_service = NewStore [3] [7] True"
    by (simp_all add: demo_service_def demo_store_def)
  have run: "service_run id (js ''http://d'') demo_service ([] @ [(?reg, made)]) demo_one"
    by (rule service_run.Request [OF service_run.Begin e(2)]) (unfold e(1), rule m)
  have "map_of (d_accounts (sv_store demo_one)) demo_user \<noteq> None" using demo_one_facts(3) by simp
  then have "d_accounts (sv_store demo_one) \<noteq> []" by auto
  then show ?thesis using restart_keeps_directory [OF run, of "[3]" "[7]" "[9]"] e(3) by blast
qed


subsection \<open>A revoked device\<close>

definition demo_account :: "jstr \<Rightarrow> account" where
  "demo_account u = new_account u (js ''a0'') [] 1 \<lparr>rr_phone = [], rr_device = 1, rr_keys = material_of demo_published, rr_oneTime = []\<rparr> True"

definition demo_family :: service where
  "demo_family = demo_service\<lparr>sv_store := ds_persist (demo_store\<lparr>d_accounts := [(js ''a0'', demo_account (js ''a0'')), (js ''b1'', demo_account (js ''b1''))]\<rparr>)\<rparr>"

lemma revoked_device_is_locked_out_witness:
  "\<exists>w1 gone w' res. serve id (js ''http://d'') \<lparr>rq_method = js ''DELETE'', rq_url = js ''http://d/v1/devices/b1'',
        rq_bearer = Some (fst (issueTokens 0 (js ''a0'') demo_store)), rq_body = None\<rparr> demo_family = (w1, Some gone) \<and> rs_status gone = 204 \<and>
     serve id (js ''http://d'') (mk_req demo_disc0 ''POST'' (js ''/v1/auth/refresh'')
       (Some (refresh_body (snd (issueTokens 0 (js ''b1'') demo_store)))) False) w1 = (w', Some res) \<and> rs_status res = 401"
proof -
  let ?b = "js ''http://d''"
  let ?del = "\<lparr>rq_method = js ''DELETE'', rq_url = js ''http://d/v1/devices/b1'', rq_bearer = Some (fst (issueTokens 0 (js ''a0'') demo_store)), rq_body = None\<rparr>"
  let ?req = "mk_req demo_disc0 ''POST'' (js ''/v1/auth/refresh'') (Some (refresh_body (snd (issueTokens 0 (js ''b1'') demo_store)))) False"
  have url: "js ''http://d/v1/devices/b1'' = ?b @ 47 # js ''v1/devices/b1''" by code_simp
  have rd: "routed (js ''v1/devices/b1'') ''DELETE'' (map js [''v1'', ''devices'', ''b1''])" by code_simp
  have st: "d_secret (sv_store demo_family) = d_secret demo_store" "sv_now demo_family = 0"
    by (simp_all add: demo_family_def demo_service_def)
  have asc: "ascii (js ''a0'')" "ascii (js ''b1'')" "ascii (js ''access'')" "ascii (js ''refresh'')" by code_simp+
  have "authorized (js ''a0'') (demo_disc0\<lparr>token := Some (fst (issueTokens 0 (js ''a0'') demo_store))\<rparr>) demo_family"
    by (rule issued_authorized [of _ 0 _ demo_store, OF _ st(1) asc(1)]) (simp_all add: st(2) exp_at_def accessTTL_def fits64_def)
  then have "bearerUser ?del demo_family = Some (js ''a0'')" by (simp add: authorized_def bearerUser_def split: if_splits)
  moreover have "serve id ?b ?del demo_family = map_prod id Some (h_removeDevice id [js ''b1''] ?del demo_family)"
    using serve_at [OF _ rd, of ?del ?b h_removeDevice "[js ''b1'']"] url by (simp add: routes_def js_Cons)
  moreover obtain s where "store_removeDevice (js ''a0'') (js ''b1'') (sv_store demo_family) = (s, True)"
    by (simp add: store_removeDevice_def demo_family_def demo_account_def)
  ultimately have d: "serve id ?b ?del demo_family = (put s 0 demo_family, Some no_content)" by (simp add: h_removeDevice_def authed_def)
  have seg: "segments ?b ?del = Some [js ''v1'', js ''devices'', js ''b1'']"
    using rd url by (simp add: segments_def request_path_base routed_def)
  have ok: "store_ok (sv_store demo_family)"
    unfolding demo_family_def by (simp, rule persist_ok) (simp_all add: demo_account_def demo_store_def js_Cons)
  have nd: "never_drawn (js ''b1'') demo_family"
  proof -
    have "length (newUUID (replicate 24 b)) \<noteq> length (js ''b1'')" for b by (simp add: newUUID_def Let_def)
    then have "newUUID (replicate 24 b) \<noteq> js ''b1''" for b by metis
    then show ?thesis by (simp add: never_drawn_def demo_family_def demo_service_def)
  qed
  have sec: "d_secret s = [7]" using const_effect [OF serve_effect [OF d]] st(1) by (simp add: demo_store_def NewStore_def)
  have rp: "routed (js ''v1/auth/refresh'') ''POST'' (map js [''v1'', ''auth'', ''refresh''])" by code_simp
  have "baseUrl demo_disc0 @ js ''/v1/auth/refresh'' = ?b @ 47 # js ''v1/auth/refresh''"
    by (simp add: demo_disc0_def js_Cons of_char_def)
  then have "segments ?b ?req = Some (map js [''v1'', ''auth'', ''refresh'']) \<and> \<not> unclean (request_path ?b (rq_url ?req))"
    using rp by (simp add: segments_def request_path_base routed_def)
  moreover have "decode_body (\<lambda>v. go_str v ''refreshToken'') ?req = Some (snd (issueTokens 0 (js ''b1'') demo_store))"
    by (subst decode_mk) (simp_all add: refresh_body_def go_object_def go_str_def field_def)
  ultimately have ref: "refresh_of ?b ?req = Some (snd (issueTokens 0 (js ''b1'') demo_store))" by (simp add: refresh_of_def)
  have "sv_now (put s 0 demo_family) = 0" "d_secret (sv_store (put s 0 demo_family)) = d_secret demo_store"
    using st(2) sec by (simp_all add: demo_store_def NewStore_def)
  then have tok: "parse_token (d_secret (sv_store (put s 0 demo_family))) (sv_now (put s 0 demo_family)) (snd (issueTokens 0 (js ''b1'') demo_store)) =
      Some (js ''b1'', js ''refresh'', exp_at 0 refreshTTL)"
    using token_parses_back [OF asc(2,4), of 0 refreshTTL] by (simp add: issueTokens_def exp_at_def refreshTTL_def fits64_def)
  obtain w' res where r: "serve id ?b ?req (put s 0 demo_family) = (w', Some res)" using serve_some by blast
  have "rs_status res = 401"
    by (rule revoked_device_is_locked_out [OF d _ seg _ ok nd service_run.Begin r ref tok]) (simp_all add: no_content_def)
  moreover have "rs_status no_content = 204" by (simp add: no_content_def)
  ultimately show ?thesis using d r by blast
qed

lemma last_visit_wins:
  "ac_verified a \<Longrightarrow> map_of (fold (\<lambda>(_, a) m. if ac_verified a then map_set (ac_hash a) (ac_user a) m else m) (l @ [(u, a)]) m) (ac_hash a) = Some (ac_user a)"
  by simp

text \<open>Two verified accounts with one number: the order in which \<open>range\<close> happens to visit them decides which one is found.\<close>

theorem reregistered_number_is_ambiguous:
  assumes "store_ok s" "map_of (d_accounts s) u = Some a" "map_of (d_accounts s) v = Some b" "u \<noteq> v"
    and "ac_verified a" "ac_verified b" "ac_hash a = h" "ac_hash b = h"
  shows "\<exists>p q. (\<forall>l. mset (p l) = mset l \<and> mset (q l) = mset l) \<and> store_intersect p [h] s = [(h, u)] \<and> store_intersect q [h] s = [(h, v)]"
proof -
  define late where "late = (\<lambda>x (l :: (jstr \<times> account) list). filter (\<lambda>(k, _). k \<noteq> x) l @ filter (\<lambda>(k, _). k = x) l)"
  have m: "mset (late x l) = mset l" for x l unfolding late_def by (induction l) auto
  have one: "filter (\<lambda>(k, _). k = x) (d_accounts s) = [(x, c)]" if "map_of (d_accounts s) x = Some c" for x c
  proof -
    have "map_ok l \<Longrightarrow> map_of l x = Some c \<Longrightarrow> filter (\<lambda>(k, _). k = x) l = [(x, c)]" for l :: accounts
      by (induction l) (force simp: filter_empty_conv split: if_splits)+
    then show ?thesis using assms(1) that by (simp add: store_ok_def)
  qed
  have "store_intersect (late x) [h] s = [(h, x)]" if "map_of (d_accounts s) x = Some c" "ac_verified c" "ac_hash c = h" for x c
    using last_visit_wins [OF that(2), of "filter (\<lambda>(k, _). k \<noteq> x) (d_accounts s)" x "[]"] that(3) store_ok_get [OF assms(1) that(1)]
    by (simp add: store_intersect_def late_def one [OF that(1)] List.map_filter_simps)
  then show ?thesis using assms m by (intro exI [of _ "late u"] exI [of _ "late v"]) blast
qed

definition demo_twice :: dstore where
  "demo_twice = demo_store\<lparr>d_path := False, d_accounts := [(js ''a0'', demo_account (js ''a0'')), (js ''b1'', demo_account (js ''b1''))]\<rparr>"

lemma reregistered_number_is_ambiguous_witness:
  "\<exists>p q. (\<forall>l. mset (p l) = mset l \<and> mset (q l) = mset l) \<and> store_intersect p [[]] demo_twice = [([], js ''a0'')] \<and>
     store_intersect q [[]] demo_twice = [([], js ''b1'')]"
proof (rule reregistered_number_is_ambiguous)
  show "store_ok demo_twice" by (simp add: store_ok_def demo_twice_def demo_account_def js_Cons)
  show "map_of (d_accounts demo_twice) (js ''a0'') = Some (demo_account (js ''a0''))"
    "map_of (d_accounts demo_twice) (js ''b1'') = Some (demo_account (js ''b1''))" by (simp_all add: demo_twice_def)
qed (simp_all add: demo_account_def)

end
