(* ===== verification/Spec2Isabelle.thy ===== *)
theory Spec2Isabelle
  imports ConvProps Typing Statuses Calls Connection MessagingProps Detector Media Reports Providers Contacts Composer AppFlow
    Identity WireTypes AppView Journeys Subscriptions RelayProps Registration
begin

text \<open>
  Hwfa is an end-to-end encrypted messenger. This library models its TypeScript side: the portable client core
  (\<open>packages/client\<close>), the libsignal wrapper (\<open>packages/crypto\<close>), the wire types (\<open>packages/models\<close>) and the React
  Native app (\<open>apps/mobile\<close>) with its stores, its handlers and what its screens render; and the two Go services this
  side talks to: the relay (\<open>backend/relay\<close>) and the discovery service (\<open>backend/discovery\<close>) with the bearer tokens they
  share (\<open>backend/authtoken\<close>). It proves what makes each of them, and the client and the services together, correct.

  \<^bold>\<open>The parts and how they interact.\<close> A user types into the composer; the conversation store appends the message and
  asks the client to send it; the client fans the text out to the peer's devices, encrypts each copy with a crypto
  provider and hands envelopes to the relay socket. In the other direction the socket delivers envelopes, the client
  decrypts them, judges them with the scam detector and calls the store, which recognises typing, call, group,
  status and media bodies by their marker and files the rest as text. The screens render the stores and hand the taps
  of the user back to them. The relay takes the
  identity of a socket from its token, hands an envelope to the recipient's socket or queues it, and passes receipts back.
  Accounts, keys and contacts go over HTTP to
  the discovery service, which issues the tokens, attachments to a storage service.

  \<^bold>\<open>Theories, in import order.\<close>
  \<^item> \<open>Prelude\<close>: JavaScript strings (lists of 16-bit units), \<open>Map\<close> in insertion order, array idioms; the locales
    \<open>keyed_store\<close> and \<open>keyed_store_del\<close>, the contract of every map-like store below.
  \<^item> \<open>Codec\<close>, \<open>Sha256\<close>, \<open>SafetyNumber\<close>: \<open>client.ts\<close>, \<open>sha256.ts\<close>, \<open>safety-number.ts\<close> at machine width (32-bit shifts
    and wrap-around), with the FIPS 180-4 definition as the reference of the hash.
  \<^item> \<open>Json\<close>, \<open>Wire\<close>: \<open>JSON.parse\<close> and \<open>JSON.stringify\<close>, and the data model with the five marked body formats
    (\<open>models/src\<close>, \<open>*/wire.ts\<close>); the locale \<open>wire_body\<close> is the contract of a format.
  \<^item> \<open>Conversations\<close>, \<open>ConvInvariant\<close>, \<open>ConvProps\<close>: \<open>store/conversations.ts\<close>. A method that awaits is cut at its awaits;
    \<open>conv_step\<close> interleaves the pieces; the invariant is proved by rule induction.
  \<^item> \<open>Typing\<close>, \<open>Statuses\<close>: \<open>store/typing.ts\<close>, \<open>store/statuses.ts\<close>, \<open>status/post.ts\<close>.
  \<^item> \<open>Calls\<close>: \<open>call/manager.ts\<close>, \<open>call/store.ts\<close>, \<open>call/signalBus.ts\<close>; WebRTC's answers are arguments.
  \<^item> \<open>Relay\<close>, \<open>Discovery\<close>, \<open>Connection\<close>, \<open>Messaging\<close>, \<open>MessagingProps\<close>: \<open>relay.ts\<close>, \<open>discovery.ts\<close> and the two halves of
    \<open>client.ts\<close> (the socket's life cycle as a step relation; everything else as state passing over an abstract
    \<open>fetch\<close> and an abstract crypto provider).
  \<^item> \<open>Regex\<close>, \<open>Detector\<close>: regular expressions as far as the patterns use them, and \<open>scam/detector.ts\<close> with all patterns.
  \<^item> \<open>Reports\<close>: \<open>scam/reports.ts\<close>, \<open>scam/reporter.ts\<close>; the locale \<open>report_store\<close> is the contract of a sink, interpreted
    on both sinks.
  \<^item> \<open>NativeBase64\<close>, \<open>Media\<close>: attachments (\<open>media/media.ts\<close>, \<open>media/service.ts\<close>, the app's \<open>media/\<close> directory).
  \<^item> \<open>TextCodec\<close>, \<open>SignalStores\<close>, \<open>Providers\<close>: \<open>TextEncoder\<close> and \<open>TextDecoder\<close>, \<open>crypto/src\<close> and the two crypto providers.
  \<^item> \<open>Identity\<close>: the locale \<open>crypto_provider\<close>, the contract of the client with its provider, interpreted on both of them.
  \<^item> \<open>WireTypes\<close>: the interfaces of frames and bodies as types that parsed JSON is checked against.
  \<^item> \<open>Contacts\<close>, \<open>Composer\<close>, \<open>AppFlow\<close>: phone numbers and the address book, the composer's typing throttle, and launch,
    navigation, onboarding, sign-out, push and the safety number screen.
  \<^item> \<open>History\<close>: what every use of the conversation store and every restart keep of the threads; the locale
    \<open>message_view\<close> is a view of a message that no operation changes, interpreted on the history and on the warnings.
  \<^item> \<open>Ui\<close>, \<open>Formatting\<close>: the element trees of JSX with their texts and taps, times (\<open>util/time.ts\<close>, over ECMAScript's
    calendar) and sizes.
  \<^item> \<open>ChatView\<close>, \<open>HomeView\<close>, \<open>CallView\<close>, \<open>ListViews\<close>, \<open>AccountViews\<close>: every screen of \<open>apps/mobile/src/screens\<close> as a
    function from the stores and its own state to an element tree, with its handlers; \<open>store/connection.ts\<close>.
  \<^item> \<open>AppView\<close>: \<open>App.tsx\<close>, the screen of the navigation state with the callbacks it is given.
  \<^item> \<open>Subscriptions\<close>: listeners and snapshots; the locale \<open>external_store\<close> is what a store owes the components that
    show it, interpreted on the conversation store (\<open>conv_call\<close>: its methods with their calls) and the status store.
  \<^item> \<open>RelayService\<close>, \<open>RelayProps\<close>, \<open>Network\<close>: \<open>relay/hub.go\<close>, \<open>client.go\<close>, \<open>envelope.go\<close> and the socket handler of \<open>main.go\<close>.
    A goroutine that holds the lock of the hub is one step; what it sends after releasing the lock are later steps, which
    \<open>relay_run\<close> interleaves with those of the other connections, hang-ups and restarts. The locale \<open>queue_property\<close> is what
    the operations of the hub owe a property of its queues, interpreted on their bound and on the origin of what is in
    them. \<open>Network\<close> puts two clients and the relay together.
  \<^item> \<open>AuthToken\<close>: \<open>authtoken/token.go\<close> (HMAC over the hash of \<open>Sha256\<close>), and the check of the URL a client dials.
  \<^item> \<open>DiscoveryService\<close>, \<open>Directory\<close>, \<open>Registration\<close>: \<open>discovery/store.go\<close>, \<open>types.go\<close>, \<open>handlers.go\<close> and the routes of
    \<open>main.go\<close>; \<open>serve\<close> is a \<open>fetch\<close> of the client's model, so that the client's methods run against it. \<open>service_run\<close> is a
    sequence of any requests and restarts; \<open>effect\<close> lists what a request can do to the store, which every lemma on runs
    uses instead of the handlers. \<open>Registration\<close> puts client and service together.
  \<^item> \<open>Journeys\<close>: from one user's screen to the other's: a read receipt, a typing signal, a file, a group message.
  This theory holds what spans them: hashing and formats as the app uses them, and a text from one user to another.

  \<^bold>\<open>State and effects.\<close> Each class is a record and each method a function from the record to the record and the list
  of calls it makes on the outside, in order; a thrown error or a rejected promise is a constructor of a sum or
  \<open>None\<close>. Numbers are \<open>int\<close> where the source only adds and compares, words where it shifts. The libraries behind
  the code (libsignal, Web Crypto, the native modules, \<open>fetch\<close>, WebRTC, \<open>localeCompare\<close>, random numbers) are
  parameters; what a theorem needs of them is a hypothesis of that theorem, and its witness instantiates it.

  \<^bold>\<open>What is shown.\<close> Messages: unique ids, ticks that are the highest status reported in any order, exactly one copy per
  device, text that arrives as typed, group messages that reach the members, restarts that restore. Cryptography:
  SHA-256 is the standard function, codecs and formats round-trip, published keys are the stored ones, prekey ids
  never repeat, identities are trusted on first use, attachments arrive or are rejected. Calls, connection and
  requests: invariants, the handshake, reconnection, retries. The detector's verdict and the report log are
  characterised; contacts, the composer and navigation have their invariants. Screens: a flagged text is shown with a
  warning that only its dismissal removes, the list flags a thread exactly when the thread shows a warning, the status
  pill is the client's state, a call can always be ended and its overlay goes away, the starred screen is the store's
  list, the safety number is shown in full, the navigation model is what the buttons do, and a mounted screen shows the
  store's present threads. Journeys: a chat that is opened turns the author's ticks blue, a key typed shows as "typing",
  and a file is saved as it was picked. Relay: what is written to a socket was submitted for that account and device by
  the sender it names, in any interleaving; queues and channels are bounded; a message sent through it arrives and its
  tick becomes "delivered". Discovery service: a one-time prekey is handed out once, a code cannot be guessed, only the
  code that was texted verifies, a removed device gets no tokens, the directory survives restarts; a token parses back,
  and the URL the client dials is accepted as the user it was issued to; a client that registers is found under
  its number with the keys it published. Theorems about behaviour that looks
  unintended (a message acknowledged before it is decrypted, an accepted call that was hung up, a launch without a
  network, groups lost on restart, a failed upload that cannot be retried, a group message that takes over a private thread, a safety number that is not the session's, a backlog that is
  cut to 64 messages, a receipt that overtakes the ack or is forged, a number that was registered twice, and others) state it exactly.

  \<^bold>\<open>Bounds and fuel.\<close> Only the JSON parser takes fuel: \<open>pval_fuel\<close> shows that what \<open>json_parse\<close> supplies is enough, so
  it is the parser without fuel. All other recursion terminates by its arguments; the regular expression matcher
  by the text and the pattern. Scores of the detector are in hundredths.

  \<^bold>\<open>Not modelled.\<close> The values of styles (\<open>StyleSheet.create\<close>, \<open>theme.ts\<close>; a tree keeps the names), animations and
  layout; React's scheduling (a screen is rendered from the state it is given, which \<open>Subscriptions\<close> relates to the stores); the
  lookup
  of native modules; package indexes; the media service and its signatures, the delivery of text messages and
  pushes by their gateways (\<open>media/*.go\<close>, \<open>discovery/sms.go\<close>, \<open>relay/push.go\<close>), the flags, environment and logs of the
  services and the Kotlin modules; spikes, demos and tests, which drive the packages against running servers. The duplicate copies of the base64 and UTF-8 helpers are modelled once, in \<open>Codec\<close>.
\<close>

subsection \<open>Hashing and safety numbers\<close>


text \<open>The safety number does not depend on which of the two users computes it.\<close>

theorem safetyNumber_symmetric: "safetyNumber a b = safetyNumber b a"
  by (auto simp: safetyNumber_def number_of_commute split: option.splits)

text \<open>A safety number is 71 characters long: twelve groups of exactly five decimal digits with one
  space between two groups. It is missing only when one of the keys is not base64.\<close>

theorem safetyNumber_format:
  "(\<forall>s. safetyNumber a b = Some s \<longrightarrow> length s = 71 \<and>
     (\<forall>i<71. if i mod 6 = 5 then s ! i = 32 else is_digit (s ! i))) \<and>
   (safetyNumber a b = None \<longleftrightarrow> base64_to_bytes a = None \<or> base64_to_bytes b = None)"
proof -
  have g: "\<forall>g\<in>set (map (digit_group h) [0..<GROUPS]). length g = 5 \<and> (\<forall>c\<in>set g. is_digit c)" for h
    using digit_group_shape by auto
  have "length (number_of x y) = 71 \<and>
     (\<forall>i<71. if i mod 6 = 5 then number_of x y ! i = 32 else is_digit (number_of x y ! i))" for x y
  proof -
    obtain lo hi where n: "number_of x y = join_with [32] (map (digit_group (stretch lo hi)) [0..<GROUPS])"
      by (cases "compare_bytes x y \<le> 0") (auto simp: number_of_def Let_def js_def of_char_def)
    have "length (number_of x y) = 71"
      unfolding n using join_shape [of "map (digit_group (stretch lo hi)) [0..<GROUPS]" 32] g
      by (simp add: GROUPS_def del: upt_Suc)
    moreover have "if i mod 6 = 5 then number_of x y ! i = 32 else is_digit (number_of x y ! i)" if "i < 71" for i
      unfolding n using join_nth [OF g, of i "stretch lo hi" 32] that by (simp add: GROUPS_def del: upt_Suc)
    ultimately show ?thesis by blast
  qed
  then show ?thesis by (auto simp: safetyNumber_def split: option.splits)
qed

lemma safetyNumber_format_witness:
  "length (the (safetyNumber [] [])) = 71"
proof -
  have e: "base64_to_bytes [] = Some []" using base64_roundtrip [of "[]"] by (simp add: bytes_to_base64_def)
  then obtain s where "safetyNumber [] [] = Some s" by (simp add: safetyNumber_def)
  then show ?thesis using safetyNumber_format [of "[]" "[]"] by auto
qed

subsection \<open>Text formats\<close>

text \<open>The text codecs lose nothing: any well-formed text survives UTF-8, and its device-link code
  (URL-safe base64 without padding) decodes to it; any bytes survive base64.\<close>

theorem codec_roundtrips:
  "(wf16 s \<longrightarrow> utf8_decode (utf8_encode s) = s \<and> base64_url_decode (base64_url_encode s) = Some s) \<and>
   base64_to_bytes (bytes_to_base64 bs) = Some bs"
  by (simp add: utf8_roundtrip base64_url_roundtrip base64_roundtrip)

lemma codec_roundtrips_witness:
  "base64_url_decode (base64_url_encode [0x41, 0xd83d, 0xdcf7]) = Some [0x41, 0xd83d, 0xdcf7]"
  using codec_roundtrips [of "[0x41, 0xd83d, 0xdcf7]" "[]"] by simp

text \<open>Every message body a client builds is recognised as its own kind only, and parsing it gives
  back the payload with the shape the receiver's cast promises.\<close>

theorem bodies_roundtrip:
  "body_kind (buildTypingBody t) = KTyping \<and> Option.bind (parseTypingBody (buildTypingBody t)) typing_of_json = Some t \<and>
   body_kind (buildCallBody c) = KCall \<and> Option.bind (parseCallBody (buildCallBody c)) call_of_json = Some c \<and>
   body_kind (buildGroupBody g) = KGroup \<and> Option.bind (parseGroupBody (buildGroupBody g)) group_of_json = Some g \<and>
   body_kind (buildStatusBody u) = KStatus \<and> Option.bind (parseStatusBody (buildStatusBody u)) status_of_json = Some u \<and>
   body_kind (buildMediaBody m (locator m)) = KMedia \<and>
     Option.bind (parseMediaBody (buildMediaBody m (locator m))) media_of_json = Some m"
  using media_body.parse_shape [of m]
  by (simp add: mediaBody_def typing_body.parse_shape call_body.parse_shape group_body.parse_shape
      status_body.parse_shape)

subsection \<open>A text from one user to another\<close>

lemma send_one_encrypts:
  assumes "send_one fetch (node_provider L t0) alive now peer body ref dev s w = (s1, w1, [SendEnvelope e cref])" "userId s = Some me"
  shows "\<exists>ct. ciphertext e = bytes_to_base64 ct \<and> recipientId e = dev \<and> senderId e = me \<and> senderDevice e = deviceId s"
proof -
  obtain s2 w2 pd c where es: "ensureSession fetch (node_provider L t0) dev s w = (s2, w2, Some pd)"
    and enc: "p_encrypt (node_provider L t0) dev pd body (crypto s2) = (c, Some (env_type e, ciphertext e))"
    and e: "recipientId e = dev" "senderId e = the (userId s2)" "senderDevice e = deviceId s2"
    using assms(1) by (auto simp: send_one_def split: if_splits prod.splits option.splits)
  have "\<exists>ct. ciphertext e = bytes_to_base64 ct"
    using enc by (auto simp: node_provider_def with_stores_def encrypt_def split: option.splits prod.splits)
      (metis)
  then show ?thesis using e ensureSession_frame [OF es] assms(2) by simp
qed

lemma node_decrypts:
  assumes "nd_stores n = Some st" "lib_unb64 L (bytes_to_base64 ct) = ct"
    and "(if ty = PreKey then lib_decryptPreKey L else lib_decrypt L) ct (addressFor a d) st (nd_lib n) = (r2, st2, Some bs)"
  shows "p_decrypt (node_provider L t1) a d (ty, bytes_to_base64 ct) n = (n\<lparr>nd_stores := Some st2, nd_lib := r2\<rparr>, Some (text_decode bs))"
  using assms by (simp add: node_provider_def with_stores_def decrypt_def split: if_splits)



end
